(* ===== verification/Prelude.thy ===== *)
theory Prelude
  imports
    Complex_Main
    "HOL-Library.Word"
    "HOL-Library.Option_ord"
    "HOL-Library.Product_Lexorder"
begin

text \<open>
  Shared vocabulary of the development: instants, identifiers, the relational
  primitives every repository module of \<^verbatim>\<open>rheo_core\<close> is written with, and the
  three contracts (locales) those modules share.

  \<^item> A \<^verbatim>\<open>datetime\<close> is a number of microseconds (its resolution), a
    \<^verbatim>\<open>timedelta(seconds=n)\<close> is \<open>seconds n\<close>.
  \<^item> A \<^verbatim>\<open>UUID\<close> is its 128-bit value.
  \<^item> A table is the list of its rows. The order of the list stands for the order in which
    the database happens to scan the table: no theorem fixes it, so every statement holds
    whatever row the database prefers among rows that tie in an \<^verbatim>\<open>ORDER BY\<close>.
  \<^item> \<open>update_where\<close> is \<^verbatim>\<open>UPDATE .. SET .. WHERE\<close>; \<open>apply_where\<close> is the repositories'
    \<^verbatim>\<open>_apply\<close>: it also reports whether exactly one row matched.
\<close>

section \<open>Instants and identifiers\<close>

type_synonym instant = int
type_synonym uuid = "128 word"

definition seconds :: "int \<Rightarrow> int" where
  "seconds n = n * 1000000"

lemma seconds_mono [simp]: "seconds a \<le> seconds b \<longleftrightarrow> a \<le> b"
  by (simp add: seconds_def)

lemma seconds_less [simp]: "seconds a < seconds b \<longleftrightarrow> a < b"
  by (simp add: seconds_def)

lemma seconds_pos [simp]: "0 < seconds a \<longleftrightarrow> 0 < a"
  by (simp add: seconds_def)

lemma seconds_nonneg [simp]: "0 \<le> seconds a \<longleftrightarrow> 0 \<le> a"
  by (simp add: seconds_def)

named_theorems writes \<open>definitions of the repositories' predicated writes\<close>
named_theorems inv_intros \<open>preservation of the components' invariants\<close>

section \<open>Relational primitives\<close>

datatype db_error = Unique_Violation | Check_Violation | Foreign_Key_Violation

definition update_where :: "('r \<Rightarrow> bool) \<Rightarrow> ('r \<Rightarrow> 'r) \<Rightarrow> 'r list \<Rightarrow> 'r list" where
  "update_where P f t = map (\<lambda>r. if P r then f r else r) t"

definition rowcount :: "('r \<Rightarrow> bool) \<Rightarrow> 'r list \<Rightarrow> nat" where
  "rowcount P t = length (filter P t)"

definition apply_where :: "('r \<Rightarrow> bool) \<Rightarrow> ('r \<Rightarrow> 'r) \<Rightarrow> 'r list \<Rightarrow> bool \<times> 'r list" where
  "apply_where P f t = (rowcount P t = 1, update_where P f t)"

definition lookup_by :: "('r \<Rightarrow> 'k) \<Rightarrow> 'k \<Rightarrow> 'r list \<Rightarrow> 'r option" where
  "lookup_by key k t = find (\<lambda>r. key r = k) t"

definition unique_by :: "('r \<Rightarrow> 'k) \<Rightarrow> 'r list \<Rightarrow> bool" where
  "unique_by key t \<longleftrightarrow> distinct (map key t)"

definition insert_row :: "('r \<Rightarrow> 'k) \<Rightarrow> 'r \<Rightarrow> 'r list \<Rightarrow> db_error + 'r list" where
  "insert_row key r t =
     (if key r \<in> key ` set t then Inl Unique_Violation else Inr (t @ [r]))"

text \<open>\<^verbatim>\<open>SELECT .. WHERE P ORDER BY f LIMIT 1\<close>.\<close>

definition select_first :: "('r \<Rightarrow> bool) \<Rightarrow> ('r \<Rightarrow> 'o::linorder) \<Rightarrow> 'r list \<Rightarrow> 'r option" where
  "select_first P f t =
     (case sort_key f (filter P t) of [] \<Rightarrow> None | r # _ \<Rightarrow> Some r)"

text \<open>The smallest of the values present; SQL's \<^verbatim>\<open>min\<close> and \<^verbatim>\<open>LEAST\<close> ignore a null in
  the same way.\<close>

fun earliest :: "'o::linorder option list \<Rightarrow> 'o option" where
  "earliest [] = None"
| "earliest (None # xs) = earliest xs"
| "earliest (Some x # xs) =
     (case earliest xs of None \<Rightarrow> Some x | Some y \<Rightarrow> Some (min x y))"

lemma update_where_Nil [simp]: "update_where P f [] = []"
  by (simp add: update_where_def)

lemma update_where_Cons [simp]:
  "update_where P f (r # t) = (if P r then f r else r) # update_where P f t"
  by (simp add: update_where_def)

lemma update_where_append [simp]:
  "update_where P f (t @ u) = update_where P f t @ update_where P f u"
  by (simp add: update_where_def)

lemma length_update_where [simp]: "length (update_where P f t) = length t"
  by (simp add: update_where_def)

lemma ball_update_where [simp]:
  "(\<forall>r \<in> set (update_where P f t). Q r) \<longleftrightarrow> (\<forall>r \<in> set t. Q (if P r then f r else r))"
  by (induction t) auto

lemma in_update_whereE:
  assumes "r \<in> set (update_where P f t)"
  obtains q where "q \<in> set t" "r = (if P q then f q else q)"
  using assms by (auto simp: update_where_def)

lemma update_where_no_match:
  "\<forall>r \<in> set t. \<not> P r \<Longrightarrow> update_where P f t = t"
  by (induction t) auto

lemma map_update_where:
  "(\<And>r. P r \<Longrightarrow> key (f r) = key r) \<Longrightarrow> map key (update_where P f t) = map key t"
  by (induction t) auto

lemma unique_update_where [inv_intros]:
  "unique_by key t \<Longrightarrow> (\<And>r. P r \<Longrightarrow> key (f r) = key r) \<Longrightarrow>
   unique_by key (update_where P f t)"
  by (simp add: unique_by_def map_update_where)

lemma unique_by_eqD:
  "unique_by key t \<Longrightarrow> r \<in> set t \<Longrightarrow> q \<in> set t \<Longrightarrow> key r = key q \<Longrightarrow> r = q"
  by (auto simp: unique_by_def distinct_map inj_on_def)

lemma unique_by_insert [inv_intros]:
  "insert_row key r t = Inr t' \<Longrightarrow> unique_by key t \<Longrightarrow> unique_by key t'"
  by (auto simp: insert_row_def unique_by_def split: if_splits)

lemma insert_row_InrD: "insert_row key r t = Inr t' \<Longrightarrow> t' = t @ [r] \<and> key r \<notin> key ` set t"
  by (simp add: insert_row_def split: if_splits)

lemma lookup_by_Nil [simp]: "lookup_by key k [] = None"
  by (simp add: lookup_by_def)

lemma lookup_by_Cons [simp]:
  "lookup_by key k (r # t) = (if key r = k then Some r else lookup_by key k t)"
  by (simp add: lookup_by_def)

lemma lookup_by_append:
  "lookup_by key k (t @ u) =
     (case lookup_by key k t of None \<Rightarrow> lookup_by key k u | Some r \<Rightarrow> Some r)"
  by (induction t) auto

lemma lookup_by_SomeD: "lookup_by key k t = Some r \<Longrightarrow> r \<in> set t \<and> key r = k"
  by (induction t) (auto split: if_splits)

lemma lookup_by_in: "lookup_by key k t = Some r \<Longrightarrow> r \<in> set t"
  using lookup_by_SomeD by fast

lemma lookup_by_key: "lookup_by key k t = Some r \<Longrightarrow> key r = k"
  using lookup_by_SomeD by fast

lemma lookup_by_None [simp]: "lookup_by key k t = None \<longleftrightarrow> k \<notin> key ` set t"
  by (induction t) auto

lemma lookup_by_absent [simp]: "k \<notin> key ` set t \<Longrightarrow> lookup_by key k t = None"
  by simp

lemma lookup_by_unique:
  "unique_by key t \<Longrightarrow> lookup_by key k t = Some r \<longleftrightarrow> r \<in> set t \<and> key r = k"
  by (induction t) (auto simp: unique_by_def)

lemma lookup_by_update_where:
  assumes "\<And>r. P r \<Longrightarrow> key (f r) = key r"
  shows "lookup_by key k (update_where P f t) =
           map_option (\<lambda>r. if P r then f r else r) (lookup_by key k t)"
  using assms by (induction t) auto

lemma rowcount_0 [simp]: "rowcount P t = 0 \<longleftrightarrow> (\<forall>r \<in> set t. \<not> P r)"
  by (simp add: rowcount_def filter_empty_conv)

lemma fst_apply_where: "fst (apply_where P f t) \<longleftrightarrow> rowcount P t = 1"
  by (simp add: apply_where_def)

lemma snd_apply_where [simp]: "snd (apply_where P f t) = update_where P f t"
  by (simp add: apply_where_def)

lemma select_first_None [simp]: "select_first P f t = None \<longleftrightarrow> (\<forall>r \<in> set t. \<not> P r)"
proof -
  have "sort_key f (filter P t) = [] \<longleftrightarrow> filter P t = []"
    by (metis length_0_conv length_sort)
  then show ?thesis
    by (auto simp: select_first_def filter_empty_conv split: list.splits)
qed

lemma select_first_SomeD:
  assumes "select_first P f t = Some r"
  shows "r \<in> set t" and "P r" and "\<And>q. q \<in> set t \<Longrightarrow> P q \<Longrightarrow> f r \<le> f q"
proof -
  from assms obtain xs where xs: "sort_key f (filter P t) = r # xs"
    by (auto simp: select_first_def split: list.splits)
  then have st: "set (r # xs) = {q \<in> set t. P q}"
    by (metis set_filter set_sort)
  from st show "r \<in> set t" and "P r" by auto
  have "sorted (map f (r # xs))"
    using xs by (metis sorted_sort_key)
  then show "\<And>q. q \<in> set t \<Longrightarrow> P q \<Longrightarrow> f r \<le> f q"
    using st by auto
qed

lemma earliest_None [simp]: "earliest xs = None \<longleftrightarrow> (\<forall>x \<in> set xs. x = None)"
  by (induction xs rule: earliest.induct) (auto split: option.splits)

lemma earliest_SomeD:
  "earliest xs = Some m \<Longrightarrow> Some m \<in> set xs \<and> (\<forall>x. Some x \<in> set xs \<longrightarrow> m \<le> x)"
proof (induction xs arbitrary: m rule: earliest.induct)
  case (3 x xs)
  show ?case
  proof (cases "earliest xs")
    case None
    then have "\<forall>y \<in> set xs. y = None" by simp
    with 3 None show ?thesis by auto
  next
    case (Some y)
    with 3 show ?thesis by (fastforce simp: min_def split: if_splits)
  qed
qed auto

section \<open>The contract of a predicated write\<close>

text \<open>
  Every write of the repositories is an \<^verbatim>\<open>UPDATE\<close> whose predicate pins the primary key and
  whose new values leave it alone. On a table with a primary key such a write is a
  compare-and-set on the finite map from keys to rows: it applies exactly when the row is
  there and satisfies the predicate, and it changes nothing else.
\<close>

locale predicated_write =
  fixes key :: "'r \<Rightarrow> 'k"
    and guard :: "'r \<Rightarrow> bool"
    and change :: "'r \<Rightarrow> 'r"
    and k :: 'k
  assumes guard_key: "guard r \<Longrightarrow> key r = k"
    and change_key: "guard r \<Longrightarrow> key (change r) = key r"
begin

lemma keeps_unique: "unique_by key t \<Longrightarrow> unique_by key (snd (apply_where guard change t))"
  by (simp add: unique_update_where change_key)

lemma row_after:
  "lookup_by key j (snd (apply_where guard change t)) =
     map_option (\<lambda>r. if guard r then change r else r) (lookup_by key j t)"
  by (simp add: lookup_by_update_where change_key)

lemma other_rows: "j \<noteq> k \<Longrightarrow>
  lookup_by key j (snd (apply_where guard change t)) = lookup_by key j t"
  unfolding row_after
  by (cases "lookup_by key j t") (auto dest!: lookup_by_SomeD simp del: lookup_by_None dest: guard_key)

lemma applied_iff:
  assumes "unique_by key t"
  shows "fst (apply_where guard change t) \<longleftrightarrow>
           (\<exists>r. lookup_by key k t = Some r \<and> guard r)"
proof -
  have le: "rowcount guard t \<le> 1"
    using assms
  proof (induction t)
    case (Cons r t)
    show ?case
    proof (cases "guard r")
      case True
      have "rowcount guard t = 0"
      proof -
        have "\<not> guard q" if "q \<in> set t" for q
        proof
          assume "guard q"
          with True have "key q = key r" by (simp add: guard_key)
          with that Cons.prems show False
            unfolding unique_by_def by (metis distinct.simps(2) image_eqI list.set_map list.simps(9))
        qed
        then show ?thesis by simp
      qed
      then show ?thesis by (simp add: rowcount_def)
    next
      case False
      with Cons show ?thesis by (simp add: rowcount_def unique_by_def)
    qed
  qed (simp add: rowcount_def)
  have "fst (apply_where guard change t) \<longleftrightarrow> rowcount guard t \<noteq> 0"
    using le by (auto simp: fst_apply_where simp del: rowcount_0)
  also have "\<dots> \<longleftrightarrow> (\<exists>r \<in> set t. guard r)"
    by simp
  also have "\<dots> \<longleftrightarrow> (\<exists>r. lookup_by key k t = Some r \<and> guard r)"
    using assms by (auto simp: lookup_by_unique guard_key)
  finally show ?thesis .
qed

lemma not_applied:
  assumes "unique_by key t" "\<not> fst (apply_where guard change t)"
  shows "snd (apply_where guard change t) = t"
proof -
  have "\<not> guard r" if "r \<in> set t" for r
    using assms applied_iff [OF assms(1)] that guard_key lookup_by_unique by metis
  then show ?thesis
    by (simp add: update_where_no_match)
qed

lemma applied_row:
  assumes "unique_by key t" "fst (apply_where guard change t)"
  obtains r where "lookup_by key k t = Some r" "guard r"
    "lookup_by key k (snd (apply_where guard change t)) = Some (change r)"
  using assms applied_iff row_after by fastforce

end

lemma predicated_writeI:
  "(\<And>r. P r \<Longrightarrow> key r = i \<and> key (f r) = key r) \<Longrightarrow> predicated_write key P f i"
  by unfold_locales auto

text \<open>The two outcomes of such a write, in one statement.\<close>

lemma apply_where_row:
  assumes "unique_by key t" "apply_where P f t = (b, t')"
    and "\<And>r. P r \<Longrightarrow> key r = k \<and> key (f r) = key r"
  shows "(\<not> b \<and> t' = t) \<or>
    (b \<and> (\<exists>r. lookup_by key k t = Some r \<and> P r \<and> lookup_by key k t' = Some (f r) \<and>
       (\<forall>j. j \<noteq> k \<longrightarrow> lookup_by key j t' = lookup_by key j t)))"
proof -
  have pw: "predicated_write key P f k"
    using assms(3) by (rule predicated_writeI)
  from assms(2) have fs: "b = fst (apply_where P f t)" "t' = snd (apply_where P f t)"
    by simp_all
  show ?thesis
  proof (cases b)
    case True
    with fs obtain r where "lookup_by key k t = Some r" "P r" "lookup_by key k t' = Some (f r)"
      using predicated_write.applied_row [OF pw assms(1)] by metis
    with True fs show ?thesis
      using predicated_write.other_rows [OF pw] by blast
  next
    case False
    with fs show ?thesis
      using predicated_write.not_applied [OF pw assms(1)] by simp
  qed
qed

section \<open>The contract of a lifecycle\<close>

text \<open>
  A store of rows whose terminal rows no step changes. \<open>row\<close> reads one row of the store,
  \<open>step\<close> is any write of the module that owns it.
\<close>

locale lifecycle =
  fixes row :: "'t \<Rightarrow> 'k \<Rightarrow> 'r option"
    and step :: "'t \<Rightarrow> 't \<Rightarrow> bool"
    and terminal :: "'r \<Rightarrow> bool"
  assumes terminal_kept: "step t t' \<Longrightarrow> row t k = Some r \<Longrightarrow> terminal r \<Longrightarrow> row t' k = Some r"
begin

lemma terminal_stays:
  "step\<^sup>*\<^sup>* t t' \<Longrightarrow> row t k = Some r \<Longrightarrow> terminal r \<Longrightarrow> row t' k = Some r"
  by (induction rule: rtranclp_induct) (auto intro: terminal_kept)

lemma one_outcome:
  "step\<^sup>*\<^sup>* t t' \<Longrightarrow> row t k = Some r \<Longrightarrow> terminal r \<Longrightarrow> row t' k = Some r' \<Longrightarrow> r' = r"
  using terminal_stays by fastforce

end

section \<open>Strings as lists\<close>

text \<open>\<^verbatim>\<open>str.split\<close> on one character, and \<^verbatim>\<open>str.strip\<close> of the characters \<open>p\<close>.\<close>

fun split_on :: "'a \<Rightarrow> 'a list \<Rightarrow> 'a list list" where
  "split_on c [] = [[]]"
| "split_on c (x # xs) =
     (if x = c then [] # split_on c xs
      else case split_on c xs of [] \<Rightarrow> [[x]] | w # ws \<Rightarrow> (x # w) # ws)"

definition strip_chars :: "('a \<Rightarrow> bool) \<Rightarrow> 'a list \<Rightarrow> 'a list" where
  "strip_chars p s = rev (dropWhile p (rev (dropWhile p s)))"

section \<open>The contract of a lease\<close>

text \<open>
  Jobs and deliveries are both leased by workers. \<open>holds t k w\<close>: in table \<open>t\<close> the row \<open>k\<close>
  is leased by \<open>w\<close>. \<open>finish w k t t'\<close>: a write by which \<open>w\<close> ends its attempt at \<open>k\<close>
  applied and led from \<open>t\<close> to \<open>t'\<close>.
\<close>

locale lease_protocol =
  fixes holds :: "'t \<Rightarrow> 'k \<Rightarrow> 'w \<Rightarrow> bool"
    and finish :: "'w \<Rightarrow> 'k \<Rightarrow> 't \<Rightarrow> 't \<Rightarrow> bool"
  assumes one_holder: "holds t k w \<Longrightarrow> holds t k v \<Longrightarrow> v = w"
    and finish_held: "finish w k t t' \<Longrightarrow> holds t k w"
    and finish_releases: "finish w k t t' \<Longrightarrow> \<not> holds t' k v"
    and finish_frame: "finish w k t t' \<Longrightarrow> j \<noteq> k \<Longrightarrow> holds t' j v = holds t j v"
begin

lemma stale_cannot_finish: "holds t k w \<Longrightarrow> v \<noteq> w \<Longrightarrow> \<not> finish v k t t'"
  using one_holder finish_held by blast

lemma no_second_finish: "finish w k t t' \<Longrightarrow> \<not> finish v k t' t''"
  using finish_releases finish_held by blast

lemma finish_keeps_others:
  "finish w k t t' \<Longrightarrow> holds t j v \<Longrightarrow> j \<noteq> k \<Longrightarrow> holds t' j v"
  using finish_frame by blast

end

end
