(* ===== verification/Backoff.thy ===== *)
theory Backoff
  imports Prelude
begin

text \<open>
  \<^verbatim>\<open>rheo_core/work/backoff.py\<close>: the one retry schedule of jobs and deliveries.

  The float arithmetic of the source is written over the rationals: every number it meets
  is a small integer or a tenth of one, plus the draw of the injected source. That source
  is the parameter \<open>jitter\<close>: \<open>Some u\<close> where \<open>u a b\<close> is what \<^verbatim>\<open>uniform(a, b)\<close> draws this
  time; \<open>uniform_within\<close> is what the standard library documents of it.
\<close>

definition backoff_seconds :: "int list" where
  "backoff_seconds = [5, 20, 80, 320, 1280]"

definition backoff_cap_seconds :: int where
  "backoff_cap_seconds = 3600"

text \<open>\<^verbatim>\<open>timedelta(seconds=x)\<close>: to the nearest microsecond, ties to even.\<close>

definition timedelta :: "rat \<Rightarrow> instant" where
  "timedelta x =
     (let m = x * 1000000; f = \<lfloor>m\<rfloor>; d = m - of_int f
      in if d < 1 / 2 then f else if d > 1 / 2 then f + 1 else if even f then f else f + 1)"

definition uniform_within :: "(rat \<Rightarrow> rat \<Rightarrow> rat) \<Rightarrow> bool" where
  "uniform_within u \<longleftrightarrow> (\<forall>a b. a \<le> b \<longrightarrow> a \<le> u a b \<and> u a b \<le> b)"

definition backoff_base :: "int \<Rightarrow> int" where
  "backoff_base attempts =
     (let index = max attempts 1 - 1;
          base = (if index < int (length backoff_seconds)
                  then backoff_seconds ! nat index else backoff_cap_seconds)
      in min base backoff_cap_seconds)"

definition backoff_for :: "int \<Rightarrow> (rat \<Rightarrow> rat \<Rightarrow> rat) option \<Rightarrow> instant" where
  "backoff_for attempts jitter =
     (let s = rat_of_int (backoff_base attempts)
      in timedelta (case jitter of None \<Rightarrow> s | Some u \<Rightarrow> s + u 0 (s / 10)))"

section \<open>Bounds and order\<close>

lemma timedelta_int [simp]: "timedelta (rat_of_int n) = seconds n"
proof -
  have "rat_of_int n * 1000000 = rat_of_int (n * 1000000)" by simp
  then have "\<lfloor>rat_of_int n * 1000000\<rfloor> = n * 1000000"
    by (metis floor_of_int)
  then show ?thesis
    by (simp add: timedelta_def Let_def seconds_def)
qed

lemma timedelta_lower: "rat_of_int n \<le> x \<Longrightarrow> seconds n \<le> timedelta x"
proof -
  assume "rat_of_int n \<le> x"
  then have "rat_of_int (n * 1000000) \<le> x * 1000000" by simp
  then have "n * 1000000 \<le> \<lfloor>x * 1000000\<rfloor>" by (simp add: le_floor_iff)
  then show ?thesis by (simp add: timedelta_def Let_def seconds_def)
qed

lemma timedelta_upper:
  assumes "x * 1000000 \<le> rat_of_int m"
  shows "timedelta x \<le> m"
proof (cases "\<lfloor>x * 1000000\<rfloor> = m")
  case True
  then have "x * 1000000 - rat_of_int \<lfloor>x * 1000000\<rfloor> \<le> 0"
    using assms by simp
  then show ?thesis using True by (simp add: timedelta_def Let_def)
next
  case False
  with assms have "\<lfloor>x * 1000000\<rfloor> < m"
    by (metis floor_mono floor_of_int order_le_less)
  then show ?thesis by (simp add: timedelta_def Let_def)
qed

lemma backoff_base_eq:
  "backoff_base n =
     (if n \<le> 1 then 5 else if n = 2 then 20 else if n = 3 then 80 else if n = 4 then 320
      else if n = 5 then 1280 else 3600)"
proof -
  consider "n \<le> 1" | "n = 2" | "n = 3" | "n = 4" | "n = 5" | "5 < n" by linarith
  then show ?thesis
    by cases (simp_all add: backoff_base_def Let_def backoff_seconds_def
        backoff_cap_seconds_def max_def)
qed

lemma backoff_base_pos: "0 < backoff_base n"
  by (simp add: backoff_base_eq)

lemma backoff_base_mono: "a \<le> b \<Longrightarrow> backoff_base a \<le> backoff_base b"
  by (simp add: backoff_base_eq)

lemma backoff_for_lower:
  assumes "\<And>u. jitter = Some u \<Longrightarrow> uniform_within u"
  shows "seconds (backoff_base n) \<le> backoff_for n jitter"
proof (cases jitter)
  case (Some u)
  have "0 \<le> rat_of_int (backoff_base n) / 10"
    using backoff_base_pos [of n] by simp
  with assms [OF Some] have "0 \<le> u 0 (rat_of_int (backoff_base n) / 10)"
    by (simp add: uniform_within_def)
  then show ?thesis
    by (simp add: backoff_for_def Some timedelta_lower Let_def)
qed (simp add: backoff_for_def)

lemma backoff_for_upper:
  assumes "\<And>u. jitter = Some u \<Longrightarrow> uniform_within u"
  shows "backoff_for n jitter \<le> backoff_base n * 1100000"
proof (cases jitter)
  case (Some u)
  let ?s = "rat_of_int (backoff_base n)"
  have "0 \<le> ?s / 10"
    using backoff_base_pos [of n] by simp
  with assms [OF Some] have "u 0 (?s / 10) \<le> ?s / 10"
    unfolding uniform_within_def by blast
  then have "(?s + u 0 (?s / 10)) * 1000000 \<le> (?s + ?s / 10) * 1000000"
    by (intro mult_right_mono add_left_mono) simp_all
  also have "\<dots> = rat_of_int (backoff_base n * 1100000)"
    by (simp add: field_simps)
  finally show ?thesis
    by (simp add: backoff_for_def Some timedelta_upper Let_def)
qed (use backoff_base_pos [of n] in \<open>simp add: backoff_for_def seconds_def\<close>)

lemma backoff_for_pos:
  assumes "\<And>u. jitter = Some u \<Longrightarrow> uniform_within u"
  shows "0 < backoff_for n jitter"
  using backoff_for_lower [OF assms, of jitter n] backoff_base_pos [of n]
  by (metis less_le_trans seconds_pos)

lemma backoff_base_step: "a < b \<Longrightarrow> 1 \<le> a \<Longrightarrow> a \<le> 5 \<Longrightarrow> backoff_base a * 2 \<le> backoff_base b"
  by (auto simp: backoff_base_eq)

end
