(* ===== verification/Deliveries.thy ===== *)
theory Deliveries
  imports Backoff "HOL-Library.List_Lexorder" "HOL-Library.Char_ord"
begin

text \<open>
  \<^verbatim>\<open>rheo_core/events/deliveries.py\<close> over \<^verbatim>\<open>core.event_delivery\<close>, \<^verbatim>\<open>core.outbox_event\<close> and the
  dedup ledger \<^verbatim>\<open>core.consumer_processed\<close>: the ordered lease, the finishes, the requeue, the
  three writes a person makes (retry, skip, replay) and the reads.

  \<open>queue_ordered\<close> is the ordering rule as an invariant of the table: a leased delivery has
  nothing unsettled before it in its \<^verbatim>\<open>(consumer_id, subject_ref)\<close> queue. Every write keeps
  it, so no subject is ever delivered to one consumer twice at a time or out of order.
\<close>

section \<open>The tables\<close>

datatype delivery_state = DPending | DLeased | DDelivered | DFailed | DSkipped

record delivery =
  d_event_id :: uuid
  d_consumer_id :: string
  d_subject_ref :: string
  d_position :: int
  d_state :: delivery_state
  d_attempts :: int
  d_next_attempt_at :: instant
  d_lease_owner :: "string option"
  d_lease_until :: "instant option"
  d_last_error :: "string option"
  d_completed_at :: "instant option"

type_synonym deliveries = "delivery list"

definition d_key :: "delivery \<Rightarrow> uuid \<times> string" where
  "d_key r = (d_event_id r, d_consumer_id r)"

record 'v outbox_event =
  e_id :: uuid
  e_position :: int
  e_type :: string
  e_schema_version :: int
  e_source :: string
  e_subject_ref :: string
  e_subject_revision :: int
  e_correlation_id :: uuid
  e_causation_id :: "uuid option"
  e_actor_kind :: string
  e_actor_id :: "uuid option"
  e_occurred_at :: instant
  e_data :: 'v

type_synonym 'v outbox = "'v outbox_event list"

record ledger_row =
  p_consumer_id :: string
  p_event_id :: uuid
  p_processed_at :: instant

type_synonym ledger = "ledger_row list"

definition p_key :: "ledger_row \<Rightarrow> string \<times> uuid" where
  "p_key r = (p_consumer_id r, p_event_id r)"

record leased_delivery =
  ld_event_id :: uuid
  ld_consumer_id :: string
  ld_subject_ref :: string
  ld_position :: int
  ld_attempts :: int

definition settled :: "delivery_state \<Rightarrow> bool" where
  "settled s \<longleftrightarrow> s = DDelivered \<or> s = DSkipped"

section \<open>The ordered lease\<close>

definition same_queue :: "delivery \<Rightarrow> delivery \<Rightarrow> bool" where
  "same_queue a b \<longleftrightarrow> d_consumer_id a = d_consumer_id b \<and> d_subject_ref a = d_subject_ref b"

definition delivery_blocked :: "deliveries \<Rightarrow> delivery \<Rightarrow> bool" where
  "delivery_blocked t c \<longleftrightarrow>
     (\<exists>e \<in> set t. same_queue e c \<and> d_position e < d_position c \<and> \<not> settled (d_state e))"

definition delivery_lapsed :: "instant \<Rightarrow> delivery \<Rightarrow> bool" where
  "delivery_lapsed now r \<longleftrightarrow> (case d_lease_until r of None \<Rightarrow> False | Some u \<Rightarrow> u < now)"

definition delivery_due :: "instant \<Rightarrow> delivery \<Rightarrow> bool" where
  "delivery_due now r \<longleftrightarrow>
     (d_state r = DPending \<and> d_next_attempt_at r \<le> now) \<or>
     (d_state r = DLeased \<and> delivery_lapsed now r)"

definition take_delivery :: "string \<Rightarrow> instant \<Rightarrow> int \<Rightarrow> delivery \<Rightarrow> delivery" where
  "take_delivery owner now lease_seconds r =
     r\<lparr>d_state := DLeased, d_lease_owner := Some owner,
       d_lease_until := Some (now + seconds lease_seconds), d_attempts := d_attempts r + 1\<rparr>"

definition leased_delivery_of :: "delivery \<Rightarrow> leased_delivery" where
  "leased_delivery_of r =
     \<lparr>ld_event_id = d_event_id r, ld_consumer_id = d_consumer_id r,
      ld_subject_ref = d_subject_ref r, ld_position = d_position r,
      ld_attempts = d_attempts r\<rparr>"

definition lease_delivery ::
  "(uuid \<times> string \<Rightarrow> bool) \<Rightarrow> string \<Rightarrow> instant \<Rightarrow> int \<Rightarrow> deliveries \<Rightarrow>
   leased_delivery option \<times> deliveries" where
  "lease_delivery locked owner now lease_seconds t =
     (case select_first (\<lambda>r. delivery_due now r \<and> \<not> delivery_blocked t r \<and> \<not> locked (d_key r))
             d_position t of
        None \<Rightarrow> (None, t)
      | Some d \<Rightarrow>
          (Some (leased_delivery_of (take_delivery owner now lease_seconds d)),
           update_where (\<lambda>r. d_key r = d_key d) (take_delivery owner now lease_seconds) t))"

section \<open>The writes that end an attempt\<close>

definition delivery_held :: "uuid \<times> string \<Rightarrow> string \<Rightarrow> delivery \<Rightarrow> bool" where
  "delivery_held k owner r \<longleftrightarrow>
     d_key r = k \<and> d_lease_owner r = Some owner \<and> d_state r = DLeased"

definition mark_delivered ::
  "uuid \<times> string \<Rightarrow> string \<Rightarrow> instant \<Rightarrow> deliveries \<Rightarrow> bool \<times> deliveries" where
  "mark_delivered k owner now =
     apply_where (delivery_held k owner)
       (\<lambda>r. r\<lparr>d_state := DDelivered, d_completed_at := Some now, d_lease_owner := None,
              d_lease_until := None, d_last_error := None\<rparr>)"

text \<open>The backoff is computed from the attempts the row holds; no row is \<^verbatim>\<open>False\<close>.\<close>

definition requeue_delivery ::
  "uuid \<times> string \<Rightarrow> string \<Rightarrow> instant \<Rightarrow> string \<Rightarrow> (rat \<Rightarrow> rat \<Rightarrow> rat) option \<Rightarrow> deliveries \<Rightarrow>
   bool \<times> deliveries" where
  "requeue_delivery k owner now error jitter t =
     (case lookup_by d_key k t of
        None \<Rightarrow> (False, t)
      | Some row \<Rightarrow>
          apply_where (delivery_held k owner)
            (\<lambda>r. r\<lparr>d_state := DPending,
                   d_next_attempt_at := now + backoff_for (d_attempts row) jitter,
                   d_lease_owner := None, d_lease_until := None,
                   d_last_error := Some error\<rparr>) t)"

definition defer_unready_delivery ::
  "uuid \<times> string \<Rightarrow> string \<Rightarrow> instant \<Rightarrow> deliveries \<Rightarrow> bool \<times> deliveries" where
  "defer_unready_delivery k owner next_attempt_at =
     apply_where (delivery_held k owner)
       (\<lambda>r. r\<lparr>d_state := DPending, d_attempts := d_attempts r - 1,
              d_next_attempt_at := next_attempt_at, d_lease_owner := None,
              d_lease_until := None\<rparr>)"

definition fail_delivery ::
  "uuid \<times> string \<Rightarrow> string \<Rightarrow> instant \<Rightarrow> string \<Rightarrow> deliveries \<Rightarrow> bool \<times> deliveries" where
  "fail_delivery k owner now error =
     apply_where (delivery_held k owner)
       (\<lambda>r. r\<lparr>d_state := DFailed, d_completed_at := Some now, d_lease_owner := None,
              d_lease_until := None, d_last_error := Some error\<rparr>)"

section \<open>The writes a person makes\<close>

definition delivery_failed :: "uuid \<times> string \<Rightarrow> delivery \<Rightarrow> bool" where
  "delivery_failed k r \<longleftrightarrow> d_key r = k \<and> d_state r = DFailed"

definition retry_delivery :: "uuid \<times> string \<Rightarrow> instant \<Rightarrow> deliveries \<Rightarrow> bool \<times> deliveries" where
  "retry_delivery k now =
     apply_where (delivery_failed k)
       (\<lambda>r. r\<lparr>d_state := DPending, d_attempts := 0, d_next_attempt_at := now,
              d_lease_owner := None, d_lease_until := None, d_completed_at := None\<rparr>)"

definition skip_note_prefix :: string where
  "skip_note_prefix = ''skipped: ''"

definition skip_previous_error :: string where
  "skip_previous_error = CHR 0x0A # ''last error: ''"

definition skip_text :: "string \<Rightarrow> string option \<Rightarrow> string" where
  "skip_text note last_error =
     (skip_note_prefix @ note) @
     (case last_error of None \<Rightarrow> '''' | Some e \<Rightarrow> skip_previous_error @ e)"

definition skip_delivery ::
  "uuid \<times> string \<Rightarrow> instant \<Rightarrow> string option \<Rightarrow> deliveries \<Rightarrow> bool \<times> deliveries" where
  "skip_delivery k now note =
     apply_where (delivery_failed k)
       (\<lambda>r. r\<lparr>d_state := DSkipped, d_completed_at := Some now, d_lease_owner := None,
              d_lease_until := None,
              d_last_error := (case note of None \<Rightarrow> d_last_error r
                               | Some n \<Rightarrow> Some (skip_text n (d_last_error r)))\<rparr>)"

definition delivery_state_of :: "uuid \<times> string \<Rightarrow> deliveries \<Rightarrow> delivery_state option" where
  "delivery_state_of k t = map_option d_state (lookup_by d_key k t)"

section \<open>Replay\<close>

definition oldest_retained_position :: "'v outbox \<Rightarrow> int option" where
  "oldest_retained_position outbox = earliest (map (\<lambda>e. Some (e_position e)) outbox)"

text \<open>The table lock holds other writers off until the transaction ends; what the call
  answers is some delivery in flight, if there is one.\<close>

definition in_replay_range :: "string \<Rightarrow> int \<Rightarrow> delivery \<Rightarrow> bool" where
  "in_replay_range consumer from_position r \<longleftrightarrow>
     d_consumer_id r = consumer \<and> from_position \<le> d_position r"

definition lock_for_replay :: "string \<Rightarrow> int \<Rightarrow> deliveries \<Rightarrow> uuid option" where
  "lock_for_replay consumer from_position t =
     map_option d_event_id
       (find (\<lambda>r. in_replay_range consumer from_position r \<and> d_state r = DLeased) t)"

definition replayable :: "string \<Rightarrow> int \<Rightarrow> 'v outbox \<Rightarrow> uuid \<Rightarrow> bool" where
  "replayable event_type from_position outbox i \<longleftrightarrow>
     (\<exists>e \<in> set outbox. e_id e = i \<and> e_type e = event_type \<and> from_position \<le> e_position e)"

definition resettable ::
  "string \<Rightarrow> string \<Rightarrow> int \<Rightarrow> 'v outbox \<Rightarrow> delivery \<Rightarrow> bool" where
  "resettable consumer event_type from_position outbox r \<longleftrightarrow>
     in_replay_range consumer from_position r \<and>
     (d_state r = DDelivered \<or> d_state r = DFailed \<or> d_state r = DSkipped) \<and>
     replayable event_type from_position outbox (d_event_id r)"

definition reset_values :: "instant \<Rightarrow> delivery \<Rightarrow> delivery" where
  "reset_values now r =
     r\<lparr>d_state := DPending, d_attempts := 0, d_next_attempt_at := now,
       d_lease_owner := None, d_lease_until := None, d_completed_at := None\<rparr>"

definition fresh_delivery :: "instant \<Rightarrow> string \<Rightarrow> uuid \<Rightarrow> string \<Rightarrow> int \<Rightarrow> delivery" where
  "fresh_delivery now consumer event_id subject_ref position =
     \<lparr>d_event_id = event_id, d_consumer_id = consumer, d_subject_ref = subject_ref,
      d_position = position, d_state = DPending, d_attempts = 0, d_next_attempt_at = now,
      d_lease_owner = None, d_lease_until = None, d_last_error = None,
      d_completed_at = None\<rparr>"

text \<open>\<^verbatim>\<open>INSERT .. ON CONFLICT DO NOTHING RETURNING\<close>: the rows inserted, and the table.\<close>

fun insert_missing :: "delivery list \<Rightarrow> deliveries \<Rightarrow> delivery list \<times> deliveries" where
  "insert_missing [] t = ([], t)"
| "insert_missing (r # rs) t =
     (if d_key r \<in> d_key ` set t then insert_missing rs t
      else let (ins, t') = insert_missing rs (t @ [r]) in (r # ins, t'))"

definition missing_deliveries ::
  "instant \<Rightarrow> string \<Rightarrow> string \<Rightarrow> int \<Rightarrow> 'v outbox \<Rightarrow> deliveries \<Rightarrow> delivery list" where
  "missing_deliveries now consumer event_type from_position outbox t =
     map (\<lambda>e. fresh_delivery now consumer (e_id e) (e_subject_ref e) (e_position e))
       (sort_key e_position
         (filter (\<lambda>e. e_type e = event_type \<and> from_position \<le> e_position e \<and>
                      (e_id e, consumer) \<notin> d_key ` set t) outbox))"

definition replay_deliveries ::
  "string \<Rightarrow> string \<Rightarrow> int \<Rightarrow> instant \<Rightarrow> 'v outbox \<Rightarrow> deliveries \<Rightarrow> ledger \<Rightarrow>
   (nat \<times> nat) \<times> deliveries \<times> ledger" where
  "replay_deliveries consumer event_type from_position now outbox t led =
     (let P = resettable consumer event_type from_position outbox;
          t1 = update_where P (reset_values now) t;
          (created, t2) =
            insert_missing (missing_deliveries now consumer event_type from_position outbox t1) t1;
          led' = filter (\<lambda>p. \<not> (p_consumer_id p = consumer \<and>
                                replayable event_type from_position outbox (p_event_id p))) led
      in ((rowcount P t, length created), t2, led'))"

section \<open>The dedup ledger\<close>

definition record_processed ::
  "string \<Rightarrow> uuid \<Rightarrow> instant \<Rightarrow> ledger \<Rightarrow> db_error + ledger" where
  "record_processed consumer event_id now =
     insert_row p_key \<lparr>p_consumer_id = consumer, p_event_id = event_id, p_processed_at = now\<rparr>"

definition already_processed :: "string \<Rightarrow> uuid \<Rightarrow> ledger \<Rightarrow> bool" where
  "already_processed consumer event_id led \<longleftrightarrow> (consumer, event_id) \<in> p_key ` set led"

section \<open>The reads\<close>

record failed_delivery_row =
  fd_event_id :: uuid
  fd_consumer_id :: string
  fd_attempts :: int
  fd_last_error :: "string option"
  fd_completed_at :: "instant option"
  fd_blocked_count :: nat

definition blocked_behind :: "delivery \<Rightarrow> delivery \<Rightarrow> bool" where
  "blocked_behind head r \<longleftrightarrow>
     same_queue r head \<and> d_position head < d_position r \<and>
     \<not> settled (d_state r) \<and> d_state r \<noteq> DFailed"

definition list_failed_deliveries :: "nat \<Rightarrow> deliveries \<Rightarrow> failed_delivery_row list" where
  "list_failed_deliveries limit t =
     map (\<lambda>h. \<lparr>fd_event_id = d_event_id h, fd_consumer_id = d_consumer_id h,
               fd_attempts = d_attempts h, fd_last_error = d_last_error h,
               fd_completed_at = d_completed_at h,
               fd_blocked_count = rowcount (blocked_behind h) t\<rparr>)
       (take limit (sort_key (\<lambda>r. map_option uminus (d_completed_at r))
          (filter (\<lambda>r. d_state r = DFailed) t)))"

record delivery_failure_counts =
  fc_failed_count :: nat
  fc_blocked_count :: nat
  fc_oldest_failed_at :: "instant option"

definition delivery_failure_counts_of :: "deliveries \<Rightarrow> delivery_failure_counts" where
  "delivery_failure_counts_of t =
     \<lparr>fc_failed_count = rowcount (\<lambda>r. d_state r = DFailed) t,
      fc_blocked_count =
        rowcount (\<lambda>r. \<not> settled (d_state r) \<and> d_state r \<noteq> DFailed \<and>
          (\<exists>h \<in> set t. d_state h = DFailed \<and> same_queue h r \<and> d_position h < d_position r)) t,
      fc_oldest_failed_at =
        earliest (map d_completed_at (filter (\<lambda>r. d_state r = DFailed) t))\<rparr>"

definition count_failed_in :: "string \<Rightarrow> string list \<Rightarrow> deliveries \<Rightarrow> nat" where
  "count_failed_in consumer refs t =
     rowcount (\<lambda>r. d_state r = DFailed \<and> d_consumer_id r = consumer \<and>
                   d_subject_ref r \<in> set refs) t"

text \<open>The loop over batches of at most 1000 references.\<close>

function count_batches :: "string \<Rightarrow> string list \<Rightarrow> deliveries \<Rightarrow> nat" where
  "count_batches consumer refs t =
     (if refs = [] then 0
      else count_failed_in consumer (take 1000 refs) t +
           count_batches consumer (drop 1000 refs) t)"
  by pat_completeness auto
termination
  by (relation "measure (\<lambda>(c, refs, t). length refs)") auto

declare count_batches.simps [simp del]

definition failed_delivery_count_for_subjects ::
  "string \<Rightarrow> string list \<Rightarrow> deliveries \<Rightarrow> nat" where
  "failed_delivery_count_for_subjects consumer subject_refs t =
     count_batches consumer (sorted_list_of_set (set subject_refs)) t"

definition earliest_delivery_due_at :: "deliveries \<Rightarrow> instant option" where
  "earliest_delivery_due_at t =
     earliest
       [earliest (map (\<lambda>r. Some (d_next_attempt_at r)) (filter (\<lambda>r. d_state r = DPending) t)),
        earliest (map d_lease_until (filter (\<lambda>r. d_state r = DLeased) t))]"

section \<open>Rows: well-formedness\<close>

definition delivery_ok :: "delivery \<Rightarrow> bool" where
  "delivery_ok r \<longleftrightarrow>
     (d_lease_owner r \<noteq> None \<longleftrightarrow> d_state r = DLeased) \<and>
     (d_lease_until r \<noteq> None \<longleftrightarrow> d_state r = DLeased) \<and>
     (d_completed_at r \<noteq> None \<longleftrightarrow> settled (d_state r) \<or> d_state r = DFailed) \<and>
     0 \<le> d_attempts r \<and> (d_state r = DLeased \<longrightarrow> 1 \<le> d_attempts r)"

definition deliveries_ok :: "deliveries \<Rightarrow> bool" where
  "deliveries_ok t \<longleftrightarrow> unique_by d_key t \<and> (\<forall>r \<in> set t. delivery_ok r)"

lemmas delivery_ends =
  mark_delivered_def defer_unready_delivery_def fail_delivery_def retry_delivery_def
  skip_delivery_def

declare delivery_ends [writes]

text \<open>The columns that say where a row stands in its queue: no write changes them.\<close>

definition place :: "delivery \<Rightarrow> uuid \<times> string \<times> string \<times> int" where
  "place r = (d_event_id r, d_consumer_id r, d_subject_ref r, d_position r)"

lemma place_key: "place a = place b \<Longrightarrow> d_key a = d_key b"
  by (simp add: place_def d_key_def)

lemma take_delivery_simps [simp]:
  "place (take_delivery w now s r) = place r"
  "d_key (take_delivery w now s r) = d_key r"
  "d_state (take_delivery w now s r) = DLeased"
  "d_attempts (take_delivery w now s r) = d_attempts r + 1"
  "d_lease_owner (take_delivery w now s r) = Some w"
  "d_lease_until (take_delivery w now s r) = Some (now + seconds s)"
  "d_completed_at (take_delivery w now s r) = d_completed_at r"
  by (simp_all add: take_delivery_def place_def d_key_def)

lemma reset_values_simps [simp]:
  "place (reset_values now r) = place r"
  "d_key (reset_values now r) = d_key r"
  "d_state (reset_values now r) = DPending"
  "delivery_ok (reset_values now r)"
  by (simp_all add: reset_values_def place_def d_key_def delivery_ok_def settled_def)

lemma fresh_delivery_simps [simp]:
  "d_key (fresh_delivery now c i s p) = (i, c)"
  "d_state (fresh_delivery now c i s p) = DPending"
  "d_consumer_id (fresh_delivery now c i s p) = c"
  "d_event_id (fresh_delivery now c i s p) = i"
  "d_subject_ref (fresh_delivery now c i s p) = s"
  "d_position (fresh_delivery now c i s p) = p"
  "delivery_ok (fresh_delivery now c i s p)"
  by (simp_all add: fresh_delivery_def d_key_def delivery_ok_def settled_def)

lemma lease_delivery_SomeD:
  assumes "lease_delivery locked w now s t = (Some l, t')"
  obtains d where "d \<in> set t" "delivery_due now d" "\<not> delivery_blocked t d"
    "\<not> locked (d_key d)" "l = leased_delivery_of (take_delivery w now s d)"
    "t' = update_where (\<lambda>r. d_key r = d_key d) (take_delivery w now s) t"
    "\<And>q. q \<in> set t \<Longrightarrow> delivery_due now q \<Longrightarrow> \<not> delivery_blocked t q \<Longrightarrow> \<not> locked (d_key q) \<Longrightarrow>
       d_position d \<le> d_position q"
  using assms
  by (auto simp: lease_delivery_def dest: select_first_SomeD split: option.splits)

lemma lease_delivery_NoneD:
  assumes "lease_delivery locked w now s t = (None, t')"
  shows "t' = t"
    and "\<And>r. r \<in> set t \<Longrightarrow> delivery_due now r \<Longrightarrow> delivery_blocked t r \<or> locked (d_key r)"
  using assms by (auto simp: lease_delivery_def split: option.splits)

section \<open>The ordering rule\<close>

definition queue_ordered :: "deliveries \<Rightarrow> bool" where
  "queue_ordered t \<longleftrightarrow> (\<forall>r \<in> set t. d_state r = DLeased \<longrightarrow> \<not> delivery_blocked t r)"

lemma same_queue_place: "place a = place a' \<Longrightarrow> place b = place b' \<Longrightarrow>
  same_queue a b = same_queue a' b' \<and> d_position a = d_position a'"
  by (simp add: same_queue_def place_def)

text \<open>An update in place that unsettles nothing blocks nobody new.\<close>

lemma blocked_update:
  assumes "\<And>r. P r \<Longrightarrow> place (f r) = place r"
    and "\<And>r. P r \<Longrightarrow> r \<in> set t \<Longrightarrow> settled (d_state r) \<Longrightarrow> settled (d_state (f r))"
    and "place c' = place c" and "delivery_blocked (update_where P f t) c'"
  shows "delivery_blocked t c"
proof -
  from assms(4) obtain e' where e': "e' \<in> set (update_where P f t)" "same_queue e' c'"
    "d_position e' < d_position c'" "\<not> settled (d_state e')"
    by (auto simp: delivery_blocked_def)
  from e'(1) obtain e where e: "e \<in> set t" "e' = (if P e then f e else e)"
    by (rule in_update_whereE)
  from e(2) assms(1) have "place e' = place e" by simp
  with e' assms(3) have "same_queue e c" "d_position e < d_position c"
    using same_queue_place [of e' e c' c] same_queue_place [of c' c e' e] by auto
  moreover have "\<not> settled (d_state e)"
    using e e'(4) assms(2) by (auto split: if_splits)
  ultimately show ?thesis
    using e(1) by (auto simp: delivery_blocked_def)
qed

lemma queue_ordered_update:
  assumes "queue_ordered t"
    and place: "\<And>r. P r \<Longrightarrow> place (f r) = place r"
    and settles: "\<And>r. P r \<Longrightarrow> r \<in> set t \<Longrightarrow> settled (d_state r) \<Longrightarrow> settled (d_state (f r))"
    and leases: "\<And>r. P r \<Longrightarrow> r \<in> set t \<Longrightarrow> d_state (f r) = DLeased \<Longrightarrow> \<not> delivery_blocked t r"
  shows "queue_ordered (update_where P f t)"
  unfolding queue_ordered_def
proof (intro ballI impI notI)
  fix r' assume r': "r' \<in> set (update_where P f t)" "d_state r' = DLeased"
    and blocked: "delivery_blocked (update_where P f t) r'"
  from r'(1) obtain r where r: "r \<in> set t" "r' = (if P r then f r else r)"
    by (rule in_update_whereE)
  have "place r' = place r" using r(2) place by simp
  then have "delivery_blocked t r"
    using blocked_update [OF place settles _ blocked] by blast
  moreover have "\<not> delivery_blocked t r"
    using r r'(2) leases assms(1) by (auto simp: queue_ordered_def split: if_splits)
  ultimately show False by blast
qed

lemma lease_delivery_ordered:
  assumes "queue_ordered t" "unique_by d_key t" "lease_delivery locked w now s t = (l, t')"
  shows "queue_ordered t'"
proof (cases l)
  case None
  with assms(1,3) show ?thesis using lease_delivery_NoneD(1) by blast
next
  case (Some l')
  with assms(3) obtain d where d: "d \<in> set t" "\<not> delivery_blocked t d" "delivery_due now d"
    and t': "t' = update_where (\<lambda>r. d_key r = d_key d) (take_delivery w now s) t"
    by (auto elim: lease_delivery_SomeD)
  have eq: "r = d" if "d_key r = d_key d" "r \<in> set t" for r
    using that d(1) assms(2) by (blast intro: unique_by_eqD)
  show ?thesis
    unfolding t'
    by (rule queue_ordered_update [OF assms(1)])
       (use d in \<open>auto dest!: eq simp: delivery_due_def settled_def\<close>)
qed

lemma end_ordered:
  assumes "queue_ordered t"
    and "\<And>r. P r \<Longrightarrow> place (f r) = place r \<and> \<not> settled (d_state r) \<and> d_state (f r) \<noteq> DLeased"
  shows "queue_ordered (update_where P f t)"
  by (rule queue_ordered_update) (use assms in auto)

lemma held_unsettled: "delivery_held k w r \<Longrightarrow> \<not> settled (d_state r)"
  by (simp add: delivery_held_def settled_def)

lemma failed_unsettled: "delivery_failed k r \<Longrightarrow> \<not> settled (d_state r)"
  by (simp add: delivery_failed_def settled_def)

lemma finish_ordered:
  assumes "queue_ordered t"
  shows "queue_ordered (snd (mark_delivered k w now t))"
    "queue_ordered (snd (requeue_delivery k w now e j t))"
    "queue_ordered (snd (defer_unready_delivery k w nx t))"
    "queue_ordered (snd (fail_delivery k w now e t))"
    "queue_ordered (snd (retry_delivery k now t))"
    "queue_ordered (snd (skip_delivery k now n t))"
  using assms
  by (auto simp: delivery_ends requeue_delivery_def place_def split: option.splits
      intro!: end_ordered dest: held_unsettled failed_unsettled)

section \<open>Replay keeps the order\<close>

lemma insert_missing_eq:
  "unique_by d_key t \<Longrightarrow> distinct (map d_key rs) \<Longrightarrow> d_key ` set rs \<inter> d_key ` set t = {} \<Longrightarrow>
   insert_missing rs t = (rs, t @ rs)"
proof (induction rs t rule: insert_missing.induct)
  case (2 r rs t)
  have "unique_by d_key (t @ [r])"
    using 2 by (auto simp: unique_by_def)
  with 2 show ?case by auto
qed simp

lemma distinct_missing:
  assumes "unique_by e_id outbox"
  shows "distinct (map d_key (missing_deliveries now c ty p outbox t))"
proof -
  let ?es = "sort_key e_position (filter (\<lambda>e. e_type e = ty \<and> p \<le> e_position e \<and>
    (e_id e, c) \<notin> d_key ` set t) outbox)"
  have "distinct (map e_id ?es)"
    using assms by (auto simp: unique_by_def distinct_map inj_on_def)
  then have "distinct (map (\<lambda>i. (i, c)) (map e_id ?es))"
    by (simp add: distinct_map inj_on_def)
  then show ?thesis
    by (simp add: missing_deliveries_def comp_def)
qed

lemma set_missing_deliveries:
  "r \<in> set (missing_deliveries now c ty p outbox t) \<longleftrightarrow>
     (\<exists>e \<in> set outbox. e_type e = ty \<and> p \<le> e_position e \<and> (e_id e, c) \<notin> d_key ` set t \<and>
        r = fresh_delivery now c (e_id e) (e_subject_ref e) (e_position e))"
  by (auto simp: missing_deliveries_def image_iff)

text \<open>The table after a replay: the resettable rows reset in place, the missing ones added.\<close>

lemma replay_eq:
  assumes "unique_by d_key t" "unique_by e_id outbox"
  shows "replay_deliveries c ty p now outbox t led =
    ((rowcount (resettable c ty p outbox) t, length (missing_deliveries now c ty p outbox t)),
     update_where (resettable c ty p outbox) (reset_values now) t @
       missing_deliveries now c ty p outbox t,
     filter (\<lambda>q. \<not> (p_consumer_id q = c \<and> replayable ty p outbox (p_event_id q))) led)"
proof -
  let ?t1 = "update_where (resettable c ty p outbox) (reset_values now) t"
  have keys: "map d_key ?t1 = map d_key t"
    by (rule map_update_where) simp
  then have "d_key ` set ?t1 = d_key ` set t"
    by (metis list.set_map)
  then have same: "missing_deliveries now c ty p outbox ?t1 = missing_deliveries now c ty p outbox t"
    by (simp add: missing_deliveries_def)
  have "d_key ` set (missing_deliveries now c ty p outbox t) \<inter> d_key ` set ?t1 = {}"
    unfolding \<open>d_key ` set ?t1 = d_key ` set t\<close> by (force simp: set_missing_deliveries)
  then have "insert_missing (missing_deliveries now c ty p outbox t) ?t1 =
      (missing_deliveries now c ty p outbox t, ?t1 @ missing_deliveries now c ty p outbox t)"
    using assms keys
    by (intro insert_missing_eq) (simp_all add: unique_by_def distinct_missing)
  then show ?thesis
    by (simp add: replay_deliveries_def Let_def same)
qed

section \<open>Deliveries are leased\<close>

definition delivery_holds :: "deliveries \<Rightarrow> uuid \<times> string \<Rightarrow> string \<Rightarrow> bool" where
  "delivery_holds t k w \<longleftrightarrow> (\<exists>r. lookup_by d_key k t = Some r \<and> delivery_held k w r)"

text \<open>The writes by which a worker ends an attempt, where they applied.\<close>

inductive delivery_finish ::
  "string \<Rightarrow> uuid \<times> string \<Rightarrow> deliveries \<Rightarrow> deliveries \<Rightarrow> bool" where
  df_delivered: "mark_delivered k w now t = (True, t') \<Longrightarrow> delivery_finish w k t t'"
| df_requeue: "requeue_delivery k w now e j t = (True, t') \<Longrightarrow> delivery_finish w k t t'"
| df_defer: "defer_unready_delivery k w nx t = (True, t') \<Longrightarrow> delivery_finish w k t t'"
| df_fail: "fail_delivery k w now e t = (True, t') \<Longrightarrow> delivery_finish w k t t'"

lemma delivery_finish_shape:
  assumes "delivery_finish w k t t'"
  shows "\<exists>f. apply_where (delivery_held k w) f t = (True, t') \<and>
     (\<forall>r. d_key (f r) = d_key r \<and> d_state (f r) \<noteq> DLeased)"
  using assms
proof (cases rule: delivery_finish.cases)
  case (df_delivered now)
  show ?thesis
    by (intro exI conjI, rule df_delivered [unfolded mark_delivered_def]) (simp add: d_key_def)
next
  case (df_requeue now e j)
  then obtain row where "lookup_by d_key k t = Some row"
    by (auto simp: requeue_delivery_def split: option.splits)
  note * = df_requeue [unfolded requeue_delivery_def this option.case]
  show ?thesis
    by (intro exI conjI, rule *) (simp add: d_key_def)
next
  case (df_defer nx)
  show ?thesis
    by (intro exI conjI, rule df_defer [unfolded defer_unready_delivery_def]) (simp add: d_key_def)
next
  case (df_fail now e)
  show ?thesis
    by (intro exI conjI, rule df_fail [unfolded fail_delivery_def]) (simp add: d_key_def)
qed

lemma delivery_finish_effect:
  assumes "unique_by d_key t" "delivery_finish w k t t'"
  obtains r r' where "lookup_by d_key k t = Some r" "delivery_held k w r"
    "lookup_by d_key k t' = Some r'" "d_state r' \<noteq> DLeased"
    "\<And>j. j \<noteq> k \<Longrightarrow> lookup_by d_key j t' = lookup_by d_key j t"
proof -
  from delivery_finish_shape [OF assms(2)] obtain f where
    a: "apply_where (delivery_held k w) f t = (True, t')"
    and f: "\<And>r. d_key (f r) = d_key r \<and> d_state (f r) \<noteq> DLeased"
    by blast
  have pw: "predicated_write d_key (delivery_held k w) f k"
    by (rule predicated_writeI) (use f in \<open>auto simp: delivery_held_def\<close>)
  show thesis
    using predicated_write.applied_row [OF pw assms(1)] predicated_write.other_rows [OF pw] a f that
    by (metis fst_conv snd_conv)
qed

interpretation delivery_lease: lease_protocol delivery_holds
  "\<lambda>w k t t'. unique_by d_key t \<and> delivery_finish w k t t'"
proof
  fix t k w v
  assume "delivery_holds t k w" "delivery_holds t k v"
  then show "v = w" by (auto simp: delivery_holds_def delivery_held_def)
next
  fix w k t t'
  assume "unique_by d_key t \<and> delivery_finish w k t t'"
  then show "delivery_holds t k w"
    by (metis delivery_finish_effect delivery_holds_def)
next
  fix w k t t' v
  assume "unique_by d_key t \<and> delivery_finish w k t t'"
  then show "\<not> delivery_holds t' k v"
    by (metis delivery_finish_effect delivery_holds_def delivery_held_def option.inject)
next
  fix w k t t' j v
  assume "unique_by d_key t \<and> delivery_finish w k t t'" "j \<noteq> k"
  then show "delivery_holds t' j v = delivery_holds t j v"
    by (metis delivery_finish_effect delivery_holds_def)
qed

end
