(* ===== verification/Outbox.thy ===== *)
theory Outbox
  imports Deliveries
begin

text \<open>
  \<^verbatim>\<open>rheo_core/events/consumers.py\<close> (the consumer registry), \<^verbatim>\<open>rheo_core/events/publish.py\<close>
  (the outbox write and its fan-out) and \<^verbatim>\<open>rheo_core/events/retention.py\<close> (the daily sweep
  and the horizon replay is gated on). Consumer handlers are parameters of the worker's
  model and are not held by the registry here.

  \<open>event_store\<close> is the event half of a workspace database. \<open>store_ok\<close> says its tables have
  their keys and that every delivery's event is still in the outbox with the delivery's
  position and subject.
\<close>

section \<open>The consumer registry\<close>

record subscription =
  s_consumer_id :: string
  s_event_type :: string
  s_module_id :: string
  s_replay_safe :: bool
  s_operation_names :: "string list"

type_synonym registry = "subscription list"

definition ascii_letter :: "char \<Rightarrow> bool" where
  "ascii_letter c \<longleftrightarrow>
     (CHR ''a'' \<le> c \<and> c \<le> CHR ''z'') \<or> (CHR ''A'' \<le> c \<and> c \<le> CHR ''Z'')"

definition ascii_digit :: "char \<Rightarrow> bool" where
  "ascii_digit c \<longleftrightarrow> CHR ''0'' \<le> c \<and> c \<le> CHR ''9''"

text \<open>\<^verbatim>\<open>str.isidentifier\<close> for the ASCII strings.\<close>

fun isidentifier :: "string \<Rightarrow> bool" where
  "isidentifier [] \<longleftrightarrow> False"
| "isidentifier (c # cs) \<longleftrightarrow>
     (ascii_letter c \<or> c = CHR ''_'') \<and>
     list_all (\<lambda>d. ascii_letter d \<or> ascii_digit d \<or> d = CHR ''_'') cs"

definition qualified_name :: "string \<Rightarrow> bool" where
  "qualified_name n \<longleftrightarrow>
     length (split_on (CHR ''.'') n) = 3 \<and> list_all isidentifier (split_on (CHR ''.'') n)"

datatype register_error = Empty_Identifier | Bad_Operation_Name

text \<open>A registration replaces the consumer's earlier one where it stands: a dictionary keeps
  the position of a key that is already there.\<close>

definition register_consumer :: "subscription \<Rightarrow> registry \<Rightarrow> register_error + registry" where
  "register_consumer sub reg =
     (if s_consumer_id sub = [] \<or> s_event_type sub = [] \<or> s_module_id sub = []
      then Inl Empty_Identifier
      else if \<not> list_all qualified_name (s_operation_names sub) then Inl Bad_Operation_Name
      else if s_consumer_id sub \<in> s_consumer_id ` set reg
      then Inr (update_where (\<lambda>s. s_consumer_id s = s_consumer_id sub) (\<lambda>_. sub) reg)
      else Inr (reg @ [sub]))"

definition for_type :: "string \<Rightarrow> registry \<Rightarrow> subscription list" where
  "for_type event_type reg = filter (\<lambda>s. s_event_type s = event_type) reg"

text \<open>\<open>None\<close> is \<^verbatim>\<open>ConsumerUnknown\<close>.\<close>

definition lookup_consumer :: "string \<Rightarrow> registry \<Rightarrow> subscription option" where
  "lookup_consumer consumer reg = lookup_by s_consumer_id consumer reg"

definition registry_ok :: "registry \<Rightarrow> bool" where
  "registry_ok reg \<longleftrightarrow> unique_by s_consumer_id reg"

lemma register_consumer_ok:
  "register_consumer sub reg = Inr reg' \<Longrightarrow> registry_ok reg \<Longrightarrow> registry_ok reg'"
  by (auto simp: register_consumer_def registry_ok_def unique_by_def map_update_where
      split: if_splits)

lemma lookup_registered:
  assumes "register_consumer sub reg = Inr reg'"
  shows "lookup_consumer c reg' =
           (if c = s_consumer_id sub then Some sub else lookup_consumer c reg)"
proof (cases "s_consumer_id sub \<in> s_consumer_id ` set reg")
  case True
  then have reg': "reg' = update_where (\<lambda>s. s_consumer_id s = s_consumer_id sub) (\<lambda>_. sub) reg"
    using assms by (auto simp: register_consumer_def split: if_splits)
  have look: "lookup_consumer c reg' =
      map_option (\<lambda>s. if s_consumer_id s = s_consumer_id sub then sub else s)
        (lookup_consumer c reg)"
    unfolding lookup_consumer_def reg' by (rule lookup_by_update_where) simp
  show ?thesis
  proof (cases "lookup_consumer c reg")
    case None
    then have "c \<noteq> s_consumer_id sub"
      using True by (auto simp: lookup_consumer_def)
    with look None show ?thesis by simp
  next
    case (Some s)
    then have "s_consumer_id s = c"
      by (auto simp: lookup_consumer_def dest: lookup_by_key)
    with look Some show ?thesis by simp
  qed
next
  case False
  then have reg': "reg' = reg @ [sub]"
    using assms by (auto simp: register_consumer_def split: if_splits)
  have none: "lookup_by s_consumer_id (s_consumer_id sub) reg = None"
    using False by simp
  show ?thesis
    unfolding lookup_consumer_def reg' lookup_by_append
    by (cases "lookup_by s_consumer_id c reg") (use none in \<open>auto simp del: lookup_by_None\<close>)
qed

section \<open>The event store\<close>

text \<open>\<open>es_swept\<close> is the row of \<^verbatim>\<open>core.outbox_retention\<close>: \<open>None\<close> when the table has no row,
  \<open>Some None\<close> when no sweep has deleted anything.\<close>

record 'v event_store =
  es_outbox :: "'v outbox"
  es_deliveries :: deliveries
  es_ledger :: ledger
  es_swept :: "int option option"

section \<open>Publish\<close>

record 'v new_event =
  n_type :: string
  n_schema_version :: int
  n_subject_ref :: string
  n_subject_revision :: int
  n_data :: 'v
  n_causation_id :: "uuid option"

text \<open>What \<^verbatim>\<open>publish\<close> reads of its context and unit of work.\<close>

record publish_context =
  pc_actor_kind :: string
  pc_actor_id :: "uuid option"
  pc_request_id :: uuid
  pc_enabled_modules :: "string list"
  pc_operation_id :: "uuid option"

definition is_reserved_module :: "string \<Rightarrow> bool" where
  "is_reserved_module m \<longleftrightarrow> m = ''core''"

definition source_prefix :: string where
  "source_prefix = ''urn:rheo:module:''"

definition module_of_type :: "string \<Rightarrow> string" where
  "module_of_type event_type = hd (split_on (CHR ''.'') event_type)"

definition outbox_row ::
  "publish_context \<Rightarrow> uuid \<Rightarrow> int \<Rightarrow> instant \<Rightarrow> 'v new_event \<Rightarrow> 'v outbox_event" where
  "outbox_row ctx event_id position now event =
     \<lparr>e_id = event_id, e_position = position, e_type = n_type event,
      e_schema_version = n_schema_version event,
      e_source = source_prefix @ module_of_type (n_type event),
      e_subject_ref = n_subject_ref event, e_subject_revision = n_subject_revision event,
      e_correlation_id = (case pc_operation_id ctx of Some i \<Rightarrow> i | None \<Rightarrow> pc_request_id ctx),
      e_causation_id = n_causation_id event, e_actor_kind = pc_actor_kind ctx,
      e_actor_id = pc_actor_id ctx, e_occurred_at = now, e_data = n_data event\<rparr>"

definition consumer_enabled :: "publish_context \<Rightarrow> subscription \<Rightarrow> bool" where
  "consumer_enabled ctx s \<longleftrightarrow>
     is_reserved_module (s_module_id s) \<or> s_module_id s \<in> set (pc_enabled_modules ctx)"

definition fan_out ::
  "publish_context \<Rightarrow> registry \<Rightarrow> uuid \<Rightarrow> int \<Rightarrow> instant \<Rightarrow> 'v new_event \<Rightarrow> delivery list" where
  "fan_out ctx reg event_id position now event =
     map (\<lambda>s. fresh_delivery now (s_consumer_id s) event_id (n_subject_ref event) position)
       (filter (consumer_enabled ctx) (for_type (n_type event) reg))"

fun insert_all :: "('r \<Rightarrow> 'k) \<Rightarrow> 'r list \<Rightarrow> 'r list \<Rightarrow> db_error + 'r list" where
  "insert_all key [] t = Inr t"
| "insert_all key (r # rs) t =
     (case insert_row key r t of Inl e \<Rightarrow> Inl e | Inr t' \<Rightarrow> insert_all key rs t')"

text \<open>\<open>fresh\<close> is \<^verbatim>\<open>uuid7()\<close>, \<open>position\<close> the identity column's next value. The answer is the
  event's id, whether a post-commit due mark was asked for, and the store.\<close>

definition publish ::
  "publish_context \<Rightarrow> registry \<Rightarrow> uuid \<Rightarrow> int \<Rightarrow> instant \<Rightarrow> 'v new_event \<Rightarrow> 'v event_store \<Rightarrow>
   db_error + uuid \<times> bool \<times> 'v event_store" where
  "publish ctx reg fresh position now event es =
     (case insert_row e_id (outbox_row ctx fresh position now event) (es_outbox es) of
        Inl e \<Rightarrow> Inl e
      | Inr outbox' \<Rightarrow>
          (let rows = fan_out ctx reg fresh position now event
           in case insert_all d_key rows (es_deliveries es) of
                Inl e \<Rightarrow> Inl e
              | Inr deliveries' \<Rightarrow>
                  Inr (fresh, rows \<noteq> [],
                       es\<lparr>es_outbox := outbox', es_deliveries := deliveries'\<rparr>)))"

section \<open>Retention\<close>

datatype sweep_error = Outbox_Retention_Missing | Sweep_Stopped

definition swept_through_position :: "'v event_store \<Rightarrow> sweep_error + int option" where
  "swept_through_position es =
     (case es_swept es of None \<Rightarrow> Inl Outbox_Retention_Missing | Some v \<Rightarrow> Inr v)"

definition batch_events :: nat where "batch_events = 1000"

definition max_batches :: nat where "max_batches = 20"

record 'v sweep =
  sw_outbox :: "'v outbox"
  sw_deliveries :: deliveries
  sw_deleted :: "uuid list"
  sw_swept :: "int option"
  sw_events :: nat
  sw_delivery_rows :: nat

definition event_unsettled :: "deliveries \<Rightarrow> uuid \<Rightarrow> bool" where
  "event_unsettled t i \<longleftrightarrow> (\<exists>d \<in> set t. d_event_id d = i \<and> \<not> settled (d_state d))"

definition event_delivered_anywhere :: "deliveries \<Rightarrow> uuid \<Rightarrow> bool" where
  "event_delivered_anywhere t i \<longleftrightarrow> (\<exists>d \<in> set t. d_event_id d = i)"

definition sweep_candidates :: "instant \<Rightarrow> nat \<Rightarrow> 'v sweep \<Rightarrow> uuid list" where
  "sweep_candidates occurred_before limit s =
     map e_id (take limit (sort_key e_position
       (filter (\<lambda>e. e_occurred_at e < occurred_before \<and>
                    \<not> event_unsettled (sw_deliveries s) (e_id e)) (sw_outbox s))))"

text \<open>One batch over its candidates: the two deletes and the bookkeeping.\<close>

definition sweep_batch :: "uuid list \<Rightarrow> 'v sweep \<Rightarrow> 'v sweep" where
  "sweep_batch candidates s =
     (let del = (\<lambda>d. d_event_id d \<in> set candidates \<and> settled (d_state d));
          deliveries' = filter (\<lambda>d. \<not> del d) (sw_deliveries s);
          gone_p = (\<lambda>e. e_id e \<in> set candidates \<and> \<not> event_delivered_anywhere deliveries' (e_id e));
          gone = filter gone_p (sw_outbox s);
          s1 = s\<lparr>sw_deliveries := deliveries',
                 sw_delivery_rows := sw_delivery_rows s + rowcount del (sw_deliveries s),
                 sw_outbox := filter (\<lambda>e. \<not> gone_p e) (sw_outbox s)\<rparr>
      in if gone = [] then s1
         else let highest = Max (set (map e_position gone))
              in s1\<lparr>sw_events := sw_events s + length gone,
                    sw_deleted := sw_deleted s @ map e_id gone,
                    sw_swept := Some (case sw_swept s of None \<Rightarrow> highest
                                      | Some w \<Rightarrow> max w highest)\<rparr>)"

text \<open>\<open>stop n\<close>: the checkpoint before the batch with \<open>n\<close> batches left raises, and the sweep's
  transaction rolls back whole.\<close>

fun sweep_batches ::
  "(nat \<Rightarrow> bool) \<Rightarrow> instant \<Rightarrow> nat \<Rightarrow> nat \<Rightarrow> 'v sweep \<Rightarrow> sweep_error + 'v sweep" where
  "sweep_batches stop occurred_before limit 0 s = Inr s"
| "sweep_batches stop occurred_before limit (Suc n) s =
     (if stop (Suc n) then Inl Sweep_Stopped
      else let candidates = sweep_candidates occurred_before limit s
           in if candidates = [] then Inr s
              else let s' = sweep_batch candidates s
                   in if length candidates < limit then Inr s'
                      else sweep_batches stop occurred_before limit n s')"

record purge_report =
  pr_events :: nat
  pr_deliveries :: nat
  pr_ledger_rows :: nat
  pr_swept_through :: "int option"

definition purge_outbox ::
  "(nat \<Rightarrow> bool) \<Rightarrow> instant \<Rightarrow> instant \<Rightarrow> nat \<Rightarrow> nat \<Rightarrow> 'v event_store \<Rightarrow>
   sweep_error + purge_report \<times> 'v event_store" where
  "purge_outbox stop now occurred_before limit batches es =
     (case es_swept es of
        None \<Rightarrow> Inl Outbox_Retention_Missing
      | Some recorded \<Rightarrow>
          (case sweep_batches stop occurred_before limit batches
                  \<lparr>sw_outbox = es_outbox es, sw_deliveries = es_deliveries es,
                   sw_deleted = [], sw_swept = recorded, sw_events = 0,
                   sw_delivery_rows = 0\<rparr> of
             Inl e \<Rightarrow> Inl e
           | Inr s \<Rightarrow>
               (let gone = (\<lambda>p. p_event_id p \<in> set (sw_deleted s));
                    es1 = es\<lparr>es_outbox := sw_outbox s, es_deliveries := sw_deliveries s\<rparr>
                in if sw_deleted s = []
                   then Inr (\<lparr>pr_events = sw_events s, pr_deliveries = sw_delivery_rows s,
                              pr_ledger_rows = 0, pr_swept_through = sw_swept s\<rparr>, es1)
                   else Inr (\<lparr>pr_events = sw_events s, pr_deliveries = sw_delivery_rows s,
                              pr_ledger_rows = rowcount gone (es_ledger es),
                              pr_swept_through = sw_swept s\<rparr>,
                             es1\<lparr>es_ledger := filter (\<lambda>p. \<not> gone p) (es_ledger es),
                                 es_swept := Some (sw_swept s)\<rparr>))))"

end
