(* ===== verification/Operation_Records.thy ===== *)
theory Operation_Records
  imports Prelude
begin

text \<open>
  \<^verbatim>\<open>rheo_core/operations/records.py\<close> over the table \<^verbatim>\<open>core.operation\<close> of
  \<^verbatim>\<open>rheo_core/storage/work_tables.py\<close>: the mint, the writes that end a record, the
  unresolved marker and its clearing, and the reads. Each write is one predicated
  \<^verbatim>\<open>UPDATE\<close> (\<open>apply_where\<close>) and answers whether it applied.

  \<open>op_write\<close> is the relation of all writes of the module. It is shown to be a \<open>lifecycle\<close>
  (a record that succeeded, failed or was cancelled keeps its whole row for ever), to follow
  the module's state graph, and to keep the check constraint of the table.
\<close>

section \<open>The table\<close>

datatype op_state =
    OpPending | OpRunning | OpApprovalRequired | OpSucceeded | OpFailed | OpCancelled
  | OpUnresolved

datatype terminal_check = Record_Exists | Provider_Status | Sink_Recorded | Handler_Returned

record operation =
  o_id :: uuid
  o_name :: string
  o_safety_class :: string
  o_actor_kind :: string
  o_actor_id :: "uuid option"
  o_entry :: string
  o_audience_kind :: string
  o_audience_id :: "uuid option"
  o_state :: op_state
  o_approval_id :: "uuid option"
  o_progress_text :: "string option"
  o_progress_fraction :: "rat option"
  o_result_ref :: "string option"
  o_error_code :: "string option"
  o_error_text :: "string option"
  o_terminal_check_kind :: "terminal_check option"
  o_terminal_check_at :: "instant option"
  o_provider_request_id :: "string option"
  o_created_at :: instant
  o_started_at :: "instant option"
  o_terminal_at :: "instant option"

type_synonym operations = "operation list"

text \<open>The constraint \<^verbatim>\<open>operation_terminal_check_required\<close>.\<close>

definition operation_check :: "operation \<Rightarrow> bool" where
  "operation_check r \<longleftrightarrow>
     o_state r \<noteq> OpSucceeded \<or>
     (o_terminal_check_kind r \<noteq> None \<and> o_terminal_check_at r \<noteq> None)"

section \<open>Predicates\<close>

definition op_open :: "uuid \<Rightarrow> operation \<Rightarrow> bool" where
  "op_open i r \<longleftrightarrow> o_id r = i \<and> (o_state r = OpPending \<or> o_state r = OpRunning)"

definition op_held :: "uuid \<Rightarrow> operation \<Rightarrow> bool" where
  "op_held i r \<longleftrightarrow> o_id r = i \<and> o_state r = OpApprovalRequired"

definition op_unresolved :: "uuid \<Rightarrow> operation \<Rightarrow> bool" where
  "op_unresolved i r \<longleftrightarrow> o_id r = i \<and> o_state r = OpUnresolved"

section \<open>The writes\<close>

text \<open>\<open>fresh\<close> is the value \<^verbatim>\<open>uuid7()\<close> answers, used when the caller names no id. The insert
  is refused by the primary key when a record with that id exists.\<close>

definition mint ::
  "uuid \<Rightarrow> uuid option \<Rightarrow> string \<Rightarrow> string \<Rightarrow> string \<Rightarrow> uuid option \<Rightarrow> string \<Rightarrow> string \<Rightarrow>
   uuid option \<Rightarrow> instant \<Rightarrow> operations \<Rightarrow> db_error + uuid \<times> operations" where
  "mint fresh operation_id name safety_class actor_kind actor_id entry audience_kind
     audience_id now t =
   (let i = (case operation_id of None \<Rightarrow> fresh | Some j \<Rightarrow> j);
        r = \<lparr>o_id = i, o_name = name, o_safety_class = safety_class,
             o_actor_kind = actor_kind, o_actor_id = actor_id, o_entry = entry,
             o_audience_kind = audience_kind, o_audience_id = audience_id,
             o_state = OpPending, o_approval_id = None, o_progress_text = None,
             o_progress_fraction = None, o_result_ref = None, o_error_code = None,
             o_error_text = None, o_terminal_check_kind = None, o_terminal_check_at = None,
             o_provider_request_id = None, o_created_at = now, o_started_at = None,
             o_terminal_at = None\<rparr>
    in case insert_row o_id r t of Inl e \<Rightarrow> Inl e | Inr t' \<Rightarrow> Inr (i, t'))"

definition mark_running :: "uuid \<Rightarrow> instant \<Rightarrow> operations \<Rightarrow> bool \<times> operations" where
  "mark_running i now =
     apply_where (op_open i) (\<lambda>r. r\<lparr>o_state := OpRunning, o_started_at := Some now\<rparr>)"

definition set_progress :: "uuid \<Rightarrow> string \<Rightarrow> rat \<Rightarrow> operations \<Rightarrow> bool \<times> operations" where
  "set_progress i txt fraction =
     apply_where (op_open i)
       (\<lambda>r. r\<lparr>o_progress_text := Some txt, o_progress_fraction := Some fraction\<rparr>)"

definition mark_approval_required :: "uuid \<Rightarrow> uuid \<Rightarrow> operations \<Rightarrow> bool \<times> operations" where
  "mark_approval_required i approval =
     apply_where (op_open i)
       (\<lambda>r. r\<lparr>o_state := OpApprovalRequired, o_approval_id := Some approval\<rparr>)"

definition finish_held_succeeded ::
  "uuid \<Rightarrow> instant \<Rightarrow> terminal_check \<Rightarrow> instant \<Rightarrow> operations \<Rightarrow> bool \<times> operations" where
  "finish_held_succeeded i now check_kind check_at =
     apply_where (op_held i)
       (\<lambda>r. r\<lparr>o_state := OpSucceeded, o_terminal_check_kind := Some check_kind,
              o_terminal_check_at := Some check_at, o_terminal_at := Some now\<rparr>)"

definition start_held :: "uuid \<Rightarrow> instant \<Rightarrow> operations \<Rightarrow> bool \<times> operations" where
  "start_held i now =
     apply_where (op_held i) (\<lambda>r. r\<lparr>o_state := OpRunning, o_started_at := Some now\<rparr>)"

definition finish_held_cancelled :: "uuid \<Rightarrow> instant \<Rightarrow> operations \<Rightarrow> bool \<times> operations" where
  "finish_held_cancelled i now =
     apply_where (op_held i) (\<lambda>r. r\<lparr>o_state := OpCancelled, o_terminal_at := Some now\<rparr>)"

definition finish_held_failed ::
  "uuid \<Rightarrow> instant \<Rightarrow> string \<Rightarrow> string \<Rightarrow> operations \<Rightarrow> bool \<times> operations" where
  "finish_held_failed i now code txt =
     apply_where (op_held i)
       (\<lambda>r. r\<lparr>o_state := OpFailed, o_error_code := Some code, o_error_text := Some txt,
              o_terminal_at := Some now\<rparr>)"

definition op_finish_succeeded ::
  "uuid \<Rightarrow> instant \<Rightarrow> terminal_check \<Rightarrow> instant \<Rightarrow> string option \<Rightarrow> operations \<Rightarrow>
   bool \<times> operations" where
  "op_finish_succeeded i now check_kind check_at result_ref =
     apply_where (op_open i)
       (\<lambda>r. r\<lparr>o_state := OpSucceeded, o_result_ref := result_ref,
              o_terminal_check_kind := Some check_kind,
              o_terminal_check_at := Some check_at, o_terminal_at := Some now\<rparr>)"

definition op_finish_failed ::
  "uuid \<Rightarrow> instant \<Rightarrow> string \<Rightarrow> string \<Rightarrow> operations \<Rightarrow> bool \<times> operations" where
  "op_finish_failed i now code txt =
     apply_where (op_open i)
       (\<lambda>r. r\<lparr>o_state := OpFailed, o_error_code := Some code, o_error_text := Some txt,
              o_terminal_at := Some now\<rparr>)"

definition op_finish_cancelled :: "uuid \<Rightarrow> instant \<Rightarrow> operations \<Rightarrow> bool \<times> operations" where
  "op_finish_cancelled i now =
     apply_where (op_open i) (\<lambda>r. r\<lparr>o_state := OpCancelled, o_terminal_at := Some now\<rparr>)"

definition mark_unresolved :: "uuid \<Rightarrow> instant \<Rightarrow> operations \<Rightarrow> bool \<times> operations" where
  "mark_unresolved i now =
     apply_where (op_open i) (\<lambda>r. r\<lparr>o_state := OpUnresolved, o_terminal_at := Some now\<rparr>)"

text \<open>
  \<^verbatim>\<open>resolve\<close> sets the check fields only for the outcome \<^verbatim>\<open>succeeded\<close> and takes the kind from
  its caller, who may leave it out: then the check constraint refuses the statement.
\<close>

definition resolve_values ::
  "op_state \<Rightarrow> string \<Rightarrow> instant \<Rightarrow> terminal_check option \<Rightarrow> string option \<Rightarrow> operation \<Rightarrow>
   operation" where
  "resolve_values outcome note now check_kind result_ref r =
     (let r1 = r\<lparr>o_state := outcome, o_error_text := Some note, o_terminal_at := Some now\<rparr>;
          r2 = (if outcome = OpSucceeded
                then r1\<lparr>o_terminal_check_kind := check_kind, o_terminal_check_at := Some now\<rparr>
                else r1)
      in if result_ref \<noteq> None then r2\<lparr>o_result_ref := result_ref\<rparr> else r2)"

definition resolve ::
  "uuid \<Rightarrow> op_state \<Rightarrow> string \<Rightarrow> instant \<Rightarrow> terminal_check option \<Rightarrow> string option \<Rightarrow>
   operations \<Rightarrow> db_error + bool \<times> operations" where
  "resolve i outcome note now check_kind result_ref t =
     (let f = resolve_values outcome note now check_kind result_ref
      in if \<exists>r \<in> set t. op_unresolved i r \<and> \<not> operation_check (f r)
         then Inl Check_Violation
         else Inr (apply_where (op_unresolved i) f t))"

definition resolvable_outcome :: "op_state \<Rightarrow> bool" where
  "resolvable_outcome s \<longleftrightarrow> s = OpSucceeded \<or> s = OpFailed \<or> s = OpCancelled"

lemmas op_writes =
  mark_running_def set_progress_def mark_approval_required_def finish_held_succeeded_def
  start_held_def finish_held_cancelled_def finish_held_failed_def op_finish_succeeded_def
  op_finish_failed_def op_finish_cancelled_def mark_unresolved_def

declare op_writes [writes]

section \<open>The reads\<close>

record operation_row =
  or_id :: uuid
  or_name :: string
  or_safety_class :: string
  or_state :: op_state
  or_result_ref :: "string option"
  or_error_code :: "string option"
  or_error_text :: "string option"
  or_terminal_check_kind :: "terminal_check option"
  or_terminal_check_at :: "instant option"
  or_created_at :: instant
  or_started_at :: "instant option"
  or_terminal_at :: "instant option"

record op_provenance =
  pv_actor_kind :: string
  pv_actor_id :: "uuid option"
  pv_audience_kind :: string
  pv_audience_id :: "uuid option"
  pv_entry :: string

definition operation_row_of :: "operation \<Rightarrow> operation_row" where
  "operation_row_of r =
     \<lparr>or_id = o_id r, or_name = o_name r, or_safety_class = o_safety_class r,
      or_state = o_state r, or_result_ref = o_result_ref r, or_error_code = o_error_code r,
      or_error_text = o_error_text r, or_terminal_check_kind = o_terminal_check_kind r,
      or_terminal_check_at = o_terminal_check_at r, or_created_at = o_created_at r,
      or_started_at = o_started_at r, or_terminal_at = o_terminal_at r\<rparr>"

definition get_operation :: "uuid \<Rightarrow> operations \<Rightarrow> operation_row option" where
  "get_operation i t = map_option operation_row_of (lookup_by o_id i t)"

definition get_context_provenance :: "uuid \<Rightarrow> operations \<Rightarrow> op_provenance option" where
  "get_context_provenance i t =
     map_option (\<lambda>r. \<lparr>pv_actor_kind = o_actor_kind r, pv_actor_id = o_actor_id r,
                      pv_audience_kind = o_audience_kind r,
                      pv_audience_id = o_audience_id r, pv_entry = o_entry r\<rparr>)
       (lookup_by o_id i t)"

text \<open>\<^verbatim>\<open>ORDER BY created_at DESC, id DESC LIMIT limit\<close>: ids are unique, so the order is
  strict and the page is determined.\<close>

definition list_recent :: "nat \<Rightarrow> operations \<Rightarrow> operation_row list" where
  "list_recent limit t =
     map operation_row_of
       (take limit (rev (sort_key (\<lambda>r. (o_created_at r, o_id r)) t)))"

definition count_unresolved :: "operations \<Rightarrow> nat" where
  "count_unresolved t = rowcount (\<lambda>r. o_state r = OpUnresolved) t"

section \<open>All writes as one relation\<close>

text \<open>\<^verbatim>\<open>resolve\<close>'s caller passes one of the three resolvable outcomes: its input model has
  no other.\<close>

inductive op_write :: "operations \<Rightarrow> operations \<Rightarrow> bool" where
  w_mint: "mint fresh i n sc ak ai e auk aui now t = Inr (j, t') \<Longrightarrow> op_write t t'"
| w_running: "op_write t (snd (mark_running i now t))"
| w_progress: "op_write t (snd (set_progress i txt fr t))"
| w_approval: "op_write t (snd (mark_approval_required i a t))"
| w_held_succeeded: "op_write t (snd (finish_held_succeeded i now k ca t))"
| w_start_held: "op_write t (snd (start_held i now t))"
| w_held_cancelled: "op_write t (snd (finish_held_cancelled i now t))"
| w_held_failed: "op_write t (snd (finish_held_failed i now c txt t))"
| w_succeeded: "op_write t (snd (op_finish_succeeded i now k ca rr t))"
| w_failed: "op_write t (snd (op_finish_failed i now c txt t))"
| w_cancelled: "op_write t (snd (op_finish_cancelled i now t))"
| w_unresolved: "op_write t (snd (mark_unresolved i now t))"
| w_resolve: "resolve i out note now k rr t = Inr (b, t') \<Longrightarrow> resolvable_outcome out \<Longrightarrow>
    op_write t t'"

lemma mint_InrD:
  assumes "mint fresh i n sc ak ai e auk aui now t = Inr (j, t')"
  shows "\<exists>r. t' = t @ [r] \<and> o_id r = j \<and> j \<notin> o_id ` set t \<and> o_state r = OpPending"
  using assms
  by (auto simp: mint_def Let_def dest!: insert_row_InrD split: sum.splits)

lemma resolve_InrD:
  assumes "resolve i out note now k rr t = Inr (b, t')"
  shows "(b, t') = apply_where (op_unresolved i) (resolve_values out note now k rr) t"
    and "\<And>r. r \<in> set t \<Longrightarrow> op_unresolved i r \<Longrightarrow>
           operation_check (resolve_values out note now k rr r)"
  using assms by (auto simp: resolve_def Let_def split: if_splits)

lemma resolve_values_simps [simp]:
  "o_id (resolve_values out note now k rr r) = o_id r"
  "o_state (resolve_values out note now k rr r) = out"
  by (simp_all add: resolve_values_def Let_def)

text \<open>What one write does to one row: nothing, or one edge of the state graph.\<close>

fun op_edge :: "op_state \<Rightarrow> op_state \<Rightarrow> bool" where
  "op_edge OpPending s \<longleftrightarrow> True"
| "op_edge OpRunning s \<longleftrightarrow> s \<noteq> OpPending"
| "op_edge OpApprovalRequired s \<longleftrightarrow> s \<in> {OpRunning, OpSucceeded, OpFailed, OpCancelled}"
| "op_edge OpUnresolved s \<longleftrightarrow> s \<in> {OpSucceeded, OpFailed, OpCancelled}"
| "op_edge _ s \<longleftrightarrow> False"

lemma op_write_row:
  assumes "op_write t t'" and "lookup_by o_id i t = Some r"
  shows "\<exists>r'. lookup_by o_id i t' = Some r' \<and> (r' = r \<or> op_edge (o_state r) (o_state r'))"
  using assms
proof (cases rule: op_write.cases)
  case (w_mint fresh i n sc ak ai e auk aui now j)
  with assms(2) show ?thesis
    by (auto dest!: mint_InrD simp: lookup_by_append)
next
  case (w_resolve j out nt now k rr b)
  with assms(2) show ?thesis
    by (auto dest!: resolve_InrD(1) simp: apply_where_def lookup_by_update_where
        op_unresolved_def resolvable_outcome_def)
qed (use assms(2) in \<open>auto simp: op_writes lookup_by_update_where op_open_def op_held_def\<close>)

lemma op_write_unique [inv_intros]: "op_write t t' \<Longrightarrow> unique_by o_id t \<Longrightarrow> unique_by o_id t'"
proof (induction rule: op_write.induct)
  case (w_mint fresh i n sc ak ai e auk aui now t j t')
  then show ?case by (auto dest!: mint_InrD simp: unique_by_def)
next
  case (w_resolve i out nt now k rr t b t')
  then show ?case
    by (auto dest!: resolve_InrD(1) simp: apply_where_def unique_update_where)
qed (simp_all add: op_writes unique_update_where)

definition op_checked :: "operations \<Rightarrow> bool" where
  "op_checked t \<longleftrightarrow> (\<forall>r \<in> set t. operation_check r)"

lemma op_write_checked [inv_intros]: "op_write t t' \<Longrightarrow> op_checked t \<Longrightarrow> op_checked t'"
proof (induction rule: op_write.induct)
  case (w_mint fresh i n sc ak ai e auk aui now t j t')
  then show ?case by (auto dest!: mint_InrD simp: op_checked_def operation_check_def)
next
  case (w_resolve i out nt now k rr t b t')
  from resolve_InrD(1) [OF w_resolve(1)] resolve_InrD(2) [OF w_resolve(1)] w_resolve(3)
  show ?case by (auto simp: op_checked_def apply_where_def)
qed (auto simp: op_writes op_checked_def operation_check_def)

definition op_terminal :: "operation \<Rightarrow> bool" where
  "op_terminal r \<longleftrightarrow> o_state r = OpSucceeded \<or> o_state r = OpFailed \<or> o_state r = OpCancelled"

interpretation ops: lifecycle "\<lambda>t i. lookup_by o_id i t" op_write op_terminal
proof
  fix t t' i r
  assume "op_write t t'" "lookup_by o_id i t = Some r" "op_terminal r"
  with op_write_row show "lookup_by o_id i t' = Some r"
    by (fastforce simp: op_terminal_def)
qed

text \<open>The two writes by which a worker ends an open record, and the one by which a person's
  approval ends a held one, as compare-and-set operations on the record's key.\<close>

interpretation op_succeed: predicated_write o_id "op_open i"
  "\<lambda>r. r\<lparr>o_state := OpSucceeded, o_result_ref := rr, o_terminal_check_kind := Some k,
         o_terminal_check_at := Some ca, o_terminal_at := Some now\<rparr>" i
  for i rr k ca now
  by unfold_locales (auto simp: op_open_def)

interpretation op_fail: predicated_write o_id "op_open i"
  "\<lambda>r. r\<lparr>o_state := OpFailed, o_error_code := Some c, o_error_text := Some txt,
         o_terminal_at := Some now\<rparr>" i
  for i c txt now
  by unfold_locales (auto simp: op_open_def)

interpretation op_cancel: predicated_write o_id "op_open i"
  "\<lambda>r. r\<lparr>o_state := OpCancelled, o_terminal_at := Some now\<rparr>" i
  for i now
  by unfold_locales (auto simp: op_open_def)

end
