(* ===== verification/Jobs.thy ===== *)
theory Jobs
  imports Operation_Records
begin

text \<open>
  \<^verbatim>\<open>rheo_core/work/jobs.py\<close> over the table \<^verbatim>\<open>core.job\<close>: the enqueue, the lease, the
  heartbeat, the finishes, the requeue and the deferral, the cancellation request and the
  reads. A payload is opaque (\<open>'p\<close>); owners and kinds are strings.

  \<open>job_write\<close> is the relation of all writes of the module (a \<open>lifecycle\<close>: a finished job keeps
  its row), \<open>job_finish\<close> the writes that end an attempt (a \<open>lease_protocol\<close>), and \<open>job_ok\<close> the
  well-formedness of one row.
\<close>

section \<open>The table\<close>

datatype job_state = JobQueued | JobLeased | JobSucceeded | JobFailed | JobCancelled

record 'p job =
  j_id :: uuid
  j_kind :: string
  j_state :: job_state
  j_input :: 'p
  j_operation_id :: "uuid option"
  j_depends_on_ref :: "string option"
  j_attempts :: int
  j_max_attempts :: int
  j_next_run_at :: instant
  j_lease_owner :: "string option"
  j_lease_until :: "instant option"
  j_cancel_requested :: bool
  j_last_error :: "string option"
  j_created_at :: instant
  j_finished_at :: "instant option"

type_synonym 'p jobs = "'p job list"

record 'p leased_job =
  l_id :: uuid
  l_kind :: string
  l_payload :: 'p
  l_attempts :: int
  l_max_attempts :: int
  l_cancel_requested :: bool
  l_operation_id :: "uuid option"

record failed_job_row =
  fj_id :: uuid
  fj_kind :: string
  fj_attempts :: int
  fj_max_attempts :: int
  fj_last_error :: "string option"
  fj_finished_at :: "instant option"

definition external_action_execute :: string where
  "external_action_execute = ''core.external_action.execute''"

section \<open>Enqueue\<close>

datatype enqueue_answer = Job_Id uuid | Inserted bool

text \<open>
  \<open>fresh\<close> is the value of \<^verbatim>\<open>uuid7()\<close>; \<open>known_op\<close> says which operation records exist, for the
  foreign key of \<^verbatim>\<open>operation_id\<close>. The advisory lock taken with \<^verbatim>\<open>dedupe\<close> only serializes
  callers, and each call here is one step.
\<close>

definition new_job ::
  "uuid \<Rightarrow> string \<Rightarrow> 'p \<Rightarrow> instant \<Rightarrow> int \<Rightarrow> instant \<Rightarrow> uuid option \<Rightarrow> 'p job" where
  "new_job i kind payload now max_attempts due_at operation_id =
     \<lparr>j_id = i, j_kind = kind, j_state = JobQueued, j_input = payload,
      j_operation_id = operation_id, j_depends_on_ref = None, j_attempts = 0,
      j_max_attempts = max_attempts, j_next_run_at = due_at, j_lease_owner = None,
      j_lease_until = None, j_cancel_requested = False, j_last_error = None,
      j_created_at = now, j_finished_at = None\<rparr>"

definition enqueue_job ::
  "uuid \<Rightarrow> (uuid \<Rightarrow> bool) \<Rightarrow> string \<Rightarrow> 'p \<Rightarrow> instant \<Rightarrow> int \<Rightarrow> instant option \<Rightarrow> uuid option \<Rightarrow>
   bool \<Rightarrow> 'p jobs \<Rightarrow> db_error + enqueue_answer \<times> 'p jobs" where
  "enqueue_job fresh known_op kind payload now max_attempts next_run_at operation_id dedupe t =
     (let due_at = (case next_run_at of None \<Rightarrow> now | Some n \<Rightarrow> n)
      in if dedupe \<and> (\<exists>r \<in> set t. j_kind r = kind \<and> j_state r = JobQueued \<and>
                                 j_next_run_at r = due_at)
         then Inr (Inserted False, t)
         else if (case operation_id of None \<Rightarrow> False | Some o_i \<Rightarrow> \<not> known_op o_i)
         then Inl Foreign_Key_Violation
         else case insert_row j_id
                     (new_job fresh kind payload now max_attempts due_at operation_id) t of
                Inl e \<Rightarrow> Inl e
              | Inr t' \<Rightarrow> Inr (if dedupe then Inserted True else Job_Id fresh, t'))"

definition has_job_for_operation :: "uuid \<Rightarrow> 'p jobs \<Rightarrow> bool" where
  "has_job_for_operation i t \<longleftrightarrow> (\<exists>r \<in> set t. j_operation_id r = Some i)"

section \<open>The lease\<close>

definition lease_lapsed :: "instant \<Rightarrow> instant option \<Rightarrow> bool" where
  "lease_lapsed now until \<longleftrightarrow> (case until of None \<Rightarrow> False | Some u \<Rightarrow> u < now)"

definition job_due :: "instant \<Rightarrow> 'p job \<Rightarrow> bool" where
  "job_due now r \<longleftrightarrow>
     (j_state r = JobQueued \<and> j_next_run_at r \<le> now) \<or>
     (j_state r = JobLeased \<and> lease_lapsed now (j_lease_until r))"

definition take_job :: "string \<Rightarrow> instant \<Rightarrow> int \<Rightarrow> 'p job \<Rightarrow> 'p job" where
  "take_job owner now lease_seconds r =
     r\<lparr>j_state := JobLeased, j_lease_owner := Some owner,
       j_lease_until := Some (now + seconds lease_seconds),
       j_attempts := (if j_cancel_requested r then j_attempts r else j_attempts r + 1)\<rparr>"

definition leased_of :: "'p job \<Rightarrow> 'p leased_job" where
  "leased_of r =
     \<lparr>l_id = j_id r, l_kind = j_kind r, l_payload = j_input r, l_attempts = j_attempts r,
      l_max_attempts = j_max_attempts r, l_cancel_requested = j_cancel_requested r,
      l_operation_id = j_operation_id r\<rparr>"

text \<open>\<open>locked r\<close>: another transaction holds the row's lock, so \<^verbatim>\<open>SKIP LOCKED\<close> passes it over.\<close>

definition acquire_lease ::
  "(uuid \<Rightarrow> bool) \<Rightarrow> string \<Rightarrow> instant \<Rightarrow> int \<Rightarrow> 'p jobs \<Rightarrow> 'p leased_job option \<times> 'p jobs" where
  "acquire_lease locked owner now lease_seconds t =
     (case select_first (\<lambda>r. job_due now r \<and> \<not> locked (j_id r)) j_next_run_at t of
        None \<Rightarrow> (None, t)
      | Some d \<Rightarrow>
          (Some (leased_of (take_job owner now lease_seconds d)),
           update_where (\<lambda>r. j_id r = j_id d) (take_job owner now lease_seconds) t))"

definition job_held :: "uuid \<Rightarrow> string \<Rightarrow> 'p job \<Rightarrow> bool" where
  "job_held i owner r \<longleftrightarrow>
     j_id r = i \<and> j_lease_owner r = Some owner \<and> j_state r = JobLeased"

definition job_held_uncancelled :: "uuid \<Rightarrow> string \<Rightarrow> 'p job \<Rightarrow> bool" where
  "job_held_uncancelled i owner r \<longleftrightarrow> job_held i owner r \<and> \<not> j_cancel_requested r"

definition extend_lease ::
  "uuid \<Rightarrow> string \<Rightarrow> instant \<Rightarrow> int \<Rightarrow> 'p jobs \<Rightarrow> bool option \<times> 'p jobs" where
  "extend_lease i owner now lease_seconds t =
     (map_option j_cancel_requested (find (job_held i owner) t),
      update_where (job_held i owner)
        (\<lambda>r. r\<lparr>j_lease_until := Some (now + seconds lease_seconds)\<rparr>) t)"

section \<open>The finishes\<close>

definition job_finish_succeeded :: "uuid \<Rightarrow> string \<Rightarrow> instant \<Rightarrow> 'p jobs \<Rightarrow> bool \<times> 'p jobs" where
  "job_finish_succeeded i owner now =
     apply_where (job_held_uncancelled i owner)
       (\<lambda>r. r\<lparr>j_state := JobSucceeded, j_finished_at := Some now, j_lease_owner := None,
              j_lease_until := None, j_last_error := None\<rparr>)"

definition job_finish_failed ::
  "uuid \<Rightarrow> string \<Rightarrow> instant \<Rightarrow> string \<Rightarrow> 'p jobs \<Rightarrow> bool \<times> 'p jobs" where
  "job_finish_failed i owner now error =
     apply_where (job_held_uncancelled i owner)
       (\<lambda>r. r\<lparr>j_state := JobFailed, j_finished_at := Some now, j_lease_owner := None,
              j_lease_until := None, j_last_error := Some error\<rparr>)"

text \<open>\<^verbatim>\<open>finish_owned\<close> raises \<^verbatim>\<open>ValueError\<close> for a state that is no owned finish: \<open>None\<close>.\<close>

definition job_finish_owned ::
  "uuid \<Rightarrow> string \<Rightarrow> instant \<Rightarrow> job_state \<Rightarrow> string option \<Rightarrow> 'p jobs \<Rightarrow> (bool \<times> 'p jobs) option" where
  "job_finish_owned i owner now state error t =
     (if state \<noteq> JobSucceeded \<and> state \<noteq> JobFailed then None
      else Some (apply_where (job_held i owner)
        (\<lambda>r. r\<lparr>j_state := state, j_finished_at := Some now, j_lease_owner := None,
               j_lease_until := None, j_last_error := error\<rparr>) t))"

definition job_finish_cancelled :: "uuid \<Rightarrow> string \<Rightarrow> instant \<Rightarrow> 'p jobs \<Rightarrow> bool \<times> 'p jobs" where
  "job_finish_cancelled i owner now =
     apply_where (job_held i owner)
       (\<lambda>r. r\<lparr>j_state := JobCancelled, j_finished_at := Some now, j_lease_owner := None,
              j_lease_until := None\<rparr>)"

definition requeue_for_retry ::
  "uuid \<Rightarrow> string \<Rightarrow> instant \<Rightarrow> instant \<Rightarrow> string \<Rightarrow> 'p jobs \<Rightarrow> bool \<times> 'p jobs" where
  "requeue_for_retry i owner now next_run_at error =
     apply_where (job_held_uncancelled i owner)
       (\<lambda>r. r\<lparr>j_state := JobQueued, j_next_run_at := next_run_at, j_lease_owner := None,
              j_lease_until := None, j_last_error := Some error\<rparr>)"

definition defer_unready_job :: "uuid \<Rightarrow> string \<Rightarrow> instant \<Rightarrow> 'p jobs \<Rightarrow> bool \<times> 'p jobs" where
  "defer_unready_job i owner next_run_at =
     apply_where (job_held_uncancelled i owner)
       (\<lambda>r. r\<lparr>j_state := JobQueued, j_attempts := j_attempts r - 1,
              j_next_run_at := next_run_at, j_lease_owner := None, j_lease_until := None\<rparr>)"

section \<open>Cancellation\<close>

text \<open>
  One \<^verbatim>\<open>UPDATE\<close>: every \<^verbatim>\<open>SET\<close> expression reads the row as it was. The write on the operation
  record runs in the same transaction, only for a job the statement itself cancelled.
\<close>

definition cancel_values :: "instant \<Rightarrow> 'p job \<Rightarrow> 'p job" where
  "cancel_values now r =
     (let continuation = (j_kind r = external_action_execute);
          was_queued = (j_state r = JobQueued \<and> \<not> continuation)
      in r\<lparr>j_state := (if was_queued then JobCancelled else j_state r),
           j_finished_at := (if was_queued then Some now else j_finished_at r),
           j_next_run_at := (if j_state r = JobQueued \<and> continuation then now
                             else j_next_run_at r),
           j_cancel_requested := True\<rparr>)"

definition cancellable :: "uuid \<Rightarrow> 'p job \<Rightarrow> bool" where
  "cancellable i r \<longleftrightarrow> j_id r = i \<and> (j_state r = JobQueued \<or> j_state r = JobLeased)"

definition request_cancellation ::
  "uuid \<Rightarrow> instant \<Rightarrow> 'p jobs \<Rightarrow> operations \<Rightarrow> job_state option \<times> 'p jobs \<times> operations" where
  "request_cancellation i now t ops =
     (case find (cancellable i) t of
        None \<Rightarrow> (None, t, ops)
      | Some r \<Rightarrow>
          let r' = cancel_values now r;
              t' = update_where (cancellable i) (cancel_values now) t
          in (Some (j_state r'), t',
              (case j_operation_id r of
                 Some o_i \<Rightarrow> if j_state r' = JobCancelled
                           then snd (op_finish_cancelled o_i now ops) else ops
               | None \<Rightarrow> ops)))"

section \<open>The reads\<close>

text \<open>\<^verbatim>\<open>ORDER BY finished_at DESC\<close>, where Postgres puts nulls first.\<close>

definition list_failed_jobs :: "nat \<Rightarrow> 'p jobs \<Rightarrow> failed_job_row list" where
  "list_failed_jobs limit t =
     map (\<lambda>r. \<lparr>fj_id = j_id r, fj_kind = j_kind r, fj_attempts = j_attempts r,
               fj_max_attempts = j_max_attempts r, fj_last_error = j_last_error r,
               fj_finished_at = j_finished_at r\<rparr>)
       (take limit (sort_key (\<lambda>r. map_option uminus (j_finished_at r))
          (filter (\<lambda>r. j_state r = JobFailed) t)))"

definition earliest_due_at :: "'p jobs \<Rightarrow> instant option" where
  "earliest_due_at t =
     earliest
       [earliest (map (\<lambda>r. Some (j_next_run_at r)) (filter (\<lambda>r. j_state r = JobQueued) t)),
        earliest (map j_lease_until (filter (\<lambda>r. j_state r = JobLeased) t))]"

section \<open>Rows: well-formedness\<close>

definition job_finished :: "'p job \<Rightarrow> bool" where
  "job_finished r \<longleftrightarrow>
     j_state r = JobSucceeded \<or> j_state r = JobFailed \<or> j_state r = JobCancelled"

definition job_ok :: "'p job \<Rightarrow> bool" where
  "job_ok r \<longleftrightarrow>
     (j_lease_owner r \<noteq> None \<longleftrightarrow> j_state r = JobLeased) \<and>
     (j_lease_until r \<noteq> None \<longleftrightarrow> j_state r = JobLeased) \<and>
     (j_finished_at r \<noteq> None \<longleftrightarrow> job_finished r) \<and>
     (j_state r = JobQueued \<and> j_cancel_requested r \<longrightarrow> j_kind r = external_action_execute) \<and>
     0 \<le> j_attempts r \<and>
     (j_state r = JobLeased \<and> \<not> j_cancel_requested r \<longrightarrow> 1 \<le> j_attempts r)"

definition jobs_ok :: "'p jobs \<Rightarrow> bool" where
  "jobs_ok t \<longleftrightarrow> unique_by j_id t \<and> (\<forall>r \<in> set t. job_ok r)"

lemmas job_finishes =
  job_finish_succeeded_def job_finish_failed_def job_finish_cancelled_def
  requeue_for_retry_def defer_unready_job_def

declare job_finishes [writes]

lemma job_held_uncancelledD: "job_held_uncancelled i w r \<Longrightarrow> job_held i w r"
  by (simp add: job_held_uncancelled_def)

lemma enqueue_job_InrD:
  assumes "enqueue_job fresh known kind p now mx nx op dd t = Inr (a, t')"
  shows "t' = t \<or>
    (t' = t @ [new_job fresh kind p now mx (case nx of None \<Rightarrow> now | Some n \<Rightarrow> n) op] \<and>
     fresh \<notin> j_id ` set t)"
  using assms
  by (auto simp: enqueue_job_def Let_def new_job_def dest!: insert_row_InrD
      split: if_splits sum.splits option.splits)

lemma take_job_simps [simp]:
  "j_id (take_job w now s r) = j_id r"
  "j_kind (take_job w now s r) = j_kind r"
  "j_state (take_job w now s r) = JobLeased"
  "j_lease_owner (take_job w now s r) = Some w"
  "j_lease_until (take_job w now s r) = Some (now + seconds s)"
  "j_cancel_requested (take_job w now s r) = j_cancel_requested r"
  "j_operation_id (take_job w now s r) = j_operation_id r"
  "j_max_attempts (take_job w now s r) = j_max_attempts r"
  "j_finished_at (take_job w now s r) = j_finished_at r"
  "j_attempts (take_job w now s r) =
     (if j_cancel_requested r then j_attempts r else j_attempts r + 1)"
  by (simp_all add: take_job_def)

lemma cancel_values_simps [simp]:
  "j_id (cancel_values now r) = j_id r"
  "j_kind (cancel_values now r) = j_kind r"
  "j_cancel_requested (cancel_values now r) = True"
  "j_operation_id (cancel_values now r) = j_operation_id r"
  "j_attempts (cancel_values now r) = j_attempts r"
  "j_max_attempts (cancel_values now r) = j_max_attempts r"
  "j_lease_owner (cancel_values now r) = j_lease_owner r"
  "j_lease_until (cancel_values now r) = j_lease_until r"
  by (simp_all add: cancel_values_def Let_def)

lemma cancel_values_ok: "cancellable i r \<Longrightarrow> job_ok r \<Longrightarrow> job_ok (cancel_values now r)"
  by (cases "j_kind r = external_action_execute"; cases "j_state r")
     (simp_all add: cancellable_def job_ok_def job_finished_def cancel_values_def Let_def)

lemma acquire_lease_SomeD:
  assumes "acquire_lease locked w now s t = (Some l, t')"
  obtains d where "d \<in> set t" "job_due now d" "\<not> locked (j_id d)"
    "\<And>q. q \<in> set t \<Longrightarrow> job_due now q \<Longrightarrow> \<not> locked (j_id q) \<Longrightarrow> j_next_run_at d \<le> j_next_run_at q"
    "l = leased_of (take_job w now s d)"
    "t' = update_where (\<lambda>r. j_id r = j_id d) (take_job w now s) t"
  using assms
  by (auto simp: acquire_lease_def dest: select_first_SomeD split: option.splits)

lemma acquire_lease_NoneD:
  assumes "acquire_lease locked w now s t = (None, t')"
  shows "t' = t" and "\<And>r. r \<in> set t \<Longrightarrow> job_due now r \<Longrightarrow> locked (j_id r)"
  using assms by (auto simp: acquire_lease_def split: option.splits)

lemma find_cancellable:
  "find (cancellable i) t = Some r \<Longrightarrow> r \<in> set t \<and> cancellable i r"
  by (auto simp: find_Some_iff)

lemma request_cancellation_jobs:
  "fst (snd (request_cancellation i now t ops)) =
     update_where (cancellable i) (cancel_values now) t"
  by (auto simp: request_cancellation_def Let_def find_None_iff update_where_no_match
      split: option.splits)

lemma held_unfinished [simp]:
  "job_held i w r \<Longrightarrow> \<not> job_finished r"
  "job_held_uncancelled i w r \<Longrightarrow> \<not> job_finished r"
  by (simp_all add: job_held_def job_held_uncancelled_def job_finished_def)

lemma held_uncancelledD:
  "job_held_uncancelled i w r \<Longrightarrow> j_state r = JobLeased"
  "job_held_uncancelled i w r \<Longrightarrow> \<not> j_cancel_requested r"
  by (simp_all add: job_held_def job_held_uncancelled_def)

lemma job_okD:
  "job_ok r \<Longrightarrow> 0 \<le> j_attempts r"
  "job_ok r \<Longrightarrow> j_state r = JobLeased \<Longrightarrow> j_finished_at r = None"
  "job_ok r \<Longrightarrow> j_state r = JobLeased \<Longrightarrow> \<not> j_cancel_requested r \<Longrightarrow> 1 \<le> j_attempts r"
  by (auto simp: job_ok_def job_finished_def)

lemma deferred_ok:
  "job_held_uncancelled i w r \<Longrightarrow> job_ok r \<Longrightarrow>
   job_ok (r\<lparr>j_state := JobQueued, j_attempts := j_attempts r - 1, j_next_run_at := nx,
            j_lease_owner := None, j_lease_until := None\<rparr>)"
  by (frule held_uncancelledD(1), frule held_uncancelledD(2))
     (simp add: job_ok_def job_finished_def)

lemma ended_ok:
  "job_ok r \<Longrightarrow> job_finished q \<Longrightarrow> j_lease_owner q = None \<Longrightarrow> j_lease_until q = None \<Longrightarrow>
   j_finished_at q \<noteq> None \<Longrightarrow> j_attempts q = j_attempts r \<Longrightarrow> job_ok q"
  by (auto simp: job_ok_def job_finished_def)

lemma requeued_ok:
  "j_state q = JobQueued \<Longrightarrow> \<not> j_cancel_requested q \<Longrightarrow> j_lease_owner q = None \<Longrightarrow>
   j_lease_until q = None \<Longrightarrow> j_finished_at q = None \<Longrightarrow> 0 \<le> j_attempts q \<Longrightarrow> job_ok q"
  by (simp add: job_ok_def job_finished_def)

section \<open>All writes as one relation\<close>

inductive job_write :: "'p jobs \<Rightarrow> 'p jobs \<Rightarrow> bool" where
  jw_enqueue: "enqueue_job fresh known kind p now mx nx op dd t = Inr (a, t') \<Longrightarrow> job_write t t'"
| jw_acquire: "acquire_lease locked w now s t = (l, t') \<Longrightarrow> job_write t t'"
| jw_extend: "extend_lease i w now s t = (b, t') \<Longrightarrow> job_write t t'"
| jw_succeeded: "job_write t (snd (job_finish_succeeded i w now t))"
| jw_failed: "job_write t (snd (job_finish_failed i w now e t))"
| jw_owned: "job_finish_owned i w now st e t = Some (b, t') \<Longrightarrow> job_write t t'"
| jw_cancelled: "job_write t (snd (job_finish_cancelled i w now t))"
| jw_requeue: "job_write t (snd (requeue_for_retry i w now nx e t))"
| jw_defer: "job_write t (snd (defer_unready_job i w nx t))"
| jw_cancel: "request_cancellation i now t ops = (st, t', ops') \<Longrightarrow> job_write t t'"

text \<open>One write appends a fresh queued row, or updates the rows of one id in place.\<close>

lemma job_write_shape:
  assumes "job_write t t'"
  shows "t' = t \<or> (\<exists>r. t' = t @ [r] \<and> j_id r \<notin> j_id ` set t \<and> j_state r = JobQueued \<and>
                      job_ok r) \<or>
         (\<exists>P f. t' = update_where P f t \<and>
            (\<forall>r. P r \<longrightarrow> j_id (f r) = j_id r \<and>
                 (unique_by j_id t \<and> r \<in> set t \<longrightarrow> \<not> job_finished r \<and> (job_ok r \<longrightarrow> job_ok (f r)))))"
  using assms
proof (cases rule: job_write.cases)
  case (jw_enqueue fresh known kind p now mx nx op dd a)
  then show ?thesis
    by (auto dest!: enqueue_job_InrD simp: new_job_def job_ok_def job_finished_def)
next
  case (jw_acquire locked w now s l)
  show ?thesis
  proof (cases l)
    case None
    with jw_acquire show ?thesis by (simp add: acquire_lease_NoneD)
  next
    case (Some l')
    with jw_acquire obtain d where d: "d \<in> set t" "job_due now d"
      and t': "t' = update_where (\<lambda>r. j_id r = j_id d) (take_job w now s) t"
      by (auto elim: acquire_lease_SomeD)
    have *: "\<not> job_finished r \<and> (job_ok r \<longrightarrow> job_ok (take_job w now s r))"
      if "unique_by j_id t" "r \<in> set t" "j_id r = j_id d" for r
    proof -
      have "r = d" using that d(1) by (blast intro: unique_by_eqD)
      with d(2) show ?thesis
        by (auto simp: job_due_def job_finished_def job_ok_def)
    qed
    show ?thesis
      by (intro disjI2 exI conjI, rule t') (use * in simp)
  qed
next
  case (jw_extend i w now s b)
  then have "t' = update_where (job_held i w)
      (\<lambda>r. r\<lparr>j_lease_until := Some (now + seconds s)\<rparr>) t"
    by (simp add: extend_lease_def)
  then show ?thesis
    by (intro disjI2 exI conjI, assumption) (auto simp: job_held_def job_finished_def job_ok_def)
next
  case (jw_cancel i now ops st ops')
  then have "t' = update_where (cancellable i) (cancel_values now) t"
    using request_cancellation_jobs [of i now t ops] by simp
  then show ?thesis
    by (intro disjI2 exI conjI, assumption)
       (auto intro: cancel_values_ok simp: cancellable_def job_finished_def)
next
  case (jw_owned i w now st e b)
  then have t': "t' = update_where (job_held i w)
      (\<lambda>r. r\<lparr>j_state := st, j_finished_at := Some now, j_lease_owner := None,
             j_lease_until := None, j_last_error := e\<rparr>) t"
    and st: "st = JobSucceeded \<or> st = JobFailed"
    by (auto simp: job_finish_owned_def apply_where_def split: if_splits)
  show ?thesis
    by (intro disjI2 exI conjI, rule t')
       (use st in \<open>elim disjE; simp add: ended_ok job_finished_def job_held_def\<close>)
next
  case (jw_succeeded i w now)
  show ?thesis
    unfolding jw_succeeded(1) job_finish_succeeded_def snd_apply_where
    by (intro disjI2 exI conjI, rule refl) (simp add: held_uncancelledD ended_ok job_finished_def)
next
  case (jw_failed i w now e)
  show ?thesis
    unfolding jw_failed(1) job_finish_failed_def snd_apply_where
    by (intro disjI2 exI conjI, rule refl) (simp add: held_uncancelledD ended_ok job_finished_def)
next
  case (jw_cancelled i w now)
  show ?thesis
    unfolding jw_cancelled(1) job_finish_cancelled_def snd_apply_where
    by (intro disjI2 exI conjI, rule refl) (simp add: job_held_def ended_ok job_finished_def)
next
  case (jw_requeue i w now nx e)
  show ?thesis
    unfolding jw_requeue(1) requeue_for_retry_def snd_apply_where
    by (intro disjI2 exI conjI, rule refl)
       (simp add: requeued_ok job_okD held_uncancelledD)
next
  case (jw_defer i w nx)
  show ?thesis
    unfolding jw_defer(1) defer_unready_job_def snd_apply_where
    by (intro disjI2 exI conjI, rule refl) (simp add: deferred_ok)
qed

lemma job_write_ok:
  assumes "job_write t t'" "jobs_ok t"
  shows "jobs_ok t'"
  using job_write_shape [OF assms(1)]
proof (elim disjE exE conjE)
  fix P f
  assume "t' = update_where P f t"
    and "\<forall>r. P r \<longrightarrow> j_id (f r) = j_id r \<and>
      (unique_by j_id t \<and> r \<in> set t \<longrightarrow> \<not> job_finished r \<and> (job_ok r \<longrightarrow> job_ok (f r)))"
  with assms(2) show ?thesis
    by (simp add: jobs_ok_def unique_update_where)
qed (use assms(2) in \<open>auto simp: jobs_ok_def unique_by_def\<close>)

text \<open>A finished row is never changed by a write of the module.\<close>

lemma job_write_finished:
  assumes "job_write t t'" "unique_by j_id t" "lookup_by j_id i t = Some r" "job_finished r"
  shows "lookup_by j_id i t' = Some r"
  using job_write_shape [OF assms(1)]
proof (elim disjE exE conjE)
  fix P f
  assume t': "t' = update_where P f t"
    and P: "\<forall>r. P r \<longrightarrow> j_id (f r) = j_id r \<and>
      (unique_by j_id t \<and> r \<in> set t \<longrightarrow> \<not> job_finished r \<and> (job_ok r \<longrightarrow> job_ok (f r)))"
  from assms(3) have "r \<in> set t" by (rule lookup_by_in)
  with P assms(2,4) have "\<not> P r" by blast
  with t' P assms(3) show ?thesis
    by (simp add: lookup_by_update_where)
qed (use assms(3) in \<open>auto simp: lookup_by_append\<close>)

interpretation jobs: lifecycle "\<lambda>t i. lookup_by j_id i t"
  "\<lambda>t t'. jobs_ok t \<and> job_write t t'" job_finished
  by unfold_locales (auto simp: jobs_ok_def intro: job_write_finished)

section \<open>Jobs are leased\<close>

definition job_holds :: "'p jobs \<Rightarrow> uuid \<Rightarrow> string \<Rightarrow> bool" where
  "job_holds t i w \<longleftrightarrow> (\<exists>r. lookup_by j_id i t = Some r \<and> job_held i w r)"

text \<open>The writes by which a worker ends an attempt, where they applied.\<close>

inductive job_finish :: "string \<Rightarrow> uuid \<Rightarrow> 'p jobs \<Rightarrow> 'p jobs \<Rightarrow> bool" where
  jf_succeeded: "job_finish_succeeded i w now t = (True, t') \<Longrightarrow> job_finish w i t t'"
| jf_failed: "job_finish_failed i w now e t = (True, t') \<Longrightarrow> job_finish w i t t'"
| jf_owned: "job_finish_owned i w now st e t = Some (True, t') \<Longrightarrow> job_finish w i t t'"
| jf_cancelled: "job_finish_cancelled i w now t = (True, t') \<Longrightarrow> job_finish w i t t'"
| jf_requeue: "requeue_for_retry i w now nx e t = (True, t') \<Longrightarrow> job_finish w i t t'"
| jf_defer: "defer_unready_job i w nx t = (True, t') \<Longrightarrow> job_finish w i t t'"

text \<open>Every one of them is a predicated write on the job's key that releases the lease.\<close>

lemma job_finish_shape:
  assumes "job_finish w i t t'"
  shows "\<exists>P f. apply_where P f t = (True, t') \<and>
     (\<forall>r. P r \<longrightarrow> job_held i w r \<and> j_id (f r) = j_id r \<and> j_state (f r) \<noteq> JobLeased)"
  using assms
proof (cases rule: job_finish.cases)
  case (jf_owned now st e)
  then have a: "apply_where (job_held i w)
      (\<lambda>r. r\<lparr>j_state := st, j_finished_at := Some now, j_lease_owner := None,
             j_lease_until := None, j_last_error := e\<rparr>) t = (True, t')"
    and st: "st \<noteq> JobLeased"
    by (auto simp: job_finish_owned_def split: if_splits)
  show ?thesis
    by (intro exI conjI, rule a) (simp add: st)
next
  case (jf_succeeded now)
  show ?thesis
    by (intro exI conjI, rule jf_succeeded [unfolded job_finish_succeeded_def]) (simp add: job_held_uncancelled_def)
next
  case (jf_failed now e)
  show ?thesis
    by (intro exI conjI, rule jf_failed [unfolded job_finish_failed_def]) (simp add: job_held_uncancelled_def)
next
  case (jf_cancelled now)
  show ?thesis
    by (intro exI conjI, rule jf_cancelled [unfolded job_finish_cancelled_def]) (simp add: job_held_uncancelled_def)
next
  case (jf_requeue now nx e)
  show ?thesis
    by (intro exI conjI, rule jf_requeue [unfolded requeue_for_retry_def]) (simp add: job_held_uncancelled_def)
next
  case (jf_defer nx)
  show ?thesis
    by (intro exI conjI, rule jf_defer [unfolded defer_unready_job_def]) (simp add: job_held_uncancelled_def)
qed

lemma job_finish_effect:
  assumes "unique_by j_id t" "job_finish w i t t'"
  obtains r r' where "lookup_by j_id i t = Some r" "job_held i w r"
    "lookup_by j_id i t' = Some r'" "j_state r' \<noteq> JobLeased"
    "\<And>j. j \<noteq> i \<Longrightarrow> lookup_by j_id j t' = lookup_by j_id j t"
proof -
  from job_finish_shape [OF assms(2)] obtain P f where a: "apply_where P f t = (True, t')"
    and P: "\<And>r. P r \<Longrightarrow> job_held i w r \<and> j_id (f r) = j_id r \<and> j_state (f r) \<noteq> JobLeased"
    by blast
  have pw: "predicated_write j_id P f i"
    by (rule predicated_writeI) (use P in \<open>auto simp: job_held_def\<close>)
  show thesis
    using predicated_write.applied_row [OF pw assms(1)] predicated_write.other_rows [OF pw] a P that
    by (metis fst_conv snd_conv)
qed

interpretation job_lease: lease_protocol job_holds
  "\<lambda>w i t t'. unique_by j_id t \<and> job_finish w i t t'"
proof
  fix t :: "'a jobs" and i w v
  assume "job_holds t i w" "job_holds t i v"
  then show "v = w" by (auto simp: job_holds_def job_held_def)
next
  fix w i and t t' :: "'a jobs"
  assume "unique_by j_id t \<and> job_finish w i t t'"
  then show "job_holds t i w"
    by (auto elim: job_finish_effect simp: job_holds_def)
next
  fix w i and t t' :: "'a jobs" and v
  assume "unique_by j_id t \<and> job_finish w i t t'"
  then show "\<not> job_holds t' i v"
    by (auto elim!: job_finish_effect simp: job_holds_def job_held_def)
next
  fix w i and t t' :: "'a jobs" and j v
  assume "unique_by j_id t \<and> job_finish w i t t'" "j \<noteq> i"
  then show "job_holds t' j v = job_holds t j v"
    by (auto elim!: job_finish_effect simp: job_holds_def)
qed

end
