(* ===== verification/Work_Operations.thy ===== *)
theory Work_Operations
  imports Outbox Jobs
begin

text \<open>
  \<^verbatim>\<open>rheo_core/work/operations.py\<close>: the two reads over failures and the three writes a person
  makes to move a delivery out of \<^verbatim>\<open>failed\<close> (retry, skip, replay), each with its gates in
  the code's order. A refusal is \<open>Inl\<close>; the answer carries whether a due mark was asked for.
\<close>

datatype work_refusal =
    Operation_Not_Permitted | Delivery_Not_Found | Delivery_State | Consumers_Missing
  | Consumer_Unknown | Replay_Unsafe | Consumer_Not_Enabled | Replay_Gap
  | Delivery_In_Flight | Retention_Missing

text \<open>What the handlers read of the context. \<open>wc_token_kind\<close> is the kind of the actor's token
  row as the control plane holds it now, \<open>None\<close> when there is no such row.\<close>

record work_context =
  wc_actor_is_token :: bool
  wc_token_kind :: "string option"
  wc_enabled_modules :: "string list"
  wc_consumers :: "registry option"

definition person_held_token_kinds :: "string list" where
  "person_held_token_kinds = [''cli'']"

definition refuse_model_held :: "work_context \<Rightarrow> work_refusal option" where
  "refuse_model_held ctx =
     (if \<not> wc_actor_is_token ctx then None
      else case wc_token_kind ctx of
             None \<Rightarrow> Some Operation_Not_Permitted
           | Some k \<Rightarrow> if k \<in> set person_held_token_kinds then None
                     else Some Operation_Not_Permitted)"

definition must_be_failed :: "uuid \<times> string \<Rightarrow> deliveries \<Rightarrow> work_refusal option" where
  "must_be_failed k t =
     (case delivery_state_of k t of
        None \<Rightarrow> Some Delivery_Not_Found
      | Some s \<Rightarrow> if s \<noteq> DFailed then Some Delivery_State else None)"

section \<open>Retry and skip\<close>

definition retry_handler ::
  "work_context \<Rightarrow> uuid \<times> string \<Rightarrow> instant \<Rightarrow> 'v event_store \<Rightarrow>
   work_refusal + delivery_state \<times> 'v event_store" where
  "retry_handler ctx k now es =
     (case refuse_model_held ctx of Some e \<Rightarrow> Inl e
      | None \<Rightarrow>
     (case must_be_failed k (es_deliveries es) of Some e \<Rightarrow> Inl e
      | None \<Rightarrow>
     (case retry_delivery k now (es_deliveries es) of
        (False, _) \<Rightarrow> Inl Delivery_State
      | (True, t) \<Rightarrow> Inr (DPending, es\<lparr>es_deliveries := t\<rparr>))))"

definition skip_handler ::
  "work_context \<Rightarrow> uuid \<times> string \<Rightarrow> string \<Rightarrow> instant \<Rightarrow> 'v event_store \<Rightarrow>
   work_refusal + delivery_state \<times> 'v event_store" where
  "skip_handler ctx k note now es =
     (case refuse_model_held ctx of Some e \<Rightarrow> Inl e
      | None \<Rightarrow>
     (case must_be_failed k (es_deliveries es) of Some e \<Rightarrow> Inl e
      | None \<Rightarrow>
     (case skip_delivery k now (Some note) (es_deliveries es) of
        (False, _) \<Rightarrow> Inl Delivery_State
      | (True, t) \<Rightarrow> Inr (DSkipped, es\<lparr>es_deliveries := t\<rparr>))))"

section \<open>Replay\<close>

text \<open>The earliest position a replay can start from.\<close>

definition replay_horizon :: "int option \<Rightarrow> int option \<Rightarrow> int option" where
  "replay_horizon oldest swept =
     (case oldest of None \<Rightarrow> None
      | Some p \<Rightarrow> Some (case swept of None \<Rightarrow> p | Some w \<Rightarrow> max p (w + 1)))"

definition subscription_enabled :: "work_context \<Rightarrow> subscription \<Rightarrow> bool" where
  "subscription_enabled ctx s \<longleftrightarrow>
     is_reserved_module (s_module_id s) \<or> s_module_id s \<in> set (wc_enabled_modules ctx)"

definition replay_handler ::
  "work_context \<Rightarrow> string \<Rightarrow> int \<Rightarrow> instant \<Rightarrow> 'v event_store \<Rightarrow>
   work_refusal + (nat \<times> nat) \<times> bool \<times> 'v event_store" where
  "replay_handler ctx consumer from_position now es =
     (case refuse_model_held ctx of Some e \<Rightarrow> Inl e
      | None \<Rightarrow>
     (case wc_consumers ctx of None \<Rightarrow> Inl Consumers_Missing
      | Some reg \<Rightarrow>
     (case lookup_consumer consumer reg of None \<Rightarrow> Inl Consumer_Unknown
      | Some sub \<Rightarrow>
        if \<not> s_replay_safe sub then Inl Replay_Unsafe
        else if \<not> subscription_enabled ctx sub then Inl Consumer_Not_Enabled
        else
     (case swept_through_position es of Inl _ \<Rightarrow> Inl Retention_Missing
      | Inr swept \<Rightarrow>
     (case replay_horizon (oldest_retained_position (es_outbox es)) swept of
        None \<Rightarrow> Inl Replay_Gap
      | Some h \<Rightarrow>
        if from_position < h then Inl Replay_Gap
        else if lock_for_replay consumer from_position (es_deliveries es) \<noteq> None
        then Inl Delivery_In_Flight
        else
          (let ((reset, created), t, led) =
                 replay_deliveries consumer (s_event_type sub) from_position now
                   (es_outbox es) (es_deliveries es) (es_ledger es)
           in Inr ((reset, created), reset \<noteq> 0 \<or> created \<noteq> 0,
                   es\<lparr>es_deliveries := t, es_ledger := led\<rparr>)))))))"

section \<open>The reads\<close>

definition failures_handler ::
  "nat \<Rightarrow> 'p jobs \<Rightarrow> deliveries \<Rightarrow> failed_job_row list \<times> failed_delivery_row list" where
  "failures_handler limit jobs deliveries =
     (list_failed_jobs limit jobs, list_failed_deliveries limit deliveries)"

record failure_summary =
  fs_failed_count :: nat
  fs_blocked_count :: nat
  fs_oldest_failed_at :: "instant option"
  fs_unresolved_count :: nat

definition failure_summary_handler :: "deliveries \<Rightarrow> operations \<Rightarrow> failure_summary" where
  "failure_summary_handler t ops =
     (let d = delivery_failure_counts_of t
      in \<lparr>fs_failed_count = fc_failed_count d, fs_blocked_count = fc_blocked_count d,
          fs_oldest_failed_at = fc_oldest_failed_at d,
          fs_unresolved_count = count_unresolved ops\<rparr>)"

section \<open>What a handler that succeeds has checked\<close>

lemma retry_handler_InrD:
  "retry_handler ctx k now es = Inr (s, es') \<Longrightarrow>
     es' = es\<lparr>es_deliveries := snd (retry_delivery k now (es_deliveries es))\<rparr> \<and> s = DPending"
  by (auto simp: retry_handler_def split: option.splits prod.splits bool.splits)

lemma skip_handler_InrD:
  "skip_handler ctx k note now es = Inr (s, es') \<Longrightarrow>
     es' = es\<lparr>es_deliveries := snd (skip_delivery k now (Some note) (es_deliveries es))\<rparr> \<and>
     s = DSkipped"
  by (auto simp: skip_handler_def split: option.splits prod.splits bool.splits)

lemma lock_for_replay_None:
  "lock_for_replay c p t = None \<longleftrightarrow> (\<forall>r \<in> set t. in_replay_range c p r \<longrightarrow> d_state r \<noteq> DLeased)"
  by (auto simp: lock_for_replay_def find_None_iff)

lemma replay_handler_InrD:
  assumes "replay_handler ctx c p now es = Inr (n, due, es')"
  obtains reg sub swept h where
    "wc_consumers ctx = Some reg" "lookup_consumer c reg = Some sub" "s_replay_safe sub"
    "subscription_enabled ctx sub" "es_swept es = Some swept"
    "replay_horizon (oldest_retained_position (es_outbox es)) swept = Some h" "h \<le> p"
    "\<And>r. r \<in> set (es_deliveries es) \<Longrightarrow> in_replay_range c p r \<Longrightarrow> d_state r \<noteq> DLeased"
    "(n, es_deliveries es', es_ledger es') =
       replay_deliveries c (s_event_type sub) p now (es_outbox es) (es_deliveries es)
         (es_ledger es)"
    "es_outbox es' = es_outbox es" "es_swept es' = es_swept es"
proof (cases "wc_consumers ctx")
  case None
  with assms show ?thesis by (simp add: replay_handler_def split: option.splits)
next
  case (Some reg)
  from assms Some obtain sub where sub: "lookup_consumer c reg = Some sub"
    by (auto simp: replay_handler_def split: option.splits)
  from assms Some sub obtain swept where swept: "es_swept es = Some swept"
    by (auto simp: replay_handler_def swept_through_position_def
        split: option.splits if_splits)
  from assms Some sub swept obtain h where
    h: "replay_horizon (oldest_retained_position (es_outbox es)) swept = Some h"
    by (auto simp: replay_handler_def swept_through_position_def
        split: option.splits if_splits)
  show ?thesis
    by (rule that [OF Some sub _ _ swept h])
       (use assms Some sub swept h in \<open>auto simp: replay_handler_def swept_through_position_def
          lock_for_replay_None Let_def split: option.splits if_splits prod.splits\<close>)
qed

lemma replay_handler_due:
  assumes "replay_handler ctx c p now es = Inr (n, due, es')"
  shows "due = (fst n \<noteq> 0 \<or> snd n \<noteq> 0)"
  using assms
  by (auto simp: replay_handler_def Let_def split: option.splits if_splits sum.splits prod.splits)

end
