(* ===== verification/Job_Worker.thy ===== *)
theory Job_Worker
  imports Jobs Backoff
begin

text \<open>
  The job half of \<^verbatim>\<open>rheo_core/work/loop.py\<close>, with \<^verbatim>\<open>work/kinds.py\<close> (the kind registry) and
  \<^verbatim>\<open>work/cancellation.py\<close> (the checkpoint).

  A transaction is one atomic function on the database and takes effect at its commit. Between
  two transactions of a worker anything may happen; \<open>pc\<close> is where a worker is between them.
  A handler is a parameter: \<open>handler_outcome\<close> is what it did, with its effects outside
  these tables as an opaque \<open>'x\<close> and its own writes to them as the database \<open>db1\<close> it leaves.
  The module lock and the readiness test are the flag \<open>ready\<close>.
\<close>

section \<open>The kind registry\<close>

text \<open>\<open>k_check\<close> is the input model's validation: \<open>None\<close> accepts, \<open>Some\<close> is the detail text.\<close>

record 'p job_kind =
  k_name :: string
  k_check :: "'p \<Rightarrow> string option"

record 'p kind_registry =
  kr_kinds :: "'p job_kind list"
  kr_continuations :: "string list"

datatype kind_error = Not_Core_Kind | Already_Ordinary | Empty_Kind | Already_Continuation

definition starts_with :: "string \<Rightarrow> string \<Rightarrow> bool" where
  "starts_with s prefix \<longleftrightarrow> take (length prefix) s = prefix"

definition lookup_kind :: "string \<Rightarrow> 'p kind_registry \<Rightarrow> 'p job_kind option" where
  "lookup_kind kind reg = lookup_by k_name kind (kr_kinds reg)"

definition continuation_for :: "string \<Rightarrow> 'p kind_registry \<Rightarrow> bool" where
  "continuation_for kind reg \<longleftrightarrow> kind \<in> set (kr_continuations reg)"

definition register_continuation ::
  "string \<Rightarrow> 'p kind_registry \<Rightarrow> kind_error + 'p kind_registry" where
  "register_continuation kind reg =
     (if \<not> starts_with kind ''core.'' then Inl Not_Core_Kind
      else if lookup_kind kind reg \<noteq> None then Inl Already_Ordinary
      else Inr (if continuation_for kind reg then reg
                else reg\<lparr>kr_continuations := kr_continuations reg @ [kind]\<rparr>))"

definition register_kind ::
  "string \<Rightarrow> ('p \<Rightarrow> string option) \<Rightarrow> 'p kind_registry \<Rightarrow> kind_error + 'p kind_registry" where
  "register_kind kind check reg =
     (if kind = [] then Inl Empty_Kind
      else if continuation_for kind reg then Inl Already_Continuation
      else if lookup_kind kind reg \<noteq> None
      then Inr (reg\<lparr>kr_kinds := update_where (\<lambda>k. k_name k = kind)
                     (\<lambda>_. \<lparr>k_name = kind, k_check = check\<rparr>) (kr_kinds reg)\<rparr>)
      else Inr (reg\<lparr>kr_kinds := kr_kinds reg @ [\<lparr>k_name = kind, k_check = check\<rparr>]\<rparr>))"

section \<open>The database a worker writes\<close>

text \<open>\<open>wd_effects\<close>: the committed effects of ordinary handlers, each with its job, oldest
  first; \<open>wd_settlements\<close> the same for continuations.\<close>

record ('p, 'x) work_db =
  wd_jobs :: "'p jobs"
  wd_ops :: operations
  wd_effects :: "(uuid \<times> 'x) list"
  wd_settlements :: "(uuid \<times> 'x) list"

definition lease_seconds :: int where "lease_seconds = 60"
definition heartbeat_seconds :: int where "heartbeat_seconds = 20"
definition unready_seconds :: int where "unready_seconds = 60"

definition retry_budget_exhausted :: string where
  "retry_budget_exhausted =
     ''retry budget exhausted: lease expired without a recorded outcome''"

definition job_failed_code :: string where
  "job_failed_code = ''job_failed''"

section \<open>The shared shapes of a terminal write\<close>

text \<open>Over any database \<open>'d\<close>: the job half and the delivery half share these two.\<close>

definition finish_alone ::
  "('d \<Rightarrow> bool \<times> 'd) \<Rightarrow> 'd \<Rightarrow> bool \<times> 'd" where
  "finish_alone write db = (let (applied, db') = write db in (applied, db'))"

definition unless_unready ::
  "bool \<Rightarrow> ('d \<Rightarrow> bool \<times> 'd) \<Rightarrow> ('d \<Rightarrow> bool \<times> 'd) \<Rightarrow> 'd \<Rightarrow> bool \<times> 'd" where
  "unless_unready ready write defer db = (if \<not> ready then defer db else write db)"

definition with_operation ::
  "uuid option \<Rightarrow> ('p jobs \<Rightarrow> bool \<times> 'p jobs) \<Rightarrow> (uuid \<Rightarrow> operations \<Rightarrow> bool \<times> operations) \<Rightarrow>
   ('p, 'x) work_db \<Rightarrow> bool \<times> ('p, 'x) work_db" where
  "with_operation operation_id finish_job finish_op db =
     (let (applied, t) = finish_job (wd_jobs db);
          db1 = db\<lparr>wd_jobs := t\<rparr>
      in case operation_id of
           None \<Rightarrow> (applied, db1)
         | Some i \<Rightarrow>
             if applied then (applied, db1\<lparr>wd_ops := snd (finish_op i (wd_ops db1))\<rparr>)
             else (applied, db1))"

definition on_jobs ::
  "('p jobs \<Rightarrow> bool \<times> 'p jobs) \<Rightarrow> ('p, 'x) work_db \<Rightarrow> bool \<times> ('p, 'x) work_db" where
  "on_jobs write db = (let (applied, t) = write (wd_jobs db) in (applied, db\<lparr>wd_jobs := t\<rparr>))"

text \<open>The re-read under a cancellation: still leased, still this worker's, and flagged.\<close>

definition cancel_requested_and_ours :: "uuid \<Rightarrow> string \<Rightarrow> ('p, 'x) work_db \<Rightarrow> bool" where
  "cancel_requested_and_ours i owner db =
     (case lookup_by j_id i (wd_jobs db) of
        None \<Rightarrow> False
      | Some r \<Rightarrow> j_state r = JobLeased \<and> j_lease_owner r = Some owner \<and> j_cancel_requested r)"

definition resolve_zero_rowcount ::
  "uuid \<Rightarrow> uuid option \<Rightarrow> string \<Rightarrow> instant \<Rightarrow> ('p, 'x) work_db \<Rightarrow> ('p, 'x) work_db" where
  "resolve_zero_rowcount i operation_id owner now db =
     (if cancel_requested_and_ours i owner db
      then snd (with_operation operation_id (job_finish_cancelled i owner now)
                  (\<lambda>o_i. op_finish_cancelled o_i now) db)
      else db)"

section \<open>Where a worker is\<close>

datatype continuation_mode = Mode_Run | Mode_Cancel_Requested | Mode_Budget_Recovery

datatype disposition =
  Disp_Succeeded | Disp_Handled_Terminal | Disp_Retry | Disp_Failed | Disp_Cancelled

text \<open>
  \<open>P_Leased\<close> before the gates, \<open>P_Handler\<close> while the handler runs, \<open>P_Failed\<close> and \<open>P_Unready\<close>
  after its transaction rolled back, \<open>P_Resolve\<close> before the zero-rowcount branch. The \<open>P_Cont\<close>
  places are those of \<^verbatim>\<open>_run_continuation\<close>, with the iterations its loop has left.
\<close>

datatype 'p pc =
    P_Idle
  | P_Leased "'p leased_job" instant
  | P_Handler "'p leased_job"
  | P_Failed "'p leased_job" string
  | P_Unready "'p leased_job"
  | P_Resolve "'p leased_job" "instant option"
  | P_Cont "'p leased_job" continuation_mode nat
  | P_Cont_Failed "'p leased_job" continuation_mode nat string
  | P_Cont_Check "'p leased_job" continuation_mode nat

text \<open>Python's \<^verbatim>\<open>repr\<close> of a string whose characters are printable ASCII.\<close>

definition py_repr :: "string \<Rightarrow> string" where
  "py_repr s =
     (let q = (if CHR 0x27 \<in> set s \<and> CHR 0x22 \<notin> set s then CHR 0x22 else CHR 0x27)
      in [q] @ concat (map (\<lambda>c. if c = q \<or> c = CHR 0x5C then [CHR 0x5C, c] else [c]) s) @ [q])"

definition unknown_kind_error :: "string \<Rightarrow> string" where
  "unknown_kind_error kind = ''no handler is registered for job kind '' @ py_repr kind"

definition rejected_input_error :: "string \<Rightarrow> string \<Rightarrow> string" where
  "rejected_input_error kind detail =
     ''job kind '' @ py_repr kind @ '' rejected its stored input: '' @ detail"

section \<open>From the lease to the handler\<close>

definition fail_terminally ::
  "bool \<Rightarrow> instant \<Rightarrow> 'p leased_job \<Rightarrow> string \<Rightarrow> instant \<Rightarrow> string \<Rightarrow> ('p, 'x) work_db \<Rightarrow>
   'p pc \<times> ('p, 'x) work_db" where
  "fail_terminally ready clock l owner now error db =
     (let (applied, db') =
        finish_alone
          (unless_unready ready
             (with_operation (l_operation_id l) (job_finish_failed (l_id l) owner now error)
                (\<lambda>i. op_finish_failed i now job_failed_code error))
             (on_jobs (defer_unready_job (l_id l) owner (clock + seconds unready_seconds)))) db
      in (if applied then P_Idle else P_Resolve l (Some now), db'))"

definition continuation_mode_of :: "'p leased_job \<Rightarrow> continuation_mode" where
  "continuation_mode_of l =
     (if l_cancel_requested l then Mode_Cancel_Requested
      else if l_max_attempts l < l_attempts l then Mode_Budget_Recovery else Mode_Run)"

definition run_leased_job ::
  "'p kind_registry \<Rightarrow> bool \<Rightarrow> instant \<Rightarrow> 'p leased_job \<Rightarrow> string \<Rightarrow> instant \<Rightarrow> ('p, 'x) work_db \<Rightarrow>
   'p pc \<times> ('p, 'x) work_db" where
  "run_leased_job kinds ready clock l owner now db =
     (if continuation_for (l_kind l) kinds
      then (P_Cont l (continuation_mode_of l) 2, db)
      else if l_cancel_requested l
      then (P_Idle,
            snd (finish_alone
              (with_operation (l_operation_id l) (job_finish_cancelled (l_id l) owner now)
                 (\<lambda>i. op_finish_cancelled i now)) db))
      else if l_max_attempts l < l_attempts l
      then (P_Idle,
            snd (finish_alone
              (with_operation (l_operation_id l)
                 (job_finish_failed (l_id l) owner now retry_budget_exhausted)
                 (\<lambda>i. op_finish_failed i now job_failed_code retry_budget_exhausted)) db))
      else case lookup_kind (l_kind l) kinds of
             None \<Rightarrow> fail_terminally ready clock l owner now (unknown_kind_error (l_kind l)) db
           | Some k \<Rightarrow>
              (case k_check k (l_payload l) of
                 Some detail \<Rightarrow>
                   fail_terminally ready clock l owner now
                     (rejected_input_error (l_kind l) detail) db
               | None \<Rightarrow> (P_Handler l, db)))"

section \<open>The handler's transaction and its outcomes\<close>

text \<open>\<open>Stopped\<close>: the checkpoint raised \<^verbatim>\<open>JobCancelled\<close> or \<^verbatim>\<open>JobLeaseLost\<close>. \<open>Unready\<close>: the
  readiness check, or the handler, raised \<^verbatim>\<open>ModuleNotReady\<close>.\<close>

datatype ('p, 'x) handler_outcome =
    Handler_Done 'x "('p, 'x) work_db"
  | Handler_Stopped
  | Handler_Unready
  | Handler_Raised string

definition run_handler ::
  "('p, 'x) handler_outcome \<Rightarrow> instant \<Rightarrow> instant \<Rightarrow> 'p leased_job \<Rightarrow> string \<Rightarrow> ('p, 'x) work_db \<Rightarrow>
   'p pc \<times> ('p, 'x) work_db" where
  "run_handler outcome now finished_at l owner db =
     (case outcome of
        Handler_Stopped \<Rightarrow> (P_Resolve l None, db)
      | Handler_Unready \<Rightarrow> (P_Unready l, db)
      | Handler_Raised e \<Rightarrow> (P_Failed l e, db)
      | Handler_Done x db1 \<Rightarrow>
          (let (applied, t) = job_finish_succeeded (l_id l) owner now (wd_jobs db1)
           in if \<not> applied then (P_Resolve l None, db)
              else (P_Idle,
                    db1\<lparr>wd_jobs := t,
                        wd_ops :=
                          (case l_operation_id l of
                             None \<Rightarrow> wd_ops db1
                           | Some i \<Rightarrow>
                               snd (op_finish_succeeded i finished_at Handler_Returned
                                      finished_at None (wd_ops db1))),
                        wd_effects := wd_effects db1 @ [(l_id l, x)]\<rparr>)))"

definition defer_unready ::
  "instant \<Rightarrow> 'p leased_job \<Rightarrow> string \<Rightarrow> ('p, 'x) work_db \<Rightarrow> 'p pc \<times> ('p, 'x) work_db" where
  "defer_unready clock l owner db =
     (let (applied, db') =
        finish_alone (on_jobs (defer_unready_job (l_id l) owner
          (clock + seconds unready_seconds))) db
      in (if applied then P_Idle else P_Resolve l None, db'))"

definition write_failure_outcome ::
  "instant \<Rightarrow> (rat \<Rightarrow> rat \<Rightarrow> rat) option \<Rightarrow> 'p leased_job \<Rightarrow> string \<Rightarrow> string \<Rightarrow>
   ('p, 'x) work_db \<Rightarrow> bool \<times> ('p, 'x) work_db" where
  "write_failure_outcome now jitter l owner error db =
     (if l_max_attempts l \<le> l_attempts l
      then finish_alone
             (with_operation (l_operation_id l) (job_finish_failed (l_id l) owner now error)
                (\<lambda>i. op_finish_failed i now job_failed_code error)) db
      else finish_alone
             (on_jobs (requeue_for_retry (l_id l) owner now
                (now + backoff_for (l_attempts l) jitter) error)) db)"

definition handler_failed ::
  "instant \<Rightarrow> (rat \<Rightarrow> rat \<Rightarrow> rat) option \<Rightarrow> 'p leased_job \<Rightarrow> string \<Rightarrow> string \<Rightarrow>
   ('p, 'x) work_db \<Rightarrow> 'p pc \<times> ('p, 'x) work_db" where
  "handler_failed now jitter l owner error db =
     (let (applied, db') = write_failure_outcome now jitter l owner error db
      in (if applied then P_Idle else P_Resolve l None, db'))"

text \<open>The zero-rowcount branch runs under the instant it was handed, or a fresh reading.\<close>

definition resolve_place ::
  "instant \<Rightarrow> 'p leased_job \<Rightarrow> instant option \<Rightarrow> string \<Rightarrow> ('p, 'x) work_db \<Rightarrow>
   'p pc \<times> ('p, 'x) work_db" where
  "resolve_place clock l handed owner db =
     (P_Idle, resolve_zero_rowcount (l_id l) (l_operation_id l) owner
        (case handed of None \<Rightarrow> clock | Some n \<Rightarrow> n) db)"

section \<open>Continuations\<close>

text \<open>Python's \<^verbatim>\<open>detail or default\<close>: an empty text counts as none.\<close>

definition or_default :: "string option \<Rightarrow> string \<Rightarrow> string" where
  "or_default detail d =
     (case detail of None \<Rightarrow> d | Some e \<Rightarrow> if e = [] then d else e)"

definition finish_continuation_job ::
  "'p leased_job \<Rightarrow> string \<Rightarrow> continuation_mode \<Rightarrow> disposition \<Rightarrow> string option \<Rightarrow> instant \<Rightarrow>
   (rat \<Rightarrow> rat \<Rightarrow> rat) option \<Rightarrow> 'p jobs \<Rightarrow> bool \<times> 'p jobs" where
  "finish_continuation_job l owner mode disp detail now jitter t =
     (if disp = Disp_Cancelled then job_finish_cancelled (l_id l) owner now t
      else if disp = Disp_Retry
      then if mode = Mode_Cancel_Requested then (False, t)
           else requeue_for_retry (l_id l) owner now
                  (now + backoff_for (l_attempts l) jitter)
                  (or_default detail ''external continuation retry'') t
      else if mode = Mode_Cancel_Requested
      then the (job_finish_owned (l_id l) owner now
                  (if disp = Disp_Failed then JobFailed else JobSucceeded)
                  (if disp = Disp_Failed then detail else None) t)
      else if disp = Disp_Failed
      then job_finish_failed (l_id l) owner now
             (or_default detail ''external continuation failed'') t
      else job_finish_succeeded (l_id l) owner now t)"

text \<open>\<open>Inl e\<close>: the continuation, or the write, raised an exception of type \<open>e\<close>. \<open>Inr\<close>: it
  answered a disposition and a detail, with its settlement \<open>x\<close> and the database it left.\<close>

type_synonym ('p, 'x) continuation_outcome =
  "string + disposition \<times> string option \<times> 'x \<times> ('p, 'x) work_db"

definition run_continuation ::
  "('p, 'x) continuation_outcome \<Rightarrow> instant \<Rightarrow> (rat \<Rightarrow> rat \<Rightarrow> rat) option \<Rightarrow> 'p leased_job \<Rightarrow>
   continuation_mode \<Rightarrow> nat \<Rightarrow> string \<Rightarrow> ('p, 'x) work_db \<Rightarrow> 'p pc \<times> ('p, 'x) work_db" where
  "run_continuation outcome now jitter l mode n owner db =
     (case outcome of
        Inl e \<Rightarrow> (P_Cont_Failed l mode n e, db)
      | Inr (disp, detail, x, db1) \<Rightarrow>
          (let (applied, t) =
             finish_continuation_job l owner mode disp detail now jitter (wd_jobs db1)
           in if applied
              then (P_Idle, db1\<lparr>wd_jobs := t, wd_settlements := wd_settlements db1 @ [(l_id l, x)]\<rparr>)
              else (P_Cont_Check l mode n, db)))"

definition continuation_failed ::
  "instant \<Rightarrow> (rat \<Rightarrow> rat \<Rightarrow> rat) option \<Rightarrow> 'p leased_job \<Rightarrow> continuation_mode \<Rightarrow> nat \<Rightarrow> string \<Rightarrow>
   string \<Rightarrow> ('p, 'x) work_db \<Rightarrow> 'p pc \<times> ('p, 'x) work_db" where
  "continuation_failed retry_at jitter l mode n error owner db =
     (let (requeued, db') =
        on_jobs (requeue_for_retry (l_id l) owner retry_at
          (retry_at + backoff_for (l_attempts l) jitter) error) db
      in (if requeued then P_Idle else P_Cont_Check l mode n, db'))"

definition continuation_check ::
  "'p leased_job \<Rightarrow> continuation_mode \<Rightarrow> nat \<Rightarrow> string \<Rightarrow> ('p, 'x) work_db \<Rightarrow> 'p pc" where
  "continuation_check l mode n owner db =
     (if mode \<noteq> Mode_Cancel_Requested \<and> cancel_requested_and_ours (l_id l) owner db
      then if 1 < n then P_Cont l Mode_Cancel_Requested (n - 1) else P_Idle
      else P_Idle)"

section \<open>The checkpoint\<close>

datatype checkpoint_result = Throttled | Extended | Raised_Cancelled | Raised_Lease_Lost

text \<open>\<open>extended\<close> is the token's memory of its last extension.\<close>

definition checkpoint ::
  "uuid \<Rightarrow> string \<Rightarrow> instant \<Rightarrow> bool \<Rightarrow> instant option \<Rightarrow> 'p jobs \<Rightarrow>
   checkpoint_result \<times> instant option \<times> 'p jobs" where
  "checkpoint i owner now force extended t =
     (if \<not> force \<and> (case extended of None \<Rightarrow> False
                     | Some prev \<Rightarrow> now - prev < seconds heartbeat_seconds)
      then (Throttled, extended, t)
      else case extend_lease i owner now lease_seconds t of
             (None, t') \<Rightarrow> (Raised_Lease_Lost, extended, t')
           | (Some True, t') \<Rightarrow> (Raised_Cancelled, Some now, t')
           | (Some False, t') \<Rightarrow> (Extended, Some now, t'))"

end
