(* ===== verification/Record_Refs.thy ===== *)
theory Record_Refs
  imports Prelude "HOL-Library.Sublist" "HOL-Library.Char_ord" "HOL-Library.List_Lexorder"
begin

text \<open>
  \<^verbatim>\<open>rheo_contracts/refs.py\<close> (the typed record reference, its parser and printer, and the
  short forms) and \<^verbatim>\<open>rheo_core/refs/short.py\<close> (the shortest tail that names one record, and
  its expansion). Characters are the code points below 256.

  A module's tail lookup is a parameter; \<open>lookup_ok\<close> is what its documentation says of it.
\<close>

section \<open>UUIDs as text\<close>

definition hex_digit :: "nat \<Rightarrow> char" where
  "hex_digit n = (if n < 10 then char_of (48 + n) else char_of (87 + n))"

text \<open>The last \<open>n\<close> hex digits of a number: \<^verbatim>\<open>'%032x'\<close> when \<open>n\<close> is 32.\<close>

fun hex_digits :: "nat \<Rightarrow> nat \<Rightarrow> string" where
  "hex_digits 0 x = []"
| "hex_digits (Suc n) x = hex_digits n (x div 16) @ [hex_digit (x mod 16)]"

definition uuid_hex :: "uuid \<Rightarrow> string" where
  "uuid_hex u = hex_digits 32 (unat u)"

definition dashed :: "string \<Rightarrow> string" where
  "dashed h = take 8 h @ ''-'' @ take 4 (drop 8 h) @ ''-'' @ take 4 (drop 12 h) @ ''-'' @
     take 4 (drop 16 h) @ ''-'' @ drop 20 h"

text \<open>\<^verbatim>\<open>str(UUID)\<close>.\<close>

definition uuid_text :: "uuid \<Rightarrow> string" where
  "uuid_text u = dashed (uuid_hex u)"

section \<open>Reading a UUID\<close>

definition py_space :: "char \<Rightarrow> bool" where
  "py_space c \<longleftrightarrow> of_char c \<in> {9, 10, 11, 12, 13, 28, 29, 30, 31, 32, 0x85, 0xA0 :: nat}"

text \<open>The characters \<^verbatim>\<open>int\<close> skips around its digits.\<close>

definition int_space :: "char \<Rightarrow> bool" where
  "int_space c \<longleftrightarrow> of_char c \<in> {9, 10, 11, 12, 13, 32, 0x85, 0xA0 :: nat}"

text \<open>\<^verbatim>\<open>str.replace(old, '')\<close> for a non-empty \<open>old\<close>, left to right.\<close>

function remove_all :: "string \<Rightarrow> string \<Rightarrow> string" where
  "remove_all old [] = []"
| "remove_all old (c # s) =
     (if old \<noteq> [] \<and> take (length old) (c # s) = old then remove_all old (drop (length old) (c # s))
      else c # remove_all old s)"
  by pat_completeness auto
termination
  by (relation "measure (\<lambda>(old, s). length s)") (auto simp: neq_Nil_conv)

definition hex_value :: "char \<Rightarrow> nat option" where
  "hex_value c =
     (let n = of_char c in
      if 48 \<le> n \<and> n \<le> 57 then Some (n - 48)
      else if 97 \<le> n \<and> n \<le> 102 then Some (n - 87)
      else if 65 \<le> n \<and> n \<le> 70 then Some (n - 55) else None)"

text \<open>The digits of \<^verbatim>\<open>int(s, 16)\<close> after sign and prefix: single underscores may stand between
  digits; \<open>after\<close> says whether the last character was a digit.\<close>

fun int_digits :: "bool \<Rightarrow> nat \<Rightarrow> string \<Rightarrow> nat option" where
  "int_digits after acc [] = (if after then Some acc else None)"
| "int_digits after acc (c # s) =
     (if c = CHR ''_'' then if after then int_digits False acc s else None
      else case hex_value c of None \<Rightarrow> None | Some d \<Rightarrow> int_digits True (16 * acc + d) s)"

text \<open>After a \<^verbatim>\<open>0x\<close> prefix one underscore may come first.\<close>

definition int16 :: "string \<Rightarrow> int option" where
  "int16 text =
     (let s = strip_chars int_space text;
          neg = (s \<noteq> [] \<and> hd s = CHR ''-'');
          s1 = (if s \<noteq> [] \<and> (hd s = CHR ''-'' \<or> hd s = CHR ''+'') then tl s else s);
          prefixed = (take 2 s1 = ''0x'' \<or> take 2 s1 = ''0X'');
          n = (if prefixed
               then (let s2 = drop 2 s1
                     in int_digits False 0 (if s2 \<noteq> [] \<and> hd s2 = CHR ''_'' then tl s2 else s2))
               else int_digits False 0 s1)
      in map_option (\<lambda>m. if neg then - int m else int m) n)"

text \<open>\<^verbatim>\<open>UUID(text)\<close>: \<open>None\<close> is its \<^verbatim>\<open>ValueError\<close>.\<close>

definition read_uuid :: "string \<Rightarrow> uuid option" where
  "read_uuid text =
     (let h = remove_all ''-'' (strip_chars (\<lambda>c. c = CHR ''{'' \<or> c = CHR ''}'')
                (remove_all ''uuid:'' (remove_all ''urn:'' text)))
      in if length h \<noteq> 32 then None
         else case int16 h of
                None \<Rightarrow> None
              | Some n \<Rightarrow> if 0 \<le> n \<and> n < 2 ^ 128 then Some (of_int n) else None)"

section \<open>References\<close>

record record_ref =
  r_module :: string
  r_type :: string
  r_id :: uuid

definition lower_letter :: "char \<Rightarrow> bool" where
  "lower_letter c \<longleftrightarrow> CHR ''a'' \<le> c \<and> c \<le> CHR ''z''"

definition segment_char :: "char \<Rightarrow> bool" where
  "segment_char c \<longleftrightarrow> lower_letter c \<or> (CHR ''0'' \<le> c \<and> c \<le> CHR ''9'') \<or> c = CHR ''_''"

definition segment :: "string \<Rightarrow> bool" where
  "segment s \<longleftrightarrow> s \<noteq> [] \<and> lower_letter (hd s) \<and> list_all segment_char s"

text \<open>The three groups of \<^verbatim>\<open>_REFERENCE\<close>: a segment holds no dot and no colon, so the match is
  unique.\<close>

definition match_reference :: "string \<Rightarrow> (string \<times> string \<times> string) option" where
  "match_reference s =
     (let m = takeWhile segment_char s; s1 = dropWhile segment_char s;
          t = takeWhile segment_char (tl s1); s2 = dropWhile segment_char (tl s1);
          i = tl s2
      in if segment m \<and> s1 \<noteq> [] \<and> hd s1 = CHR ''.'' \<and> segment t \<and> s2 \<noteq> [] \<and>
            hd s2 = CHR '':'' \<and> i \<noteq> [] \<and> CHR '':'' \<notin> set i
         then Some (m, t, i) else None)"

definition is_reserved_segment :: "string \<Rightarrow> bool" where
  "is_reserved_segment m \<longleftrightarrow> m = ''core''"

text \<open>\<open>Inl v\<close> is \<^verbatim>\<open>RecordRefMalformed(v)\<close>.\<close>

definition parse_ref :: "string \<Rightarrow> string + record_ref" where
  "parse_ref v =
     (case match_reference v of
        None \<Rightarrow> Inl v
      | Some (m, t, raw) \<Rightarrow>
          (case read_uuid raw of
             None \<Rightarrow> Inl v
           | Some u \<Rightarrow> if uuid_text u \<noteq> raw then Inl v
                     else Inr \<lparr>r_module = m, r_type = t, r_id = u\<rparr>))"

definition format_ref :: "record_ref \<Rightarrow> string" where
  "format_ref r = r_module r @ ''.'' @ r_type r @ '':'' @ uuid_text (r_id r)"

section \<open>Short forms\<close>

definition short_id_length :: nat where "short_id_length = 8"

definition to_lower :: "char \<Rightarrow> char" where
  "to_lower c =
     (let n = of_char c :: nat in
      if (65 \<le> n \<and> n \<le> 90) \<or> (0xC0 \<le> n \<and> n \<le> 0xDE \<and> n \<noteq> 0xD7) then char_of (n + 32) else c)"

definition tail_char :: "char \<Rightarrow> bool" where
  "tail_char c \<longleftrightarrow> (CHR ''0'' \<le> c \<and> c \<le> CHR ''9'') \<or> (CHR ''a'' \<le> c \<and> c \<le> CHR ''f'')"

definition clean_tail :: "string \<Rightarrow> string option" where
  "clean_tail v =
     (let c = remove_all ''-'' (map to_lower (strip_chars py_space v))
      in if short_id_length \<le> length c \<and> length c \<le> 32 \<and> list_all tail_char c
         then Some c else None)"

definition short_form :: "string \<Rightarrow> (string \<times> string \<times> string) option" where
  "short_form v =
     (case match_reference (strip_chars py_space v) of
        None \<Rightarrow> None
      | Some (m, t, i) \<Rightarrow> (case clean_tail i of None \<Rightarrow> None | Some c \<Rightarrow> Some (m, t, c)))"

definition tail_for :: "string \<Rightarrow> string \<Rightarrow> string \<Rightarrow> string option" where
  "tail_for v m t =
     (case short_form v of
        Some (m', t', c) \<Rightarrow> if m' = m \<and> t' = t then Some c else None
      | None \<Rightarrow> clean_tail v)"

text \<open>\<^verbatim>\<open>hex[-length:]\<close> for a positive length.\<close>

definition short_id :: "uuid \<Rightarrow> nat \<Rightarrow> string" where
  "short_id u n = drop (32 - n) (uuid_hex u)"

text \<open>The lengthening loop.\<close>

function tail_length :: "string \<Rightarrow> string list \<Rightarrow> nat \<Rightarrow> nat" where
  "tail_length own rivals n =
     (if n < length own \<and> (\<exists>r \<in> set rivals. suffix (drop (length own - n) own) r)
      then tail_length own rivals (n + 2) else n)"
  by pat_completeness auto
termination
  by (relation "measure (\<lambda>(own, rivals, n). length own - n)") auto

declare tail_length.simps [simp del]

definition shortest_tail :: "uuid \<Rightarrow> uuid list \<Rightarrow> string" where
  "shortest_tail u among =
     (let own = uuid_hex u;
          rivals = map uuid_hex
            (filter (\<lambda>v. v \<noteq> u \<and> short_id v short_id_length = short_id u short_id_length) among);
          n = tail_length own rivals short_id_length
      in drop (length own - n) own)"

text \<open>\<open>lookup n tails\<close>: the ids of the record type whose last \<open>n\<close> hex characters are in
  \<open>tails\<close>.\<close>

type_synonym tail_lookup = "nat \<Rightarrow> string list \<Rightarrow> uuid list"

definition short_ids :: "tail_lookup \<Rightarrow> uuid list \<Rightarrow> (uuid \<times> string) list" where
  "short_ids lookup ids =
     (let wanted = rev (remdups (rev ids))
      in if wanted = [] then []
         else let tails = sorted_list_of_set (set (map (\<lambda>u. short_id u short_id_length) wanted));
                  among = lookup short_id_length tails @ wanted
              in map (\<lambda>u. (u, shortest_tail u among)) wanted)"

datatype expand_error = Full_Only | Tail_Not_Found | Tail_Ambiguous | Unavailable | Invalid_Reference

definition expand_in ::
  "(string \<times> string \<Rightarrow> tail_lookup option) \<Rightarrow> string \<Rightarrow> string \<Rightarrow> string \<Rightarrow> expand_error + record_ref"
where
  "expand_in registry m t tail =
     (case registry (m, t) of
        None \<Rightarrow> Inl Full_Only
      | Some lookup \<Rightarrow>
          (case remdups (lookup (length tail) [tail]) of
             [] \<Rightarrow> Inl Tail_Not_Found
           | [u] \<Rightarrow> Inr \<lparr>r_module = m, r_type = t, r_id = u\<rparr>
           | _ \<Rightarrow> Inl Tail_Ambiguous))"

text \<open>The expander of a validation context, over a storage that answers: its registry and
  \<^verbatim>\<open>require_ready\<close>.\<close>

record expander =
  x_registry :: "string \<times> string \<Rightarrow> tail_lookup option"
  x_ready :: "string \<Rightarrow> bool"

definition expander_expand ::
  "expander \<Rightarrow> string \<Rightarrow> string \<Rightarrow> string \<Rightarrow> expand_error + record_ref" where
  "expander_expand x m t tail =
     (if x_registry x (m, t) = None then Inl Full_Only
      else if \<not> x_ready x m then Inl Unavailable
      else expand_in (x_registry x) m t tail)"

text \<open>The before-validator of a reference field; the first argument is the expander the
  validation context carries, if any.\<close>

definition ref_value ::
  "expander option \<Rightarrow> string \<Rightarrow> string \<Rightarrow> string \<Rightarrow> expand_error + record_ref" where
  "ref_value ctx m t v =
     (case parse_ref v of
        Inr r \<Rightarrow> Inr r
      | Inl _ \<Rightarrow>
          (case (tail_for v m t, ctx) of
             (Some c, Some x) \<Rightarrow> expander_expand x m t c
           | _ \<Rightarrow> Inl Invalid_Reference))"

text \<open>The free-form variant looks at the process-wide table \<^verbatim>\<open>TAILS\<close> first.\<close>

definition full_ref_text ::
  "(string \<times> string \<Rightarrow> tail_lookup option) \<Rightarrow> expander option \<Rightarrow> string \<Rightarrow> expand_error + string"
where
  "full_ref_text tails ctx v =
     (case parse_ref v of
        Inr _ \<Rightarrow> Inr v
      | Inl _ \<Rightarrow>
          (case (short_form v, ctx) of
             (Some (m, t, c), Some x) \<Rightarrow>
               if tails (m, t) = None then Inr v
               else (case expander_expand x m t c of Inl e \<Rightarrow> Inl e | Inr r \<Rightarrow> Inr (format_ref r))
           | _ \<Rightarrow> Inr v))"

section \<open>Text lemmas\<close>

lemma remove_all_id:
  assumes "c \<in> set old" "c \<notin> set s"
  shows "remove_all old s = s"
  using assms
proof (induction old s rule: remove_all.induct)
  case (2 old d s)
  have "take (length old) (d # s) \<noteq> old"
  proof
    assume "take (length old) (d # s) = old"
    then have "set old \<subseteq> set (d # s)" by (metis set_take_subset)
    then show False using 2(3,4) by auto
  qed
  then show ?case using 2 by auto
qed simp

lemma remove_all_single: "remove_all [c] s = filter (\<lambda>x. x \<noteq> c) s"
  by (induction "[c]" s rule: remove_all.induct) auto

lemma strip_chars_id:
  assumes "\<forall>c \<in> set s. \<not> p c"
  shows "strip_chars p s = s"
proof -
  have "dropWhile p t = t" if "\<forall>c \<in> set t. \<not> p c" for t
    using that by (cases t) auto
  from this [of s] this [of "rev s"] show ?thesis using assms by (simp add: strip_chars_def)
qed

definition hex_char :: "char \<Rightarrow> bool" where
  "hex_char c \<longleftrightarrow> c \<in> set ''0123456789abcdef''"

lemma below_16:
  assumes "list_all P [0, 1, 2, 3, 4, 5, 6, 7, 8, 9, 10, 11, 12, 13, 14, 15]" "n < (16 :: nat)"
  shows "P n"
proof -
  have "n \<in> set [0, 1, 2, 3, 4, 5, 6, 7, 8, 9, 10, 11, 12, 13, 14, 15]"
    using assms(2) unfolding set_simps insert_iff empty_iff by arith
  then show ?thesis using assms(1) unfolding list_all_iff by blast
qed

lemma hex_char_digit [simp]: "n < 16 \<Longrightarrow> hex_char (hex_digit n)"
  by (rule below_16 [of "\<lambda>n. hex_char (hex_digit n)"])
    (simp_all add: hex_char_def hex_digit_def char_of_def bit_Suc_0_iff)

lemma hex_value_digit: "n < 16 \<Longrightarrow> hex_value (hex_digit n) = Some n"
  by (auto simp: hex_value_def hex_digit_def of_char_of Let_def)

lemma hex_digits_length [simp]: "length (hex_digits n x) = n"
  by (induction n arbitrary: x) auto

lemma hex_digits_numeral:
  "hex_digits (numeral k) x = hex_digits (pred_numeral k) (x div 16) @ [hex_digit (x mod 16)]"
  by (subst numeral_eq_Suc [where k = k]) (rule hex_digits.simps)

lemma hex_digits_chars: "c \<in> set (hex_digits n x) \<Longrightarrow> hex_char c"
  by (induction n arbitrary: x) auto

lemma int_digits_snoc:
  "int_digits a acc s = Some m \<Longrightarrow> hex_value c = Some d \<Longrightarrow> c \<noteq> CHR ''_'' \<Longrightarrow>
   int_digits a acc (s @ [c]) = Some (16 * m + d)"
  by (induction a acc s rule: int_digits.induct) (auto split: if_splits option.splits)

lemma hex_char_all:
  assumes "list_all P ''0123456789abcdef''" "hex_char c"
  shows "P c"
  using assms unfolding hex_char_def list_all_iff by blast

definition plain_char :: "char \<Rightarrow> bool" where
  "plain_char c \<longleftrightarrow> c \<notin> set ''_-+xX{}u:.'' \<and> \<not> int_space c \<and> \<not> py_space c \<and> tail_char c \<and>
     to_lower c = c \<and> segment_char c"

lemma hex_char_plain: "hex_char c \<Longrightarrow> plain_char c"
  by (rule hex_char_all)
    (simp_all add: plain_char_def int_space_def py_space_def tail_char_def to_lower_def
      segment_char_def lower_letter_def less_eq_char_def of_char_def)

lemma int_digits_hex:
  "int_digits True acc (hex_digits n x) = Some (16 ^ n * acc + x mod 16 ^ n)"
proof (induction n arbitrary: x)
  case (Suc n)
  have "x mod 16 ^ Suc n = 16 * (x div 16 mod 16 ^ n) + x mod 16"
    by (simp add: mod_mult2_eq)
  moreover have "plain_char (hex_digit (x mod 16))" by (simp add: hex_char_plain)
  then have "hex_digit (x mod 16) \<noteq> CHR ''_''" by (auto simp: plain_char_def)
  ultimately show ?case
    using int_digits_snoc [OF Suc.IH [of "x div 16"] hex_value_digit, of "x mod 16"]
    by (simp add: algebra_simps)
qed simp

lemma int_digits_hex_first:
  assumes "0 < n"
  shows "int_digits False 0 (hex_digits n x) = Some (x mod 16 ^ n)"
proof (cases "hex_digits n x")
  case (Cons c s)
  then have "hex_char c" using hex_digits_chars [of c n x] by simp
  then have "c \<noteq> CHR ''_''" using hex_char_plain [of c] by (simp add: plain_char_def)
  then show ?thesis using int_digits_hex [of 0 n x] Cons by simp
qed (use assms in \<open>metis hex_digits_length length_0_conv less_irrefl\<close>)

lemma hex_digits_inject:
  assumes "hex_digits n x = hex_digits n y" "x < 16 ^ n" "y < 16 ^ n"
  shows "x = y"
proof -
  have "Some (16 ^ n * 0 + x mod 16 ^ n) = Some (16 ^ n * 0 + y mod 16 ^ n)"
    using assms(1) by (simp only: flip: int_digits_hex)
  then show ?thesis using assms by simp
qed

lemma uuid_below: "unat (u :: uuid) < 16 ^ 32"
  using unsigned_less [of u] by simp

lemma uuid_hex_length [simp]: "length (uuid_hex u) = 32"
  by (simp add: uuid_hex_def)

lemma uuid_hex_inject [simp]: "uuid_hex u = uuid_hex v \<longleftrightarrow> u = v"
  unfolding uuid_hex_def
  using hex_digits_inject [of 32 "unat u" "unat v"] uuid_below [of u] uuid_below [of v]
  by (metis unsigned_word_eqI)

lemma uuid_hex_plain: "c \<in> set (uuid_hex u) \<Longrightarrow> plain_char c"
  unfolding uuid_hex_def by (intro hex_char_plain hex_digits_chars)

section \<open>Reading back a canonical UUID\<close>

lemma int16_plain:
  assumes "\<forall>c \<in> set h. plain_char c"
  shows "int16 h = map_option int (int_digits False 0 h)"
proof -
  have "strip_chars int_space h = h"
    using assms by (intro strip_chars_id) (auto simp: plain_char_def)
  moreover have "h \<noteq> [] \<longrightarrow> hd h \<noteq> CHR ''-'' \<and> hd h \<noteq> CHR ''+''"
    using assms by (auto simp: plain_char_def neq_Nil_conv)
  moreover have "take 2 h \<noteq> ''0x'' \<and> take 2 h \<noteq> ''0X''"
  proof -
    have "CHR ''x'' \<notin> set (take 2 h) \<and> CHR ''X'' \<notin> set (take 2 h)"
      using assms by (auto simp: plain_char_def dest: in_set_takeD)
    then show ?thesis by auto
  qed
  ultimately show ?thesis by (auto simp add: int16_def Let_def simp del: One_nat_def)
qed

lemma int16_uuid_hex: "int16 (uuid_hex u) = Some (int (unat u))"
proof -
  have "int_digits False 0 (uuid_hex u) = Some (unat u)"
    unfolding uuid_hex_def using int_digits_hex_first [of 32 "unat u"] uuid_below [of u] by simp
  then show ?thesis using int16_plain [of "uuid_hex u"] uuid_hex_plain by auto
qed

lemma dashed_chars: "set (dashed h) \<subseteq> insert (CHR ''-'') (set h)"
  by (auto simp: dashed_def dest: in_set_takeD in_set_dropD)

lemma undash_dashed:
  assumes "CHR ''-'' \<notin> set h"
  shows "remove_all ''-'' (dashed h) = h"
proof -
  have plain: "filter (\<lambda>x. x \<noteq> CHR ''-'') t = t" if "set t \<subseteq> set h" for t
    using assms that by (intro filter_True) auto
  have parts: "filter (\<lambda>x. x \<noteq> CHR ''-'') (take n (drop k h)) = take n (drop k h)"
    "filter (\<lambda>x. x \<noteq> CHR ''-'') (take n h) = take n h"
    "filter (\<lambda>x. x \<noteq> CHR ''-'') (drop k h) = drop k h" for n k
    by (intro plain, auto dest: in_set_takeD in_set_dropD)+
  have split: "take 4 (drop k h) @ drop (k + 4) h = drop k h" for k
    by (metis add.commute append_take_drop_id drop_drop)
  show ?thesis
    using split [of 8] split [of 12] split [of 16]
    by (simp add: remove_all_single dashed_def parts)
qed

lemma uuid_text_chars: "c \<in> set (uuid_text u) \<Longrightarrow> c = CHR ''-'' \<or> plain_char c"
  using dashed_chars [of "uuid_hex u"] uuid_hex_plain unfolding uuid_text_def by blast

lemma uuid_text_free:
  "CHR ''u'' \<notin> set (uuid_text u)" "CHR ''{'' \<notin> set (uuid_text u)"
  "CHR ''}'' \<notin> set (uuid_text u)" "CHR '':'' \<notin> set (uuid_text u)"
  by (auto dest!: uuid_text_chars simp: plain_char_def)

lemma uuid_text_nonempty: "uuid_text u \<noteq> []"
  by (simp add: uuid_text_def dashed_def)

lemma read_uuid_text: "read_uuid (uuid_text u) = Some u"
proof -
  have "remove_all ''urn:'' (uuid_text u) = uuid_text u"
    "remove_all ''uuid:'' (uuid_text u) = uuid_text u"
    using uuid_text_free by (auto intro!: remove_all_id)
  moreover have "strip_chars (\<lambda>c. c = CHR ''{'' \<or> c = CHR ''}'') (uuid_text u) = uuid_text u"
    using uuid_text_free by (intro strip_chars_id) auto
  moreover have "CHR ''-'' \<notin> set (uuid_hex u)"
    using uuid_hex_plain by (auto simp: plain_char_def)
  then have "remove_all ''-'' (uuid_text u) = uuid_hex u"
    unfolding uuid_text_def by (rule undash_dashed)
  moreover have "uint u < 2 ^ 128" using unsigned_less [of u, where 'a = int] by simp
  ultimately show ?thesis by (simp add: read_uuid_def int16_uuid_hex)
qed

section \<open>References: round trips\<close>

definition valid_ref :: "record_ref \<Rightarrow> bool" where
  "valid_ref r \<longleftrightarrow> segment (r_module r) \<and> segment (r_type r)"

lemma segment_stops:
  assumes "segment m" "\<not> segment_char c"
  shows "takeWhile segment_char (m @ c # s) = m" "dropWhile segment_char (m @ c # s) = c # s"
  using assms by (simp_all add: segment_def list_all_iff takeWhile_append2 dropWhile_append2)

lemma dot_colon_no_segment: "\<not> segment_char CHR ''.''" "\<not> segment_char CHR '':''"
  by (simp_all add: segment_char_def lower_letter_def less_eq_char_def of_char_def)

lemma match_reference_parts:
  assumes "segment m" "segment t" "i \<noteq> []" "CHR '':'' \<notin> set i"
  shows "match_reference (m @ ''.'' @ t @ '':'' @ i) = Some (m, t, i)"
  using assms
  by (simp add: match_reference_def segment_stops dot_colon_no_segment Let_def)

lemma match_referenceD:
  assumes "match_reference s = Some (m, t, i)"
  shows "s = m @ ''.'' @ t @ '':'' @ i" "segment m" "segment t" "i \<noteq> []" "CHR '':'' \<notin> set i"
proof -
  let ?s1 = "dropWhile segment_char s"
  let ?s2 = "dropWhile segment_char (tl ?s1)"
  have h: "m = takeWhile segment_char s" "t = takeWhile segment_char (tl ?s1)" "i = tl ?s2"
    "segment m" "segment t" "i \<noteq> []" "CHR '':'' \<notin> set i"
    "?s1 \<noteq> []" "hd ?s1 = CHR ''.''" "?s2 \<noteq> []" "hd ?s2 = CHR '':''"
    using assms by (auto simp: match_reference_def Let_def split: if_splits)
  have "s = m @ ?s1" using h(1) by simp
  moreover have "?s1 = CHR ''.'' # tl ?s1" using h(8,9) by (metis list.collapse)
  moreover have "tl ?s1 = t @ ?s2" using h(2) by simp
  moreover have "?s2 = CHR '':'' # i" using h(3,10,11) by (metis list.collapse)
  ultimately show "s = m @ ''.'' @ t @ '':'' @ i" by (metis append_Cons append_Nil)
qed (use assms in \<open>auto simp: match_reference_def Let_def split: if_splits\<close>)

lemma reference_parse_exact:
  assumes "parse_ref v = Inr q"
  shows "valid_ref q \<and> format_ref q = v"
proof -
  obtain m t where h: "match_reference v = Some (m, t, uuid_text (r_id q))" "r_module q = m" "r_type q = t"
    using assms by (auto simp: parse_ref_def split: option.splits if_splits)
  show ?thesis
    using match_referenceD [OF h(1)] h(2,3) by (simp add: valid_ref_def format_ref_def)
qed

text \<open>C29. Printing a reference and parsing it back gives the reference; parsing accepts a string
  only when it is the printed form of the reference it returns, whose segments are valid.\<close>

theorem reference_round_trip:
  "(valid_ref r \<longrightarrow> parse_ref (format_ref r) = Inr r) \<and>
   (parse_ref v = Inr q \<longrightarrow> valid_ref q \<and> format_ref q = v)"
proof
  show "valid_ref r \<longrightarrow> parse_ref (format_ref r) = Inr r"
  proof
    assume "valid_ref r"
    then have "match_reference (format_ref r) = Some (r_module r, r_type r, uuid_text (r_id r))"
      unfolding format_ref_def valid_ref_def
      by (intro match_reference_parts) (auto simp: uuid_text_nonempty uuid_text_free)
    then show "parse_ref (format_ref r) = Inr r"
      by (simp add: parse_ref_def read_uuid_text)
  qed
  show "parse_ref v = Inr q \<longrightarrow> valid_ref q \<and> format_ref q = v"
    by (blast dest: reference_parse_exact)
qed


lemma reference_round_trip_witness:
  "format_ref \<lparr>r_module = ''core'', r_type = ''job'', r_id = 7\<rparr> = ''core.job:'' @ uuid_text 7 \<and>
   parse_ref (''core.job:'' @ uuid_text 7) = Inr \<lparr>r_module = ''core'', r_type = ''job'', r_id = 7\<rparr>"
proof -
  let ?r = "\<lparr>r_module = ''core'', r_type = ''job'', r_id = 7\<rparr>"
  have "valid_ref ?r"
    by (simp add: valid_ref_def segment_def lower_letter_def segment_char_def less_eq_char_def)
  then have "parse_ref (format_ref ?r) = Inr ?r" using reference_round_trip by blast
  then show ?thesis by (simp add: format_ref_def)
qed

section \<open>Short forms\<close>

lemma short_id_drop: "n \<le> 32 \<Longrightarrow> length (short_id u n) = n"
  by (simp add: short_id_def)

lemma short_id_suffix: "suffix (short_id u n) (uuid_hex u)"
  by (simp add: short_id_def suffix_drop)

lemma suffix_short_id:
  assumes "n \<le> 32"
  shows "suffix (short_id u n) (uuid_hex v) \<longleftrightarrow> short_id v n = short_id u n"
proof
  assume "suffix (short_id u n) (uuid_hex v)"
  then obtain p where p: "uuid_hex v = p @ short_id u n" by (auto simp: suffix_def)
  then have "length p = 32 - n"
    using short_id_drop [OF assms, where u = u] uuid_hex_length [of v] by simp
  then show "short_id v n = short_id u n" using p by (simp add: short_id_def)
next
  assume "short_id v n = short_id u n"
  then show "suffix (short_id u n) (uuid_hex v)" using short_id_suffix [where u = v and n = n] by simp
qed

lemma short_id_shorter:
  assumes "short_id v n = short_id u n" "k \<le> n" "n \<le> 32"
  shows "short_id v k = short_id u k"
proof -
  have "short_id w k = drop (n - k) (short_id w n)" for w
    using assms(2,3) by (simp add: short_id_def)
  then show ?thesis using assms(1) by simp
qed

lemma short_id_full: "short_id v 32 = short_id u 32 \<longleftrightarrow> v = u"
  by (simp add: short_id_def)

lemma tail_length_spec:
  fixes rivals :: "string list"
  assumes "n \<le> length own" "even n" "even (length own)"
  defines "m \<equiv> tail_length own rivals n"
  shows "n \<le> m \<and> m \<le> length own \<and> even m \<and>
     (m = length own \<or> (\<forall>r \<in> set rivals. \<not> suffix (drop (length own - m) own) r)) \<and>
     (\<forall>k. n \<le> k \<longrightarrow> k < m \<longrightarrow> even k \<longrightarrow> (\<exists>r \<in> set rivals. suffix (drop (length own - k) own) r))"
  using assms(1,2,3) unfolding m_def
proof (induction own rivals n rule: tail_length.induct)
  case (1 own rivals n)
  show ?case
  proof (cases "n < length own \<and> (\<exists>r \<in> set rivals. suffix (drop (length own - n) own) r)")
    case True
    then have "n < length own" by simp
    then have "n + 2 \<le> length own" using 1(3,4) by presburger
    then have ih: "n + 2 \<le> tail_length own rivals (n + 2) \<and>
        tail_length own rivals (n + 2) \<le> length own \<and> even (tail_length own rivals (n + 2)) \<and>
        (tail_length own rivals (n + 2) = length own \<or>
         (\<forall>r \<in> set rivals.
           \<not> suffix (drop (length own - tail_length own rivals (n + 2)) own) r)) \<and>
        (\<forall>k. n + 2 \<le> k \<longrightarrow> k < tail_length own rivals (n + 2) \<longrightarrow> even k \<longrightarrow>
          (\<exists>r \<in> set rivals. suffix (drop (length own - k) own) r))"
      using 1 True by simp
    have step: "tail_length own rivals n = tail_length own rivals (n + 2)"
      using True by (simp add: tail_length.simps [of own rivals n])
    have split: "k = n \<or> n + 2 \<le> k" if "n \<le> k" "even k" for k
      using that 1(3) by presburger
    have "\<exists>r \<in> set rivals. suffix (drop (length own - k) own) r"
      if "n \<le> k" "k < tail_length own rivals (n + 2)" "even k" for k
      using split [OF that(1,3)] that ih True by blast
    then show ?thesis using ih unfolding step by simp
  next
    case False
    then have "tail_length own rivals n = n"
      by (subst tail_length.simps) (simp only: if_False)
    then show ?thesis using False 1 by auto
  qed
qed

lemma shortest_tail_length:
  fixes among :: "uuid list"
  defines "rivals u \<equiv> map uuid_hex (filter (\<lambda>v. v \<noteq> u \<and> short_id v 8 = short_id u 8) among)"
  defines "n u \<equiv> tail_length (uuid_hex u) (rivals u) 8"
  shows "shortest_tail u among = short_id u (n u)" "8 \<le> n u" "n u \<le> 32" "even (n u)"
    "v \<in> set among \<Longrightarrow> v \<noteq> u \<Longrightarrow> short_id v (n u) \<noteq> short_id u (n u)"
    "8 \<le> k \<Longrightarrow> k < n u \<Longrightarrow> even k \<Longrightarrow> \<exists>v \<in> set among. v \<noteq> u \<and> short_id v k = short_id u k"
proof -
  have drop: "drop (32 - k) (uuid_hex u) = short_id u k" for k by (simp add: short_id_def)
  note spec = tail_length_spec [of 8 "uuid_hex u" "rivals u", folded n_def, simplified, unfolded drop]
  show "shortest_tail u among = short_id u (n u)"
    by (simp add: shortest_tail_def short_id_length_def Let_def n_def rivals_def drop)
  show b: "8 \<le> n u" "n u \<le> 32" "even (n u)" using spec by auto
  show "short_id v (n u) \<noteq> short_id u (n u)" if v: "v \<in> set among" "v \<noteq> u"
  proof
    assume same: "short_id v (n u) = short_id u (n u)"
    have "uuid_hex v \<in> set (rivals u)"
      using v short_id_shorter [OF same b(1,2)] by (auto simp: rivals_def)
    then have "n u = 32" using spec suffix_short_id [OF b(2), where u = u and v = v] same by auto
    then show False using same v(2) short_id_full by simp
  qed
  show "\<exists>v \<in> set among. v \<noteq> u \<and> short_id v k = short_id u k" if k: "8 \<le> k" "k < n u" "even k"
  proof -
    obtain r where "r \<in> set (rivals u)" "suffix (short_id u k) r" using spec k by auto
    then show ?thesis using suffix_short_id [where n = k and u = u] k b(2) by (auto simp: rivals_def)
  qed
qed

text \<open>The displayed tail of an id is a suffix of its hex form of an even length between 8 and
  32, no other id of the given ones ends with it, and every shorter even length from 8 up is
  shared with another one.\<close>

theorem shortest_tail_is_shortest:
  "\<exists>n. shortest_tail u among = short_id u n \<and> 8 \<le> n \<and> n \<le> 32 \<and> even n \<and>
     (\<forall>v \<in> set among. v \<noteq> u \<longrightarrow> short_id v n \<noteq> shortest_tail u among) \<and>
     (\<forall>k. 8 \<le> k \<longrightarrow> k < n \<longrightarrow> even k \<longrightarrow> (\<exists>v \<in> set among. v \<noteq> u \<and> short_id v k = short_id u k))"
  using shortest_tail_length [where u = u and among = among] by (intro exI conjI) auto

lemma shortest_tail_is_shortest_witness:
  "\<exists>n. shortest_tail 5 [1, 5] = short_id 5 n \<and> 8 \<le> n \<and>
     short_id (1 :: uuid) n \<noteq> shortest_tail 5 [1, 5]"
proof -
  obtain n where "shortest_tail 5 [1, 5] = short_id 5 n" "8 \<le> n"
    "\<forall>v \<in> set [1, 5 :: uuid]. v \<noteq> 5 \<longrightarrow> short_id v n \<noteq> shortest_tail 5 [1, 5]"
    using shortest_tail_is_shortest [of 5 "[1, 5]"] by blast
  then show ?thesis by (intro exI [of _ n]) simp
qed


section \<open>A displayed tail names its record\<close>

text \<open>What the documentation of \<^verbatim>\<open>TailLookup\<close> promises, over the set of the type's records.\<close>

definition lookup_ok :: "tail_lookup \<Rightarrow> uuid set \<Rightarrow> bool" where
  "lookup_ok lookup ids \<longleftrightarrow>
     (\<forall>n tails. 8 \<le> n \<longrightarrow> n \<le> 32 \<longrightarrow> set (lookup n tails) = {u \<in> ids. short_id u n \<in> set tails})"

lemma short_id_clean:
  assumes "8 \<le> n" "n \<le> 32"
  shows "clean_tail (short_id u n) = Some (short_id u n)"
proof -
  have plain: "\<forall>c \<in> set (short_id u n). plain_char c"
    using uuid_hex_plain [of _ u] by (auto simp: short_id_def dest: in_set_dropD)
  then have "strip_chars py_space (short_id u n) = short_id u n"
    by (intro strip_chars_id) (auto simp: plain_char_def)
  moreover have "map to_lower (short_id u n) = short_id u n"
    using plain by (intro map_idI) (auto simp: plain_char_def)
  moreover have "remove_all ''-'' (short_id u n) = short_id u n"
    using plain by (intro remove_all_id [of "CHR ''-''"]) (auto simp: plain_char_def)
  ultimately show ?thesis
    using assms plain short_id_drop [of n u]
    by (auto simp: clean_tail_def short_id_length_def list_all_iff plain_char_def Let_def)
qed

lemma remdups_single:
  assumes "set xs = {u}"
  shows "remdups xs = [u]"
proof -
  have "set (remdups xs) = {u}" "distinct (remdups xs)" using assms by simp_all
  then show ?thesis
    by (metis distinct_card card_1_singleton_iff empty_set insert_not_empty length_Suc_conv
        length_0_conv list.set_intros(1) One_nat_def singletonD card.empty card_insert_disjoint
        finite.emptyI empty_iff)
qed

lemma clean_tail_length: "clean_tail v = Some c \<Longrightarrow> 8 \<le> length c \<and> length c \<le> 32"
  by (auto simp: clean_tail_def short_id_length_def Let_def split: if_splits)

lemma tail_for_length: "tail_for v m t = Some c \<Longrightarrow> 8 \<le> length c \<and> length c \<le> 32"
  by (auto simp: tail_for_def short_form_def split: option.splits if_splits
      dest!: clean_tail_length)

lemma expand_in_InrD:
  assumes "expand_in registry m t c = Inr r" "registry (m, t) = Some lookup"
  shows "r_module r = m" "r_type r = t" "set (lookup (length c) [c]) = {r_id r}"
proof -
  obtain u where u: "remdups (lookup (length c) [c]) = [u]" "r = \<lparr>r_module = m, r_type = t, r_id = u\<rparr>"
    using assms by (auto simp: expand_in_def split: list.splits)
  have "set (lookup (length c) [c]) = set (remdups (lookup (length c) [c]))" by simp
  then show "r_module r = m" "r_type r = t" "set (lookup (length c) [c]) = {r_id r}"
    using u by simp_all
qed

lemma expand_in_unique:
  assumes "registry (m, t) = Some lookup" "set (lookup (length c) [c]) = {u}"
  shows "expand_in registry m t c = Inr \<lparr>r_module = m, r_type = t, r_id = u\<rparr>"
  using assms remdups_single [OF assms(2)] by (simp add: expand_in_def)

lemma short_ids_entry:
  assumes ok: "lookup_ok lookup ids" and sub: "set wanted \<subseteq> ids"
    and entry: "(u, c) \<in> set (short_ids lookup wanted)"
  obtains n where "8 \<le> n" "n \<le> 32" "c = short_id u n" "u \<in> set wanted"
    "\<And>v. v \<in> ids \<Longrightarrow> short_id v n = c \<Longrightarrow> v = u"
proof -
  define tails where "tails = sorted_list_of_set (set (map (\<lambda>u. short_id u 8) wanted))"
  define among where "among = lookup 8 tails @ rev (remdups (rev wanted))"
  have u: "u \<in> set wanted" "c = shortest_tail u among"
    using entry unfolding short_ids_def Let_def among_def tails_def short_id_length_def
    by (auto split: if_splits)
  have in_tails: "set tails = (\<lambda>u. short_id u 8) ` set wanted" by (simp add: tails_def)
  define n where "n = tail_length (uuid_hex u)
    (map uuid_hex (filter (\<lambda>v. v \<noteq> u \<and> short_id v 8 = short_id u 8) among)) 8"
  note sp = shortest_tail_length [where u = u and among = among, folded n_def]
  have c: "c = short_id u n" using u(2) sp(1) by (rule trans)
  have uniq: "v = u" if v: "v \<in> ids" "short_id v n = c" for v
  proof -
    have "short_id v 8 = short_id u 8"
      by (rule short_id_shorter [OF trans [OF v(2) c] sp(2,3)])
    then have "v \<in> set among"
      using ok v(1) u(1) in_tails by (auto simp: lookup_ok_def among_def)
    then show "v = u" using sp(5) [of v] trans [OF v(2) c] by blast
  qed
  show thesis by (rule that [of n, OF sp(2,3) c u(1)]) (rule uniq)
qed

lemma segment_no_space: "segment_char c \<Longrightarrow> \<not> py_space c"
  by (auto simp: segment_char_def lower_letter_def py_space_def less_eq_char_def)

lemma short_form_typed:
  assumes "segment m" "segment t" "clean_tail c = Some c" "\<forall>x \<in> set c. plain_char x" "c \<noteq> []"
  shows "short_form (m @ ''.'' @ t @ '':'' @ c) = Some (m, t, c)"
proof -
  have "\<forall>x \<in> set c. \<not> py_space x" using assms(4) by (simp add: plain_char_def)
  moreover have "\<forall>x \<in> set m \<union> set t. \<not> py_space x"
    using assms(1,2) segment_no_space unfolding segment_def list_all_iff by blast
  moreover have "\<not> py_space CHR ''.''" "\<not> py_space CHR '':''" by (simp_all add: py_space_def)
  ultimately have "\<forall>x \<in> set (m @ ''.'' @ t @ '':'' @ c). \<not> py_space x" by auto
  then have "strip_chars py_space (m @ ''.'' @ t @ '':'' @ c) = m @ ''.'' @ t @ '':'' @ c"
    by (rule strip_chars_id)
  moreover have "CHR '':'' \<notin> set c" using assms(4) by (auto simp: plain_char_def)
  ultimately show ?thesis
    using match_reference_parts [OF assms(1,2,5)] assms(3) by (simp add: short_form_def)
qed

lemma tail_for_bare:
  assumes "clean_tail c = Some c" "\<forall>x \<in> set c. plain_char x"
  shows "tail_for c m t = Some c"
proof -
  have "strip_chars py_space c = c"
    using assms(2) by (intro strip_chars_id) (auto simp: plain_char_def)
  moreover have "match_reference c = None"
  proof (cases "match_reference c")
    case (Some p)
    then have "CHR '':'' \<in> set c" by (cases p) (auto dest!: match_referenceD(1))
    then show ?thesis using assms(2) by (auto simp: plain_char_def)
  qed
  ultimately show ?thesis using assms(1) by (simp add: tail_for_def short_form_def)
qed

text \<open>C30. Over a lookup that keeps its promise, the tail shown for a record reads back to that
  record: typed as the short form, or bare where the type is known.\<close>

theorem shown_short_id_resolves:
  assumes "lookup_ok lookup ids" "set wanted \<subseteq> ids" "(u, c) \<in> set (short_ids lookup wanted)"
    and "registry (m, t) = Some lookup" "segment m" "segment t"
  shows "short_form (m @ ''.'' @ t @ '':'' @ c) = Some (m, t, c) \<and> tail_for c m t = Some c \<and>
     expand_in registry m t c = Inr \<lparr>r_module = m, r_type = t, r_id = u\<rparr>"
proof -
  obtain n where n: "8 \<le> n" "n \<le> 32" "c = short_id u n" "u \<in> set wanted"
    "\<And>v. v \<in> ids \<Longrightarrow> short_id v n = c \<Longrightarrow> v = u"
    using short_ids_entry [OF assms(1-3)] by metis
  have clean: "clean_tail c = Some c" using n short_id_clean by simp
  have plain: "\<forall>x \<in> set c. plain_char x"
    using uuid_hex_plain [of _ u] n(3) by (auto simp: short_id_def dest: in_set_dropD)
  have len: "length c = n" using n short_id_drop by simp
  have "set (lookup (length c) [c]) = {u}"
    using assms(1,2) n len by (auto simp: lookup_ok_def)
  then have "expand_in registry m t c = Inr \<lparr>r_module = m, r_type = t, r_id = u\<rparr>"
    using assms(4) by (rule expand_in_unique [rotated])
  moreover have "c \<noteq> []" using n(1) len by auto
  ultimately show ?thesis
    using short_form_typed [OF assms(5,6) clean plain] tail_for_bare [OF clean plain] by simp
qed

lemma shown_short_id_resolves_witness:
  "\<exists>lookup c. lookup_ok lookup {1, 5} \<and> (5, c) \<in> set (short_ids lookup [5]) \<and>
     expand_in (\<lambda>_. Some lookup) ''m'' ''note'' c = Inr \<lparr>r_module = ''m'', r_type = ''note'', r_id = 5\<rparr>"
proof -
  let ?l = "\<lambda>n tails. filter (\<lambda>u. short_id u n \<in> set tails) [1, 5 :: uuid]"
  have ok: "lookup_ok ?l {1, 5}" by (auto simp: lookup_ok_def)
  obtain c where c: "(5, c) \<in> set (short_ids ?l [5])" by (auto simp: short_ids_def Let_def)
  have "segment ''m''" "segment ''note''"
    by (auto simp: segment_def lower_letter_def segment_char_def less_eq_char_def of_char_def)
  then show ?thesis
    using shown_short_id_resolves [OF ok _ c, of "\<lambda>_. Some ?l" "''m''" "''note''"] ok c by auto
qed

text \<open>C31. A reference field never guesses: what it accepts is either the reference printed in full,
  or a record of the field's own type whose id is the only one to end with the tail given.\<close>

theorem ref_value_never_guesses:
  assumes "ref_value (Some x) m t v = Inr r"
    and "\<forall>lookup. x_registry x (m, t) = Some lookup \<longrightarrow> lookup_ok lookup ids"
  shows "format_ref r = v \<or>
     (\<exists>c. tail_for v m t = Some c \<and> x_ready x m \<and> r_module r = m \<and> r_type r = t \<and>
        {u \<in> ids. short_id u (length c) = c} = {r_id r})"
proof (cases "parse_ref v")
  case (Inr q)
  then show ?thesis using assms(1) reference_parse_exact [OF Inr] by (simp add: ref_value_def)
next
  case (Inl e)
  obtain c where c: "tail_for v m t = Some c" "expander_expand x m t c = Inr r"
    using assms(1) Inl by (auto simp: ref_value_def split: option.splits)
  obtain lookup where l: "x_registry x (m, t) = Some lookup" "x_ready x m"
    "expand_in (x_registry x) m t c = Inr r"
    using c(2) by (auto simp: expander_expand_def split: if_splits)
  have "8 \<le> length c \<and> length c \<le> 32" using c(1) by (rule tail_for_length)
  then have "set (lookup (length c) [c]) = {u \<in> ids. short_id u (length c) = c}"
    using assms(2) l(1) by (simp add: lookup_ok_def)
  then show ?thesis using expand_in_InrD [OF l(3,1)] c(1) l(2) by auto
qed

lemma ref_value_never_guesses_witness:
  "\<exists>lookup c. {u \<in> {1, 5}. short_id u (length c) = c} = {5 :: uuid} \<and>
     ref_value (Some \<lparr>x_registry = \<lambda>_. Some lookup, x_ready = \<lambda>_. True\<rparr>) ''m'' ''note'' c
       = Inr \<lparr>r_module = ''m'', r_type = ''note'', r_id = 5\<rparr>"
proof -
  let ?l = "\<lambda>n tails. filter (\<lambda>u. short_id u n \<in> set tails) [1, 5 :: uuid]"
  let ?c = "short_id 5 8" and ?x = "\<lparr>x_registry = \<lambda>_. Some ?l, x_ready = \<lambda>_. True\<rparr>"
  have ok: "lookup_ok ?l {1, 5}" by (auto simp: lookup_ok_def)
  have short: "short_id 5 8 = ''00000005''" "short_id 1 8 = ''00000001''"
    by (simp_all add: short_id_def uuid_hex_def hex_digits_numeral hex_digit_def
      char_of_def bit_Suc_0_iff)
  have diff: "short_id 1 8 \<noteq> short_id (5 :: uuid) 8" using short by simp
  have len: "length ?c = 8" by (simp add: short_id_drop)
  have clean: "clean_tail ?c = Some ?c" by (rule short_id_clean) simp_all
  have plain: "\<forall>x \<in> set ?c. plain_char x"
    using uuid_hex_plain [of _ 5] by (auto simp: short_id_def dest: in_set_dropD)
  have tail: "tail_for ?c ''m'' ''note'' = Some ?c" by (rule tail_for_bare [OF clean plain])
  have "parse_ref ?c = Inl ?c"
  proof (cases "match_reference ?c")
    case (Some p)
    then have "CHR '':'' \<in> set ?c" by (cases p) (auto dest!: match_referenceD(1))
    then show ?thesis using plain by (auto simp: plain_char_def)
  qed (simp add: parse_ref_def)
  then have v: "ref_value (Some ?x) ''m'' ''note'' ?c = Inr \<lparr>r_module = ''m'', r_type = ''note'', r_id = 5\<rparr>"
    using tail diff len by (simp add: ref_value_def expander_expand_def expand_in_def)
  have "format_ref \<lparr>r_module = ''m'', r_type = ''note'', r_id = 5\<rparr> \<noteq> ?c"
  proof
    assume "format_ref \<lparr>r_module = ''m'', r_type = ''note'', r_id = 5\<rparr> = ?c"
    moreover have "CHR ''.'' \<in> set (format_ref q)" for q by (simp add: format_ref_def)
    ultimately have "CHR ''.'' \<in> set ?c" by metis
    then show False using plain by (auto simp: plain_char_def)
  qed
  then have "{u \<in> {1, 5}. short_id u (length ?c) = ?c} = {5 :: uuid}"
    using ref_value_never_guesses [OF v, of "{1, 5}"] ok tail by auto
  then show ?thesis using v by blast
qed

end
