(* ===== verification/Delivery_Worker.thy ===== *)
theory Delivery_Worker
  imports Work_Operations Job_Worker Record_Refs
begin

text \<open>
  The delivery half of \<^verbatim>\<open>rheo_core/work/loop.py\<close>: one leased delivery from its budget gate to
  the write of its outcome.

  As on the job side a transaction is one function on the database, \<open>dpc\<close> is where a worker is
  between two of them, and a consumer's handler is the parameter \<open>consumer_outcome\<close>. The
  transaction of \<^verbatim>\<open>_run_consumer\<close> is split in two: \<open>begin_consumer\<close> is what it reads at its
  start (the ledger and the event), \<open>run_consumer\<close> what it writes when it commits. What others
  commit in between is seen by the writes and not by those reads.

  The budget is the setting \<^verbatim>\<open>work.max_attempts\<close>, a parameter.
\<close>

section \<open>The envelope\<close>

record 'v event_envelope =
  env_event :: "'v outbox_event"
  env_consumer_id :: string
  env_attempt :: int

definition missing_event_error :: "leased_delivery \<Rightarrow> string" where
  "missing_event_error l =
     ''event '' @ uuid_text (ld_event_id l) @ '' has no outbox row, so the delivery to '' @
     py_repr (ld_consumer_id l) @ '' cannot be built''"

definition envelope_for :: "'v outbox \<Rightarrow> leased_delivery \<Rightarrow> string + 'v event_envelope" where
  "envelope_for outbox l =
     (case lookup_by e_id (ld_event_id l) outbox of
        None \<Rightarrow> Inl (missing_event_error l)
      | Some e \<Rightarrow> Inr \<lparr>env_event = e, env_consumer_id = ld_consumer_id l,
                       env_attempt = ld_attempts l\<rparr>)"

section \<open>Where a worker is\<close>

text \<open>\<open>D_Running l None\<close>: the ledger already held the event when the transaction began.\<close>

datatype 'v dpc =
    D_Idle
  | D_Leased leased_delivery
  | D_Running leased_delivery "'v event_envelope option"
  | D_Missing leased_delivery string
  | D_Unready leased_delivery
  | D_Raised leased_delivery string

record ('v, 'x) event_db =
  ed_store :: "'v event_store"
  ed_effects :: "((uuid \<times> string) \<times> 'x) list"

definition ld_key :: "leased_delivery \<Rightarrow> uuid \<times> string" where
  "ld_key l = (ld_event_id l, ld_consumer_id l)"

definition on_deliveries ::
  "(deliveries \<Rightarrow> bool \<times> deliveries) \<Rightarrow> ('v, 'x) event_db \<Rightarrow> bool \<times> ('v, 'x) event_db" where
  "on_deliveries write db =
     (let (applied, t) = write (es_deliveries (ed_store db))
      in (applied, db\<lparr>ed_store := (ed_store db)\<lparr>es_deliveries := t\<rparr>\<rparr>))"

section \<open>From the lease to the handler\<close>

definition unknown_consumer_error :: "string \<Rightarrow> string" where
  "unknown_consumer_error c = ''no subscription is registered for '' @ py_repr c"

text \<open>\<open>unless\<close> is the readiness of the module of an unknown consumer; \<open>None\<close> where it is not
  asked for. A write that did not apply is only logged.\<close>

definition fail_delivery_alone ::
  "leased_delivery \<Rightarrow> string \<Rightarrow> instant \<Rightarrow> string \<Rightarrow> bool option \<Rightarrow> ('v, 'x) event_db \<Rightarrow>
   ('v, 'x) event_db" where
  "fail_delivery_alone l owner clock error unless db =
     (let fail = on_deliveries (fail_delivery (ld_key l) owner clock error);
          defer = on_deliveries
            (defer_unready_delivery (ld_key l) owner (clock + seconds unready_seconds))
      in snd (finish_alone
           (case unless of None \<Rightarrow> fail | Some ready \<Rightarrow> unless_unready ready fail defer) db))"

definition begin_consumer :: "leased_delivery \<Rightarrow> ('v, 'x) event_db \<Rightarrow> 'v dpc" where
  "begin_consumer l db =
     (if already_processed (ld_consumer_id l) (ld_event_id l) (es_ledger (ed_store db))
      then D_Running l None
      else case envelope_for (es_outbox (ed_store db)) l of
             Inl e \<Rightarrow> D_Missing l e
           | Inr env \<Rightarrow> D_Running l (Some env))"

definition run_leased_delivery ::
  "int \<Rightarrow> registry \<Rightarrow> bool \<Rightarrow> instant \<Rightarrow> leased_delivery \<Rightarrow> string \<Rightarrow> ('v, 'x) event_db \<Rightarrow>
   'v dpc \<times> ('v, 'x) event_db" where
  "run_leased_delivery budget consumers ready clock l owner db =
     (if budget < ld_attempts l
      then (D_Idle, fail_delivery_alone l owner clock retry_budget_exhausted None db)
      else case lookup_consumer (ld_consumer_id l) consumers of
             None \<Rightarrow>
               (D_Idle, fail_delivery_alone l owner clock
                  (unknown_consumer_error (ld_consumer_id l)) (Some ready) db)
           | Some sub \<Rightarrow> (begin_consumer l db, db))"

section \<open>The consumer's transaction\<close>

text \<open>\<open>Consumer_Done x es1\<close>: the handler returned with its effects \<open>x\<close> outside these tables, and
  its own publishes made the store \<open>es1\<close>. \<open>Consumer_Unready\<close>: the readiness check, or the
  handler, raised \<^verbatim>\<open>ModuleNotReady\<close>. A refused context raises like the handler.\<close>

datatype ('v, 'x) consumer_outcome =
    Consumer_Done 'x "'v event_store"
  | Consumer_Unready
  | Consumer_Raised string

definition run_consumer ::
  "('v, 'x) consumer_outcome \<Rightarrow> string \<Rightarrow> instant \<Rightarrow> instant \<Rightarrow> leased_delivery \<Rightarrow>
   'v event_envelope option \<Rightarrow> string \<Rightarrow> ('v, 'x) event_db \<Rightarrow> 'v dpc \<times> ('v, 'x) event_db" where
  "run_consumer outcome integrity_error processed_at finished_at l env owner db =
     (case env of
        None \<Rightarrow>
          (let (applied, db') =
             on_deliveries (mark_delivered (ld_key l) owner finished_at) db
           in (D_Idle, if applied then db' else db))
      | Some _ \<Rightarrow>
          (case outcome of
             Consumer_Unready \<Rightarrow> (D_Unready l, db)
           | Consumer_Raised e \<Rightarrow> (D_Raised l e, db)
           | Consumer_Done x es1 \<Rightarrow>
               (case record_processed (ld_consumer_id l) (ld_event_id l) processed_at
                       (es_ledger es1) of
                  Inl _ \<Rightarrow> (D_Raised l integrity_error, db)
                | Inr led \<Rightarrow>
                    (let (applied, db') =
                       on_deliveries (mark_delivered (ld_key l) owner finished_at)
                         (db\<lparr>ed_store := es1\<lparr>es_ledger := led\<rparr>,
                             ed_effects := ed_effects db @ [(ld_key l, x)]\<rparr>)
                     in (D_Idle, if applied then db' else db)))))"

section \<open>The outcomes that are not a delivery\<close>

definition consumer_missing ::
  "instant \<Rightarrow> leased_delivery \<Rightarrow> string \<Rightarrow> string \<Rightarrow> ('v, 'x) event_db \<Rightarrow>
   'v dpc \<times> ('v, 'x) event_db" where
  "consumer_missing clock l error owner db =
     (D_Idle, fail_delivery_alone l owner clock error None db)"

definition consumer_unready ::
  "instant \<Rightarrow> leased_delivery \<Rightarrow> string \<Rightarrow> ('v, 'x) event_db \<Rightarrow> 'v dpc \<times> ('v, 'x) event_db" where
  "consumer_unready clock l owner db =
     (D_Idle, snd (finish_alone (on_deliveries
        (defer_unready_delivery (ld_key l) owner (clock + seconds unready_seconds))) db))"

definition write_delivery_failure ::
  "int \<Rightarrow> instant \<Rightarrow> (rat \<Rightarrow> rat \<Rightarrow> rat) option \<Rightarrow> leased_delivery \<Rightarrow> string \<Rightarrow> string \<Rightarrow>
   ('v, 'x) event_db \<Rightarrow> bool \<times> ('v, 'x) event_db" where
  "write_delivery_failure budget now jitter l owner error db =
     (if budget \<le> ld_attempts l
      then finish_alone (on_deliveries (fail_delivery (ld_key l) owner now error)) db
      else finish_alone (on_deliveries (requeue_delivery (ld_key l) owner now error jitter)) db)"

definition consumer_raised ::
  "int \<Rightarrow> instant \<Rightarrow> (rat \<Rightarrow> rat \<Rightarrow> rat) option \<Rightarrow> leased_delivery \<Rightarrow> string \<Rightarrow> string \<Rightarrow>
   ('v, 'x) event_db \<Rightarrow> 'v dpc \<times> ('v, 'x) event_db" where
  "consumer_raised budget now jitter l error owner db =
     (D_Idle, snd (write_delivery_failure budget now jitter l owner error db))"

end
