(* ===== verification/Event_System.thy ===== *)
theory Event_System
  imports Work_Operations
begin

text \<open>
  The event half of a workspace database as a transition system: \<open>event_step\<close> is one
  transaction of a publisher, a worker, an operator or the retention sweep, \<open>event_reach\<close> the
  stores such transactions lead to, with every event ever published as a ghost history.

  \<open>store_ok\<close> is the invariant: keys, well-formed rows, a retained event for every delivery,
  and the ordering rule. \<open>horizon_ok\<close> says the history is in the outbox or behind the horizon.
\<close>

section \<open>The sweep, batch by batch\<close>

text \<open>The state of a sweep against the tables it started from.\<close>

definition sweep_inv ::
  "instant \<Rightarrow> 'v outbox \<Rightarrow> deliveries \<Rightarrow> int option \<Rightarrow> 'v sweep \<Rightarrow> bool" where
  "sweep_inv before ob dv w0 s \<longleftrightarrow>
     sw_outbox s = filter (\<lambda>e. e_id e \<notin> set (sw_deleted s)) ob \<and>
     sw_deliveries s = filter (\<lambda>d. d_event_id d \<notin> set (sw_deleted s)) dv \<and>
     set (sw_deleted s) \<subseteq> e_id ` set ob \<and>
     (\<forall>e \<in> set ob. e_id e \<in> set (sw_deleted s) \<longrightarrow>
        e_occurred_at e < before \<and> \<not> event_unsettled dv (e_id e) \<and>
        (\<exists>w. sw_swept s = Some w \<and> e_position e \<le> w)) \<and>
     (\<forall>w. w0 = Some w \<longrightarrow> (\<exists>v. sw_swept s = Some v \<and> w \<le> v)) \<and>
     (sw_deleted s = [] \<longrightarrow> sw_swept s = w0)"

lemma sweep_candidates_in:
  assumes "i \<in> set (sweep_candidates before limit s)"
  obtains e where "e \<in> set (sw_outbox s)" "e_id e = i" "e_occurred_at e < before"
    "\<not> event_unsettled (sw_deliveries s) i"
  using assms by (auto simp: sweep_candidates_def dest!: in_set_takeD)

text \<open>On such candidates the second guard of the event delete never fires: every delivery of
  a candidate is settled, so all of them are deleted first.\<close>

lemma sweep_batch_exact:
  assumes "\<forall>i \<in> set cs. \<not> event_unsettled (sw_deliveries s) i"
  shows "sw_deliveries (sweep_batch cs s) =
           filter (\<lambda>d. d_event_id d \<notin> set cs) (sw_deliveries s)"
    and "sw_outbox (sweep_batch cs s) = filter (\<lambda>e. e_id e \<notin> set cs) (sw_outbox s)"
    and "sw_deleted (sweep_batch cs s) =
           sw_deleted s @ map e_id (filter (\<lambda>e. e_id e \<in> set cs) (sw_outbox s))"
    and "sw_swept (sweep_batch cs s) =
           (if filter (\<lambda>e. e_id e \<in> set cs) (sw_outbox s) = [] then sw_swept s
            else let h = Max (set (map e_position (filter (\<lambda>e. e_id e \<in> set cs) (sw_outbox s))))
                 in Some (case sw_swept s of None \<Rightarrow> h | Some w \<Rightarrow> max w h))"
proof -
  have dv: "filter (\<lambda>d. \<not> (d_event_id d \<in> set cs \<and> settled (d_state d))) (sw_deliveries s) =
      filter (\<lambda>d. d_event_id d \<notin> set cs) (sw_deliveries s)"
    using assms by (intro filter_cong) (auto simp: event_unsettled_def)
  have gone: "(e_id e \<in> set cs \<and> \<not> event_delivered_anywhere
      (filter (\<lambda>d. d_event_id d \<notin> set cs) (sw_deliveries s)) (e_id e)) = (e_id e \<in> set cs)"
    for e :: "'a outbox_event"
    by (auto simp: event_delivered_anywhere_def)
  have all: "sweep_batch cs s =
    (let dv' = filter (\<lambda>d. d_event_id d \<notin> set cs) (sw_deliveries s);
         gone = filter (\<lambda>e. e_id e \<in> set cs) (sw_outbox s);
         s1 = s\<lparr>sw_deliveries := dv',
                sw_delivery_rows := sw_delivery_rows s + rowcount
                  (\<lambda>d. d_event_id d \<in> set cs \<and> settled (d_state d)) (sw_deliveries s),
                sw_outbox := filter (\<lambda>e. e_id e \<notin> set cs) (sw_outbox s)\<rparr>
     in if gone = [] then s1
        else s1\<lparr>sw_events := sw_events s + length gone,
                sw_deleted := sw_deleted s @ map e_id gone,
                sw_swept := Some (case sw_swept s of None \<Rightarrow> Max (set (map e_position gone))
                  | Some w \<Rightarrow> max w (Max (set (map e_position gone))))\<rparr>)"
    unfolding sweep_batch_def Let_def dv gone by (rule refl)
  show "sw_deliveries (sweep_batch cs s) =
      filter (\<lambda>d. d_event_id d \<notin> set cs) (sw_deliveries s)"
    "sw_outbox (sweep_batch cs s) = filter (\<lambda>e. e_id e \<notin> set cs) (sw_outbox s)"
    "sw_deleted (sweep_batch cs s) =
      sw_deleted s @ map e_id (filter (\<lambda>e. e_id e \<in> set cs) (sw_outbox s))"
    unfolding all Let_def by simp_all
  define h where "h = Max (set (map e_position (filter (\<lambda>e. e_id e \<in> set cs) (sw_outbox s))))"
  show "sw_swept (sweep_batch cs s) =
       (if filter (\<lambda>e. e_id e \<in> set cs) (sw_outbox s) = [] then sw_swept s
        else let h = Max (set (map e_position (filter (\<lambda>e. e_id e \<in> set cs) (sw_outbox s))))
             in Some (case sw_swept s of None \<Rightarrow> h | Some w \<Rightarrow> max w h))"
    unfolding all Let_def h_def [symmetric] by simp
qed

lemma sweep_batch_inv:
  assumes inv: "sweep_inv before ob dv w0 s" and cs: "cs = sweep_candidates before limit s"
    and uniq: "unique_by e_id ob"
  shows "sweep_inv before ob dv w0 (sweep_batch cs s)"
proof -
  let ?gone = "filter (\<lambda>e. e_id e \<in> set cs) (sw_outbox s)"
  have settled_cs: "\<forall>i \<in> set cs. \<not> event_unsettled (sw_deliveries s) i"
    unfolding cs by (auto elim: sweep_candidates_in)
  note eq = sweep_batch_exact [OF settled_cs]
  have "set cs \<subseteq> e_id ` set (sw_outbox s)"
    unfolding cs by (auto elim: sweep_candidates_in)
  then have ids: "e_id ` set ?gone = set cs" by auto
  have ob: "sw_outbox s = filter (\<lambda>e. e_id e \<notin> set (sw_deleted s)) ob"
    and dv: "sw_deliveries s = filter (\<lambda>d. d_event_id d \<notin> set (sw_deleted s)) dv"
    using inv by (simp_all add: sweep_inv_def)
  have old: "e_occurred_at e < before \<and> \<not> event_unsettled dv (e_id e)"
    if "e \<in> set ob" "e_id e \<in> set cs" for e
  proof -
    from that(2) obtain e' where e': "e' \<in> set (sw_outbox s)" "e_id e' = e_id e"
      "e_occurred_at e' < before" "\<not> event_unsettled (sw_deliveries s) (e_id e)"
      unfolding cs by (rule sweep_candidates_in)
    moreover have "e' = e"
      using e'(1,2) that(1) uniq ob by (auto intro: unique_by_eqD)
    moreover have "e_id e \<notin> set (sw_deleted s)"
      using e'(1,2) ob by auto
    ultimately show ?thesis
      using dv by (auto simp: event_unsettled_def)
  qed
  have max_ge: "e_position e \<le> Max (set (map e_position ?gone))" if "e \<in> set ?gone" for e
    using that by (intro Max_ge) auto
  show ?thesis
  proof (cases "?gone = []")
    case True
    then have "set cs = {}" using ids by simp
    then have "sweep_batch cs s = s\<lparr>sw_deliveries := sw_deliveries s,
        sw_delivery_rows := sw_delivery_rows s + 0, sw_outbox := sw_outbox s\<rparr>"
      by (simp add: sweep_batch_def Let_def rowcount_def)
    then show ?thesis using inv by simp
  next
    case False
    let ?h = "Max (set (map e_position ?gone))"
    have sw: "sw_swept (sweep_batch cs s) =
        Some (case sw_swept s of None \<Rightarrow> ?h | Some w \<Rightarrow> max w ?h)"
      unfolding eq(4) Let_def using False by (simp only: if_False)
    have new: "e_position e \<le> (case sw_swept s of None \<Rightarrow> ?h | Some w \<Rightarrow> max w ?h)"
      if "e \<in> set ob" "e_id e \<in> set (sw_deleted s) \<or> e_id e \<in> set cs" for e
    proof (cases "e_id e \<in> set (sw_deleted s)")
      case True
      with inv that(1) obtain w where "sw_swept s = Some w" "e_position e \<le> w"
        by (auto simp: sweep_inv_def)
      then show ?thesis by simp
    next
      case out: False
      with that ob have "e \<in> set ?gone" by auto
      from max_ge [OF this] show ?thesis by (auto simp: le_max_iff_disj split: option.splits)
    qed
    have del: "set (sw_deleted (sweep_batch cs s)) = set (sw_deleted s) \<union> set cs"
      using ids by (simp add: eq(3))
    show ?thesis
      unfolding sweep_inv_def
    proof (intro conjI ballI allI impI)
      show "sw_outbox (sweep_batch cs s) =
          filter (\<lambda>e. e_id e \<notin> set (sw_deleted (sweep_batch cs s))) ob"
        unfolding eq(2) del ob by (simp add: conj_commute)
      show "sw_deliveries (sweep_batch cs s) =
          filter (\<lambda>d. d_event_id d \<notin> set (sw_deleted (sweep_batch cs s))) dv"
        unfolding eq(1) del dv by (simp add: conj_commute)
      show "set (sw_deleted (sweep_batch cs s)) \<subseteq> e_id ` set ob"
        using inv ids ob unfolding del by (auto simp: sweep_inv_def)
    next
      fix e assume "e \<in> set ob" "e_id e \<in> set (sw_deleted (sweep_batch cs s))"
      then show "e_occurred_at e < before" "\<not> event_unsettled dv (e_id e)"
        "\<exists>w. sw_swept (sweep_batch cs s) = Some w \<and> e_position e \<le> w"
        using old inv new sw unfolding del by (auto simp: sweep_inv_def)
    next
      fix w assume "w0 = Some w"
      with inv obtain v where "sw_swept s = Some v" "w \<le> v" by (auto simp: sweep_inv_def)
      then show "\<exists>v. sw_swept (sweep_batch cs s) = Some v \<and> w \<le> v"
        using sw by simp
    next
      assume "sw_deleted (sweep_batch cs s) = []"
      then show "sw_swept (sweep_batch cs s) = w0" using False by (simp add: eq(3))
    qed
  qed
qed

lemma sweep_batches_inv:
  "sweep_batches stop before limit n s = Inr s' \<Longrightarrow> sweep_inv before ob dv w0 s \<Longrightarrow>
   unique_by e_id ob \<Longrightarrow> sweep_inv before ob dv w0 s'"
proof (induction n arbitrary: s)
  case (Suc n)
  have step: "sweep_inv before ob dv w0 (sweep_batch (sweep_candidates before limit s) s)"
    using Suc.prems by (blast intro: sweep_batch_inv)
  show ?case
    using Suc.prems(1,2) Suc.IH [OF _ step Suc.prems(3)] step
    by (auto simp: Let_def split: if_splits)
qed simp

section \<open>The transitions\<close>

text \<open>
  One rule per transaction. \<open>hist\<close> is a ghost: every event ever published, oldest first.

  What \<open>es_publish\<close> assumes of the world: the identity column never hands out a position
  twice, \<^verbatim>\<open>uuid7\<close> never answers an id twice, and the publishes about one subject commit in
  the order of their positions (the rows they change are locked until they commit). A
  registry is one the registrations of the process can have built.
\<close>

inductive event_step ::
  "'v event_store \<times> 'v outbox \<Rightarrow> 'v event_store \<times> 'v outbox \<Rightarrow> bool" where
  es_publish: "publish ctx reg fresh position now event es = Inr (i, due, es') \<Longrightarrow> registry_ok reg \<Longrightarrow>
    position \<notin> e_position ` set hist \<Longrightarrow> fresh \<notin> e_id ` set hist \<Longrightarrow>
    (\<And>e. e \<in> set hist \<Longrightarrow> e_subject_ref e = n_subject_ref event \<Longrightarrow> e_position e < position) \<Longrightarrow>
    event_step (es, hist) (es', hist @ [outbox_row ctx fresh position now event])"
| es_lease: "lease_delivery locked w now secs (es_deliveries es) = (l, t) \<Longrightarrow>
    event_step (es, hist) (es\<lparr>es_deliveries := t\<rparr>, hist)"
| es_delivered: "event_step (es, hist)
    (es\<lparr>es_deliveries := snd (mark_delivered k w now (es_deliveries es))\<rparr>, hist)"
| es_requeue: "event_step (es, hist)
    (es\<lparr>es_deliveries := snd (requeue_delivery k w now err j (es_deliveries es))\<rparr>, hist)"
| es_defer: "event_step (es, hist)
    (es\<lparr>es_deliveries := snd (defer_unready_delivery k w nx (es_deliveries es))\<rparr>, hist)"
| es_fail: "event_step (es, hist)
    (es\<lparr>es_deliveries := snd (fail_delivery k w now err (es_deliveries es))\<rparr>, hist)"
| es_processed: "record_processed c i now (es_ledger es) = Inr led \<Longrightarrow>
    event_step (es, hist) (es\<lparr>es_ledger := led\<rparr>, hist)"
| es_retry: "retry_handler wctx k now es = Inr (st, es') \<Longrightarrow> event_step (es, hist) (es', hist)"
| es_skip: "skip_handler wctx k txt now es = Inr (st, es') \<Longrightarrow> event_step (es, hist) (es', hist)"
| es_replay: "replay_handler wctx c from_position now es = Inr (n, due, es') \<Longrightarrow>
    event_step (es, hist) (es', hist)"
| es_purge: "purge_outbox stop now before limit batches es = Inr (rep, es') \<Longrightarrow>
    event_step (es, hist) (es', hist)"

definition empty_store :: "'v event_store" where
  "empty_store = \<lparr>es_outbox = [], es_deliveries = [], es_ledger = [], es_swept = Some None\<rparr>"

definition event_reach :: "'v event_store \<Rightarrow> 'v outbox \<Rightarrow> bool" where
  "event_reach es hist \<longleftrightarrow> event_step\<^sup>*\<^sup>* (empty_store, []) (es, hist)"

section \<open>The invariant\<close>

text \<open>The event a delivery is of.\<close>

definition delivery_of :: "'v outbox_event \<Rightarrow> delivery \<Rightarrow> bool" where
  "delivery_of e d \<longleftrightarrow>
     d_event_id d = e_id e \<and> d_position d = e_position e \<and> d_subject_ref d = e_subject_ref e"

definition store_ok :: "'v event_store \<Rightarrow> bool" where
  "store_ok es \<longleftrightarrow>
     unique_by e_id (es_outbox es) \<and> deliveries_ok (es_deliveries es) \<and>
     (\<forall>d \<in> set (es_deliveries es). \<exists>e \<in> set (es_outbox es). delivery_of e d) \<and>
     queue_ordered (es_deliveries es)"

definition horizon_ok :: "'v event_store \<Rightarrow> 'v outbox \<Rightarrow> bool" where
  "horizon_ok es hist \<longleftrightarrow>
     unique_by e_id hist \<and> unique_by e_position hist \<and> set (es_outbox es) \<subseteq> set hist \<and>
     (\<exists>swept. es_swept es = Some swept \<and>
        (\<forall>e \<in> set hist. e \<in> set (es_outbox es) \<or> (\<exists>w. swept = Some w \<and> e_position e \<le> w)))"

lemma delivery_of_place: "place d = place d' \<Longrightarrow> delivery_of e d = delivery_of e d'"
  by (simp add: delivery_of_def place_def)

text \<open>An update of the deliveries in place keeps the store, when it keeps the rows and the
  order.\<close>

lemma store_ok_update:
  assumes "store_ok es"
    and place: "\<And>r. P r \<Longrightarrow> place (f r) = place r"
    and ok: "\<And>r. P r \<Longrightarrow> r \<in> set (es_deliveries es) \<Longrightarrow> delivery_ok r \<Longrightarrow> delivery_ok (f r)"
    and ord: "queue_ordered (update_where P f (es_deliveries es))"
  shows "store_ok (es\<lparr>es_deliveries := update_where P f (es_deliveries es)\<rparr>)"
proof -
  have *: "place (if P r then f r else r) = place r" for r
    using place by simp
  show ?thesis
    using assms(1) ok ord
    by (auto simp: store_ok_def deliveries_ok_def delivery_of_place [OF *]
        intro!: unique_update_where place_key place simp del: if_split split: if_split)
qed

lemma held_okD: "delivery_held k w r \<Longrightarrow> delivery_ok r \<Longrightarrow>
  0 \<le> d_attempts r - 1 \<and> d_completed_at r = None \<and> 0 \<le> d_attempts r"
  by (auto simp: delivery_held_def delivery_ok_def settled_def)

lemma failed_okD: "delivery_failed k r \<Longrightarrow> delivery_ok r \<Longrightarrow> 0 \<le> d_attempts r"
  by (auto simp: delivery_failed_def delivery_ok_def settled_def)

lemma ends_store_ok:
  assumes "store_ok es"
  shows "store_ok (es\<lparr>es_deliveries := snd (mark_delivered k w now (es_deliveries es))\<rparr>)"
    "store_ok (es\<lparr>es_deliveries := snd (requeue_delivery k w now err j (es_deliveries es))\<rparr>)"
    "store_ok (es\<lparr>es_deliveries := snd (defer_unready_delivery k w nx (es_deliveries es))\<rparr>)"
    "store_ok (es\<lparr>es_deliveries := snd (fail_delivery k w now err (es_deliveries es))\<rparr>)"
    "store_ok (es\<lparr>es_deliveries := snd (retry_delivery k now (es_deliveries es))\<rparr>)"
    "store_ok (es\<lparr>es_deliveries := snd (skip_delivery k now nt (es_deliveries es))\<rparr>)"
proof -
  have ord: "queue_ordered (es_deliveries es)"
    using assms by (simp add: store_ok_def)
  note endd = finish_ordered [OF ord]
  show "store_ok (es\<lparr>es_deliveries := snd (mark_delivered k w now (es_deliveries es))\<rparr>)"
    using endd(1) [of k w now] unfolding mark_delivered_def snd_apply_where
    by (rule store_ok_update [OF assms, rotated 2])
       (auto simp: place_def delivery_ok_def settled_def dest: held_okD)
  show "store_ok (es\<lparr>es_deliveries := snd (defer_unready_delivery k w nx (es_deliveries es))\<rparr>)"
    using endd(3) [of k w nx] unfolding defer_unready_delivery_def snd_apply_where
    by (rule store_ok_update [OF assms, rotated 2])
       (auto simp: place_def delivery_ok_def settled_def delivery_held_def)
  show "store_ok (es\<lparr>es_deliveries := snd (fail_delivery k w now err (es_deliveries es))\<rparr>)"
    using endd(4) [of k w now err] unfolding fail_delivery_def snd_apply_where
    by (rule store_ok_update [OF assms, rotated 2])
       (auto simp: place_def delivery_ok_def settled_def dest: held_okD)
  show "store_ok (es\<lparr>es_deliveries := snd (retry_delivery k now (es_deliveries es))\<rparr>)"
    using endd(5) [of k now] unfolding retry_delivery_def snd_apply_where
    by (rule store_ok_update [OF assms, rotated 2])
       (auto simp: place_def delivery_ok_def settled_def dest: failed_okD)
  show "store_ok (es\<lparr>es_deliveries := snd (skip_delivery k now nt (es_deliveries es))\<rparr>)"
    using endd(6) [of k now nt] unfolding skip_delivery_def snd_apply_where
    by (rule store_ok_update [OF assms, rotated 2])
       (auto simp: place_def delivery_ok_def settled_def dest: failed_okD)
  show "store_ok (es\<lparr>es_deliveries := snd (requeue_delivery k w now err j (es_deliveries es))\<rparr>)"
  proof (cases "lookup_by d_key k (es_deliveries es)")
    case None
    then show ?thesis
      using assms by (simp add: requeue_delivery_def del: lookup_by_None)
  next
    case (Some row)
    show ?thesis
      using endd(2) [of k w now err j] Some
      unfolding requeue_delivery_def option.case snd_apply_where
      by (simp only: option.case snd_apply_where, intro store_ok_update [OF assms])
         (auto simp: place_def delivery_ok_def settled_def dest: held_okD)
  qed
qed

lemma lease_store_ok:
  assumes "store_ok es" "lease_delivery locked w now secs (es_deliveries es) = (l, t)"
  shows "store_ok (es\<lparr>es_deliveries := t\<rparr>)"
proof (cases l)
  case None
  with assms show ?thesis by (auto dest: lease_delivery_NoneD(1))
next
  case (Some l')
  have uniq: "unique_by d_key (es_deliveries es)" and ord: "queue_ordered (es_deliveries es)"
    using assms(1) by (simp_all add: store_ok_def deliveries_ok_def)
  from assms(2) Some obtain d where d: "d \<in> set (es_deliveries es)" "delivery_due now d"
    and t: "t = update_where (\<lambda>r. d_key r = d_key d) (take_delivery w now secs) (es_deliveries es)"
    by (auto elim: lease_delivery_SomeD)
  have ok: "delivery_ok (take_delivery w now secs r)"
    if "d_key r = d_key d" "r \<in> set (es_deliveries es)" "delivery_ok r" for r
  proof -
    have "r = d" using that d(1) uniq by (blast intro: unique_by_eqD)
    with d(2) that(3) show ?thesis
      by (auto simp: delivery_due_def delivery_ok_def settled_def)
  qed
  show ?thesis
    unfolding t
    by (rule store_ok_update [OF assms(1) _ ok])
       (use lease_delivery_ordered [OF ord uniq assms(2)] t in simp_all)
qed

lemma insert_all_InrD:
  "insert_all key rs t = Inr t' \<Longrightarrow>
     t' = t @ rs \<and> (unique_by key t \<longrightarrow> unique_by key t')"
proof (induction rs arbitrary: t)
  case (Cons r rs)
  from Cons.prems obtain u where u: "insert_row key r t = Inr u" "insert_all key rs u = Inr t'"
    by (auto split: sum.splits)
  from Cons.IH [OF u(2)] insert_row_InrD [OF u(1)] unique_by_insert [OF u(1)]
  show ?case by auto
qed simp

lemma fan_out_in:
  assumes "d \<in> set (fan_out ctx reg fresh position now event)"
  shows "d_state d = DPending" "delivery_ok d" "d_subject_ref d = n_subject_ref event"
    "d_position d = position" "d_event_id d = fresh"
  using assms by (auto simp: fan_out_def)

lemma publish_InrD:
  assumes "publish ctx reg fresh position now event es = Inr (i, due, es')"
  shows "es' = es\<lparr>es_outbox := es_outbox es @ [outbox_row ctx fresh position now event],
             es_deliveries := es_deliveries es @ fan_out ctx reg fresh position now event\<rparr>"
    and "fresh \<notin> e_id ` set (es_outbox es)" and "i = fresh"
    and "unique_by d_key (es_deliveries es) \<longrightarrow> unique_by d_key (es_deliveries es')"
    and "due \<longleftrightarrow> fan_out ctx reg fresh position now event \<noteq> []"
  using assms
  by (auto simp: publish_def Let_def outbox_row_def split: sum.splits
      dest!: insert_row_InrD insert_all_InrD)

lemma blocked_append:
  assumes "\<And>e. e \<in> set new \<Longrightarrow> same_queue e c \<Longrightarrow> d_position c \<le> d_position e"
  shows "delivery_blocked (t @ new) c \<longleftrightarrow> delivery_blocked t c"
  using assms by (fastforce simp: delivery_blocked_def)

text \<open>Rows added behind every row of their queues keep the order.\<close>

lemma queue_ordered_append:
  assumes "queue_ordered t"
    and "\<And>e. e \<in> set new \<Longrightarrow> d_state e \<noteq> DLeased"
    and "\<And>e c. e \<in> set new \<Longrightarrow> c \<in> set t \<Longrightarrow> d_state c = DLeased \<Longrightarrow> same_queue e c \<Longrightarrow>
           d_position c \<le> d_position e"
  shows "queue_ordered (t @ new)"
  unfolding queue_ordered_def
proof (intro ballI impI)
  fix r assume "r \<in> set (t @ new)" "d_state r = DLeased"
  with assms(2) have r: "r \<in> set t" by auto
  with assms(1) \<open>d_state r = DLeased\<close> have "\<not> delivery_blocked t r"
    by (simp add: queue_ordered_def)
  with r \<open>d_state r = DLeased\<close> assms(3) show "\<not> delivery_blocked (t @ new) r"
    by (subst blocked_append) auto
qed

lemma publish_store_ok:
  assumes "store_ok es" "publish ctx reg fresh position now event es = Inr (i, due, es')"
    and above: "\<And>e. e \<in> set (es_outbox es) \<Longrightarrow> e_subject_ref e = n_subject_ref event \<Longrightarrow>
      e_position e < position"
  shows "store_ok es'"
proof -
  let ?row = "outbox_row ctx fresh position now event"
  let ?new = "fan_out ctx reg fresh position now event"
  note pub = publish_InrD [OF assms(2)]
  have "queue_ordered (es_deliveries es @ ?new)"
  proof (rule queue_ordered_append)
    fix e c assume new: "e \<in> set ?new" and c: "c \<in> set (es_deliveries es)" and "same_queue e c"
    then have subj: "d_subject_ref c = n_subject_ref event"
      using fan_out_in(3) by (fastforce simp: same_queue_def)
    from c assms(1) obtain ev where "ev \<in> set (es_outbox es)" "delivery_of ev c"
      by (auto simp: store_ok_def)
    with above subj have "d_position c < position" by (auto simp: delivery_of_def)
    with fan_out_in(4) [OF new] show "d_position c \<le> d_position e" by simp
  qed (use assms(1) in \<open>auto simp: store_ok_def dest: fan_out_in(1)\<close>)
  moreover have "delivery_of ?row d" if "d \<in> set ?new" for d
    using fan_out_in [OF that] by (simp add: delivery_of_def outbox_row_def)
  moreover have "unique_by e_id (es_outbox es @ [?row])"
    using assms(1) pub(2) by (auto simp: store_ok_def unique_by_def outbox_row_def)
  moreover have "unique_by d_key (es_deliveries es @ ?new)"
    using pub(1,4) assms(1) by (simp add: store_ok_def deliveries_ok_def)
  ultimately show ?thesis
    using assms(1) unfolding store_ok_def deliveries_ok_def pub(1)
    by (auto dest: fan_out_in(2))
qed

section \<open>Replay and the sweep keep the store\<close>

lemma resettable_settles:
  "resettable c ty p ob r \<Longrightarrow> d_consumer_id r = c \<and> p \<le> d_position r \<and> d_state r \<noteq> DLeased"
  by (auto simp: resettable_def in_replay_range_def)

lemma replay_store_ok:
  assumes ok: "store_ok es"
    and idle: "\<And>r. r \<in> set (es_deliveries es) \<Longrightarrow> in_replay_range c p r \<Longrightarrow> d_state r \<noteq> DLeased"
    and eq: "replay_deliveries c ty p now (es_outbox es) (es_deliveries es) (es_ledger es) =
      (n, t, led)"
  shows "store_ok (es\<lparr>es_deliveries := t, es_ledger := led\<rparr>)"
proof -
  let ?t = "es_deliveries es" and ?ob = "es_outbox es"
  let ?P = "resettable c ty p ?ob"
  let ?t1 = "update_where ?P (reset_values now) ?t"
  let ?new = "missing_deliveries now c ty p ?ob ?t"
  have uniq: "unique_by d_key ?t" "unique_by e_id ?ob" and ord: "queue_ordered ?t"
    and fk: "\<And>d. d \<in> set ?t \<Longrightarrow> \<exists>e \<in> set ?ob. delivery_of e d"
    and rows: "\<And>d. d \<in> set ?t \<Longrightarrow> delivery_ok d"
    using ok by (auto simp: store_ok_def deliveries_ok_def)
  have t: "t = ?t1 @ ?new"
    using eq replay_eq [OF uniq] by auto
  have low: "r \<in> set ?t \<Longrightarrow> d_state r = DLeased \<Longrightarrow> d_consumer_id r = c \<Longrightarrow> d_position r < p" for r
    using idle [of r] by (auto simp: in_replay_range_def not_le [symmetric])
  have leased1: "r \<in> set ?t1 \<Longrightarrow> d_state r = DLeased \<Longrightarrow> r \<in> set ?t" for r
    by (erule in_update_whereE) (auto split: if_splits)
  have "queue_ordered ?t1"
    unfolding queue_ordered_def
  proof (intro ballI impI notI)
    fix r assume r: "r \<in> set ?t1" "d_state r = DLeased" and "delivery_blocked ?t1 r"
    then obtain e' where e': "e' \<in> set ?t1" "same_queue e' r" "d_position e' < d_position r"
      "\<not> settled (d_state e')"
      by (auto simp: delivery_blocked_def)
    from r have rt: "r \<in> set ?t" by (rule leased1)
    from e'(1) obtain e where e: "e \<in> set ?t" "e' = (if ?P e then reset_values now e else e)"
      by (rule in_update_whereE)
    show False
    proof (cases "?P e")
      case True
      then have "d_consumer_id r = c" "p \<le> d_position e'"
        using e'(2) e(2) resettable_settles [OF True]
        by (auto simp: same_queue_def reset_values_def)
      with low [OF rt r(2)] e'(3) show False by simp
    next
      case False
      with e e' have "delivery_blocked ?t r" by (auto simp: delivery_blocked_def)
      with ord rt r(2) show False by (simp add: queue_ordered_def)
    qed
  qed
  then have "queue_ordered (?t1 @ ?new)"
  proof (rule queue_ordered_append)
    fix e r assume "e \<in> set ?new" "r \<in> set ?t1" "d_state r = DLeased" "same_queue e r"
    then show "d_position r \<le> d_position e"
      using leased1 [of r] low [of r] by (auto simp: set_missing_deliveries same_queue_def)
  qed (auto simp: set_missing_deliveries)
  moreover have "unique_by d_key (?t1 @ ?new)"
  proof -
    have "map d_key ?t1 = map d_key ?t" by (rule map_update_where) simp
    moreover from this have "d_key ` set ?t1 = d_key ` set ?t" by (metis list.set_map)
    ultimately show ?thesis
      using uniq distinct_missing [OF uniq(2)] by (fastforce simp: unique_by_def set_missing_deliveries)
  qed
  moreover have "\<exists>e \<in> set ?ob. delivery_of e d" if "d \<in> set (?t1 @ ?new)" for d
  proof (cases "d \<in> set ?t1")
    case True
    then obtain q where q: "q \<in> set ?t" "d = (if ?P q then reset_values now q else q)"
      by (rule in_update_whereE)
    from q(2) have "place d = place q" by simp
    with fk [OF q(1)] show ?thesis using delivery_of_place by blast
  next
    case False
    with that show ?thesis by (auto simp: set_missing_deliveries delivery_of_def)
  qed
  moreover have "delivery_ok d" if "d \<in> set (?t1 @ ?new)" for d
    using that rows by (auto simp: set_missing_deliveries elim!: in_update_whereE split: if_splits)
  ultimately show ?thesis
    using uniq(2) by (auto simp: store_ok_def deliveries_ok_def t)
qed

text \<open>What a purge that returns has done.\<close>

lemma purge_InrD:
  assumes "purge_outbox stop now before limit batches es = Inr (rep, es')"
    "unique_by e_id (es_outbox es)"
  obtains w0 s where "es_swept es = Some w0"
    "sweep_inv before (es_outbox es) (es_deliveries es) w0 s"
    "es_outbox es' = sw_outbox s" "es_deliveries es' = sw_deliveries s"
    "es_swept es' = Some (sw_swept s)"
    "es_ledger es' = filter (\<lambda>q. p_event_id q \<notin> set (sw_deleted s)) (es_ledger es)"
proof -
  from assms(1) obtain w0 where w0: "es_swept es = Some w0"
    by (auto simp: purge_outbox_def split: option.splits)
  let ?s0 = "\<lparr>sw_outbox = es_outbox es, sw_deliveries = es_deliveries es, sw_deleted = [],
    sw_swept = w0, sw_events = 0, sw_delivery_rows = 0\<rparr>"
  from assms(1) w0 obtain s where s: "sweep_batches stop before limit batches ?s0 = Inr s"
    by (auto simp: purge_outbox_def split: sum.splits)
  have "sweep_inv before (es_outbox es) (es_deliveries es) w0 ?s0"
    by (simp add: sweep_inv_def)
  from sweep_batches_inv [OF s this assms(2)]
  have inv: "sweep_inv before (es_outbox es) (es_deliveries es) w0 s" .
  show thesis
  proof (rule that [OF w0 inv])
    show "es_outbox es' = sw_outbox s" "es_deliveries es' = sw_deliveries s"
      using assms(1) w0 s by (auto simp: purge_outbox_def Let_def split: if_splits)
    show "es_swept es' = Some (sw_swept s)"
      using assms(1) w0 s inv by (auto simp: purge_outbox_def Let_def sweep_inv_def split: if_splits)
    show "es_ledger es' = filter (\<lambda>q. p_event_id q \<notin> set (sw_deleted s)) (es_ledger es)"
      using assms(1) w0 s by (auto simp: purge_outbox_def Let_def split: if_splits)
  qed
qed

lemma queue_ordered_subset:
  "queue_ordered t \<Longrightarrow> set t' \<subseteq> set t \<Longrightarrow> queue_ordered t'"
  by (fastforce simp: queue_ordered_def delivery_blocked_def)

lemma unique_by_filter: "unique_by key t \<Longrightarrow> unique_by key (filter P t)"
  by (simp add: unique_by_def distinct_map inj_on_def)

lemma purge_store_ok:
  assumes ok: "store_ok es" and "purge_outbox stop now before limit batches es = Inr (rep, es')"
  shows "store_ok es'"
proof -
  from ok have "unique_by e_id (es_outbox es)" by (simp add: store_ok_def)
  with assms(2) obtain w0 s where s: "sweep_inv before (es_outbox es) (es_deliveries es) w0 s"
    "es_outbox es' = sw_outbox s" "es_deliveries es' = sw_deliveries s"
    by (rule purge_InrD)
  then have ob: "es_outbox es' = filter (\<lambda>e. e_id e \<notin> set (sw_deleted s)) (es_outbox es)"
    and dv: "es_deliveries es' = filter (\<lambda>d. d_event_id d \<notin> set (sw_deleted s)) (es_deliveries es)"
    by (simp_all add: sweep_inv_def)
  have "\<exists>e \<in> set (es_outbox es'). delivery_of e d" if "d \<in> set (es_deliveries es')" for d
    using that ok unfolding ob dv store_ok_def by (fastforce simp: delivery_of_def)
  then show ?thesis
    using ok queue_ordered_subset [of "es_deliveries es" "es_deliveries es'"]
    by (auto simp: store_ok_def deliveries_ok_def ob dv unique_by_filter)
qed

lemma purge_horizon_ok:
  assumes ok: "horizon_ok es hist" and "store_ok es"
    and "purge_outbox stop now before limit batches es = Inr (rep, es')"
  shows "horizon_ok es' hist"
proof -
  from assms(2) have "unique_by e_id (es_outbox es)" by (simp add: store_ok_def)
  with assms(3) obtain w0 s where w0: "es_swept es = Some w0"
    and s: "sweep_inv before (es_outbox es) (es_deliveries es) w0 s"
    "es_outbox es' = sw_outbox s" "es_swept es' = Some (sw_swept s)"
    by (rule purge_InrD)
  have "e \<in> set (es_outbox es') \<or> (\<exists>w. sw_swept s = Some w \<and> e_position e \<le> w)"
    if "e \<in> set hist" for e
  proof (cases "e \<in> set (es_outbox es)")
    case True
    with s show ?thesis by (auto simp: sweep_inv_def)
  next
    case False
    with ok that w0 obtain w where "w0 = Some w" "e_position e \<le> w"
      by (auto simp: horizon_ok_def)
    with s(1) show ?thesis by (fastforce simp: sweep_inv_def)
  qed
  moreover have "set (es_outbox es') \<subseteq> set (es_outbox es)"
    using s(1,2) by (auto simp: sweep_inv_def)
  ultimately show ?thesis
    using ok s(3) by (auto simp: horizon_ok_def)
qed

section \<open>Every transition keeps the invariant\<close>

lemma publish_horizon_ok:
  assumes ok: "horizon_ok es hist"
    and "publish ctx reg fresh position now event es = Inr (i, due, es')"
    and "position \<notin> e_position ` set hist" "fresh \<notin> e_id ` set hist"
  shows "horizon_ok es' (hist @ [outbox_row ctx fresh position now event])"
  using ok assms(3,4) publish_InrD(1) [OF assms(2)]
  by (auto simp: horizon_ok_def unique_by_def outbox_row_def)

lemma horizon_ok_frame:
  "horizon_ok es hist \<Longrightarrow> es_outbox es' = es_outbox es \<Longrightarrow> es_swept es' = es_swept es \<Longrightarrow>
   horizon_ok es' hist"
  by (simp add: horizon_ok_def)

lemma event_step_ok:
  assumes "event_step (es, hist) (es', hist')" "store_ok es \<and> horizon_ok es hist"
  shows "store_ok es' \<and> horizon_ok es' hist'"
  using assms(1)
proof (cases rule: event_step.cases)
  case (es_publish ctx reg fresh position now event i due)
  then have "store_ok es'"
    using assms(2) by (intro publish_store_ok [OF _ es_publish(2)]) (auto simp: horizon_ok_def)
  with es_publish assms(2) show ?thesis
    using publish_horizon_ok [OF _ es_publish(2)] by auto
next
  case (es_replay wctx c p now n due)
  from es_replay(2) show ?thesis
  proof (rule replay_handler_InrD)
    fix reg sub swept h
    assume idle: "\<And>r. r \<in> set (es_deliveries es) \<Longrightarrow> in_replay_range c p r \<Longrightarrow> d_state r \<noteq> DLeased"
      and eq: "(n, es_deliveries es', es_ledger es') =
        replay_deliveries c (s_event_type sub) p now (es_outbox es) (es_deliveries es)
          (es_ledger es)"
      and frame: "es_outbox es' = es_outbox es" "es_swept es' = es_swept es"
    have "store_ok (es\<lparr>es_deliveries := es_deliveries es', es_ledger := es_ledger es'\<rparr>)"
      by (rule replay_store_ok [OF _ idle eq [symmetric]]) (use assms(2) in simp_all)
    then have "store_ok es'"
      using frame by (simp add: store_ok_def)
    with assms(2) es_replay(1) show ?thesis
      using horizon_ok_frame [OF _ frame] by simp
  qed
next
  case (es_purge stop now before limit batches rep)
  then show ?thesis
    using assms(2) purge_store_ok purge_horizon_ok by blast
next
  case (es_processed c i now led)
  then show ?thesis using assms(2) by (simp add: store_ok_def horizon_ok_def)
next
  case (es_retry wctx k now st)
  then show ?thesis
    using assms(2) ends_store_ok(5) [of es k now] retry_handler_InrD [OF es_retry(2)]
    by (simp add: horizon_ok_def)
next
  case (es_skip wctx k nt now st)
  then show ?thesis
    using assms(2) ends_store_ok(6) [of es k now] skip_handler_InrD [OF es_skip(2)]
    by (simp add: horizon_ok_def)
next
  case (es_lease locked w now secs l t)
  then show ?thesis using assms(2) lease_store_ok by (auto simp: horizon_ok_def)
next
  case (es_delivered k w now)
  then show ?thesis using assms(2) ends_store_ok(1) [of es k w now] by (simp add: horizon_ok_def)
next
  case (es_requeue k w now err j)
  then show ?thesis using assms(2) ends_store_ok(2) [of es k w now err j] by (simp add: horizon_ok_def)
next
  case (es_defer k w nx)
  then show ?thesis using assms(2) ends_store_ok(3) [of es k w nx] by (simp add: horizon_ok_def)
next
  case (es_fail k w now err)
  then show ?thesis using assms(2) ends_store_ok(4) [of es k w now err] by (simp add: horizon_ok_def)
qed

lemma event_reach_ok:
  assumes "event_reach es hist"
  shows "store_ok es \<and> horizon_ok es hist"
proof -
  have "event_step\<^sup>*\<^sup>* s s' \<Longrightarrow> (case s of (es, hist) \<Rightarrow> store_ok es \<and> horizon_ok es hist) \<Longrightarrow>
    (case s' of (es, hist) \<Rightarrow> store_ok es \<and> horizon_ok es hist)" for s s' :: "'a event_store \<times> 'a outbox"
    by (induction rule: rtranclp_induct) (auto dest: event_step_ok)
  from this [OF assms [unfolded event_reach_def]] show ?thesis
    by (simp add: empty_store_def store_ok_def horizon_ok_def deliveries_ok_def unique_by_def
        queue_ordered_def)
qed

text \<open>Two leased deliveries of one queue are one delivery.\<close>

lemma one_in_flight:
  assumes "store_ok es" "horizon_ok es hist"
    and "a \<in> set (es_deliveries es)" "b \<in> set (es_deliveries es)"
    and "d_state a = DLeased" "d_state b = DLeased" "same_queue a b"
  shows "a = b"
proof -
  have "\<not> delivery_blocked (es_deliveries es) a" "\<not> delivery_blocked (es_deliveries es) b"
    using assms by (auto simp: store_ok_def queue_ordered_def)
  with assms(3-7) have "\<not> d_position a < d_position b" "\<not> d_position b < d_position a"
    unfolding delivery_blocked_def same_queue_def settled_def by force+
  then have pos: "d_position a = d_position b" by simp
  from assms(1,3) obtain ea where "ea \<in> set (es_outbox es)" "delivery_of ea a"
    by (auto simp: store_ok_def)
  moreover from assms(1,4) obtain eb where "eb \<in> set (es_outbox es)" "delivery_of eb b"
    by (auto simp: store_ok_def)
  ultimately have e: "ea \<in> set (es_outbox es)" "delivery_of ea a"
    "eb \<in> set (es_outbox es)" "delivery_of eb b" by simp_all
  with assms(2) pos have "ea = eb"
    by (auto simp: horizon_ok_def delivery_of_def intro: unique_by_eqD)
  with e assms(7) have "d_key a = d_key b"
    by (simp add: d_key_def delivery_of_def same_queue_def)
  with assms(1,3,4) show ?thesis
    by (auto simp: store_ok_def deliveries_ok_def intro: unique_by_eqD)
qed

end
