(* ===== verification/Delivery_System.thy ===== *)
theory Delivery_System
  imports Delivery_Worker Event_System
begin

text \<open>
  Publishers, delivery workers, operators and the retention sweep over one workspace database,
  as a transition system: a worker takes a lease, then runs the transactions of
  \<^verbatim>\<open>Delivery_Worker\<close> from the place it is at, and may die at any place.

  \<open>db_ok\<close> is the exactly-once invariant: a delivery is \<open>delivered\<close> exactly when the ledger holds
  it, and then the effects of its handler have been committed once.
\<close>

section \<open>The transitions\<close>

text \<open>A publish, under what \<open>es_publish\<close> assumes of positions and ids.\<close>

inductive publish_step ::
  "'v event_store \<times> 'v outbox \<Rightarrow> 'v event_store \<times> 'v outbox \<Rightarrow> bool" where
  ps_publish: "publish ctx reg fresh position now event es = Inr (i, due, es') \<Longrightarrow> registry_ok reg \<Longrightarrow>
    position \<notin> e_position ` set hist \<Longrightarrow> fresh \<notin> e_id ` set hist \<Longrightarrow>
    (\<And>e. e \<in> set hist \<Longrightarrow> e_subject_ref e = n_subject_ref event \<Longrightarrow> e_position e < position) \<Longrightarrow>
    publish_step (es, hist) (es', hist @ [outbox_row ctx fresh position now event])"

text \<open>\<open>evs_replayed\<close> is a ghost: the effects that a later replay asked to be run again.\<close>

record ('v, 'x) delivery_sys =
  evs_db :: "('v, 'x) event_db"
  evs_hist :: "'v outbox"
  evs_pc :: "string \<Rightarrow> 'v dpc"
  evs_replayed :: "((uuid \<times> string) \<times> 'x) list"

text \<open>The publishes of a handler are published when its transaction commits, which is when its
  effects are there.\<close>

inductive delivery_tx ::
  "int \<Rightarrow> registry \<Rightarrow> string \<Rightarrow> ('v, 'x) event_db \<Rightarrow> 'v outbox \<Rightarrow> 'v dpc \<Rightarrow> 'v dpc \<Rightarrow>
   ('v, 'x) event_db \<Rightarrow> 'v outbox \<Rightarrow> bool"
  for budget reg w db hist where
  dt_gate: "run_leased_delivery budget reg ready clock l w db = (pc', db') \<Longrightarrow>
    delivery_tx budget reg w db hist (D_Leased l) pc' db' hist"
| dt_done: "publish_step\<^sup>*\<^sup>* (ed_store db, hist) (es1, hist1) \<Longrightarrow>
    run_consumer (Consumer_Done x es1) ierr pat fat l env w db = (pc', db') \<Longrightarrow>
    delivery_tx budget reg w db hist (D_Running l env) pc' db'
      (if ed_effects db' = ed_effects db then hist else hist1)"
| dt_stopped: "outcome = Consumer_Unready \<or> outcome = Consumer_Raised e \<Longrightarrow>
    run_consumer outcome ierr pat fat l env w db = (pc', db') \<Longrightarrow>
    delivery_tx budget reg w db hist (D_Running l env) pc' db' hist"
| dt_missing: "consumer_missing clock l e w db = (pc', db') \<Longrightarrow>
    delivery_tx budget reg w db hist (D_Missing l e) pc' db' hist"
| dt_unready: "consumer_unready clock l w db = (pc', db') \<Longrightarrow>
    delivery_tx budget reg w db hist (D_Unready l) pc' db' hist"
| dt_raised: "consumer_raised budget now jitter l e w db = (pc', db') \<Longrightarrow>
    delivery_tx budget reg w db hist (D_Raised l e) pc' db' hist"

definition replayed_by :: "work_context \<Rightarrow> string \<Rightarrow> int \<Rightarrow> 'v event_store \<Rightarrow> uuid \<times> string \<Rightarrow> bool" where
  "replayed_by wctx c p es k \<longleftrightarrow>
     (\<exists>reg sub. wc_consumers wctx = Some reg \<and> lookup_consumer c reg = Some sub \<and>
        snd k = c \<and> replayable (s_event_type sub) p (es_outbox es) (fst k))"

inductive delivery_step ::
  "int \<Rightarrow> registry \<Rightarrow> ('v, 'x) delivery_sys \<Rightarrow> ('v, 'x) delivery_sys \<Rightarrow> bool"
  for budget reg where
  ys_publish: "publish_step (ed_store (evs_db s), evs_hist s) (es', hist') \<Longrightarrow>
    delivery_step budget reg s (s\<lparr>evs_db := (evs_db s)\<lparr>ed_store := es'\<rparr>, evs_hist := hist'\<rparr>)"
| ys_lease: "evs_pc s w = D_Idle \<Longrightarrow>
    lease_delivery locked w now lease_seconds (es_deliveries (ed_store (evs_db s))) = (Some l, t) \<Longrightarrow>
    delivery_step budget reg s
      (s\<lparr>evs_db := (evs_db s)\<lparr>ed_store := (ed_store (evs_db s))\<lparr>es_deliveries := t\<rparr>\<rparr>,
         evs_pc := (evs_pc s)(w := D_Leased l)\<rparr>)"
| ys_worker: "delivery_tx budget reg w (evs_db s) (evs_hist s) (evs_pc s w) pc' db' hist' \<Longrightarrow>
    delivery_step budget reg s
      (s\<lparr>evs_db := db', evs_hist := hist', evs_pc := (evs_pc s)(w := pc')\<rparr>)"
| ys_crash: "delivery_step budget reg s (s\<lparr>evs_pc := (evs_pc s)(w := D_Idle)\<rparr>)"
| ys_retry: "retry_handler wctx k now (ed_store (evs_db s)) = Inr (st, es') \<Longrightarrow>
    delivery_step budget reg s (s\<lparr>evs_db := (evs_db s)\<lparr>ed_store := es'\<rparr>\<rparr>)"
| ys_skip: "skip_handler wctx k nt now (ed_store (evs_db s)) = Inr (st, es') \<Longrightarrow>
    delivery_step budget reg s (s\<lparr>evs_db := (evs_db s)\<lparr>ed_store := es'\<rparr>\<rparr>)"
| ys_replay: "replay_handler wctx c p now (ed_store (evs_db s)) = Inr (n, due, es') \<Longrightarrow>
    delivery_step budget reg s
      (s\<lparr>evs_db := \<lparr>ed_store = es',
           ed_effects = filter (\<lambda>(k, x). \<not> replayed_by wctx c p (ed_store (evs_db s)) k)
             (ed_effects (evs_db s))\<rparr>,
         evs_replayed := evs_replayed s @
           filter (\<lambda>(k, x). replayed_by wctx c p (ed_store (evs_db s)) k) (ed_effects (evs_db s))\<rparr>)"
| ys_purge: "purge_outbox stop now before limit batches (ed_store (evs_db s)) = Inr (rep, es') \<Longrightarrow>
    delivery_step budget reg s (s\<lparr>evs_db := (evs_db s)\<lparr>ed_store := es'\<rparr>\<rparr>)"

definition empty_delivery_sys :: "('v, 'x) delivery_sys" where
  "empty_delivery_sys =
     \<lparr>evs_db = \<lparr>ed_store = empty_store, ed_effects = []\<rparr>, evs_hist = [], evs_pc = (\<lambda>_. D_Idle),
      evs_replayed = []\<rparr>"

definition delivery_reach :: "int \<Rightarrow> registry \<Rightarrow> ('v, 'x) delivery_sys \<Rightarrow> bool" where
  "delivery_reach budget reg s \<longleftrightarrow> (delivery_step budget reg)\<^sup>*\<^sup>* empty_delivery_sys s"

section \<open>Every run is a run of the event store\<close>

lemma publish_steps_event: "publish_step\<^sup>*\<^sup>* a b \<Longrightarrow> event_step\<^sup>*\<^sup>* a b"
proof (induction rule: rtranclp_induct)
  case (step b c)
  from step.hyps(2) have "event_step b c"
    by (cases rule: publish_step.cases) (blast intro: es_publish)
  with step.IH show ?case by simp
qed simp

lemma on_deliveries_shape:
  "snd (on_deliveries write db) =
     db\<lparr>ed_store := (ed_store db)\<lparr>es_deliveries := snd (write (es_deliveries (ed_store db)))\<rparr>\<rparr>"
  "fst (on_deliveries write db) = fst (write (es_deliveries (ed_store db)))"
  by (simp_all add: on_deliveries_def split: prod.splits)

lemma fail_delivery_alone_store:
  "ed_effects (fail_delivery_alone l w clock e unless db) = ed_effects db \<and>
   (ed_store (fail_delivery_alone l w clock e unless db) =
      (ed_store db)\<lparr>es_deliveries := snd (fail_delivery (ld_key l) w clock e (es_deliveries (ed_store db)))\<rparr> \<or>
    ed_store (fail_delivery_alone l w clock e unless db) =
      (ed_store db)\<lparr>es_deliveries := snd (defer_unready_delivery (ld_key l) w
         (clock + seconds unready_seconds) (es_deliveries (ed_store db)))\<rparr>)"
  by (cases unless) (auto simp: fail_delivery_alone_def finish_alone_def unless_unready_def
      on_deliveries_shape Let_def split_beta)

text \<open>The writes that end an attempt without delivering.\<close>

inductive quiet :: "'v event_store \<Rightarrow> 'v event_store \<Rightarrow> bool" for es where
  q_same: "quiet es es"
| q_fail: "quiet es (es\<lparr>es_deliveries := snd (fail_delivery k w now e (es_deliveries es))\<rparr>)"
| q_defer: "quiet es (es\<lparr>es_deliveries := snd (defer_unready_delivery k w nx (es_deliveries es))\<rparr>)"
| q_requeue: "quiet es (es\<lparr>es_deliveries := snd (requeue_delivery k w now e j (es_deliveries es))\<rparr>)"

lemma quiet_event: "quiet es es' \<Longrightarrow> event_step\<^sup>*\<^sup>* (es, hist) (es', hist)"
  by (cases rule: quiet.cases) (auto intro: r_into_rtranclp event_step.intros)

lemma fail_delivery_alone_quiet:
  "quiet (ed_store db) (ed_store (fail_delivery_alone l w clock e unless db))"
  "ed_effects (fail_delivery_alone l w clock e unless db) = ed_effects db"
  using fail_delivery_alone_store [of l w clock e unless db] by (auto intro: quiet.intros)

lemma consumer_unready_quiet:
  assumes "consumer_unready clock l w db = (pc', db')"
  shows "quiet (ed_store db) (ed_store db') \<and> ed_effects db' = ed_effects db \<and> pc' = D_Idle"
  using assms
  by (auto simp: consumer_unready_def finish_alone_def on_deliveries_shape split_beta
      intro: quiet.intros)

lemma consumer_raised_quiet:
  assumes "consumer_raised budget now jitter l e w db = (pc', db')"
  shows "quiet (ed_store db) (ed_store db') \<and> ed_effects db' = ed_effects db \<and> pc' = D_Idle"
  using assms
  by (auto simp: consumer_raised_def write_delivery_failure_def finish_alone_def
      on_deliveries_shape split_beta intro: quiet.intros split: if_splits)

text \<open>The commit of a handler that ran.\<close>

definition consumer_commit ::
  "leased_delivery \<Rightarrow> string \<Rightarrow> ('v, 'x) event_db \<Rightarrow> 'v outbox \<Rightarrow> ('v, 'x) event_db \<Rightarrow> 'v outbox \<Rightarrow> bool"
where
  "consumer_commit l w db hist db' hist' \<longleftrightarrow>
     (\<exists>es1 pat led fat t x.
        publish_step\<^sup>*\<^sup>* (ed_store db, hist) (es1, hist') \<and>
        record_processed (ld_consumer_id l) (ld_event_id l) pat (es_ledger es1) = Inr led \<and>
        mark_delivered (ld_key l) w fat (es_deliveries es1) = (True, t) \<and>
        db' = db\<lparr>ed_store := es1\<lparr>es_ledger := led, es_deliveries := t\<rparr>,
                 ed_effects := ed_effects db @ [(ld_key l, x)]\<rparr>)"

definition finish_only ::
  "leased_delivery \<Rightarrow> string \<Rightarrow> ('v, 'x) event_db \<Rightarrow> ('v, 'x) event_db \<Rightarrow> bool" where
  "finish_only l w db db' \<longleftrightarrow>
     (\<exists>fat t. mark_delivered (ld_key l) w fat (es_deliveries (ed_store db)) = (True, t) \<and>
        db' = db\<lparr>ed_store := (ed_store db)\<lparr>es_deliveries := t\<rparr>\<rparr>)"

lemma consumer_commitI:
  assumes "publish_step\<^sup>*\<^sup>* (ed_store db, hist) (es1, hist')"
    and "record_processed (ld_consumer_id l) (ld_event_id l) pat (es_ledger es1) = Inr led"
    and "mark_delivered (ld_key l) w fat (es_deliveries es1) = (True, t)"
    and "db' = db\<lparr>ed_store := es1\<lparr>es_ledger := led, es_deliveries := t\<rparr>,
                ed_effects := ed_effects db @ [(ld_key l, x)]\<rparr>"
  shows "consumer_commit l w db hist db' hist'"
  unfolding consumer_commit_def using assms by (intro exI conjI)

lemma run_consumer_done:
  assumes "run_consumer (Consumer_Done x es1) ierr pat fat l env w db = (pc', db')"
    and "publish_step\<^sup>*\<^sup>* (ed_store db, hist) (es1, hist1)"
  shows "db' = db \<or>
     (env = None \<and> ed_effects db' = ed_effects db \<and> finish_only l w db db' \<and> pc' = D_Idle) \<or>
     (env \<noteq> None \<and> ed_effects db' \<noteq> ed_effects db \<and> consumer_commit l w db hist db' hist1 \<and> pc' = D_Idle)"
proof (cases env)
  case None
  then show ?thesis
    using assms(1)
    by (auto simp: run_consumer_def on_deliveries_def finish_only_def split: prod.splits if_splits)
next
  case (Some e)
  show ?thesis
  proof (cases "record_processed (ld_consumer_id l) (ld_event_id l) pat (es_ledger es1)")
    case (Inl err)
    then show ?thesis using assms(1) Some by (simp add: run_consumer_def)
  next
    case (Inr led)
    obtain applied t where m: "mark_delivered (ld_key l) w fat (es_deliveries es1) = (applied, t)"
      by force
    show ?thesis
    proof (cases applied)
      case True
      then have db': "db' = db\<lparr>ed_store := es1\<lparr>es_ledger := led, es_deliveries := t\<rparr>,
          ed_effects := ed_effects db @ [(ld_key l, x)]\<rparr>" "pc' = D_Idle"
        using assms(1) Some Inr m by (auto simp: run_consumer_def on_deliveries_def)
      then have "ed_effects db' \<noteq> ed_effects db" by simp
      then show ?thesis
        using db'(2) Some consumer_commitI [OF assms(2) Inr m [unfolded eq_True [THEN iffD2, OF True]] db'(1)]
        by simp
    next
      case False
      then show ?thesis
        using assms(1) Some Inr m by (auto simp: run_consumer_def on_deliveries_def)
    qed
  qed
qed

text \<open>What one transaction of a worker does to the database.\<close>

lemma delivery_tx_cases:
  assumes "delivery_tx budget reg w db hist pc pc' db' hist'"
  obtains (quiet) "quiet (ed_store db) (ed_store db')" "ed_effects db' = ed_effects db" "hist' = hist"
  | (finish) l where "pc = D_Running l None" "finish_only l w db db'" "hist' = hist"
  | (commit) l env where "pc = D_Running l (Some env)" "consumer_commit l w db hist db' hist'"
      "pc' = D_Idle"
  using assms
proof (cases rule: delivery_tx.cases)
  case (dt_gate ready clock l)
  then have "ed_store db' = ed_store db \<and> ed_effects db' = ed_effects db \<or>
      (\<exists>e u. db' = fail_delivery_alone l w clock e u db)"
    by (auto simp: run_leased_delivery_def split: if_splits option.splits)
  then show ?thesis
    using fail_delivery_alone_quiet [where db = db and l = l and w = w and clock = clock] dt_gate
    by (auto intro!: quiet intro: quiet.intros)
next
  case (dt_done es1 hist1 x ierr pat fat l env)
  from run_consumer_done [OF dt_done(4,3)] consider (same) "db' = db"
    | (fin_only) "env = None" "finish_only l w db db'" "ed_effects db' = ed_effects db"
    | (com) "env \<noteq> None" "ed_effects db' \<noteq> ed_effects db" "consumer_commit l w db hist db' hist1" "pc' = D_Idle"
    by blast
  then show ?thesis
  proof cases
    case same
    then show ?thesis using dt_done by (auto intro!: quiet intro: quiet.intros)
  next
    case fin_only
    then show ?thesis using dt_done by (intro finish) auto
  next
    case com
    then show ?thesis using dt_done by (auto intro!: commit)
  qed
next
  case (dt_stopped outcome e ierr pat fat l env)
  then have "db' = db \<or> env = None \<and> finish_only l w db db'"
    by (auto simp: run_consumer_def on_deliveries_def finish_only_def
        split: option.splits prod.splits if_splits)
  then show ?thesis
  proof
    assume "db' = db"
    then show ?thesis using dt_stopped by (auto intro: quiet.intros intro!: quiet)
  next
    assume "env = None \<and> finish_only l w db db'"
    then show ?thesis using dt_stopped by (intro finish) auto
  qed
next
  case (dt_missing clock l e)
  then show ?thesis
    using fail_delivery_alone_quiet [where db = db and l = l and w = w and clock = clock]
    by (auto simp: consumer_missing_def intro!: quiet)
next
  case (dt_unready clock l)
  then show ?thesis using consumer_unready_quiet [OF dt_unready(3)] by (intro quiet) auto
next
  case (dt_raised now jitter l e)
  then show ?thesis using consumer_raised_quiet [OF dt_raised(3)] by (intro quiet) auto
qed

lemma finish_only_event:
  assumes "finish_only l w db db'"
  shows "event_step\<^sup>*\<^sup>* (ed_store db, hist) (ed_store db', hist)"
proof -
  obtain fat t where m: "mark_delivered (ld_key l) w fat (es_deliveries (ed_store db)) = (True, t)"
    and db': "db' = db\<lparr>ed_store := (ed_store db)\<lparr>es_deliveries := t\<rparr>\<rparr>"
    using assms unfolding finish_only_def by blast
  show ?thesis
    using es_delivered [of "ed_store db" hist "ld_key l" w fat] m db' by (auto intro: r_into_rtranclp)
qed

lemma consumer_commit_event:
  assumes "consumer_commit l w db hist db' hist'"
  shows "event_step\<^sup>*\<^sup>* (ed_store db, hist) (ed_store db', hist')"
proof -
  obtain es1 pat led fat t x where
    pub: "publish_step\<^sup>*\<^sup>* (ed_store db, hist) (es1, hist')" and
    led: "record_processed (ld_consumer_id l) (ld_event_id l) pat (es_ledger es1) = Inr led" and
    m: "mark_delivered (ld_key l) w fat (es_deliveries es1) = (True, t)" and
    db': "db' = db\<lparr>ed_store := es1\<lparr>es_ledger := led, es_deliveries := t\<rparr>,
                ed_effects := ed_effects db @ [(ld_key l, x)]\<rparr>"
    using assms unfolding consumer_commit_def by blast
  note publish_steps_event [OF pub]
  also have "event_step (es1, hist') (es1\<lparr>es_ledger := led\<rparr>, hist')" by (rule es_processed [OF led])
  also have "event_step (es1\<lparr>es_ledger := led\<rparr>, hist') (ed_store db', hist')"
    using es_delivered [of "es1\<lparr>es_ledger := led\<rparr>" hist' "ld_key l" w fat] m db' by simp
  finally show ?thesis .
qed

lemma delivery_step_event:
  assumes "delivery_step budget reg s s'"
  shows "event_step\<^sup>*\<^sup>* (ed_store (evs_db s), evs_hist s) (ed_store (evs_db s'), evs_hist s')"
  using assms
proof (cases rule: delivery_step.cases)
  case (ys_publish es' hist')
  then show ?thesis using publish_steps_event [OF r_into_rtranclp] by fastforce
next
  case (ys_lease w locked now l t)
  then show ?thesis by (auto intro: r_into_rtranclp es_lease)
next
  case (ys_worker w pc' db' hist')
  from ys_worker(2) show ?thesis
    by (cases rule: delivery_tx_cases)
      (use ys_worker(1) quiet_event finish_only_event consumer_commit_event in auto)
next
  case (ys_replay wctx c p now n due es')
  then show ?thesis by (auto intro: r_into_rtranclp event_step.es_replay)
next
  case (ys_purge stop now before limit batches rep es')
  then show ?thesis by (auto intro: r_into_rtranclp event_step.es_purge)
next
  case (ys_retry wctx k now st es')
  then show ?thesis by (auto intro: r_into_rtranclp event_step.es_retry)
next
  case (ys_skip wctx k nt now st es')
  then show ?thesis by (auto intro: r_into_rtranclp event_step.es_skip)
qed simp

lemma delivery_reach_event:
  assumes "delivery_reach budget reg s"
  shows "event_reach (ed_store (evs_db s)) (evs_hist s)"
  using assms unfolding delivery_reach_def event_reach_def
proof (induction rule: rtranclp_induct)
  case base
  then show ?case by (simp add: empty_delivery_sys_def)
next
  case (step s s')
  then show ?case using delivery_step_event rtranclp_trans by fast
qed

section \<open>What the writes do to the delivered and the processed\<close>

definition delivered_keys :: "'v event_store \<Rightarrow> (uuid \<times> string) set" where
  "delivered_keys es = d_key ` {d \<in> set (es_deliveries es). d_state d = DDelivered}"

definition processed_keys :: "'v event_store \<Rightarrow> (uuid \<times> string) set" where
  "processed_keys es = (\<lambda>q. (p_event_id q, p_consumer_id q)) ` set (es_ledger es)"

definition held_in :: "'v event_store \<Rightarrow> uuid \<times> string \<Rightarrow> string \<Rightarrow> bool" where
  "held_in es k w \<longleftrightarrow> (\<exists>r \<in> set (es_deliveries es). delivery_held k w r)"

lemma already_processed_key:
  "already_processed (ld_consumer_id l) (ld_event_id l) (es_ledger es) \<longleftrightarrow> ld_key l \<in> processed_keys es"
  by (auto simp: already_processed_def processed_keys_def ld_key_def p_key_def image_iff)

text \<open>An update in place that touches no delivered row and makes none, and leases none.\<close>

lemma update_keeps:
  fixes es :: "'v event_store"
  assumes "\<And>r. P r \<Longrightarrow> d_state r \<noteq> DDelivered \<and> d_state (f r) \<noteq> DDelivered \<and>
      d_state (f r) \<noteq> DLeased \<and> d_key (f r) = d_key r"
  defines "es' \<equiv> es\<lparr>es_deliveries := update_where P f (es_deliveries es)\<rparr>"
  shows "delivered_keys es' = delivered_keys es" "held_in es' k w \<Longrightarrow> held_in es k w"
proof -
  have rows: "set (es_deliveries es') = (\<lambda>r. if P r then f r else r) ` set (es_deliveries es)"
    by (simp add: es'_def update_where_def)
  have "{d \<in> set (es_deliveries es'). d_state d = DDelivered} =
      {d \<in> set (es_deliveries es). d_state d = DDelivered}"
    using assms(1) unfolding rows by (force split: if_splits)
  then show "delivered_keys es' = delivered_keys es" by (simp add: delivered_keys_def)
  show "held_in es' k w \<Longrightarrow> held_in es k w"
    using assms(1) unfolding held_in_def rows by (force simp: delivery_held_def split: if_splits)
qed

definition keeps_marks :: "'v event_store \<Rightarrow> 'v event_store \<Rightarrow> bool" where
  "keeps_marks es es' \<longleftrightarrow>
     delivered_keys es' = delivered_keys es \<and> processed_keys es' = processed_keys es \<and>
     es_outbox es' = es_outbox es \<and> (\<forall>k w. held_in es' k w \<longrightarrow> held_in es k w)"

lemma keeps_marks_update:
  assumes "\<And>r. P r \<Longrightarrow> d_state r \<noteq> DDelivered \<and> d_state (f r) \<noteq> DDelivered \<and>
      d_state (f r) \<noteq> DLeased \<and> d_key (f r) = d_key r"
  shows "keeps_marks es (es\<lparr>es_deliveries := update_where P f (es_deliveries es)\<rparr>)"
  using update_keeps [of P f es, OF assms] by (auto simp: keeps_marks_def processed_keys_def)

lemma person_keeps_marks:
  "keeps_marks es (es\<lparr>es_deliveries := snd (retry_delivery k now (es_deliveries es))\<rparr>)"
  "keeps_marks es (es\<lparr>es_deliveries := snd (skip_delivery k now note (es_deliveries es))\<rparr>)"
  unfolding retry_delivery_def skip_delivery_def snd_apply_where
  by (rule keeps_marks_update, simp add: delivery_failed_def d_key_def)+

lemma quiet_keeps_marks:
  assumes "quiet es es'"
  shows "keeps_marks es es'"
  using assms
proof (cases rule: quiet.cases)
  case (q_requeue k w now e j)
  show ?thesis
  proof (cases "lookup_by d_key k (es_deliveries es)")
    case None
    then show ?thesis
      using q_requeue by (simp add: requeue_delivery_def keeps_marks_def del: lookup_by_None)
  next
    case (Some row)
    then show ?thesis
      unfolding q_requeue requeue_delivery_def option.case snd_apply_where
      by (simp only: option.case snd_apply_where)
        (rule keeps_marks_update, simp add: delivery_held_def d_key_def)
  qed
qed (auto simp: fail_delivery_def defer_unready_delivery_def keeps_marks_def [of es es]
    delivery_held_def d_key_def intro!: keeps_marks_update)

lemma publish_step_marks:
  assumes "publish_step (es, hist) (es', hist')"
  shows "delivered_keys es' = delivered_keys es" "processed_keys es' = processed_keys es"
    "held_in es' k w \<Longrightarrow> held_in es k w"
    "set (es_outbox es) \<subseteq> set hist \<Longrightarrow>
       e_id ` set hist' - e_id ` set (es_outbox es') = e_id ` set hist - e_id ` set (es_outbox es)"
proof -
  from assms obtain ctx reg fresh position now event i due where
    pub: "publish ctx reg fresh position now event es = Inr (i, due, es')"
    and hist': "hist' = hist @ [outbox_row ctx fresh position now event]"
    and fresh: "fresh \<notin> e_id ` set hist"
    by (cases rule: publish_step.cases) blast
  note es' = publish_InrD(1) [OF pub]
  have new: "d_state d = DPending" if "d \<in> set (fan_out ctx reg fresh position now event)" for d
    using fan_out_in(1) [OF that] .
  have "{d \<in> set (es_deliveries es'). d_state d = DDelivered} =
      {d \<in> set (es_deliveries es). d_state d = DDelivered}"
    using new unfolding es' by auto
  then show "delivered_keys es' = delivered_keys es" by (simp add: delivered_keys_def)
  show "processed_keys es' = processed_keys es" unfolding es' by (simp add: processed_keys_def)
  show "held_in es' k w \<Longrightarrow> held_in es k w"
    using new unfolding es' by (auto simp: held_in_def delivery_held_def)
  show "e_id ` set hist' - e_id ` set (es_outbox es') = e_id ` set hist - e_id ` set (es_outbox es)"
    if "set (es_outbox es) \<subseteq> set hist"
    using hist' fresh that unfolding es' by (auto simp: outbox_row_def)
qed

lemma publish_steps_marks:
  assumes "publish_step\<^sup>*\<^sup>* (es, hist) (es', hist')" "store_ok es" "horizon_ok es hist"
  shows "delivered_keys es' = delivered_keys es" "processed_keys es' = processed_keys es"
    "held_in es' k w \<Longrightarrow> held_in es k w"
    "e_id ` set hist' - e_id ` set (es_outbox es') = e_id ` set hist - e_id ` set (es_outbox es)"
    "store_ok es'" "horizon_ok es' hist'"
proof -
  have "delivered_keys es' = delivered_keys es \<and> processed_keys es' = processed_keys es \<and>
      (held_in es' k w \<longrightarrow> held_in es k w) \<and>
      e_id ` set hist' - e_id ` set (es_outbox es') = e_id ` set hist - e_id ` set (es_outbox es) \<and>
      store_ok es' \<and> horizon_ok es' hist'"
    using assms(1)
  proof (induction "(es', hist')" arbitrary: es' hist' rule: rtranclp_induct)
    case base
    then show ?case using assms(2,3) by simp
  next
    case (step y)
    obtain e h where y: "y = (e, h)" by fastforce
    note ih = step.hyps(3) [OF y]
    have ok: "store_ok es' \<and> horizon_ok es' hist'"
      using event_step_ok [of e h es' hist'] step.hyps(2) y ih
      by (auto elim!: publish_step.cases intro: es_publish)
    have "set (es_outbox e) \<subseteq> set h" using ih by (simp add: horizon_ok_def)
    then show ?case
      using publish_step_marks [OF step.hyps(2) [unfolded y]] ih ok by auto
  qed
  then show "delivered_keys es' = delivered_keys es" "processed_keys es' = processed_keys es"
    "held_in es' k w \<Longrightarrow> held_in es k w"
    "e_id ` set hist' - e_id ` set (es_outbox es') = e_id ` set hist - e_id ` set (es_outbox es)"
    "store_ok es'" "horizon_ok es' hist'" by auto
qed

section \<open>The invariant\<close>

definition committed :: "((uuid \<times> string) \<times> 'x) list \<Rightarrow> uuid \<times> string \<Rightarrow> nat" where
  "committed effects k = count_list (map fst effects) k"

definition db_ok :: "('v, 'x) event_db \<Rightarrow> 'v outbox \<Rightarrow> bool" where
  "db_ok db hist \<longleftrightarrow>
     delivered_keys (ed_store db) = processed_keys (ed_store db) \<and>
     (\<forall>k. committed (ed_effects db) k = (if k \<in> delivered_keys (ed_store db) then 1 else 0) \<or>
        committed (ed_effects db) k \<le> 1 \<and>
        fst k \<in> e_id ` set hist - e_id ` set (es_outbox (ed_store db)))"

definition delivery_sys_ok :: "('v, 'x) delivery_sys \<Rightarrow> bool" where
  "delivery_sys_ok s \<longleftrightarrow>
     db_ok (evs_db s) (evs_hist s) \<and>
     (\<forall>w l. evs_pc s w = D_Running l None \<longrightarrow> \<not> held_in (ed_store (evs_db s)) (ld_key l) w)"

lemma db_ok_keeps:
  assumes "db_ok db hist" "keeps_marks (ed_store db) (ed_store db')" "ed_effects db' = ed_effects db"
  shows "db_ok db' hist"
proof -
  have eqs: "delivered_keys (ed_store db') = delivered_keys (ed_store db)"
    "processed_keys (ed_store db') = processed_keys (ed_store db)"
    "es_outbox (ed_store db') = es_outbox (ed_store db)"
    using assms(2) by (simp_all add: keeps_marks_def)
  show ?thesis using assms(1) unfolding db_ok_def eqs assms(3) .
qed

lemma delivered_not_held:
  assumes "store_ok es" "k \<in> delivered_keys es"
  shows "\<not> held_in es k w"
proof
  assume "held_in es k w"
  then obtain r where r: "r \<in> set (es_deliveries es)" "delivery_held k w r"
    by (auto simp: held_in_def)
  obtain d where d: "d \<in> set (es_deliveries es)" "d_key d = k" "d_state d = DDelivered"
    using assms(2) by (auto simp: delivered_keys_def)
  have "unique_by d_key (es_deliveries es)" using assms(1) by (simp add: store_ok_def deliveries_ok_def)
  then have "r = d" using r d unique_by_eqD by (fastforce simp: delivery_held_def)
  then show False using r d by (simp add: delivery_held_def)
qed

lemma mark_delivered_marks:
  assumes "mark_delivered k w now (es_deliveries es) = (True, t)" "store_ok es"
  defines "es' \<equiv> es\<lparr>es_deliveries := t\<rparr>"
  shows "held_in es k w" "delivered_keys es' = insert k (delivered_keys es)"
    "held_in es' j v \<Longrightarrow> held_in es j v"
proof -
  let ?f = "\<lambda>r. r\<lparr>d_state := DDelivered, d_completed_at := Some now, d_lease_owner := None,
              d_lease_until := None, d_last_error := None\<rparr>"
  have t: "t = update_where (delivery_held k w) ?f (es_deliveries es)"
    and one: "rowcount (delivery_held k w) (es_deliveries es) = 1"
    using assms(1) by (auto simp: mark_delivered_def apply_where_def)
  from one have "filter (delivery_held k w) (es_deliveries es) \<noteq> []" by (auto simp: rowcount_def)
  then obtain r where r: "r \<in> set (es_deliveries es)" "delivery_held k w r"
    by (auto simp: filter_empty_conv)
  then show "held_in es k w" by (auto simp: held_in_def)
  have rows: "set (es_deliveries es') =
      (\<lambda>r. if delivery_held k w r then ?f r else r) ` set (es_deliveries es)"
    by (simp add: es'_def t update_where_def)
  show "held_in es' j v \<Longrightarrow> held_in es j v"
    unfolding held_in_def rows by (auto simp: delivery_held_def split: if_splits)
  have "{d \<in> set (es_deliveries es'). d_state d = DDelivered} =
      ?f ` {r \<in> set (es_deliveries es). delivery_held k w r} \<union>
      {d \<in> set (es_deliveries es). d_state d = DDelivered}"
    unfolding rows by (auto simp: delivery_held_def split: if_splits)
  moreover have "d_key ` ?f ` {r \<in> set (es_deliveries es). delivery_held k w r} = {k}"
    using r by (auto simp: delivery_held_def d_key_def image_iff)
  ultimately show "delivered_keys es' = insert k (delivered_keys es)"
    by (simp add: delivered_keys_def image_Un)
qed

lemma lease_marks:
  assumes "lease_delivery locked w now secs (es_deliveries es) = (Some l, t)" "store_ok es"
  defines "es' \<equiv> es\<lparr>es_deliveries := t\<rparr>"
  shows "delivered_keys es' = delivered_keys es" "held_in es' k v \<Longrightarrow> v = w \<or> held_in es k v"
proof -
  obtain d where d: "d \<in> set (es_deliveries es)" "delivery_due now d"
    and t: "t = update_where (\<lambda>r. d_key r = d_key d) (take_delivery w now secs) (es_deliveries es)"
    using assms(1) by (rule lease_delivery_SomeD)
  have uniq: "unique_by d_key (es_deliveries es)"
    using assms(2) by (simp add: store_ok_def deliveries_ok_def)
  have same: "r = d" if "r \<in> set (es_deliveries es)" "d_key r = d_key d" for r
    using unique_by_eqD [OF uniq] that d(1) by blast
  have nd: "d_state d \<noteq> DDelivered" using d(2) by (auto simp: delivery_due_def)
  have rows: "set (es_deliveries es') =
      (\<lambda>r. if d_key r = d_key d then take_delivery w now secs r else r) ` set (es_deliveries es)"
    by (simp add: es'_def t update_where_def)
  have "{r \<in> set (es_deliveries es'). d_state r = DDelivered} =
      {r \<in> set (es_deliveries es). d_state r = DDelivered}"
    using same nd unfolding rows by (auto split: if_splits)
  then show "delivered_keys es' = delivered_keys es" by (simp add: delivered_keys_def)
  show "held_in es' k v \<Longrightarrow> v = w \<or> held_in es k v"
    unfolding held_in_def rows by (auto simp: delivery_held_def split: if_splits)
qed

section \<open>Every transition keeps the invariant\<close>

lemma db_ok_at:
  assumes "db_ok db hist"
  shows "committed (ed_effects db) k = (if k \<in> delivered_keys (ed_store db) then 1 else 0) \<or>
    committed (ed_effects db) k \<le> 1 \<and>
    fst k \<in> e_id ` set hist - e_id ` set (es_outbox (ed_store db))"
  using assms unfolding db_ok_def by blast

lemma db_ok_at_most_once: "db_ok db hist \<Longrightarrow> committed (ed_effects db) k \<le> 1"
  unfolding db_ok_def by (metis (no_types, lifting) le_refl zero_le_one)

lemma db_ok_outbox:
  assumes "db_ok db hist" "fst k \<in> e_id ` set (es_outbox (ed_store db))"
  shows "committed (ed_effects db) k = (if k \<in> delivered_keys (ed_store db) then 1 else 0)"
  using db_ok_at [OF assms(1), of k] assms(2) by blast

lemma row_event:
  assumes "store_ok es" "r \<in> set (es_deliveries es)"
  shows "\<exists>e \<in> set (es_outbox es). delivery_of e r"
  using assms by (simp add: store_ok_def)

lemma row_in_outbox:
  assumes "store_ok es" "r \<in> set (es_deliveries es)"
  shows "fst (d_key r) \<in> e_id ` set (es_outbox es)"
proof -
  obtain e where "e \<in> set (es_outbox es)" "delivery_of e r"
    using row_event [OF assms] by blast
  then show ?thesis by (auto simp: delivery_of_def d_key_def)
qed

lemma consumer_commit_ok:
  assumes com: "consumer_commit l w db hist db' hist'"
    and ok: "store_ok (ed_store db)" "horizon_ok (ed_store db) hist" "db_ok db hist"
  shows "db_ok db' hist'" "held_in (ed_store db') k v \<Longrightarrow> held_in (ed_store db) k v"
proof -
  obtain es1 pat led fat t x where
    pub: "publish_step\<^sup>*\<^sup>* (ed_store db, hist) (es1, hist')" and
    led: "record_processed (ld_consumer_id l) (ld_event_id l) pat (es_ledger es1) = Inr led" and
    m: "mark_delivered (ld_key l) w fat (es_deliveries es1) = (True, t)" and
    db': "db' = db\<lparr>ed_store := es1\<lparr>es_ledger := led, es_deliveries := t\<rparr>,
                ed_effects := ed_effects db @ [(ld_key l, x)]\<rparr>"
    using com unfolding consumer_commit_def by blast
  note pm = publish_steps_marks [OF pub ok(1,2)]
  note mm = mark_delivered_marks [OF m pm(5)]
  have led': "led = es_ledger es1 @ [\<lparr>p_consumer_id = ld_consumer_id l, p_event_id = ld_event_id l,
      p_processed_at = pat\<rparr>]" and new: "ld_key l \<notin> processed_keys es1"
    using insert_row_InrD [OF led [unfolded record_processed_def]] already_processed_key [of l es1]
    by (auto simp: already_processed_def p_key_def)
  have same: "delivered_keys (es1\<lparr>es_ledger := led, es_deliveries := t\<rparr>) =
      delivered_keys (es1\<lparr>es_deliveries := t\<rparr>)" "\<And>k v. held_in (es1\<lparr>es_ledger := led,
      es_deliveries := t\<rparr>) k v = held_in (es1\<lparr>es_deliveries := t\<rparr>) k v"
    by (simp_all add: delivered_keys_def held_in_def)
  have dk: "delivered_keys (ed_store db') = insert (ld_key l) (delivered_keys (ed_store db))"
    using mm(2) pm(1) same(1) by (simp add: db')
  have pk: "processed_keys (ed_store db') = insert (ld_key l) (processed_keys (ed_store db))"
    using pm(2) by (simp add: db' processed_keys_def led' ld_key_def)
  have ob: "es_outbox (ed_store db') = es_outbox es1" by (simp add: db')
  have dp: "delivered_keys (ed_store db) = processed_keys (ed_store db)"
    using ok(3) by (simp add: db_ok_def)
  obtain r where r: "r \<in> set (es_deliveries es1)" "d_key r = ld_key l"
    using mm(1) by (auto simp: held_in_def delivery_held_def)
  have "fst (ld_key l) \<notin> e_id ` set hist - e_id ` set (es_outbox (ed_store db))"
    using row_in_outbox [OF pm(5) r(1)] r(2) pm(4) by auto
  moreover have "ld_key l \<notin> delivered_keys (ed_store db)" using new pm(2) dp by simp
  ultimately have zero: "committed (ed_effects db) (ld_key l) = 0"
    using db_ok_at [OF ok(3), of "ld_key l"] by presburger
  have count: "committed (ed_effects db') k = committed (ed_effects db) k + (if k = ld_key l then 1 else 0)"
    for k by (simp add: committed_def db')
  show "db_ok db' hist'"
    unfolding db_ok_def dk pk ob pm(4)
  proof (intro conjI allI)
    fix k
    show "committed (ed_effects db') k = (if k \<in> insert (ld_key l) (delivered_keys (ed_store db)) then 1 else 0) \<or>
        committed (ed_effects db') k \<le> 1 \<and>
        fst k \<in> e_id ` set hist - e_id ` set (es_outbox (ed_store db))"
    proof (cases "k = ld_key l")
      case True
      then show ?thesis using zero count by simp
    next
      case False
      then have "k \<in> insert (ld_key l) (delivered_keys (ed_store db)) \<longleftrightarrow> k \<in> delivered_keys (ed_store db)"
        "committed (ed_effects db') k = committed (ed_effects db) k"
        using count by simp_all
      then show ?thesis using db_ok_at [OF ok(3), of k] by simp
    qed
  qed (use dp in simp)
  show "held_in (ed_store db') k v \<Longrightarrow> held_in (ed_store db) k v"
    using mm(3) pm(3) same(2) by (auto simp: db')
qed

lemma replay_ok:
  assumes rep: "replay_handler wctx c p now (ed_store db) = Inr (n, due, es')"
    and ok: "store_ok (ed_store db)" "db_ok db hist"
  defines "cov \<equiv> replayed_by wctx c p (ed_store db)"
  shows "db_ok \<lparr>ed_store = es', ed_effects = filter (\<lambda>(k, x). \<not> cov k) (ed_effects db)\<rparr> hist"
    "held_in es' k v \<Longrightarrow> held_in (ed_store db) k v"
proof -
  let ?es = "ed_store db"
  obtain reg sub where sub: "wc_consumers wctx = Some reg" "lookup_consumer c reg = Some sub"
    and eq: "(n, es_deliveries es', es_ledger es') =
      replay_deliveries c (s_event_type sub) p now (es_outbox ?es) (es_deliveries ?es) (es_ledger ?es)"
    and ob: "es_outbox es' = es_outbox ?es"
    using rep by (rule replay_handler_InrD)
  let ?ty = "s_event_type sub"
  let ?P = "resettable c ?ty p (es_outbox ?es)"
  have uniq: "unique_by d_key (es_deliveries ?es)" "unique_by e_id (es_outbox ?es)"
    using ok(1) by (simp_all add: store_ok_def deliveries_ok_def)
  have dv: "es_deliveries es' = update_where ?P (reset_values now) (es_deliveries ?es) @
      missing_deliveries now c ?ty p (es_outbox ?es) (es_deliveries ?es)"
    and lg: "es_ledger es' = filter (\<lambda>q. \<not> (p_consumer_id q = c \<and>
      replayable ?ty p (es_outbox ?es) (p_event_id q))) (es_ledger ?es)"
    using eq unfolding replay_eq [OF uniq] by simp_all
  have cov: "cov k \<longleftrightarrow> snd k = c \<and> replayable ?ty p (es_outbox ?es) (fst k)" for k
    using sub by (auto simp: cov_def replayed_by_def)
  have pos: "p \<le> d_position r" if at_r: "r \<in> set (es_deliveries ?es)" "replayable ?ty p (es_outbox ?es) (d_event_id r)" for r
  proof -
    obtain e where e: "e \<in> set (es_outbox ?es)" "delivery_of e r"
      using row_event [OF ok(1) at_r(1)] by blast
    obtain f where f: "f \<in> set (es_outbox ?es)" "e_id f = d_event_id r" "p \<le> e_position f"
      using at_r(2) by (auto simp: replayable_def)
    have "f = e" using e f unique_by_eqD [OF uniq(2)] by (metis delivery_of_def)
    then show ?thesis using e f by (simp add: delivery_of_def)
  qed
  have reset: "?P r \<longleftrightarrow> cov (d_key r)" if "r \<in> set (es_deliveries ?es)" "d_state r = DDelivered" for r
    using pos [OF that(1)] that by (auto simp: resettable_def in_replay_range_def cov d_key_def)
  have new: "d_state r = DPending" if "r \<in> set (missing_deliveries now c ?ty p (es_outbox ?es) (es_deliveries ?es))" for r
    using that by (auto simp: set_missing_deliveries)
  have kept: "{d \<in> set (es_deliveries es'). d_state d = DDelivered} =
      {d \<in> set (es_deliveries ?es). d_state d = DDelivered \<and> \<not> cov (d_key d)}"
    using reset new unfolding dv update_where_def by (fastforce split: if_splits)
  have dk: "delivered_keys es' = {k \<in> delivered_keys ?es. \<not> cov k}"
    unfolding delivered_keys_def kept by auto
  have pk: "processed_keys es' = {k \<in> processed_keys ?es. \<not> cov k}"
    by (auto simp: processed_keys_def lg cov)
  have count: "committed (filter (\<lambda>(k, x). \<not> cov k) xs) k = (if cov k then 0 else committed xs k)" for k
    and xs :: "((uuid \<times> string) \<times> 'b) list"
    by (induction xs) (auto simp: committed_def)
  show "db_ok \<lparr>ed_store = es', ed_effects = filter (\<lambda>(k, x). \<not> cov k) (ed_effects db)\<rparr> hist"
    unfolding db_ok_def event_db.simps dk pk ob
  proof (intro conjI allI)
    fix k
    show "committed (filter (\<lambda>(k, x). \<not> cov k) (ed_effects db)) k =
          (if k \<in> {k \<in> delivered_keys ?es. \<not> cov k} then 1 else 0) \<or>
        committed (filter (\<lambda>(k, x). \<not> cov k) (ed_effects db)) k \<le> 1 \<and>
        fst k \<in> e_id ` set hist - e_id ` set (es_outbox ?es)"
    proof (cases "cov k")
      case False
      then have "k \<in> {k \<in> delivered_keys ?es. \<not> cov k} \<longleftrightarrow> k \<in> delivered_keys ?es"
        "committed (filter (\<lambda>(k, x). \<not> cov k) (ed_effects db)) k = committed (ed_effects db) k"
        using count by simp_all
      then show ?thesis using db_ok_at [OF ok(2), of k] by simp
    qed (simp add: count)
  qed (use ok(2) in \<open>simp add: db_ok_def\<close>)
  show "held_in es' k v \<Longrightarrow> held_in ?es k v"
    using new unfolding held_in_def dv update_where_def
    by (fastforce simp: delivery_held_def resettable_def split: if_splits)
qed

lemma purge_ok:
  assumes pur: "purge_outbox stop now before limit batches (ed_store db) = Inr (rep, es')"
    and ok: "store_ok (ed_store db)" "horizon_ok (ed_store db) hist" "db_ok db hist"
  shows "db_ok (db\<lparr>ed_store := es'\<rparr>) hist" "held_in es' k v \<Longrightarrow> held_in (ed_store db) k v"
proof -
  let ?es = "ed_store db"
  have uniq: "unique_by e_id (es_outbox ?es)" using ok(1) by (simp add: store_ok_def)
  obtain w0 s where s: "sweep_inv before (es_outbox ?es) (es_deliveries ?es) w0 s"
    "es_outbox es' = sw_outbox s" "es_deliveries es' = sw_deliveries s"
    and lg: "es_ledger es' = filter (\<lambda>q. p_event_id q \<notin> set (sw_deleted s)) (es_ledger ?es)"
    using pur uniq by (rule purge_InrD)
  let ?D = "set (sw_deleted s)"
  have ob: "es_outbox es' = filter (\<lambda>e. e_id e \<notin> ?D) (es_outbox ?es)"
    and dv: "es_deliveries es' = filter (\<lambda>d. d_event_id d \<notin> ?D) (es_deliveries ?es)"
    and sub: "?D \<subseteq> e_id ` set (es_outbox ?es)"
    using s by (simp_all add: sweep_inv_def)
  have hist: "set (es_outbox ?es) \<subseteq> set hist" using ok(2) by (simp add: horizon_ok_def)
  have dk: "delivered_keys es' = {k \<in> delivered_keys ?es. fst k \<notin> ?D}"
    by (auto simp: delivered_keys_def dv d_key_def)
  have pk: "processed_keys es' = {k \<in> processed_keys ?es. fst k \<notin> ?D}"
    by (auto simp: processed_keys_def lg)
  have gone: "e_id ` set hist - e_id ` set (es_outbox es') =
      (e_id ` set hist - e_id ` set (es_outbox ?es)) \<union> ?D"
    using sub hist unfolding ob by auto
  have sel: "ed_store (db\<lparr>ed_store := es'\<rparr>) = es'" "ed_effects (db\<lparr>ed_store := es'\<rparr>) = ed_effects db"
    by simp_all
  show "db_ok (db\<lparr>ed_store := es'\<rparr>) hist"
    unfolding db_ok_def sel dk pk gone
  proof (intro conjI allI)
    fix k
    show "committed (ed_effects db) k = (if k \<in> {k \<in> delivered_keys ?es. fst k \<notin> ?D} then 1 else 0) \<or>
        committed (ed_effects db) k \<le> 1 \<and>
        fst k \<in> (e_id ` set hist - e_id ` set (es_outbox ?es)) \<union> ?D"
    proof (cases "fst k \<in> ?D")
      case True
      then show ?thesis using db_ok_at_most_once [OF ok(3)] by blast
    next
      case False
      then have "k \<in> {k \<in> delivered_keys ?es. fst k \<notin> ?D} \<longleftrightarrow> k \<in> delivered_keys ?es" by simp
      then show ?thesis using db_ok_at [OF ok(3), of k] by auto
    qed
  qed (use ok(3) in \<open>simp add: db_ok_def\<close>)
  show "held_in es' k v \<Longrightarrow> held_in ?es k v" by (auto simp: held_in_def dv)
qed

lemma lease_ok:
  assumes "lease_delivery locked w now secs (es_deliveries (ed_store db)) = (Some l, t)"
    and "store_ok (ed_store db)" "db_ok db hist"
  shows "db_ok (db\<lparr>ed_store := (ed_store db)\<lparr>es_deliveries := t\<rparr>\<rparr>) hist"
proof -
  have sel: "ed_store (db\<lparr>ed_store := (ed_store db)\<lparr>es_deliveries := t\<rparr>\<rparr>) =
      (ed_store db)\<lparr>es_deliveries := t\<rparr>"
    "ed_effects (db\<lparr>ed_store := (ed_store db)\<lparr>es_deliveries := t\<rparr>\<rparr>) = ed_effects db"
    "es_outbox ((ed_store db)\<lparr>es_deliveries := t\<rparr>) = es_outbox (ed_store db)"
    "processed_keys ((ed_store db)\<lparr>es_deliveries := t\<rparr>) = processed_keys (ed_store db)"
    by (simp_all add: processed_keys_def)
  show ?thesis using assms(3) unfolding db_ok_def sel lease_marks(1) [OF assms(1,2)] .
qed

lemma publish_ok:
  assumes "publish_step (ed_store db, hist) (es', hist')" "horizon_ok (ed_store db) hist" "db_ok db hist"
  shows "db_ok (db\<lparr>ed_store := es'\<rparr>) hist'"
proof -
  have sel: "ed_store (db\<lparr>ed_store := es'\<rparr>) = es'" "ed_effects (db\<lparr>ed_store := es'\<rparr>) = ed_effects db"
    by simp_all
  have sub: "set (es_outbox (ed_store db)) \<subseteq> set hist" using assms(2) by (simp add: horizon_ok_def)
  note pm = publish_step_marks [OF assms(1)]
  show ?thesis using assms(3) unfolding db_ok_def sel pm(1,2) pm(4) [OF sub] .
qed

lemma begin_consumer_running:
  "begin_consumer l db = D_Running m None \<Longrightarrow> m = l \<and> ld_key l \<in> processed_keys (ed_store db)"
  by (auto simp: begin_consumer_def already_processed_key split: if_splits sum.splits)

text \<open>Only the gate brings a worker to a handler's transaction.\<close>

lemma delivery_tx_running:
  assumes "delivery_tx budget reg w db hist pc (D_Running l env) db' hist'"
  shows "pc = D_Leased l \<and> db' = db \<and> hist' = hist \<and> ld_attempts l \<le> budget \<and>
    begin_consumer l db = D_Running l env"
  using assms
proof (cases rule: delivery_tx.cases)
  case (dt_gate ready clock m)
  then show ?thesis
    by (auto simp: run_leased_delivery_def begin_consumer_def split: if_splits option.splits sum.splits)
next
  case (dt_done es1 hist1 x ierr pat fat m e)
  then show ?thesis
    by (auto simp: run_consumer_def Let_def split: option.splits sum.splits prod.splits)
next
  case (dt_stopped outcome e ierr pat fat m env')
  then show ?thesis
    by (auto simp: run_consumer_def Let_def split: option.splits sum.splits prod.splits)
qed (auto simp: consumer_missing_def consumer_unready_def consumer_raised_def)

text \<open>A step after which no lease is held that was not held before keeps the workers' part.\<close>

lemma pcs_keep:
  assumes "\<And>w l. pc' w = D_Running l None \<Longrightarrow> pc w = D_Running l None \<or> \<not> held_in es (ld_key l) w"
    and "\<And>w l. pc w = D_Running l None \<Longrightarrow> \<not> held_in es (ld_key l) w"
    and "\<And>k v. held_in es' k v \<Longrightarrow> held_in es k v"
  shows "pc' w = D_Running l None \<longrightarrow> \<not> held_in es' (ld_key l) w"
  using assms by blast

lemma delivery_worker_ok:
  assumes tx: "delivery_tx budget reg w (evs_db s) (evs_hist s) (evs_pc s w) pc' db' hist'"
    and ok: "store_ok (ed_store (evs_db s))" "horizon_ok (ed_store (evs_db s)) (evs_hist s)"
    and inv: "delivery_sys_ok s"
  shows "delivery_sys_ok (s\<lparr>evs_db := db', evs_hist := hist', evs_pc := (evs_pc s)(w := pc')\<rparr>)"
proof -
  let ?es = "ed_store (evs_db s)"
  have db: "db_ok (evs_db s) (evs_hist s)"
    and pcs: "\<And>w l. evs_pc s w = D_Running l None \<Longrightarrow> \<not> held_in ?es (ld_key l) w"
    using inv by (auto simp: delivery_sys_ok_def)
  have key: "db_ok db' hist' \<and> (\<forall>k v. held_in (ed_store db') k v \<longrightarrow> held_in ?es k v)"
    using tx
  proof (cases rule: delivery_tx_cases)
    case quiet
    then show ?thesis
      using db_ok_keeps [OF db quiet_keeps_marks [OF quiet(1)] quiet(2)]
        quiet_keeps_marks [OF quiet(1)] by (auto simp: keeps_marks_def)
  next
    case (finish l)
    then have "held_in ?es (ld_key l) w"
      unfolding finish_only_def using mark_delivered_marks(1) [OF _ ok(1)] by blast
    then show ?thesis using pcs [OF finish(1)] by simp
  next
    case (commit l env)
    then show ?thesis using consumer_commit_ok [OF commit(2) ok db] by blast
  qed
  have new: "\<not> held_in ?es (ld_key l) w" if "pc' = D_Running l None" for l
  proof -
    have "begin_consumer l (evs_db s) = D_Running l None"
      using delivery_tx_running [OF tx [unfolded that]] by blast
    then have "ld_key l \<in> delivered_keys ?es"
      using begin_consumer_running db by (auto simp: db_ok_def)
    then show ?thesis by (rule delivered_not_held [OF ok(1)])
  qed
  have "((evs_pc s)(w := pc')) v = D_Running l None \<longrightarrow> \<not> held_in (ed_store db') (ld_key l) v" for v l
    by (rule pcs_keep [where pc = "evs_pc s" and es = ?es]) (use new pcs key in \<open>auto split: if_splits\<close>)
  then show ?thesis using key by (simp add: delivery_sys_ok_def)
qed

lemma delivery_step_ok:
  assumes step: "delivery_step budget reg s s'"
    and ok: "store_ok (ed_store (evs_db s))" "horizon_ok (ed_store (evs_db s)) (evs_hist s)"
    and inv: "delivery_sys_ok s"
  shows "delivery_sys_ok s'"
proof -
  let ?es = "ed_store (evs_db s)"
  have db: "db_ok (evs_db s) (evs_hist s)"
    and pcs: "\<forall>w l. evs_pc s w = D_Running l None \<longrightarrow> \<not> held_in ?es (ld_key l) w"
    using inv by (simp_all add: delivery_sys_ok_def)
  have frame: "delivery_sys_ok (s\<lparr>evs_db := db'\<rparr>)"
    if "db_ok db' (evs_hist s)" "\<And>k v. held_in (ed_store db') k v \<Longrightarrow> held_in ?es k v" for db'
    using that(1) pcs that(2) [of "ld_key _"] unfolding delivery_sys_ok_def by auto
  have marks: "delivery_sys_ok (s\<lparr>evs_db := (evs_db s)\<lparr>ed_store := es'\<rparr>\<rparr>)" if "keeps_marks ?es es'" for es'
    using that db_ok_keeps [OF db, of "(evs_db s)\<lparr>ed_store := es'\<rparr>"]
    by (intro frame) (auto simp: keeps_marks_def)
  from step show ?thesis
  proof (cases rule: delivery_step.cases)
    case (ys_publish es' hist')
    then show ?thesis
      using publish_ok [OF ys_publish(2) ok(2) db] publish_step_marks(3) [OF ys_publish(2), of "ld_key _"] pcs
      by (auto simp: delivery_sys_ok_def)
  next
    case (ys_lease w locked now l t)
    have "\<not> held_in (?es\<lparr>es_deliveries := t\<rparr>) (ld_key m) v"
      if "((evs_pc s)(w := D_Leased l)) v = D_Running m None" for v m
      using that pcs lease_marks(2) [OF ys_lease(3) ok(1), of "ld_key m" v] by (auto split: if_splits)
    then show ?thesis
      using lease_ok [OF ys_lease(3) ok(1) db] ys_lease(1) by (simp add: delivery_sys_ok_def)
  next
    case (ys_worker w pc' db' hist')
    then show ?thesis using delivery_worker_ok [OF ys_worker(2) ok inv] by simp
  next
    case (ys_crash w)
    then show ?thesis using inv by (auto simp: delivery_sys_ok_def)
  next
    case (ys_retry wctx k now st es')
    then show ?thesis
      using marks [OF person_keeps_marks(1)] retry_handler_InrD [OF ys_retry(2)] by simp
  next
    case (ys_skip wctx k nt now st es')
    then show ?thesis
      using marks [OF person_keeps_marks(2)] skip_handler_InrD [OF ys_skip(2)] by simp
  next
    case (ys_replay wctx c p now n due es')
    then show ?thesis
      using replay_ok(1) [OF ys_replay(2) ok(1) db] replay_ok(2) [OF ys_replay(2) ok(1) db, of "ld_key _"] pcs
      by (auto simp: delivery_sys_ok_def)
  next
    case (ys_purge stop now before limit batches rep es')
    then show ?thesis
      using purge_ok [OF ys_purge(2) ok db] by (auto intro!: frame)
  qed
qed

lemma delivery_reach_ok:
  assumes "delivery_reach budget reg s"
  shows "delivery_sys_ok s" "store_ok (ed_store (evs_db s))" "horizon_ok (ed_store (evs_db s)) (evs_hist s)"
proof -
  show "store_ok (ed_store (evs_db s))" "horizon_ok (ed_store (evs_db s)) (evs_hist s)"
    using event_reach_ok [OF delivery_reach_event [OF assms]] by simp_all
  show "delivery_sys_ok s"
    using assms unfolding delivery_reach_def
  proof (induction rule: rtranclp_induct)
    case base
    show ?case
      by (simp add: empty_delivery_sys_def delivery_sys_ok_def db_ok_def empty_store_def
          delivered_keys_def processed_keys_def committed_def)
  next
    case (step s s')
    have "delivery_reach budget reg s" using step.hyps(1) by (simp add: delivery_reach_def)
    then have "store_ok (ed_store (evs_db s)) \<and> horizon_ok (ed_store (evs_db s)) (evs_hist s)"
      by (intro event_reach_ok delivery_reach_event)
    then show ?case using delivery_step_ok [OF step.hyps(2)] step.IH by blast
  qed
qed

end
