(* ===== verification/Event_Guarantees.thy ===== *)
theory Event_Guarantees
  imports Event_System
begin

text \<open>
  What the event half promises: order and one delivery in flight per queue, the exact fan-out
  of a publish, the completeness of a replay, the safety of the retention sweep, and what a
  failed delivery does to its queue. A small run of the system serves as the witnesses.
\<close>

section \<open>A run of the system\<close>

definition run_registry :: registry where
  "run_registry =
     [\<lparr>s_consumer_id = ''c'', s_event_type = ''core.x.y'', s_module_id = ''core'',
       s_replay_safe = True, s_operation_names = []\<rparr>]"

definition run_context :: publish_context where
  "run_context = \<lparr>pc_actor_kind = ''user'', pc_actor_id = None, pc_request_id = 9,
     pc_enabled_modules = [], pc_operation_id = None\<rparr>"

definition run_event :: "nat new_event" where
  "run_event = \<lparr>n_type = ''core.x.y'', n_schema_version = 1, n_subject_ref = ''s'',
     n_subject_revision = 1, n_data = 0, n_causation_id = None\<rparr>"

definition run_published :: "nat event_store" where
  "run_published = \<lparr>es_outbox = [outbox_row run_context 7 1 0 run_event],
     es_deliveries = [fresh_delivery 0 ''c'' 7 ''s'' 1], es_ledger = [], es_swept = Some None\<rparr>"

definition run_leased :: "nat event_store" where
  "run_leased = run_published\<lparr>es_deliveries :=
     [take_delivery ''w'' 0 60 (fresh_delivery 0 ''c'' 7 ''s'' 1)]\<rparr>"

definition run_delivered :: "nat event_store" where
  "run_delivered = run_leased\<lparr>es_deliveries :=
     [(fresh_delivery 0 ''c'' 7 ''s'' 1)\<lparr>d_state := DDelivered, d_attempts := 1,
        d_completed_at := Some 5\<rparr>]\<rparr>"

definition run_failed :: "nat event_store" where
  "run_failed = run_leased\<lparr>es_deliveries :=
     [(fresh_delivery 0 ''c'' 7 ''s'' 1)\<lparr>d_state := DFailed, d_attempts := 1,
        d_completed_at := Some 5, d_last_error := Some ''e''\<rparr>]\<rparr>"

definition run_history :: "nat outbox" where
  "run_history = [outbox_row run_context 7 1 0 run_event]"

lemmas run_defs = run_registry_def run_context_def run_event_def run_published_def
  run_leased_def run_delivered_def run_failed_def run_history_def

lemma run_publish: "publish run_context run_registry 7 1 0 run_event empty_store =
    Inr (7, True, run_published)"
  by (simp add: publish_def run_defs empty_store_def insert_row_def fan_out_def for_type_def
      consumer_enabled_def is_reserved_module_def Let_def)

lemma run_lease: "lease_delivery (\<lambda>_. False) ''w'' 0 60 (es_deliveries run_published) =
    (Some (leased_delivery_of (take_delivery ''w'' 0 60 (fresh_delivery 0 ''c'' 7 ''s'' 1))),
     es_deliveries run_leased)"
  by (simp add: lease_delivery_def run_defs select_first_def delivery_due_def
      delivery_blocked_def fresh_delivery_def d_key_def)

lemma run_reach:
  "event_reach run_published run_history" "event_reach run_leased run_history"
  "event_reach run_delivered run_history" "event_reach run_failed run_history"
proof -
  have 1: "event_step (empty_store, []) (run_published, run_history)"
    using es_publish [OF run_publish, of "[]"]
    by (simp add: run_history_def registry_ok_def run_registry_def unique_by_def)
  have 2: "event_step (run_published, run_history) (run_leased, run_history)"
    using es_lease [OF run_lease, of run_history] by (simp add: run_leased_def)
  have "run_leased\<lparr>es_deliveries :=
      snd (mark_delivered (7, ''c'') ''w'' 5 (es_deliveries run_leased))\<rparr> = run_delivered"
    by (simp add: run_defs mark_delivered_def delivery_held_def take_delivery_def
        fresh_delivery_def d_key_def)
  with es_delivered [of run_leased run_history "(7, ''c'')" "''w''" 5]
  have 3: "event_step (run_leased, run_history) (run_delivered, run_history)" by simp
  have "run_leased\<lparr>es_deliveries :=
      snd (fail_delivery (7, ''c'') ''w'' 5 ''e'' (es_deliveries run_leased))\<rparr> = run_failed"
    by (simp add: run_defs fail_delivery_def delivery_held_def take_delivery_def
        fresh_delivery_def d_key_def)
  with es_fail [of run_leased run_history "(7, ''c'')" "''w''" 5 "''e''"]
  have 4: "event_step (run_leased, run_history) (run_failed, run_history)" by simp
  have r1: "event_step\<^sup>*\<^sup>* (empty_store, []) (run_published, run_history)"
    using 1 by (rule r_into_rtranclp)
  note r2 = rtranclp.rtrancl_into_rtrancl [OF r1 2]
  show "event_reach run_published run_history" "event_reach run_leased run_history"
    "event_reach run_delivered run_history" "event_reach run_failed run_history"
    unfolding event_reach_def
    by (rule r1, rule r2, rule rtranclp.rtrancl_into_rtrancl [OF r2 3],
        rule rtranclp.rtrancl_into_rtrancl [OF r2 4])
qed

section \<open>Order\<close>

text \<open>
  C9. In every reachable store a leased delivery is the only one in flight of its
  (consumer, subject) queue, and everything before it in the queue is settled: one consumer
  gets the events of one subject one at a time and in position order.
\<close>

theorem subject_delivered_in_order:
  assumes "event_reach es hist" "d \<in> set (es_deliveries es)" "d_state d = DLeased"
    and "q \<in> set (es_deliveries es)" "same_queue q d"
  shows "(d_state q = DLeased \<longrightarrow> q = d) \<and>
         (d_position q < d_position d \<longrightarrow> settled (d_state q))"
proof -
  note inv = event_reach_ok [OF assms(1)]
  have "\<not> delivery_blocked (es_deliveries es) d"
    using inv assms(2,3) by (simp add: store_ok_def queue_ordered_def)
  with assms(4,5) have "d_position q < d_position d \<longrightarrow> settled (d_state q)"
    by (auto simp: delivery_blocked_def)
  with inv assms one_in_flight [of es hist q d] show ?thesis by simp
qed

lemma subject_delivered_in_order_witness:
  "\<exists>d. d \<in> set (es_deliveries run_leased) \<and> d_state d = DLeased \<and>
     (d_state d = DLeased \<longrightarrow> d = d) \<and> (d_position d < d_position d \<longrightarrow> settled (d_state d))"
  using subject_delivered_in_order [OF run_reach(2), of
    "take_delivery ''w'' 0 60 (fresh_delivery 0 ''c'' 7 ''s'' 1)"
    "take_delivery ''w'' 0 60 (fresh_delivery 0 ''c'' 7 ''s'' 1)"]
  by (auto simp: run_leased_def same_queue_def)

section \<open>Publish\<close>

lemma lookup_fan_out:
  assumes "unique_by s_consumer_id subs"
  shows "lookup_by d_key k
      (map (\<lambda>s. fresh_delivery now (s_consumer_id s) i subj position) (filter P subs)) =
    (if fst k = i \<and> (\<exists>s \<in> set subs. P s \<and> s_consumer_id s = snd k)
     then Some (fresh_delivery now (snd k) i subj position) else None)"
  using assms by (induction subs) (auto simp: unique_by_def)

text \<open>
  C16. Of the outbox and the deliveries, a publish writes exactly the event's row and one pending
  delivery for each subscription of the type whose module is enabled (or the core), and touches no
  other delivery; a due mark
  is asked for exactly when there is one.
\<close>

theorem publish_exact:
  assumes "store_ok es" "registry_ok reg"
    and "publish ctx reg fresh position now event es = Inr (i, due, es')"
  shows "i = fresh \<and>
    es_outbox es' = es_outbox es @ [outbox_row ctx fresh position now event] \<and>
    lookup_by d_key (j, c) (es_deliveries es') =
      (if j = fresh
       then if (\<exists>s \<in> set reg. s_consumer_id s = c \<and> s_event_type s = n_type event \<and>
                              consumer_enabled ctx s)
            then Some (fresh_delivery now c fresh (n_subject_ref event) position) else None
       else lookup_by d_key (j, c) (es_deliveries es)) \<and>
    (due \<longleftrightarrow> (\<exists>s \<in> set reg. s_event_type s = n_type event \<and> consumer_enabled ctx s))"
proof -
  note pub = publish_InrD [OF assms(3)]
  have fk: "j \<in> e_id ` set (es_outbox es)" if "(j, c) \<in> d_key ` set (es_deliveries es)" for j
    using that assms(1) by (force simp: store_ok_def delivery_of_def d_key_def)
  have "unique_by s_consumer_id (for_type (n_type event) reg)"
    using assms(2) by (simp add: registry_ok_def for_type_def unique_by_filter)
  note new = lookup_fan_out [OF this, of _ now fresh "n_subject_ref event" position
      "consumer_enabled ctx", folded fan_out_def]
  have due: "due \<longleftrightarrow> (\<exists>s \<in> set reg. s_event_type s = n_type event \<and> consumer_enabled ctx s)"
    unfolding pub(5) by (auto simp: fan_out_def for_type_def filter_empty_conv)
  have "lookup_by d_key (fresh, c) (es_deliveries es) = None"
    using fk pub(2) by auto
  then show ?thesis
    using pub(1,3) due new [of "(j, c)"]
    by (cases "lookup_by d_key (j, c) (es_deliveries es)")
       (auto simp: lookup_by_append for_type_def simp del: lookup_by_None)
qed

lemma publish_exact_witness:
  "lookup_by d_key (7, ''c'') (es_deliveries run_published) =
     Some (fresh_delivery 0 ''c'' 7 ''s'' 1)"
  using publish_exact [OF _ _ run_publish, of 7 "''c''"] event_reach_ok [of "empty_store :: nat event_store" "[]"]
  by (simp add: event_reach_def registry_ok_def unique_by_def run_registry_def run_event_def
      consumer_enabled_def is_reserved_module_def)

section \<open>Replay\<close>

lemma replay_row:
  assumes "e \<in> set ob" "e_type e = ty" "p \<le> e_position e" "unique_by d_key t"
    "unique_by e_id ob" "\<And>r. r \<in> set t \<Longrightarrow> \<exists>e \<in> set ob. delivery_of e r"
    "\<And>r. r \<in> set t \<Longrightarrow> in_replay_range c p r \<Longrightarrow> d_state r \<noteq> DLeased"
  shows "\<exists>d. lookup_by d_key (e_id e, c) (update_where (resettable c ty p ob) (reset_values now) t @
       missing_deliveries now c ty p ob t) = Some d \<and> d_state d = DPending \<and> delivery_of e d"
proof (cases "lookup_by d_key (e_id e, c) t")
  case None
  then have "(e_id e, c) \<notin> d_key ` set t" by simp
  with assms(1-3) have "fresh_delivery now c (e_id e) (e_subject_ref e) (e_position e)
      \<in> set (missing_deliveries now c ty p ob t)"
    by (auto simp: set_missing_deliveries)
  then have "lookup_by d_key (e_id e, c) (missing_deliveries now c ty p ob t) =
      Some (fresh_delivery now c (e_id e) (e_subject_ref e) (e_position e))"
    using distinct_missing [OF assms(5)] by (simp add: lookup_by_unique unique_by_def)
  moreover have "lookup_by d_key (e_id e, c)
      (update_where (resettable c ty p ob) (reset_values now) t) = None"
    using None by (simp add: lookup_by_update_where del: lookup_by_None)
  ultimately show ?thesis
    by (simp add: lookup_by_append delivery_of_def del: lookup_by_None)
next
  case (Some r)
  then have r: "r \<in> set t" "d_key r = (e_id e, c)"
    by (auto dest: lookup_by_in lookup_by_key)
  from assms(6) [OF r(1)] obtain e' where e': "e' \<in> set ob" "delivery_of e' r" by blast
  moreover have "e' = e"
    using e' r(2) assms(1,5) by (auto simp: delivery_of_def d_key_def intro: unique_by_eqD)
  ultimately have "delivery_of e r" by simp
  with r assms(3) have rng: "in_replay_range c p r"
    by (simp add: in_replay_range_def d_key_def delivery_of_def)
  with assms(7) [OF r(1)] have "d_state r = DPending \<or> resettable c ty p ob r"
    using assms(1-3) r(2)
    by (cases "d_state r") (auto simp: resettable_def replayable_def d_key_def)
  with Some \<open>delivery_of e r\<close> show ?thesis
    by (auto simp: lookup_by_append lookup_by_update_where delivery_of_place [of "reset_values now r" r])
qed

lemma replay_frame:
  assumes "c' \<noteq> c \<or> \<not> replayable ty p ob i"
  shows "lookup_by d_key (i, c') (update_where (resettable c ty p ob) (reset_values now) t @
      missing_deliveries now c ty p ob t) = lookup_by d_key (i, c') t"
proof -
  have "lookup_by d_key (i, c') (missing_deliveries now c ty p ob t) = None"
    using assms by (auto simp: set_missing_deliveries replayable_def)
  moreover have "map_option (\<lambda>r. if resettable c ty p ob r then reset_values now r else r)
      (lookup_by d_key (i, c') t) = lookup_by d_key (i, c') t"
  proof (cases "lookup_by d_key (i, c') t")
    case (Some r)
    then have "\<not> resettable c ty p ob r"
      using assms lookup_by_key [OF Some]
      by (auto simp: resettable_def in_replay_range_def d_key_def)
    with Some show ?thesis by simp
  qed simp
  ultimately show ?thesis
    by (simp add: lookup_by_append lookup_by_update_where del: lookup_by_None split: option.split)
qed

text \<open>
  C11. A replay that is not refused misses nothing and repeats nothing else. Every event of the
  consumer's type ever published at or after the position is still retained, has a pending
  delivery and no ledger row afterwards. The consumer's deliveries and ledger rows of every other
  retained event, the deliveries and ledger rows of every other consumer, the outbox and the
  horizon are as they were.
\<close>

theorem replay_complete:
  assumes "event_reach es hist" "replay_handler ctx c p now es = Inr (n, due, es')"
    and "wc_consumers ctx = Some reg" "lookup_consumer c reg = Some sub"
  shows "(\<forall>e \<in> set hist. e_type e = s_event_type sub \<and> p \<le> e_position e \<longrightarrow>
       e \<in> set (es_outbox es') \<and>
       (\<exists>d. lookup_by d_key (e_id e, c) (es_deliveries es') = Some d \<and> d_state d = DPending \<and>
            delivery_of e d) \<and>
       \<not> already_processed c (e_id e) (es_ledger es')) \<and>
    (\<forall>e \<in> set (es_outbox es). \<not> (e_type e = s_event_type sub \<and> p \<le> e_position e) \<longrightarrow>
       lookup_by d_key (e_id e, c) (es_deliveries es') = lookup_by d_key (e_id e, c) (es_deliveries es) \<and>
       filter (\<lambda>q. p_key q = (c, e_id e)) (es_ledger es') =
         filter (\<lambda>q. p_key q = (c, e_id e)) (es_ledger es)) \<and>
    (\<forall>i c'. c' \<noteq> c \<longrightarrow>
       lookup_by d_key (i, c') (es_deliveries es') = lookup_by d_key (i, c') (es_deliveries es)) \<and>
    filter (\<lambda>q. p_consumer_id q \<noteq> c) (es_ledger es') =
      filter (\<lambda>q. p_consumer_id q \<noteq> c) (es_ledger es) \<and>
    es_outbox es' = es_outbox es \<and> es_swept es' = es_swept es"
  using assms(2)
proof (rule replay_handler_InrD)
  fix reg' and sub' :: subscription and swept h
  let ?ob = "es_outbox es" and ?t = "es_deliveries es"
  assume same: "wc_consumers ctx = Some reg'" "lookup_consumer c reg' = Some sub'"
    and swept: "es_swept es = Some swept"
    and h: "replay_horizon (oldest_retained_position ?ob) swept = Some h" "h \<le> p"
    and idle: "\<And>r. r \<in> set ?t \<Longrightarrow> in_replay_range c p r \<Longrightarrow> d_state r \<noteq> DLeased"
    and eq: "(n, es_deliveries es', es_ledger es') =
      replay_deliveries c (s_event_type sub') p now ?ob ?t (es_ledger es)"
    and frame: "es_outbox es' = ?ob" "es_swept es' = es_swept es"
  let ?ty = "s_event_type sub"
  have ty: "s_event_type sub' = ?ty" using assms(3,4) same by simp
  have inv: "unique_by d_key ?t" "unique_by e_id ?ob" "horizon_ok es hist"
    and fk: "\<And>r. r \<in> set ?t \<Longrightarrow> \<exists>e \<in> set ?ob. delivery_of e r"
    using event_reach_ok [OF assms(1)] by (simp_all add: store_ok_def deliveries_ok_def)
  have t: "es_deliveries es' = update_where (resettable c ?ty p ?ob) (reset_values now) ?t @
      missing_deliveries now c ?ty p ?ob ?t"
    and led: "es_ledger es' = filter (\<lambda>q. \<not> (p_consumer_id q = c \<and>
      replayable ?ty p ?ob (p_event_id q))) (es_ledger es)"
    using eq replay_eq [OF inv(1,2)] unfolding ty by auto
  have past: "w < p" if "swept = Some w" for w
    using h that by (auto simp: replay_horizon_def split: option.splits)
  have covered: "e \<in> set (es_outbox es') \<and>
      (\<exists>d. lookup_by d_key (e_id e, c) (es_deliveries es') = Some d \<and> d_state d = DPending \<and>
           delivery_of e d) \<and> \<not> already_processed c (e_id e) (es_ledger es')"
    if e: "e \<in> set hist" "e_type e = ?ty" "p \<le> e_position e" for e
  proof -
    have kept: "e \<in> set ?ob"
      using inv(3) swept past e(1,3) by (fastforce simp: horizon_ok_def)
    moreover have "\<not> already_processed c (e_id e) (es_ledger es')"
      using kept e by (auto simp: already_processed_def led p_key_def replayable_def)
    ultimately show ?thesis
      using replay_row [OF kept e(2,3) inv(1,2) fk idle] by (simp add: frame t)
  qed
  have untouched: "lookup_by d_key (i, c') (es_deliveries es') = lookup_by d_key (i, c') ?t"
    if "c' \<noteq> c \<or> \<not> replayable ?ty p ?ob i" for i c'
    unfolding t by (rule replay_frame [OF that])
  have outside: "\<not> replayable ?ty p ?ob (e_id e)"
    if "e \<in> set ?ob" "\<not> (e_type e = ?ty \<and> p \<le> e_position e)" for e
    using that inv(2) by (auto simp: replayable_def dest: unique_by_eqD)
  have "filter (\<lambda>q. p_key q = (c, e_id e)) (es_ledger es') =
      filter (\<lambda>q. p_key q = (c, e_id e)) (es_ledger es)"
    if "e \<in> set ?ob" "\<not> (e_type e = ?ty \<and> p \<le> e_position e)" for e
    using outside [OF that] by (auto simp: led p_key_def intro!: filter_cong)
  moreover have "filter (\<lambda>q. p_consumer_id q \<noteq> c) (es_ledger es') =
      filter (\<lambda>q. p_consumer_id q \<noteq> c) (es_ledger es)"
    by (auto simp: led intro!: filter_cong)
  ultimately show ?thesis
    using covered untouched outside frame by simp
qed

definition run_operator :: work_context where
  "run_operator = \<lparr>wc_actor_is_token = True, wc_token_kind = Some ''cli'',
     wc_enabled_modules = [], wc_consumers = Some run_registry\<rparr>"

lemma run_replay: "replay_handler run_operator ''c'' 1 9 run_delivered =
   Inr ((1, 0), True, run_delivered\<lparr>es_deliveries :=
     [(fresh_delivery 9 ''c'' 7 ''s'' 1)]\<rparr>)"
  by (simp add: replay_handler_def run_operator_def run_defs refuse_model_held_def
      person_held_token_kinds_def lookup_consumer_def subscription_enabled_def
      is_reserved_module_def swept_through_position_def oldest_retained_position_def
      outbox_row_def replay_horizon_def lock_for_replay_def replay_deliveries_def
      resettable_def in_replay_range_def fresh_delivery_def replayable_def reset_values_def
      missing_deliveries_def d_key_def rowcount_def Let_def)

lemma replay_complete_witness:
  "\<exists>d. lookup_by d_key (7, ''c'') [fresh_delivery 9 ''c'' 7 ''s'' 1] = Some d \<and>
       d_state d = DPending"
  using replay_complete [OF run_reach(3) run_replay, of run_registry]
  by (simp add: run_operator_def run_registry_def lookup_consumer_def run_history_def
      outbox_row_def run_event_def)

section \<open>Retention\<close>

text \<open>
  C15. A sweep of a reachable store loses nothing that is owed: each event it deletes is older
  than the cutoff, had no unsettled delivery and lies at or behind the recorded horizon, which
  never moves back; every other event keeps its row, its deliveries and its ledger rows, and
  no delivery or ledger row of a deleted event is left.
\<close>

theorem purge_safe:
  assumes "event_reach es hist" "purge_outbox stop now before limit batches es = Inr (rep, es')"
  shows "\<exists>gone w0 w. gone \<subseteq> e_id ` set (es_outbox es) \<and>
    (\<forall>e \<in> set (es_outbox es). e_id e \<in> gone \<longrightarrow> e_occurred_at e < before \<and>
       \<not> event_unsettled (es_deliveries es) (e_id e) \<and>
       (\<exists>h. w = Some h \<and> e_position e \<le> h)) \<and>
    es_swept es = Some w0 \<and> es_swept es' = Some w \<and> w0 \<le> w \<and>
    es_outbox es' = filter (\<lambda>e. e_id e \<notin> gone) (es_outbox es) \<and>
    es_deliveries es' = filter (\<lambda>d. d_event_id d \<notin> gone) (es_deliveries es) \<and>
    es_ledger es' = filter (\<lambda>q. p_event_id q \<notin> gone) (es_ledger es)"
proof -
  from event_reach_ok [OF assms(1)] have "unique_by e_id (es_outbox es)"
    by (simp add: store_ok_def)
  with assms(2) show ?thesis
  proof (rule purge_InrD)
    fix w0 s
    assume a: "es_swept es = Some w0" "sweep_inv before (es_outbox es) (es_deliveries es) w0 s"
      "es_outbox es' = sw_outbox s" "es_deliveries es' = sw_deliveries s"
      "es_swept es' = Some (sw_swept s)"
      "es_ledger es' = filter (\<lambda>q. p_event_id q \<notin> set (sw_deleted s)) (es_ledger es)"
    moreover from a(2) have "w0 \<le> sw_swept s"
      by (cases w0; cases "sw_swept s") (auto simp: sweep_inv_def)
    ultimately show ?thesis
      by (intro exI [of _ "set (sw_deleted s)"] exI [of _ w0] exI [of _ "sw_swept s"])
         (auto simp: sweep_inv_def)
  qed
qed

lemma run_purge: "purge_outbox (\<lambda>_. False) 100 50 1000 (Suc 0) run_delivered =
   Inr (\<lparr>pr_events = 1, pr_deliveries = 1, pr_ledger_rows = 0, pr_swept_through = Some 1\<rparr>,
     \<lparr>es_outbox = [], es_deliveries = [], es_ledger = [], es_swept = Some (Some 1)\<rparr>)"
  by (simp add: purge_outbox_def run_defs sweep_candidates_def sweep_batch_def outbox_row_def
      event_unsettled_def settled_def fresh_delivery_def event_delivered_anywhere_def
      rowcount_def Let_def)

lemma purge_safe_witness:
  "\<exists>gone. gone \<subseteq> e_id ` set (es_outbox run_delivered) \<and>
     filter (\<lambda>e. e_id e \<notin> gone) (es_outbox run_delivered) = []"
  using purge_safe [OF run_reach(3) run_purge] by auto

section \<open>A failed delivery and its queue\<close>

lemma kept_in_place:
  "f \<in> set t \<Longrightarrow> \<not> P f \<Longrightarrow> f \<in> set (update_where P g t)"
  by (force simp: update_where_def)

lemma not_held: "d_state f = DFailed \<Longrightarrow> \<not> delivery_held k w f"
  by (simp add: delivery_held_def)

lemma worker_write_keeps:
  assumes "d_state f = DFailed" "f \<in> set t"
  shows "f \<in> set (snd (mark_delivered k w now t))" "f \<in> set (snd (requeue_delivery k w now e j t))"
    "f \<in> set (snd (defer_unready_delivery k w nx t))" "f \<in> set (snd (fail_delivery k w now e t))"
  using assms(2) not_held [OF assms(1)]
  by (auto simp: mark_delivered_def requeue_delivery_def defer_unready_delivery_def
      fail_delivery_def kept_in_place split: option.split)

text \<open>What a transaction does to a failed delivery: nothing, or it is an operator's.\<close>

lemma failed_stays:
  assumes "event_step (es, hist) (es', hist')" "store_ok es"
    and f: "f \<in> set (es_deliveries es)" "d_state f = DFailed"
  shows "f \<in> set (es_deliveries es') \<or>
    (\<exists>ctx now. retry_handler ctx (d_key f) now es = Inr (DPending, es')) \<or>
    (\<exists>ctx nt now. skip_handler ctx (d_key f) nt now es = Inr (DSkipped, es')) \<or>
    (\<exists>ctx p now n due. replay_handler ctx (d_consumer_id f) p now es = Inr (n, due, es') \<and>
       p \<le> d_position f)"
  using assms(1)
proof (cases rule: event_step.cases)
  case (es_publish ctx reg fresh position now event i due)
  then show ?thesis using publish_InrD [OF es_publish(2)] f(1) by simp
next
  case (es_lease locked w now secs l t)
  show ?thesis
  proof (cases l)
    case None
    then show ?thesis using es_lease lease_delivery_NoneD(1) f(1) by fastforce
  next
    case (Some l')
    with es_lease obtain d where d: "d \<in> set (es_deliveries es)" "delivery_due now d"
      and t: "t = update_where (\<lambda>r. d_key r = d_key d) (take_delivery w now secs) (es_deliveries es)"
      by (auto elim: lease_delivery_SomeD)
    have "d_key f \<noteq> d_key d"
      using d f assms(2)
      by (auto simp: store_ok_def deliveries_ok_def delivery_due_def dest: unique_by_eqD)
    with t es_lease f(1) show ?thesis by (auto intro: kept_in_place)
  qed
next
  case (es_retry wctx k now st)
  note r = retry_handler_InrD [OF es_retry(2)]
  show ?thesis
  proof (cases "k = d_key f")
    case False
    then have "f \<in> set (es_deliveries es')"
      using r f(1) by (auto simp: retry_delivery_def delivery_failed_def intro!: kept_in_place)
    then show ?thesis ..
  qed (use r es_retry in blast)
next
  case (es_skip wctx k nt now st)
  note r = skip_handler_InrD [OF es_skip(2)]
  show ?thesis
  proof (cases "k = d_key f")
    case False
    then have "f \<in> set (es_deliveries es')"
      using r f(1) by (auto simp: skip_delivery_def delivery_failed_def intro!: kept_in_place)
    then show ?thesis ..
  qed (use r es_skip in blast)
next
  case (es_replay wctx c p now n due)
  from es_replay(2) show ?thesis
  proof (rule replay_handler_InrD)
    fix reg and sub :: subscription
    assume eq: "(n, es_deliveries es', es_ledger es') = replay_deliveries c (s_event_type sub) p now
        (es_outbox es) (es_deliveries es) (es_ledger es)"
    have t: "es_deliveries es' = update_where (resettable c (s_event_type sub) p (es_outbox es))
          (reset_values now) (es_deliveries es) @
        missing_deliveries now c (s_event_type sub) p (es_outbox es) (es_deliveries es)"
      using eq replay_eq [of "es_deliveries es" "es_outbox es"] assms(2)
      by (auto simp: store_ok_def deliveries_ok_def)
    show ?thesis
    proof (cases "resettable c (s_event_type sub) p (es_outbox es) f")
      case True
      then show ?thesis using es_replay(2) resettable_settles by blast
    qed (use t f(1) in \<open>auto intro: kept_in_place\<close>)
  qed
next
  case (es_purge stop now before limit batches rep)
  from assms(2) have "unique_by e_id (es_outbox es)" by (simp add: store_ok_def)
  from es_purge(2) this show ?thesis
  proof (rule purge_InrD)
    fix w0 s
    assume "sweep_inv before (es_outbox es) (es_deliveries es) w0 s"
      "es_deliveries es' = sw_deliveries s"
    moreover have "event_unsettled (es_deliveries es) (d_event_id f)"
      using f by (auto simp: event_unsettled_def settled_def)
    ultimately have "f \<in> set (es_deliveries es')"
      using f(1) by (auto simp: sweep_inv_def)
    then show ?thesis ..
  qed
qed (use f worker_write_keeps [OF f(2,1)] in auto)

text \<open>
  C17. While a delivery of a (consumer, subject) queue is failed, neither it nor any delivery
  behind it is handed to a worker, and no publish, worker or sweep moves it: its row stays as it
  is until an operator retries it, skips it, or replays its consumer from its position or before.
  Skipping it settles it, after which it blocks nothing.
\<close>

theorem failed_parks_queue:
  assumes "store_ok es" "f \<in> set (es_deliveries es)" "d_state f = DFailed"
  shows "(\<forall>locked w now secs l t.
      lease_delivery locked w now secs (es_deliveries es) = (Some l, t) \<longrightarrow>
        (ld_event_id l, ld_consumer_id l) \<noteq> d_key f \<and>
        (\<forall>d \<in> set (es_deliveries es). same_queue f d \<and> d_position f < d_position d \<longrightarrow>
           (ld_event_id l, ld_consumer_id l) \<noteq> d_key d)) \<and>
    (\<forall>hist es' hist'. event_step (es, hist) (es', hist') \<longrightarrow>
       f \<in> set (es_deliveries es') \<or>
       (\<exists>ctx now. retry_handler ctx (d_key f) now es = Inr (DPending, es')) \<or>
       (\<exists>ctx nt now. skip_handler ctx (d_key f) nt now es = Inr (DSkipped, es')) \<or>
       (\<exists>ctx p now n due. replay_handler ctx (d_consumer_id f) p now es = Inr (n, due, es') \<and>
          p \<le> d_position f)) \<and>
    (\<forall>ctx nt now st es'. skip_handler ctx (d_key f) nt now es = Inr (st, es') \<longrightarrow>
       (\<forall>x. delivery_blocked (es_deliveries es') x \<longleftrightarrow>
          (\<exists>e \<in> set (es_deliveries es). d_key e \<noteq> d_key f \<and> same_queue e x \<and>
             d_position e < d_position x \<and> \<not> settled (d_state e))))"
proof (intro conjI)
  have uniq: "unique_by d_key (es_deliveries es)"
    using assms(1) by (simp add: store_ok_def deliveries_ok_def)
  show "\<forall>locked w now secs l t.
      lease_delivery locked w now secs (es_deliveries es) = (Some l, t) \<longrightarrow>
        (ld_event_id l, ld_consumer_id l) \<noteq> d_key f \<and>
        (\<forall>d \<in> set (es_deliveries es). same_queue f d \<and> d_position f < d_position d \<longrightarrow>
           (ld_event_id l, ld_consumer_id l) \<noteq> d_key d)"
  proof (intro allI impI)
    fix locked w now secs l t
    assume "lease_delivery locked w now secs (es_deliveries es) = (Some l, t)"
    then obtain q where q: "q \<in> set (es_deliveries es)" "delivery_due now q"
      "\<not> delivery_blocked (es_deliveries es) q" "l = leased_delivery_of (take_delivery w now secs q)"
      by (rule lease_delivery_SomeD)
    have key: "(ld_event_id l, ld_consumer_id l) = d_key q"
      by (simp add: q(4) leased_delivery_of_def take_delivery_def d_key_def)
    have "q \<noteq> f" using q(2) assms(3) by (auto simp: delivery_due_def)
    moreover have "delivery_blocked (es_deliveries es) d"
      if "same_queue f d" "d_position f < d_position d" for d
      using that assms(2,3) by (auto simp: delivery_blocked_def settled_def)
    ultimately show "(ld_event_id l, ld_consumer_id l) \<noteq> d_key f \<and>
        (\<forall>d \<in> set (es_deliveries es). same_queue f d \<and> d_position f < d_position d \<longrightarrow>
           (ld_event_id l, ld_consumer_id l) \<noteq> d_key d)"
      unfolding key using q(1,3) assms(2) uniq by (blast dest: unique_by_eqD)
  qed
next
  show "\<forall>hist es' hist'. event_step (es, hist) (es', hist') \<longrightarrow>
       f \<in> set (es_deliveries es') \<or>
       (\<exists>ctx now. retry_handler ctx (d_key f) now es = Inr (DPending, es')) \<or>
       (\<exists>ctx nt now. skip_handler ctx (d_key f) nt now es = Inr (DSkipped, es')) \<or>
       (\<exists>ctx p now n due. replay_handler ctx (d_consumer_id f) p now es = Inr (n, due, es') \<and>
          p \<le> d_position f)"
    using failed_stays [OF _ assms] by blast
next
  have "q = f" if "q \<in> set (es_deliveries es)" "d_key q = d_key f" for q
    using that assms(1,2) by (auto simp: store_ok_def deliveries_ok_def dest: unique_by_eqD)
  with assms(3) have failed: "delivery_failed (d_key f) q \<longleftrightarrow> d_key q = d_key f"
    if "q \<in> set (es_deliveries es)" for q
    using that by (auto simp: delivery_failed_def)
  show "\<forall>ctx nt now st es'. skip_handler ctx (d_key f) nt now es = Inr (st, es') \<longrightarrow>
       (\<forall>x. delivery_blocked (es_deliveries es') x \<longleftrightarrow>
          (\<exists>e \<in> set (es_deliveries es). d_key e \<noteq> d_key f \<and> same_queue e x \<and>
             d_position e < d_position x \<and> \<not> settled (d_state e)))"
  proof (intro allI impI)
    fix ctx nt now st es' x
    assume "skip_handler ctx (d_key f) nt now es = Inr (st, es')"
    then have t: "es_deliveries es' = snd (skip_delivery (d_key f) now (Some nt) (es_deliveries es))"
      by (auto dest: skip_handler_InrD)
    show "delivery_blocked (es_deliveries es') x \<longleftrightarrow>
        (\<exists>e \<in> set (es_deliveries es). d_key e \<noteq> d_key f \<and> same_queue e x \<and>
           d_position e < d_position x \<and> \<not> settled (d_state e))"
      unfolding delivery_blocked_def t skip_delivery_def snd_apply_where update_where_def
      using failed by (auto simp: settled_def same_queue_def)
  qed
qed

lemma run_skip: "skip_handler run_operator (7, ''c'') ''x'' 9 run_failed =
   Inr (DSkipped, run_failed\<lparr>es_deliveries := snd (skip_delivery (7, ''c'') 9 (Some ''x'')
     (es_deliveries run_failed))\<rparr>)"
  by (simp add: skip_handler_def run_operator_def run_defs refuse_model_held_def
      person_held_token_kinds_def must_be_failed_def delivery_state_of_def fresh_delivery_def
      d_key_def skip_delivery_def delivery_failed_def apply_where_def rowcount_def)

text \<open>A second event of the subject behind the failed one.\<close>

definition run_parked :: "nat event_store" where
  "run_parked = run_failed\<lparr>
     es_outbox := es_outbox run_failed @ [outbox_row run_context 8 2 0 run_event],
     es_deliveries := es_deliveries run_failed @ [fresh_delivery 0 ''c'' 8 ''s'' 2]\<rparr>"

lemma run_parked_reach:
  "event_reach run_parked (run_history @ [outbox_row run_context 8 2 0 run_event])"
proof -
  have "publish run_context run_registry 8 2 0 run_event run_failed = Inr (8, True, run_parked)"
    by (simp add: publish_def run_defs run_parked_def insert_row_def fan_out_def for_type_def
        consumer_enabled_def is_reserved_module_def outbox_row_def d_key_def fresh_delivery_def
        Let_def)
  from es_publish [OF this, of run_history]
  have "event_step (run_failed, run_history)
      (run_parked, run_history @ [outbox_row run_context 8 2 0 run_event])"
    by (simp add: registry_ok_def unique_by_def run_registry_def run_history_def outbox_row_def
        run_event_def)
  with run_reach(4) show ?thesis unfolding event_reach_def by (rule rtranclp.rtrancl_into_rtrancl)
qed

lemma failed_parks_queue_witness:
  "lease_delivery (\<lambda>_. False) ''v'' 99 60 (es_deliveries run_parked) = (None, es_deliveries run_parked)"
proof -
  let ?f = "hd (es_deliveries run_failed)"
  have ok: "store_ok run_parked" using event_reach_ok [OF run_parked_reach] ..
  have f: "?f \<in> set (es_deliveries run_parked)" "d_state ?f = DFailed"
    by (simp_all add: run_parked_def run_failed_def)
  have "\<forall>l t. lease_delivery (\<lambda>_. False) ''v'' 99 60 (es_deliveries run_parked) = (Some l, t) \<longrightarrow>
      (\<forall>d \<in> set (es_deliveries run_parked). (ld_event_id l, ld_consumer_id l) \<noteq> d_key d)"
    using failed_parks_queue [OF ok f]
    by (auto simp: run_parked_def run_failed_def run_leased_def same_queue_def fresh_delivery_def
        d_key_def)
  moreover have "\<exists>d \<in> set (es_deliveries run_parked). (ld_event_id l, ld_consumer_id l) = d_key d"
    if "lease_delivery (\<lambda>_. False) ''v'' 99 60 (es_deliveries run_parked) = (Some l, t)" for l t
    using that by (rule lease_delivery_SomeD)
      (auto simp: leased_delivery_of_def take_delivery_def d_key_def)
  ultimately show ?thesis
    by (cases "lease_delivery (\<lambda>_. False) ''v'' 99 60 (es_deliveries run_parked)"; cases "fst
        (lease_delivery (\<lambda>_. False) ''v'' 99 60 (es_deliveries run_parked))")
      (auto dest: lease_delivery_NoneD(1))
qed

text \<open>
  No token but a person's own moves a failed delivery: for any other token, or a token the
  control plane no longer knows, retry, skip and replay are refused before anything is read.
\<close>

theorem model_held_token_refused:
  assumes "wc_actor_is_token ctx" "wc_token_kind ctx \<noteq> Some ''cli''"
  shows "retry_handler ctx k now es = Inl Operation_Not_Permitted \<and>
    skip_handler ctx k nt now es = Inl Operation_Not_Permitted \<and>
    replay_handler ctx c p now es = Inl Operation_Not_Permitted"
  using assms
  by (auto simp: retry_handler_def skip_handler_def replay_handler_def refuse_model_held_def
      person_held_token_kinds_def split: option.splits)

lemma model_held_token_refused_witness:
  "skip_handler (run_operator\<lparr>wc_token_kind := Some ''mcp''\<rparr>) (7, ''c'') ''x'' 9 run_failed =
     Inl Operation_Not_Permitted"
  by (rule model_held_token_refused [THEN conjunct2, THEN conjunct1])
     (simp_all add: run_operator_def)

end
