(* ===== verification/Delivery_Guarantees.thy ===== *)
theory Delivery_Guarantees
  imports Delivery_System Event_Guarantees
begin

text \<open>
  What the delivery worker promises: every event runs its consumer's handler to a commit once,
  every run of the workers is a run of the event store (so the order of a queue holds for it),
  what an attempt that did not deliver leaves on its row, and that a visit of a delivery ends.
\<close>

section \<open>A run of the system\<close>

definition run_ds_lease :: leased_delivery where
  "run_ds_lease = leased_delivery_of (take_delivery ''w'' 0 60 (fresh_delivery 0 ''c'' 7 ''s'' 1))"

definition run_envelope :: "nat event_envelope" where
  "run_envelope = \<lparr>env_event = outbox_row run_context 7 1 0 run_event, env_consumer_id = ''c'',
     env_attempt = 1\<rparr>"

definition run_ds :: "nat event_store \<Rightarrow> ((uuid \<times> string) \<times> nat) list \<Rightarrow> nat dpc \<Rightarrow>
  (nat, nat) delivery_sys" where
  "run_ds es eff pc = \<lparr>evs_db = \<lparr>ed_store = es, ed_effects = eff\<rparr>, evs_hist = run_history,
     evs_pc = (\<lambda>_. D_Idle)(''w'' := pc), evs_replayed = []\<rparr>"

definition run_done :: "nat event_store" where
  "run_done = run_delivered\<lparr>es_ledger :=
     [\<lparr>p_consumer_id = ''c'', p_event_id = 7, p_processed_at = 4\<rparr>]\<rparr>"

lemma run_ds_gate:
  "run_leased_delivery 8 run_registry True 1 run_ds_lease ''w'' \<lparr>ed_store = run_leased, ed_effects = []\<rparr>
     = (D_Running run_ds_lease (Some run_envelope), \<lparr>ed_store = run_leased, ed_effects = []\<rparr>)"
  by (simp add: run_leased_delivery_def run_ds_lease_def leased_delivery_of_def run_defs
      lookup_consumer_def begin_consumer_def already_processed_def envelope_for_def outbox_row_def
      run_envelope_def take_delivery_def fresh_delivery_def)

lemma run_ds_commit:
  "run_consumer (Consumer_Done 5 run_leased) e 4 5 run_ds_lease (Some run_envelope) ''w''
     \<lparr>ed_store = run_leased, ed_effects = []\<rparr>
     = (D_Idle, \<lparr>ed_store = run_done, ed_effects = [((7, ''c''), 5 :: nat)]\<rparr>)"
  by (simp add: run_consumer_def run_ds_lease_def leased_delivery_of_def run_defs run_done_def
      record_processed_def insert_row_def on_deliveries_def mark_delivered_def delivery_held_def
      apply_where_def rowcount_def ld_key_def take_delivery_def fresh_delivery_def d_key_def)

lemma run_ds_reach:
  "delivery_reach 8 run_registry (run_ds run_leased [] (D_Leased run_ds_lease))"
  "delivery_reach 8 run_registry (run_ds run_done [((7, ''c''), 5)] D_Idle)"
proof -
  have idle: "(\<lambda>_. D_Idle)(''w'' := D_Idle) = (\<lambda>_. D_Idle)" by auto
  have pub: "publish_step (empty_store, []) (run_published, run_history)"
    using ps_publish [OF run_publish, of "[]"]
    by (simp add: run_history_def registry_ok_def run_registry_def unique_by_def)
  have 1: "delivery_step 8 run_registry empty_delivery_sys (run_ds run_published [] D_Idle)"
    using ys_publish [of "empty_delivery_sys :: (nat, nat) delivery_sys" run_published run_history] pub
    by (simp add: empty_delivery_sys_def run_ds_def idle)
  have 2: "delivery_step 8 run_registry (run_ds run_published [] D_Idle)
      (run_ds run_leased [] (D_Leased run_ds_lease))"
    using ys_lease [of "run_ds run_published [] D_Idle" "''w''"] run_lease
    by (simp add: run_ds_def run_ds_lease_def lease_seconds_def run_leased_def idle)
  have 3: "delivery_step 8 run_registry (run_ds run_leased [] (D_Leased run_ds_lease))
      (run_ds run_leased [] (D_Running run_ds_lease (Some run_envelope)))"
  proof -
    let ?s = "run_ds run_leased [] (D_Leased run_ds_lease)"
    have "delivery_tx 8 run_registry ''w'' (evs_db ?s) (evs_hist ?s) (evs_pc ?s ''w'')
        (D_Running run_ds_lease (Some run_envelope)) (evs_db ?s) (evs_hist ?s)"
      using dt_gate [OF run_ds_gate] by (simp add: run_ds_def)
    from ys_worker [OF this] show ?thesis by (simp add: run_ds_def)
  qed
  have 4: "delivery_step 8 run_registry (run_ds run_leased [] (D_Running run_ds_lease (Some run_envelope)))
      (run_ds run_done [((7, ''c''), 5)] D_Idle)"
  proof -
    let ?s = "run_ds run_leased [] (D_Running run_ds_lease (Some run_envelope))"
      and ?t = "run_ds run_done [((7, ''c''), 5)] D_Idle"
    have pubs: "publish_step\<^sup>*\<^sup>* (ed_store \<lparr>ed_store = run_leased, ed_effects = [] :: ((uuid \<times> string) \<times> nat) list\<rparr>,
        run_history) (run_leased, run_history)" by simp
    have "delivery_tx 8 run_registry ''w'' (evs_db ?s) (evs_hist ?s) (evs_pc ?s ''w'')
        D_Idle (evs_db ?t) (evs_hist ?t)"
      using dt_done [OF pubs run_ds_commit, of 8 run_registry] by (simp add: run_ds_def)
    from ys_worker [OF this] show ?thesis by (simp add: run_ds_def)
  qed
  have r2: "(delivery_step 8 run_registry)\<^sup>*\<^sup>* empty_delivery_sys (run_ds run_leased [] (D_Leased run_ds_lease))"
    using 1 2 by (meson rtranclp.simps)
  then show "delivery_reach 8 run_registry (run_ds run_leased [] (D_Leased run_ds_lease))"
    by (simp add: delivery_reach_def)
  show "delivery_reach 8 run_registry (run_ds run_done [((7, ''c''), 5)] D_Idle)"
    unfolding delivery_reach_def using r2 3 4 by (meson rtranclp.rtrancl_into_rtrancl)
qed

section \<open>Exactly once\<close>

text \<open>
  C3. Whatever workers, crashes, lapsed leases, operators and the sweep do, the effects of a
  consumer's handler for an event are committed at most once between two replays that cover it,
  and while its delivery row is there: once if it is \<open>delivered\<close>, which is when the ledger holds
  it, and not at all in any other state.

  The ledger clause is about the rows the code's transactions write. The docstring of
  \<^verbatim>\<open>replay_deliveries\<close>, \<^verbatim>\<open>docs/architecture/intake-and-events.md\<close> (exactly-once effect, replay)
  and a test that inserts the ledger row by hand reckon with a delivery that is pending and has a
  ledger row, or with a redelivery that meets one. No transaction of the code leaves that state,
  since the ledger row and the \<open>delivered\<close> mark commit together and every replay that resets the
  one deletes the other.
\<close>

theorem delivered_exactly_once:
  assumes "delivery_reach budget reg s"
  shows "committed (ed_effects (evs_db s)) k \<le> 1 \<and>
    (\<forall>r \<in> set (es_deliveries (ed_store (evs_db s))). d_key r = k \<longrightarrow>
       (if d_state r = DDelivered then committed (ed_effects (evs_db s)) k = 1
        else committed (ed_effects (evs_db s)) k = 0) \<and>
       (already_processed (snd k) (fst k) (es_ledger (ed_store (evs_db s))) \<longleftrightarrow> d_state r = DDelivered))"
proof (intro conjI ballI impI)
  let ?es = "ed_store (evs_db s)"
  note inv = delivery_reach_ok [OF assms]
  have db: "db_ok (evs_db s) (evs_hist s)" using inv(1) by (simp add: delivery_sys_ok_def)
  show "committed (ed_effects (evs_db s)) k \<le> 1" by (rule db_ok_at_most_once [OF db])
  fix r assume r: "r \<in> set (es_deliveries ?es)" "d_key r = k"
  have uniq: "unique_by d_key (es_deliveries ?es)"
    using inv(2) by (simp add: store_ok_def deliveries_ok_def)
  have dk: "k \<in> delivered_keys ?es \<longleftrightarrow> d_state r = DDelivered"
  proof
    assume "k \<in> delivered_keys ?es"
    then obtain d where d: "d \<in> set (es_deliveries ?es)" "d_key d = k" "d_state d = DDelivered"
      by (auto simp: delivered_keys_def)
    then have "d = r" using unique_by_eqD [OF uniq d(1) r(1)] r(2) by simp
    then show "d_state r = DDelivered" using d(3) by simp
  qed (use r in \<open>auto simp: delivered_keys_def\<close>)
  then show "if d_state r = DDelivered then committed (ed_effects (evs_db s)) k = 1
      else committed (ed_effects (evs_db s)) k = 0"
    using db_ok_outbox [OF db, of k] row_in_outbox [OF inv(2) r(1)] r(2) by simp
  have "already_processed (snd k) (fst k) (es_ledger ?es) \<longleftrightarrow> k \<in> processed_keys ?es"
    by (auto simp: already_processed_def processed_keys_def p_key_def image_iff prod_eq_iff)
  then show "already_processed (snd k) (fst k) (es_ledger ?es) \<longleftrightarrow> d_state r = DDelivered"
    using dk db by (simp add: db_ok_def)
qed

lemma delivered_exactly_once_witness:
  "committed [((7, ''c''), 5 :: nat)] (7, ''c'') = 1 \<and> es_deliveries run_done \<noteq> [] \<and>
   already_processed ''c'' 7 (es_ledger run_done)"
  using delivered_exactly_once [OF run_ds_reach(2), of "(7, ''c'')"]
  by (auto simp: run_ds_def run_done_def run_defs fresh_delivery_def d_key_def)

section \<open>The running system keeps the promises of the store\<close>

text \<open>
  C14. Every step of publishers, workers, operators and the sweep is a sequence of transactions of
  the event store, so each store the running system reaches is one its guarantees hold for.
\<close>

theorem delivery_system_refines_store:
  "(delivery_step budget reg s s' \<longrightarrow>
      event_step\<^sup>*\<^sup>* (ed_store (evs_db s), evs_hist s) (ed_store (evs_db s'), evs_hist s')) \<and>
   (delivery_reach budget reg s \<longrightarrow> event_reach (ed_store (evs_db s)) (evs_hist s))"
  using delivery_step_event delivery_reach_event by blast

lemma delivery_system_refines_store_witness: "event_reach run_done run_history"
proof -
  have "event_reach (ed_store (evs_db (run_ds run_done [((7, ''c''), 5)] D_Idle)))
      (evs_hist (run_ds run_done [((7, ''c''), 5)] D_Idle))"
    using delivery_system_refines_store run_ds_reach(2) by blast
  then show ?thesis by (simp add: run_ds_def)
qed

section \<open>An attempt that does not deliver\<close>

lemma held_row_after:
  assumes "\<And>r. delivery_held k w r \<Longrightarrow> d_key (f r) = d_key r"
  shows "lookup_by d_key k (snd (apply_where (delivery_held k w) f t)) =
    map_option (\<lambda>r. if delivery_held k w r then f r else r) (lookup_by d_key k t)"
  by (rule predicated_write.row_after [OF predicated_writeI])
    (use assms in \<open>auto simp: delivery_held_def\<close>)

lemma ended_row:
  assumes "lookup_by d_key k t = Some r" "delivery_held k w r"
  shows "lookup_by d_key k (snd (fail_delivery k w now e t)) =
      Some (r\<lparr>d_state := DFailed, d_completed_at := Some now, d_lease_owner := None,
              d_lease_until := None, d_last_error := Some e\<rparr>)"
    "lookup_by d_key k (snd (defer_unready_delivery k w nx t)) =
      Some (r\<lparr>d_state := DPending, d_attempts := d_attempts r - 1, d_next_attempt_at := nx,
              d_lease_owner := None, d_lease_until := None\<rparr>)"
    "lookup_by d_key k (snd (requeue_delivery k w now e j t)) =
      Some (r\<lparr>d_state := DPending, d_next_attempt_at := now + backoff_for (d_attempts r) j,
              d_lease_owner := None, d_lease_until := None, d_last_error := Some e\<rparr>)"
  unfolding fail_delivery_def defer_unready_delivery_def requeue_delivery_def assms(1) option.case
  by (subst held_row_after, simp add: d_key_def, simp only: assms option.map if_True)+

text \<open>
  C26. The row after an attempt that its worker still holds and that did not deliver: a handler
  that raised requeues it with the backoff of its attempt while the budget lasts and fails it on
  the budget's last attempt; a lease past the budget fails it without entering the handler; an
  unknown consumer fails it, or defers it and gives the attempt back when its module is not
  ready; a missing event fails it with the reason.
\<close>

theorem failed_attempt_ladder:
  assumes row: "lookup_by d_key (ld_key l) (es_deliveries (ed_store db)) = Some r"
    and held: "delivery_held (ld_key l) w r" and att: "d_attempts r = ld_attempts l"
  defines "after \<equiv> \<lambda>db'. lookup_by d_key (ld_key l) (es_deliveries (ed_store db'))"
    and "failed \<equiv> \<lambda>now e. Some (r\<lparr>d_state := DFailed, d_completed_at := Some now,
      d_lease_owner := None, d_lease_until := None, d_last_error := Some e\<rparr>)"
    and "freed \<equiv> r\<lparr>d_state := DPending, d_lease_owner := None, d_lease_until := None\<rparr>"
  shows "after (snd (consumer_raised budget now j l e w db)) =
      (if budget \<le> d_attempts r then failed now e
       else Some (freed\<lparr>d_next_attempt_at := now + backoff_for (d_attempts r) j,
                        d_last_error := Some e\<rparr>)) \<and>
    (budget < d_attempts r \<longrightarrow>
       fst (run_leased_delivery budget reg ready now l w db) = D_Idle \<and>
       after (snd (run_leased_delivery budget reg ready now l w db)) = failed now retry_budget_exhausted) \<and>
    (d_attempts r \<le> budget \<and> lookup_consumer (ld_consumer_id l) reg = None \<longrightarrow>
       fst (run_leased_delivery budget reg ready now l w db) = D_Idle \<and>
       after (snd (run_leased_delivery budget reg ready now l w db)) =
         (if ready then failed now (unknown_consumer_error (ld_consumer_id l))
          else Some (freed\<lparr>d_attempts := d_attempts r - 1,
                           d_next_attempt_at := now + seconds unready_seconds\<rparr>))) \<and>
    after (snd (consumer_unready now l w db)) =
      Some (freed\<lparr>d_attempts := d_attempts r - 1,
                  d_next_attempt_at := now + seconds unready_seconds\<rparr>) \<and>
    after (snd (consumer_missing now l e w db)) = failed now e"
proof -
  note ends = ended_row [OF row held]
  show ?thesis
    unfolding after_def failed_def freed_def
    by (simp add: consumer_raised_def write_delivery_failure_def finish_alone_def on_deliveries_shape
        run_leased_delivery_def fail_delivery_alone_def unless_unready_def consumer_unready_def
        consumer_missing_def Let_def split_beta ends att)
qed

lemma failed_attempt_ladder_witness:
  "lookup_by d_key (7, ''c'') (es_deliveries (ed_store (snd (consumer_raised 1 5 None run_ds_lease ''e'' ''w''
      \<lparr>ed_store = run_leased, ed_effects = [] :: ((uuid \<times> string) \<times> nat) list\<rparr>)))) =
     Some ((fresh_delivery 0 ''c'' 7 ''s'' 1)\<lparr>d_state := DFailed, d_attempts := 1,
        d_completed_at := Some 5, d_last_error := Some ''e''\<rparr>)"
proof -
  let ?r = "take_delivery ''w'' 0 60 (fresh_delivery 0 ''c'' 7 ''s'' 1)"
  have k: "ld_key run_ds_lease = (7, ''c'')" 
    by (simp add: run_ds_lease_def leased_delivery_of_def ld_key_def take_delivery_def fresh_delivery_def)
  have "lookup_by d_key (ld_key run_ds_lease) (es_deliveries (ed_store
      \<lparr>ed_store = run_leased, ed_effects = [] :: ((uuid \<times> string) \<times> nat) list\<rparr>)) = Some ?r"
    "delivery_held (ld_key run_ds_lease) ''w'' ?r" "d_attempts ?r = ld_attempts run_ds_lease"
    by (simp_all add: ld_key_def run_leased_def d_key_def delivery_held_def run_ds_lease_def
        leased_delivery_of_def fresh_delivery_def take_delivery_def)
  from failed_attempt_ladder [OF this, of 1 5 None "''e''"]
  show ?thesis by (simp add: k take_delivery_def fresh_delivery_def)
qed

section \<open>A visit ends\<close>

fun dpc_rank :: "'v dpc \<Rightarrow> nat" where
  "dpc_rank D_Idle = 0"
| "dpc_rank (D_Missing l e) = 1"
| "dpc_rank (D_Unready l) = 1"
| "dpc_rank (D_Raised l e) = 1"
| "dpc_rank (D_Running l env) = 2"
| "dpc_rank (D_Leased l) = 3"

lemma delivery_tx_rank:
  assumes "delivery_tx budget reg w db hist pc pc' db' hist'"
  shows "dpc_rank pc' < dpc_rank pc"
  using assms
  by (cases rule: delivery_tx.cases)
    (auto simp: run_leased_delivery_def begin_consumer_def run_consumer_def consumer_missing_def
      consumer_unready_def consumer_raised_def Let_def
      split: if_splits option.splits sum.splits prod.splits)

text \<open>
  C27. A worker is never stuck with a delivery: at every place of a visit some transaction can run,
  every transaction brings it closer to the end, and the handler is entered only by an attempt
  within the budget.
\<close>

theorem visit_of_a_delivery_ends:
  "(delivery_tx budget reg w db hist pc pc' db' hist' \<longrightarrow> dpc_rank pc' < dpc_rank pc) \<and>
   (pc \<noteq> D_Idle \<longrightarrow> (\<exists>pc1 db1 hist1. delivery_tx budget reg w db hist pc pc1 db1 hist1)) \<and>
   (delivery_tx budget reg w db hist pc (D_Running l env) db' hist' \<longrightarrow>
      pc = D_Leased l \<and> ld_attempts l \<le> budget)"
proof (intro conjI impI)
  assume "pc \<noteq> D_Idle"
  then show "\<exists>pc1 db1 hist1. delivery_tx budget reg w db hist pc pc1 db1 hist1"
  proof (cases pc)
    case (D_Leased l)
    then show ?thesis using dt_gate [OF prod.collapse [symmetric]] by blast
  next
    case (D_Running l env)
    then show ?thesis using dt_stopped [OF disjI1 [OF refl] prod.collapse [symmetric]] by blast
  next
    case (D_Missing l e)
    then show ?thesis using dt_missing [OF prod.collapse [symmetric]] by blast
  next
    case (D_Unready l)
    then show ?thesis using dt_unready [OF prod.collapse [symmetric]] by blast
  next
    case (D_Raised l e)
    then show ?thesis using dt_raised [OF prod.collapse [symmetric]] by blast
  qed simp
qed (auto dest: delivery_tx_rank delivery_tx_running)

lemma visit_of_a_delivery_ends_witness:
  "\<exists>pc1 db1 hist1. delivery_tx 8 run_registry ''w'' \<lparr>ed_store = run_leased,
     ed_effects = [] :: ((uuid \<times> string) \<times> nat) list\<rparr> run_history (D_Leased run_ds_lease) pc1 db1 hist1 \<and>
     dpc_rank pc1 < 3"
proof -
  obtain pc1 db1 hist1 where "delivery_tx 8 run_registry ''w'' \<lparr>ed_store = run_leased,
     ed_effects = [] :: ((uuid \<times> string) \<times> nat) list\<rparr> run_history (D_Leased run_ds_lease) pc1 db1 hist1"
    using visit_of_a_delivery_ends by blast
  moreover from this have "dpc_rank pc1 < dpc_rank (D_Leased run_ds_lease :: nat dpc)"
    using visit_of_a_delivery_ends by blast
  ultimately show ?thesis by auto
qed

end
