(* ===== verification/Job_System.thy ===== *)
theory Job_System
  imports Job_Worker
begin

text \<open>
  Any number of workers over one workspace database, with the rest of the program around
  them: \<open>job_step\<close> is one transaction of somebody, or a crash. The workers are told apart by
  their owner strings, unique to a process.

  Two ghosts count what the retry budget is about. \<open>sy_entries i\<close> is the number of times a
  handler was entered for job \<open>i\<close>, less the entries a readiness deferral refunded.

  \<open>sys_ok\<close> is the invariant. It has the shape of the database (\<open>jobs_ok\<close>), the agreement of
  each worker's lease with its row, the effects against the succeeded rows, and the budget.
\<close>

section \<open>The system\<close>

record ('p, 'x) sys =
  sy_db :: "('p, 'x) work_db"
  sy_pc :: "string \<Rightarrow> 'p pc"
  sy_entries :: "uuid \<Rightarrow> int"

text \<open>What a handler or a continuation may do to these tables in its own transaction, and
  what anyone else does in theirs: mint, move and end operation records, and enqueue jobs.\<close>

inductive side_write :: "('p, 'x) work_db \<Rightarrow> ('p, 'x) work_db \<Rightarrow> bool" where
  sw_enqueue: "enqueue_job fresh known kind p now mx nx op dd (wd_jobs db) = Inr (a, t) \<Longrightarrow>
    side_write db (db\<lparr>wd_jobs := t\<rparr>)"
| sw_op: "op_write (wd_ops db) ops \<Longrightarrow> side_write db (db\<lparr>wd_ops := ops\<rparr>)"

definition handler_did :: "('p, 'x) handler_outcome \<Rightarrow> ('p, 'x) work_db \<Rightarrow> bool" where
  "handler_did outcome db \<longleftrightarrow>
     (case outcome of Handler_Done x db1 \<Rightarrow> side_write\<^sup>*\<^sup>* db db1 | _ \<Rightarrow> True)"

definition continuation_did :: "('p, 'x) continuation_outcome \<Rightarrow> ('p, 'x) work_db \<Rightarrow> bool" where
  "continuation_did outcome db \<longleftrightarrow>
     (case outcome of Inr (disp, detail, x, db1) \<Rightarrow> side_write\<^sup>*\<^sup>* db db1 | Inl _ \<Rightarrow> True)"

text \<open>The transaction a worker runs from where it is, with what the world answers in it:
  clock readings, the jitter source, readiness, and what the handler or continuation did.\<close>

inductive worker_tx ::
  "'p kind_registry \<Rightarrow> string \<Rightarrow> ('p, 'x) work_db \<Rightarrow> 'p pc \<Rightarrow> 'p pc \<Rightarrow> ('p, 'x) work_db \<Rightarrow> bool"
  for kinds w db where
  tx_gates: "run_leased_job kinds ready clock l w now db = (pc', db') \<Longrightarrow>
    worker_tx kinds w db (P_Leased l now) pc' db'"
| tx_handler: "handler_did outcome db \<Longrightarrow> run_handler outcome now fin l w db = (pc', db') \<Longrightarrow>
    worker_tx kinds w db (P_Handler l) pc' db'"
| tx_failed: "handler_failed now jitter l w e db = (pc', db') \<Longrightarrow>
    worker_tx kinds w db (P_Failed l e) pc' db'"
| tx_unready: "defer_unready clock l w db = (pc', db') \<Longrightarrow>
    worker_tx kinds w db (P_Unready l) pc' db'"
| tx_resolve: "resolve_place clock l handed w db = (pc', db') \<Longrightarrow>
    worker_tx kinds w db (P_Resolve l handed) pc' db'"
| tx_cont: "continuation_did outcome db \<Longrightarrow>
    run_continuation outcome now jitter l mode n w db = (pc', db') \<Longrightarrow>
    worker_tx kinds w db (P_Cont l mode n) pc' db'"
| tx_cont_failed: "continuation_failed now jitter l mode n e w db = (pc', db') \<Longrightarrow>
    worker_tx kinds w db (P_Cont_Failed l mode n e) pc' db'"
| tx_cont_check: "worker_tx kinds w db (P_Cont_Check l mode n) (continuation_check l mode n w db) db"

text \<open>The job a worker is busy with.\<close>

fun pc_lease :: "'p pc \<Rightarrow> 'p leased_job option" where
  "pc_lease P_Idle = None"
| "pc_lease (P_Leased l _) = Some l"
| "pc_lease (P_Handler l) = Some l"
| "pc_lease (P_Failed l _) = Some l"
| "pc_lease (P_Unready l) = Some l"
| "pc_lease (P_Resolve l _) = Some l"
| "pc_lease (P_Cont l _ _) = Some l"
| "pc_lease (P_Cont_Failed l _ _ _) = Some l"
| "pc_lease (P_Cont_Check l _ _) = Some l"

text \<open>What a transaction adds to the entries of the worker's job: an entry into the handler
  counts one, a deferral out of it that applied takes it back.\<close>

definition entered :: "'p pc \<Rightarrow> 'p pc \<Rightarrow> int" where
  "entered a b =
     (case (a, b) of (P_Leased _ _, P_Handler _) \<Rightarrow> 1 | (P_Unready _, P_Idle) \<Rightarrow> - 1 | _ \<Rightarrow> 0)"

inductive job_step :: "'p kind_registry \<Rightarrow> ('p, 'x) sys \<Rightarrow> ('p, 'x) sys \<Rightarrow> bool"
  for kinds where
  js_acquire: "sy_pc s w = P_Idle \<Longrightarrow>
    acquire_lease locked w now lease_seconds (wd_jobs (sy_db s)) = (Some l, t) \<Longrightarrow>
    job_step kinds s (s\<lparr>sy_db := (sy_db s)\<lparr>wd_jobs := t\<rparr>, sy_pc := (sy_pc s)(w := P_Leased l now)\<rparr>)"
| js_worker: "pc_lease (sy_pc s w) = Some l \<Longrightarrow>
    worker_tx kinds w (sy_db s) (sy_pc s w) pc' db' \<Longrightarrow>
    job_step kinds s (s\<lparr>sy_db := db', sy_pc := (sy_pc s)(w := pc'),
      sy_entries := (sy_entries s)(l_id l := sy_entries s (l_id l) + entered (sy_pc s w) pc')\<rparr>)"
| js_checkpoint: "sy_pc s w = P_Handler l \<Longrightarrow>
    checkpoint (l_id l) w now force extended (wd_jobs (sy_db s)) = (c, extended', t) \<Longrightarrow>
    job_step kinds s (s\<lparr>sy_db := (sy_db s)\<lparr>wd_jobs := t\<rparr>\<rparr>)"
| js_crash: "job_step kinds s (s\<lparr>sy_pc := (sy_pc s)(w := P_Idle)\<rparr>)"
| js_side: "side_write (sy_db s) db \<Longrightarrow> job_step kinds s (s\<lparr>sy_db := db\<rparr>)"
| js_cancel: "request_cancellation i now (wd_jobs (sy_db s)) (wd_ops (sy_db s)) = (st, t, ops) \<Longrightarrow>
    job_step kinds s (s\<lparr>sy_db := (sy_db s)\<lparr>wd_jobs := t, wd_ops := ops\<rparr>\<rparr>)"

definition empty_sys :: "('p, 'x) sys" where
  "empty_sys =
     \<lparr>sy_db = \<lparr>wd_jobs = [], wd_ops = [], wd_effects = [], wd_settlements = []\<rparr>,
      sy_pc = (\<lambda>_. P_Idle), sy_entries = (\<lambda>_. 0)\<rparr>"

definition job_reach :: "'p kind_registry \<Rightarrow> ('p, 'x) sys \<Rightarrow> bool" where
  "job_reach kinds s \<longleftrightarrow> (job_step kinds)\<^sup>*\<^sup>* empty_sys s"

section \<open>What a finish does to its row\<close>

definition same_job :: "'p job \<Rightarrow> 'p job \<Rightarrow> bool" where
  "same_job r r' \<longleftrightarrow> j_id r' = j_id r \<and> j_kind r' = j_kind r \<and>
     j_operation_id r' = j_operation_id r \<and> j_max_attempts r' = j_max_attempts r \<and>
     j_cancel_requested r' = j_cancel_requested r"

text \<open>\<open>w\<close> gave up the row of job \<open>i\<close>, with \<open>d\<close> attempts given back.\<close>

definition ends ::
  "string \<Rightarrow> uuid \<Rightarrow> int \<Rightarrow> 'p jobs \<Rightarrow> 'p jobs \<Rightarrow> 'p job \<Rightarrow> 'p job \<Rightarrow> bool" where
  "ends w i d t t' r r' \<longleftrightarrow>
     lookup_by j_id i t = Some r \<and> job_held i w r \<and> lookup_by j_id i t' = Some r' \<and>
     (\<forall>j. j \<noteq> i \<longrightarrow> lookup_by j_id j t' = lookup_by j_id j t) \<and>
     same_job r r' \<and> j_state r' \<noteq> JobLeased \<and> j_attempts r' = j_attempts r - d \<and>
     job_write t t'"

lemma ends_apply:
  assumes "unique_by j_id t" "job_write t t'" "apply_where P f t = (b, t')"
    and "\<And>r. P r \<Longrightarrow> job_held i w r \<and> Q r (f r) \<and> same_job r (f r) \<and>
      j_state (f r) \<noteq> JobLeased \<and> j_attempts (f r) = j_attempts r - d"
  shows "(\<not> b \<and> t' = t) \<or> (b \<and> (\<exists>r r'. ends w i d t t' r r' \<and> Q r r'))"
proof -
  have "j_id r = i \<and> j_id (f r) = j_id r" if "P r" for r
    using assms(4) [OF that] by (simp add: job_held_def same_job_def)
  from apply_where_row [OF assms(1,3) this] assms(2,4) show ?thesis
    unfolding ends_def by metis
qed

lemma finish_ends:
  assumes "unique_by j_id t"
  shows "job_finish_succeeded i w now t = (b, t') \<Longrightarrow> (\<not> b \<and> t' = t) \<or> (b \<and> (\<exists>r r'.
      ends w i 0 t t' r r' \<and> j_state r' = JobSucceeded \<and> \<not> j_cancel_requested r))"
    and "job_finish_failed i w now e t = (b, t') \<Longrightarrow> (\<not> b \<and> t' = t) \<or> (b \<and> (\<exists>r r'.
      ends w i 0 t t' r r' \<and> j_state r' = JobFailed \<and> \<not> j_cancel_requested r))"
    and "job_finish_cancelled i w now t = (b, t') \<Longrightarrow> (\<not> b \<and> t' = t) \<or> (b \<and> (\<exists>r r'.
      ends w i 0 t t' r r' \<and> j_state r' = JobCancelled))"
    and "requeue_for_retry i w now nx e t = (b, t') \<Longrightarrow> (\<not> b \<and> t' = t) \<or> (b \<and> (\<exists>r r'.
      ends w i 0 t t' r r' \<and> j_state r' = JobQueued \<and> \<not> j_cancel_requested r))"
    and "defer_unready_job i w nx t = (b, t') \<Longrightarrow> (\<not> b \<and> t' = t) \<or> (b \<and> (\<exists>r r'.
      ends w i 1 t t' r r' \<and> j_state r' = JobQueued \<and> \<not> j_cancel_requested r))"
    and "job_finish_owned i w now st er t = Some (b, t') \<Longrightarrow> (\<not> b \<and> t' = t) \<or> (b \<and> (\<exists>r r'.
      ends w i 0 t t' r r' \<and> (j_state r' = JobSucceeded \<or> j_state r' = JobFailed)))"
proof -
  show "(\<not> b \<and> t' = t) \<or> (b \<and> (\<exists>r r'.
      ends w i 0 t t' r r' \<and> j_state r' = JobSucceeded \<and> \<not> j_cancel_requested r))"
    if a: "job_finish_succeeded i w now t = (b, t')"
  proof (rule ends_apply [OF assms _ a [unfolded job_finish_succeeded_def]])
    show "job_write t t'" using jw_succeeded [of t i w now] a by simp
  qed (auto simp: same_job_def job_held_uncancelled_def)
  show "(\<not> b \<and> t' = t) \<or> (b \<and> (\<exists>r r'.
      ends w i 0 t t' r r' \<and> j_state r' = JobFailed \<and> \<not> j_cancel_requested r))"
    if a: "job_finish_failed i w now e t = (b, t')"
  proof (rule ends_apply [OF assms _ a [unfolded job_finish_failed_def]])
    show "job_write t t'" using jw_failed [of t i w now e] a by simp
  qed (auto simp: same_job_def job_held_uncancelled_def)
  show "(\<not> b \<and> t' = t) \<or> (b \<and> (\<exists>r r'.
      ends w i 0 t t' r r' \<and> j_state r' = JobCancelled))"
    if a: "job_finish_cancelled i w now t = (b, t')"
  proof (rule ends_apply [OF assms _ a [unfolded job_finish_cancelled_def]])
    show "job_write t t'" using jw_cancelled [of t i w now] a by simp
  qed (auto simp: same_job_def job_held_uncancelled_def)
  show "(\<not> b \<and> t' = t) \<or> (b \<and> (\<exists>r r'.
      ends w i 0 t t' r r' \<and> j_state r' = JobQueued \<and> \<not> j_cancel_requested r))"
    if a: "requeue_for_retry i w now nx e t = (b, t')"
  proof (rule ends_apply [OF assms _ a [unfolded requeue_for_retry_def]])
    show "job_write t t'" using jw_requeue [of t i w now nx e] a by simp
  qed (auto simp: same_job_def job_held_uncancelled_def)
  show "(\<not> b \<and> t' = t) \<or> (b \<and> (\<exists>r r'.
      ends w i 1 t t' r r' \<and> j_state r' = JobQueued \<and> \<not> j_cancel_requested r))"
    if a: "defer_unready_job i w nx t = (b, t')"
  proof (rule ends_apply [OF assms _ a [unfolded defer_unready_job_def]])
    show "job_write t t'" using jw_defer [of t i w nx] a by simp
  qed (auto simp: same_job_def job_held_uncancelled_def)
  show "(\<not> b \<and> t' = t) \<or> (b \<and> (\<exists>r r'.
      ends w i 0 t t' r r' \<and> (j_state r' = JobSucceeded \<or> j_state r' = JobFailed)))"
    if a: "job_finish_owned i w now st er t = Some (b, t')"
  proof -
    from a have st: "st = JobSucceeded \<or> st = JobFailed"
      and aw: "apply_where (job_held i w) (\<lambda>r. r\<lparr>j_state := st, j_finished_at := Some now,
        j_lease_owner := None, j_lease_until := None, j_last_error := er\<rparr>) t = (b, t')"
      by (auto simp: job_finish_owned_def split: if_splits)
    show ?thesis
      by (rule ends_apply [OF assms jw_owned [OF a] aw]) (use st in \<open>auto simp: same_job_def\<close>)
  qed
qed

section \<open>What a transaction of a worker does\<close>

definition op_is_open :: "uuid \<Rightarrow> operations \<Rightarrow> bool" where
  "op_is_open i ops \<longleftrightarrow> (\<exists>r \<in> set ops. op_open i r)"

lemma op_finish_closes [simp]:
  "\<not> op_is_open i (snd (op_finish_succeeded i now k ca rr ops))"
  "\<not> op_is_open i (snd (op_finish_failed i now c e ops))"
  "\<not> op_is_open i (snd (op_finish_cancelled i now ops))"
  by (auto simp: op_is_open_def op_finish_succeeded_def op_finish_failed_def
      op_finish_cancelled_def op_open_def elim!: in_update_whereE split: if_splits)

lemma with_operation_cases:
  assumes "with_operation op fj fo db = (b, db')"
    and "\<And>i ops. \<not> op_is_open i (snd (fo i ops))"
  obtains t where "fj (wd_jobs db) = (b, t)" "wd_jobs db' = t" "wd_effects db' = wd_effects db"
    "\<not> b \<and> t = wd_jobs db \<longrightarrow> db' = db"
    "\<And>i. b \<Longrightarrow> op = Some i \<Longrightarrow> \<not> op_is_open i (wd_ops db')"
proof -
  obtain b0 t where t: "fj (wd_jobs db) = (b0, t)" by fastforce
  with assms show thesis
    by (intro that [of t]) (auto simp: with_operation_def Let_def split: option.splits if_splits)
qed

text \<open>\<open>w\<close> ended the row of its job \<open>l\<close> and the transaction committed; \<open>dbm\<close> is the database with
  the handler's own writes in it.\<close>

definition tx_ends ::
  "'p kind_registry \<Rightarrow> string \<Rightarrow> 'p leased_job \<Rightarrow> int \<Rightarrow> ('p, 'x) work_db \<Rightarrow> ('p, 'x) work_db \<Rightarrow> bool"
where
  "tx_ends kinds w l d dbm db' \<longleftrightarrow>
     (\<exists>r r'. ends w (l_id l) d (wd_jobs dbm) (wd_jobs db') r r' \<and>
        (if continuation_for (l_kind l) kinds then wd_effects db' = wd_effects dbm
         else (j_cancel_requested r \<longrightarrow> j_state r' = JobCancelled) \<and>
              (if j_state r' = JobSucceeded
               then (\<exists>x. wd_effects db' = wd_effects dbm @ [(l_id l, x)])
               else wd_effects db' = wd_effects dbm) \<and>
              (job_finished r' \<longrightarrow>
                 (\<forall>i. l_operation_id l = Some i \<longrightarrow> \<not> op_is_open i (wd_ops db')))))"

fun pc_ok :: "'p kind_registry \<Rightarrow> 'p pc \<Rightarrow> bool" where
  "pc_ok kinds P_Idle \<longleftrightarrow> True"
| "pc_ok kinds (P_Leased l _) \<longleftrightarrow> True"
| "pc_ok kinds (P_Handler l) \<longleftrightarrow>
     \<not> continuation_for (l_kind l) kinds \<and> l_attempts l \<le> l_max_attempts l"
| "pc_ok kinds (P_Failed l _) \<longleftrightarrow> \<not> continuation_for (l_kind l) kinds"
| "pc_ok kinds (P_Unready l) \<longleftrightarrow>
     \<not> continuation_for (l_kind l) kinds \<and> l_attempts l \<le> l_max_attempts l"
| "pc_ok kinds (P_Resolve l _) \<longleftrightarrow> \<not> continuation_for (l_kind l) kinds"
| "pc_ok kinds (P_Cont l _ _) \<longleftrightarrow> continuation_for (l_kind l) kinds"
| "pc_ok kinds (P_Cont_Failed l _ _ _) \<longleftrightarrow> continuation_for (l_kind l) kinds"
| "pc_ok kinds (P_Cont_Check l _ _) \<longleftrightarrow> continuation_for (l_kind l) kinds"

text \<open>A place from which the handler may still be entered.\<close>

fun may_enter :: "'p pc \<Rightarrow> bool" where
  "may_enter (P_Leased l _) \<longleftrightarrow> \<not> l_cancel_requested l \<and> l_attempts l \<le> l_max_attempts l"
| "may_enter _ \<longleftrightarrow> False"

definition tx_outcome ::
  "'p kind_registry \<Rightarrow> string \<Rightarrow> 'p leased_job \<Rightarrow> 'p pc \<Rightarrow> 'p pc \<Rightarrow> ('p, 'x) work_db \<Rightarrow>
   ('p, 'x) work_db \<Rightarrow> bool" where
  "tx_outcome kinds w l pc pc' db db' \<longleftrightarrow>
     (db' = db \<and> (\<forall>l. pc = P_Unready l \<longrightarrow> pc' \<noteq> P_Idle)) \<or>
     (pc' = P_Idle \<and> (\<exists>d dbm. side_write\<^sup>*\<^sup>* db dbm \<and> tx_ends kinds w l d dbm db' \<and>
        (d = 0 \<and> (\<forall>l. pc \<noteq> P_Unready l) \<or> d = 1 \<and> (may_enter pc \<or> pc = P_Unready l))))"

lemma work_db_same [simp]:
  "wd_jobs db = t \<Longrightarrow> db\<lparr>wd_jobs := t\<rparr> = db"
  by auto

lemma tx_same: "pc' \<noteq> P_Idle \<or> (\<forall>l. pc \<noteq> P_Unready l) \<Longrightarrow> tx_outcome kinds w l pc pc' db db"
  by (auto simp: tx_outcome_def)

lemma tx_ended:
  assumes "ends w (l_id l) d (wd_jobs dbm) (wd_jobs db') r r'" "side_write\<^sup>*\<^sup>* db dbm"
    and "wd_effects db' = (if \<not> continuation_for (l_kind l) kinds \<and> j_state r' = JobSucceeded
       then wd_effects dbm @ [(l_id l, x)] else wd_effects dbm)"
    and "\<not> continuation_for (l_kind l) kinds \<Longrightarrow> j_cancel_requested r \<longrightarrow> j_state r' = JobCancelled"
    and "\<not> continuation_for (l_kind l) kinds \<Longrightarrow> job_finished r' \<longrightarrow>
       (\<forall>i. l_operation_id l = Some i \<longrightarrow> \<not> op_is_open i (wd_ops db'))"
    and "d = 0 \<and> (\<forall>l. pc \<noteq> P_Unready l) \<or> d = 1 \<and> (may_enter pc \<or> pc = P_Unready l)"
  shows "tx_outcome kinds w l pc P_Idle db db'"
proof -
  have "tx_ends kinds w l d dbm db'"
    unfolding tx_ends_def using assms(1,3-5) by (intro exI [of _ r] exI [of _ r']) auto
  with assms(2,6) show ?thesis
    unfolding tx_outcome_def by blast
qed

text \<open>The common case: an ordinary job's finish through \<^verbatim>\<open>with_operation\<close>.\<close>

lemma with_operation_outcome:
  assumes "with_operation (l_operation_id l) fj fo db = (b, db')"
    and "\<And>i ops. \<not> op_is_open i (snd (fo i ops))"
    and "\<And>b t. fj (wd_jobs db) = (b, t) \<Longrightarrow> (\<not> b \<and> t = wd_jobs db) \<or> (b \<and> (\<exists>r r'.
      ends w (l_id l) 0 (wd_jobs db) t r r' \<and> j_state r' = st \<and> Q r))"
    and "st \<noteq> JobSucceeded" "st = JobCancelled \<or> (\<forall>r. Q r \<longrightarrow> \<not> j_cancel_requested r)"
    and "pc' \<noteq> P_Idle \<Longrightarrow> \<not> b" "\<forall>l. pc \<noteq> P_Unready l"
  shows "tx_outcome kinds w l pc pc' db db'"
  using assms(1,2)
proof (rule with_operation_cases)
  fix t
  assume t: "fj (wd_jobs db) = (b, t)" "wd_jobs db' = t" "wd_effects db' = wd_effects db"
    "\<not> b \<and> t = wd_jobs db \<longrightarrow> db' = db"
    and op: "\<And>i. b \<Longrightarrow> l_operation_id l = Some i \<Longrightarrow> \<not> op_is_open i (wd_ops db')"
  show ?thesis
  proof (cases b)
    case True
    with assms(3) [OF t(1)] t(2) obtain r r' where
      "ends w (l_id l) 0 (wd_jobs db) (wd_jobs db') r r'" "j_state r' = st" "Q r" by auto
    moreover have "pc' = P_Idle" using True assms(6) by auto
    ultimately show ?thesis
      using tx_ended [of w l 0 db db' r r' db kinds undefined pc] True assms(4,5,7) t(3) op by auto
  next
    case False
    with assms(3) [OF t(1)] t(4) have "db' = db" by simp
    with assms(7) show ?thesis by (simp add: tx_same)
  qed
qed

text \<open>A write on the job alone.\<close>

lemma on_jobs_outcome:
  assumes "on_jobs fj db = (b, db')"
    and "\<And>b t. fj (wd_jobs db) = (b, t) \<Longrightarrow> (\<not> b \<and> t = wd_jobs db) \<or> (b \<and> (\<exists>r r'.
      ends w (l_id l) d (wd_jobs db) t r r' \<and> j_state r' = JobQueued \<and> \<not> j_cancel_requested r))"
    and "pc' = P_Idle \<Longrightarrow> b \<or> (\<forall>l. pc \<noteq> P_Unready l)" "pc' \<noteq> P_Idle \<Longrightarrow> \<not> b"
    and "d = 0 \<and> (\<forall>l. pc \<noteq> P_Unready l) \<or> d = 1 \<and> (may_enter pc \<or> pc = P_Unready l)"
  shows "tx_outcome kinds w l pc pc' db db'"
proof -
  obtain t where t: "fj (wd_jobs db) = (b, t)" "db' = db\<lparr>wd_jobs := t\<rparr>"
    using assms(1) by (auto simp: on_jobs_def split: prod.splits)
  show ?thesis
  proof (cases b)
    case True
    with assms(2) [OF t(1)] t(2) obtain r r' where
      "ends w (l_id l) d (wd_jobs db) (wd_jobs db') r r'" "j_state r' = JobQueued"
      "\<not> j_cancel_requested r" by auto
    moreover have "pc' = P_Idle" using True assms(4) by auto
    ultimately show ?thesis
      using tx_ended [of w l d db db' r r' db kinds undefined pc] assms(5) t(2)
      by (auto simp: job_finished_def)
  next
    case False
    with assms(2) [OF t(1)] t(2) have "db' = db" by simp
    with assms(3) False show ?thesis by (auto intro: tx_same)
  qed
qed

lemma fail_terminally_outcome:
  assumes "fail_terminally ready clock l w now e db = (pc', db')"
    and uniq: "unique_by j_id (wd_jobs db)" and "may_enter (P_Leased l now')"
  shows "tx_outcome kinds w l (P_Leased l now') pc' db db'"
proof (cases ready)
  case True
  with assms(1) obtain b where b: "with_operation (l_operation_id l)
      (job_finish_failed (l_id l) w now e) (\<lambda>i. op_finish_failed i now job_failed_code e) db = (b, db')"
    and pc': "pc' = (if b then P_Idle else P_Resolve l (Some now))"
    by (auto simp: fail_terminally_def finish_alone_def unless_unready_def Let_def
        split: prod.splits)
  show ?thesis
    by (rule with_operation_outcome [OF b _ finish_ends(2) [OF uniq]]) (use pc' in auto)
next
  case False
  with assms(1) obtain b where b: "on_jobs (defer_unready_job (l_id l) w
      (clock + seconds unready_seconds)) db = (b, db')"
    and pc': "pc' = (if b then P_Idle else P_Resolve l (Some now))"
    by (auto simp: fail_terminally_def finish_alone_def unless_unready_def Let_def
        split: prod.splits)
  show ?thesis
    by (rule on_jobs_outcome [OF b finish_ends(5) [OF uniq]]) (use pc' assms(3) in auto)
qed

lemma cancel_outcome:
  assumes "with_operation (l_operation_id l) (job_finish_cancelled (l_id l) w now)
      (\<lambda>i. op_finish_cancelled i now) db = (b, db')"
    and uniq: "unique_by j_id (wd_jobs db)" and "\<forall>l. pc \<noteq> P_Unready l"
  shows "tx_outcome kinds w l pc P_Idle db db'"
proof (rule with_operation_outcome [OF assms(1), where Q = "\<lambda>_. True"])
  fix b t assume "job_finish_cancelled (l_id l) w now (wd_jobs db) = (b, t)"
  from finish_ends(3) [OF uniq this]
  show "(\<not> b \<and> t = wd_jobs db) \<or> (b \<and> (\<exists>r r'. ends w (l_id l) 0 (wd_jobs db) t r r' \<and>
      j_state r' = JobCancelled \<and> True))" by simp
qed (use assms(3) in simp_all)

lemma run_leased_job_outcome:
  assumes "run_leased_job kinds ready clock l w now db = (pc', db')"
    and uniq: "unique_by j_id (wd_jobs db)"
  shows "tx_outcome kinds w l (P_Leased l now) pc' db db'"
proof -
  consider (same) "db' = db" | (cancel) b where "pc' = P_Idle"
      "with_operation (l_operation_id l) (job_finish_cancelled (l_id l) w now)
         (\<lambda>i. op_finish_cancelled i now) db = (b, db')"
    | (budget) b where "pc' = P_Idle"
      "with_operation (l_operation_id l) (job_finish_failed (l_id l) w now retry_budget_exhausted)
         (\<lambda>i. op_finish_failed i now job_failed_code retry_budget_exhausted) db = (b, db')"
    | (terminal) e where "fail_terminally ready clock l w now e db = (pc', db')"
        "may_enter (P_Leased l now)"
    using assms(1)
    by (auto simp: run_leased_job_def finish_alone_def Let_def prod_eq_iff
        split: if_splits option.splits prod.splits)
  then show ?thesis
  proof cases
    case same
    then show ?thesis by (simp add: tx_same)
  next
    case cancel
    then show ?thesis using cancel_outcome [OF _ uniq] by blast
  next
    case budget
    show ?thesis
      by (rule with_operation_outcome [OF budget(2) _ finish_ends(2) [OF uniq]])
         (use budget(1) in auto)
  next
    case terminal
    then show ?thesis by (intro fail_terminally_outcome [OF _ uniq])
  qed
qed

lemma side_writes_unique:
  "side_write\<^sup>*\<^sup>* db db' \<Longrightarrow> unique_by j_id (wd_jobs db) \<Longrightarrow> unique_by j_id (wd_jobs db')"
proof (induction rule: rtranclp_induct)
  case (step y z)
  from step(2,3,4) show ?case
    by (cases rule: side_write.cases) (auto dest!: enqueue_job_InrD simp: unique_by_def new_job_def)
qed

lemma run_handler_outcome:
  assumes "run_handler outcome now fin l w db = (pc', db')" "handler_did outcome db"
    and uniq: "unique_by j_id (wd_jobs db)" and "\<not> continuation_for (l_kind l) kinds"
  shows "tx_outcome kinds w l (P_Handler l) pc' db db'"
proof (cases outcome)
  case (Handler_Done x db1)
  with assms(2) have side: "side_write\<^sup>*\<^sup>* db db1" by (simp add: handler_did_def)
  obtain b t where t: "job_finish_succeeded (l_id l) w now (wd_jobs db1) = (b, t)" by fastforce
  from finish_ends(1) [OF side_writes_unique [OF side uniq] t] show ?thesis
  proof (elim disjE conjE exE)
    fix r r'
    assume "b" "ends w (l_id l) 0 (wd_jobs db1) t r r'" "j_state r' = JobSucceeded"
      "\<not> j_cancel_requested r"
    with assms(1,4) Handler_Done t side show ?thesis
      by (auto simp: run_handler_def intro!: tx_ended [where dbm = db1 and r = r and r' = r' and d = 0 and x = x]
          split: option.splits)
  next
    assume "\<not> b"
    with assms(1) Handler_Done t show ?thesis
      by (auto simp: run_handler_def intro: tx_same)
  qed
qed (use assms(1) in \<open>auto simp: run_handler_def intro: tx_same\<close>)

lemma handler_failed_outcome:
  assumes "handler_failed now jitter l w e db = (pc', db')"
    and uniq: "unique_by j_id (wd_jobs db)"
  shows "tx_outcome kinds w l (P_Failed l e) pc' db db'"
proof -
  obtain b where b: "write_failure_outcome now jitter l w e db = (b, db')"
    and pc': "pc' = (if b then P_Idle else P_Resolve l None)"
    using assms(1) by (auto simp: handler_failed_def Let_def split: prod.splits)
  show ?thesis
  proof (cases "l_max_attempts l \<le> l_attempts l")
    case True
    with b have "with_operation (l_operation_id l) (job_finish_failed (l_id l) w now e)
        (\<lambda>i. op_finish_failed i now job_failed_code e) db = (b, db')"
      by (auto simp: write_failure_outcome_def finish_alone_def Let_def split: prod.splits)
    then show ?thesis
      by (rule with_operation_outcome [OF _ _ finish_ends(2) [OF uniq]]) (use pc' in auto)
  next
    case False
    with b have "on_jobs (requeue_for_retry (l_id l) w now
        (now + backoff_for (l_attempts l) jitter) e) db = (b, db')"
      by (auto simp: write_failure_outcome_def finish_alone_def Let_def split: prod.splits)
    then show ?thesis
      by (rule on_jobs_outcome [OF _ finish_ends(4) [OF uniq]]) (use pc' in auto)
  qed
qed

lemma defer_unready_outcome:
  assumes "defer_unready clock l w db = (pc', db')" and uniq: "unique_by j_id (wd_jobs db)"
  shows "tx_outcome kinds w l (P_Unready l) pc' db db'"
proof -
  obtain b where b: "on_jobs (defer_unready_job (l_id l) w (clock + seconds unready_seconds)) db = (b, db')"
    and pc': "pc' = (if b then P_Idle else P_Resolve l None)"
    using assms(1) by (auto simp: defer_unready_def finish_alone_def Let_def split: prod.splits)
  show ?thesis
    by (rule on_jobs_outcome [OF b finish_ends(5) [OF uniq]]) (use pc' in \<open>auto split: if_splits\<close>)
qed

lemma resolve_outcome:
  assumes "resolve_place clock l handed w db = (pc', db')" and uniq: "unique_by j_id (wd_jobs db)"
  shows "tx_outcome kinds w l (P_Resolve l handed) pc' db db'"
proof (cases "cancel_requested_and_ours (l_id l) w db")
  case True
  define now where "now = (case handed of None \<Rightarrow> clock | Some n \<Rightarrow> n)"
  obtain b where b: "with_operation (l_operation_id l) (job_finish_cancelled (l_id l) w now)
      (\<lambda>i. op_finish_cancelled i now) db = (b, db')" and pc': "pc' = P_Idle"
    using assms(1) True
    by (auto simp: resolve_place_def resolve_zero_rowcount_def now_def prod_eq_iff)
  from cancel_outcome [OF b uniq] pc' show ?thesis by simp
next
  case False
  with assms(1) show ?thesis
    by (auto simp: resolve_place_def resolve_zero_rowcount_def intro: tx_same)
qed

lemma finish_continuation_ends:
  assumes "finish_continuation_job l w mode disp detail now jitter t = (b, t')" "unique_by j_id t"
  shows "(\<not> b \<and> t' = t) \<or> (b \<and> (\<exists>r r'. ends w (l_id l) 0 t t' r r'))"
proof -
  note ended = finish_ends [OF assms(2)]
  consider (cancelled) "disp = Disp_Cancelled"
    | (idle) "disp = Disp_Retry" "mode = Mode_Cancel_Requested"
    | (retry) "disp = Disp_Retry" "mode \<noteq> Mode_Cancel_Requested"
    | (owned) "disp \<noteq> Disp_Cancelled" "disp \<noteq> Disp_Retry" "mode = Mode_Cancel_Requested"
    | (failed) "disp = Disp_Failed" "mode \<noteq> Mode_Cancel_Requested"
    | (succeeded) "disp \<noteq> Disp_Cancelled" "disp \<noteq> Disp_Retry" "disp \<noteq> Disp_Failed"
        "mode \<noteq> Mode_Cancel_Requested"
    by blast
  then show ?thesis
  proof cases
    case cancelled
    with assms(1) show ?thesis using ended(3) by (fastforce simp: finish_continuation_job_def)
  next
    case idle
    with assms(1) show ?thesis by (simp add: finish_continuation_job_def)
  next
    case retry
    with assms(1) have "requeue_for_retry (l_id l) w now (now + backoff_for (l_attempts l) jitter)
        (or_default detail ''external continuation retry'') t = (b, t')"
      by (simp add: finish_continuation_job_def)
    from ended(4) [OF this] show ?thesis by blast
  next
    case owned
    let ?st = "if disp = Disp_Failed then JobFailed else JobSucceeded"
    let ?e = "if disp = Disp_Failed then detail else None"
    have "the (job_finish_owned (l_id l) w now ?st ?e t) = (b, t')"
      using assms(1) owned by (simp add: finish_continuation_job_def)
    then have "job_finish_owned (l_id l) w now ?st ?e t = Some (b, t')"
      by (auto simp: job_finish_owned_def)
    from ended(6) [OF this] show ?thesis by blast
  next
    case failed
    with assms(1) have "job_finish_failed (l_id l) w now
        (or_default detail ''external continuation failed'') t = (b, t')"
      by (simp add: finish_continuation_job_def)
    from ended(2) [OF this] show ?thesis by blast
  next
    case succeeded
    with assms(1) have "job_finish_succeeded (l_id l) w now t = (b, t')"
      by (simp add: finish_continuation_job_def)
    from ended(1) [OF this] show ?thesis by blast
  qed
qed

lemma run_continuation_outcome:
  assumes "run_continuation outcome now jitter l mode n w db = (pc', db')"
    and "continuation_did outcome db"
    and uniq: "unique_by j_id (wd_jobs db)" and "continuation_for (l_kind l) kinds"
  shows "tx_outcome kinds w l (P_Cont l mode n) pc' db db'"
proof (cases outcome)
  case (Inl e)
  with assms(1) show ?thesis by (auto simp: run_continuation_def intro: tx_same)
next
  case (Inr q)
  obtain disp detail x db1 where q: "q = (disp, detail, x, db1)" by (cases q) auto
  with assms(2) Inr have side: "side_write\<^sup>*\<^sup>* db db1" by (simp add: continuation_did_def)
  obtain b t where t: "finish_continuation_job l w mode disp detail now jitter (wd_jobs db1) = (b, t)"
    by fastforce
  from finish_continuation_ends [OF t side_writes_unique [OF side uniq]] show ?thesis
  proof (elim disjE conjE exE)
    fix r r'
    assume "b" "ends w (l_id l) 0 (wd_jobs db1) t r r'"
    with assms(1,4) Inr q t side show ?thesis
      by (auto simp: run_continuation_def
          intro!: tx_ended [where dbm = db1 and r = r and r' = r' and d = 0])
  next
    assume "\<not> b"
    with assms(1) Inr q t show ?thesis
      by (auto simp: run_continuation_def intro: tx_same)
  qed
qed

lemma worker_tx_outcome:
  assumes "worker_tx kinds w db pc pc' db'" "pc_lease pc = Some l" "pc_ok kinds pc"
    and uniq: "unique_by j_id (wd_jobs db)"
  shows "tx_outcome kinds w l pc pc' db db'"
  using assms(1)
proof (cases rule: worker_tx.cases)
  case (tx_cont_failed now jitter l' mode n e)
  from tx_cont_failed(2) obtain b where
    b: "on_jobs (requeue_for_retry (l_id l') w now (now + backoff_for (l_attempts l') jitter) e) db = (b, db')"
    and pc': "pc' = (if b then P_Idle else P_Cont_Check l' mode n)"
    by (auto simp: continuation_failed_def Let_def split: prod.splits)
  have "tx_outcome kinds w l' pc pc' db db'"
    by (rule on_jobs_outcome [OF b finish_ends(4) [OF uniq]]) (use pc' tx_cont_failed(1) in auto)
  with tx_cont_failed(1) assms(2) show ?thesis by simp
next
  case (tx_gates ready clock l' now)
  with assms(2) run_leased_job_outcome [OF tx_gates(2) uniq] show ?thesis by simp
next
  case (tx_handler outcome now fin l')
  with assms(2,3) run_handler_outcome [OF tx_handler(3,2) uniq] show ?thesis by simp
next
  case (tx_failed now jitter l' e)
  with assms(2) handler_failed_outcome [OF tx_failed(2) uniq] show ?thesis by simp
next
  case (tx_unready clock l')
  with assms(2) defer_unready_outcome [OF tx_unready(2) uniq] show ?thesis by simp
next
  case (tx_resolve clock l' handed)
  with assms(2) resolve_outcome [OF tx_resolve(2) uniq] show ?thesis by simp
next
  case (tx_cont outcome now jitter l' mode n)
  with assms(2,3) run_continuation_outcome [OF tx_cont(3,2) uniq] show ?thesis by simp
next
  case (tx_cont_check l' mode n)
  then show ?thesis by (simp add: tx_same)
qed

lemma worker_tx_pc:
  assumes "worker_tx kinds w db pc pc' db'" "pc_lease pc = Some l" "pc_ok kinds pc"
  shows "pc_ok kinds pc'" "pc' = P_Idle \<or> pc_lease pc' = Some l" "\<not> may_enter pc'"
    "entered pc pc' = 1 \<Longrightarrow> may_enter pc"
  using assms
  by (cases rule: worker_tx.cases;
      auto simp: run_leased_job_def fail_terminally_def run_handler_def handler_failed_def
        defer_unready_def resolve_place_def run_continuation_def continuation_failed_def
        continuation_check_def entered_def Let_def
        split: if_splits prod.splits option.splits handler_outcome.splits sum.splits pc.splits)+

section \<open>The invariant\<close>

text \<open>A worker's copy of its lease against the row. The attempts agree for as long as the row
  is still this worker's; a worker whose lease was taken over may remember an older count.\<close>

definition lease_agrees :: "string \<Rightarrow> 'p leased_job \<Rightarrow> 'p jobs \<Rightarrow> bool" where
  "lease_agrees w l t \<longleftrightarrow>
     (\<exists>r. lookup_by j_id (l_id l) t = Some r \<and> j_kind r = l_kind l \<and>
          j_operation_id r = l_operation_id l \<and> j_max_attempts r = l_max_attempts l \<and>
          (job_held (l_id l) w r \<longrightarrow> j_attempts r = l_attempts l))"

definition leases_ok :: "'p kind_registry \<Rightarrow> ('p, 'x) sys \<Rightarrow> bool" where
  "leases_ok kinds s \<longleftrightarrow>
     finite {w. may_enter (sy_pc s w)} \<and>
     (\<forall>w. pc_ok kinds (sy_pc s w)) \<and>
     (\<forall>w l. pc_lease (sy_pc s w) = Some l \<longrightarrow> lease_agrees w l (wd_jobs (sy_db s)))"

definition effects_of :: "uuid \<Rightarrow> ('p, 'x) work_db \<Rightarrow> (uuid \<times> 'x) list" where
  "effects_of i db = filter (\<lambda>e. fst e = i) (wd_effects db)"

definition ordinary_done :: "'p kind_registry \<Rightarrow> 'p job \<Rightarrow> bool" where
  "ordinary_done kinds r \<longleftrightarrow> j_state r = JobSucceeded \<and> \<not> continuation_for (j_kind r) kinds"

definition effects_ok :: "'p kind_registry \<Rightarrow> ('p, 'x) work_db \<Rightarrow> bool" where
  "effects_ok kinds db \<longleftrightarrow>
     (\<forall>i. length (effects_of i db) =
        (case lookup_by j_id i (wd_jobs db) of None \<Rightarrow> 0
         | Some r \<Rightarrow> if ordinary_done kinds r then 1 else 0))"

definition cancels_ok :: "'p kind_registry \<Rightarrow> 'p jobs \<Rightarrow> bool" where
  "cancels_ok kinds t \<longleftrightarrow>
     (\<forall>i r. lookup_by j_id i t = Some r \<longrightarrow> \<not> continuation_for (j_kind r) kinds \<longrightarrow>
        j_cancel_requested r \<longrightarrow> \<not> job_finished r \<or> j_state r = JobCancelled)"

text \<open>The attempts of a row that count against its budget.\<close>

definition budget_used :: "uuid \<Rightarrow> 'p jobs \<Rightarrow> int" where
  "budget_used i t =
     (case lookup_by j_id i t of None \<Rightarrow> 0
      | Some r \<Rightarrow> min (j_attempts r) (max 0 (j_max_attempts r)))"

definition entering :: "uuid \<Rightarrow> (string \<Rightarrow> 'p pc) \<Rightarrow> string set" where
  "entering i pcs = {w. may_enter (pcs w) \<and> (\<exists>l. pc_lease (pcs w) = Some l \<and> l_id l = i)}"

definition budget_ok :: "('p, 'x) sys \<Rightarrow> bool" where
  "budget_ok s \<longleftrightarrow>
     (\<forall>i. sy_entries s i + int (card (entering i (sy_pc s))) \<le> budget_used i (wd_jobs (sy_db s)))"

definition sys_ok :: "'p kind_registry \<Rightarrow> ('p, 'x) sys \<Rightarrow> bool" where
  "sys_ok kinds s \<longleftrightarrow>
     jobs_ok (wd_jobs (sy_db s)) \<and> leases_ok kinds s \<and> effects_ok kinds (sy_db s) \<and>
     cancels_ok kinds (wd_jobs (sy_db s)) \<and> budget_ok s"

section \<open>Writes that leave the workers' rows alone\<close>

text \<open>Every row kept up to what no invariant but \<open>jobs_ok\<close> reads; new rows fresh.\<close>

definition rows_kept :: "'p jobs \<Rightarrow> 'p jobs \<Rightarrow> bool" where
  "rows_kept t t' \<longleftrightarrow>
     (\<forall>i. case lookup_by j_id i t of
        Some r \<Rightarrow> (\<exists>r'. lookup_by j_id i t' = Some r' \<and> j_kind r' = j_kind r \<and>
          j_operation_id r' = j_operation_id r \<and> j_max_attempts r' = j_max_attempts r \<and>
          j_attempts r' = j_attempts r \<and> (\<forall>w. job_held i w r' = job_held i w r) \<and>
          (j_state r' = JobSucceeded) = (j_state r = JobSucceeded) \<and>
          (job_finished r \<longrightarrow> r' = r) \<and>
          (job_finished r' \<longrightarrow> job_finished r \<or> j_state r' = JobCancelled))
      | None \<Rightarrow> (case lookup_by j_id i t' of None \<Rightarrow> True
          | Some r' \<Rightarrow> j_attempts r' = 0 \<and> j_state r' = JobQueued))"

lemma rows_kept_ok:
  assumes ok: "sys_ok kinds s" and kept: "rows_kept (wd_jobs (sy_db s)) (wd_jobs db)"
    and "wd_effects db = wd_effects (sy_db s)" "jobs_ok (wd_jobs db)"
  shows "sys_ok kinds (s\<lparr>sy_db := db\<rparr>)"
proof -
  let ?t = "wd_jobs (sy_db s)" and ?t' = "wd_jobs db"
  have someD: "\<exists>r'. lookup_by j_id i ?t' = Some r' \<and> j_kind r' = j_kind r \<and>
          j_operation_id r' = j_operation_id r \<and> j_max_attempts r' = j_max_attempts r \<and>
          j_attempts r' = j_attempts r \<and> (\<forall>w. job_held i w r' = job_held i w r) \<and>
          (j_state r' = JobSucceeded) = (j_state r = JobSucceeded) \<and>
          (job_finished r \<longrightarrow> r' = r) \<and>
          (job_finished r' \<longrightarrow> job_finished r \<or> j_state r' = JobCancelled)"
    if "lookup_by j_id i ?t = Some r" for i r
    using kept [unfolded rows_kept_def, rule_format, of i] that by simp
  have noneD: "j_attempts r' = 0 \<and> j_state r' = JobQueued"
    if "lookup_by j_id i ?t = None" "lookup_by j_id i ?t' = Some r'" for i r'
    using kept [unfolded rows_kept_def, rule_format, of i] that by (simp del: lookup_by_None)
  have "lease_agrees w l ?t'" if "lease_agrees w l ?t" for w l
    using that someD unfolding lease_agrees_def by metis
  then have "leases_ok kinds (s\<lparr>sy_db := db\<rparr>)"
    using ok by (simp add: sys_ok_def leases_ok_def)
  moreover have "effects_ok kinds db"
    unfolding effects_ok_def
  proof
    fix i
    have "length (effects_of i db) = length (effects_of i (sy_db s))"
      using assms(3) by (simp add: effects_of_def)
    also have "\<dots> = (case lookup_by j_id i ?t of None \<Rightarrow> 0
        | Some r \<Rightarrow> if ordinary_done kinds r then 1 else 0)"
      using ok by (simp add: sys_ok_def effects_ok_def)
    also have "\<dots> = (case lookup_by j_id i ?t' of None \<Rightarrow> 0
        | Some r \<Rightarrow> if ordinary_done kinds r then 1 else 0)"
    proof (cases "lookup_by j_id i ?t")
      case None
      with noneD [OF None] show ?thesis
        by (cases "lookup_by j_id i ?t'") (auto simp: ordinary_done_def simp del: lookup_by_None)
    next
      case (Some r)
      with someD [OF Some] show ?thesis by (auto simp: ordinary_done_def)
    qed
    finally show "length (effects_of i db) = (case lookup_by j_id i ?t' of None \<Rightarrow> 0
        | Some r \<Rightarrow> if ordinary_done kinds r then 1 else 0)" .
  qed
  moreover have "cancels_ok kinds ?t'"
    unfolding cancels_ok_def
  proof (intro allI impI)
    fix i r'
    assume r': "lookup_by j_id i ?t' = Some r'" "\<not> continuation_for (j_kind r') kinds"
      "j_cancel_requested r'"
    show "\<not> job_finished r' \<or> j_state r' = JobCancelled"
    proof (cases "lookup_by j_id i ?t")
      case None
      from noneD [OF None r'(1)] show ?thesis by (simp add: job_finished_def)
    next
      case (Some r)
      from someD [OF Some] r'(1) have "job_finished r \<longrightarrow> r' = r"
        "job_finished r' \<longrightarrow> job_finished r \<or> j_state r' = JobCancelled" by auto
      with ok Some r'(2,3) show ?thesis by (auto simp: sys_ok_def cancels_ok_def)
    qed
  qed
  moreover have "budget_used i ?t' = budget_used i ?t" for i
  proof (cases "lookup_by j_id i ?t")
    case None
    with noneD [OF None] show ?thesis
      by (cases "lookup_by j_id i ?t'") (auto simp: budget_used_def simp del: lookup_by_None)
  next
    case (Some r)
    with someD [OF Some] show ?thesis by (auto simp: budget_used_def)
  qed
  then have "budget_ok (s\<lparr>sy_db := db\<rparr>)"
    using ok by (simp add: sys_ok_def budget_ok_def)
  ultimately show ?thesis
    using assms(4) by (simp add: sys_ok_def)
qed

lemma rows_kept_refl: "rows_kept t t"
  by (auto simp: rows_kept_def split: option.splits)

lemma rows_kept_update:
  assumes "\<And>r. P r \<Longrightarrow> j_id (f r) = j_id r \<and> j_kind (f r) = j_kind r \<and>
      j_operation_id (f r) = j_operation_id r \<and> j_max_attempts (f r) = j_max_attempts r \<and>
      j_attempts (f r) = j_attempts r \<and> (\<forall>i w. job_held i w (f r) = job_held i w r) \<and>
      \<not> job_finished r \<and> (job_finished (f r) \<longrightarrow> j_state (f r) = JobCancelled)"
  shows "rows_kept t (update_where P f t)"
  unfolding rows_kept_def
proof
  fix i
  have look: "lookup_by j_id i (update_where P f t) =
      map_option (\<lambda>r. if P r then f r else r) (lookup_by j_id i t)"
    by (rule lookup_by_update_where) (use assms in blast)
  have "(j_state (f r) = JobSucceeded) = (j_state r = JobSucceeded)" if "P r" for r
    using assms [OF that] by (auto simp: job_finished_def)
  then show "case lookup_by j_id i t of
      Some r \<Rightarrow> (\<exists>r'. lookup_by j_id i (update_where P f t) = Some r' \<and> j_kind r' = j_kind r \<and>
          j_operation_id r' = j_operation_id r \<and> j_max_attempts r' = j_max_attempts r \<and>
          j_attempts r' = j_attempts r \<and> (\<forall>w. job_held i w r' = job_held i w r) \<and>
          (j_state r' = JobSucceeded) = (j_state r = JobSucceeded) \<and>
          (job_finished r \<longrightarrow> r' = r) \<and>
          (job_finished r' \<longrightarrow> job_finished r \<or> j_state r' = JobCancelled))
      | None \<Rightarrow> (case lookup_by j_id i (update_where P f t) of None \<Rightarrow> True
          | Some r' \<Rightarrow> j_attempts r' = 0 \<and> j_state r' = JobQueued)"
    using assms unfolding look by (cases "lookup_by j_id i t") auto
qed

lemma rows_kept_append:
  assumes "j_id r \<notin> j_id ` set t" "j_attempts r = 0" "j_state r = JobQueued"
  shows "rows_kept t (t @ [r])"
  using assms by (auto simp: rows_kept_def lookup_by_append split: option.splits)

lemma side_write_ok:
  assumes "side_write (sy_db s) db" "sys_ok kinds s"
  shows "sys_ok kinds (s\<lparr>sy_db := db\<rparr>)"
  using assms(1)
proof (cases rule: side_write.cases)
  case (sw_enqueue fresh known kind p now mx nx op dd a t)
  from enqueue_job_InrD [OF sw_enqueue(2)] have "rows_kept (wd_jobs (sy_db s)) t"
    by (auto simp: new_job_def intro: rows_kept_refl rows_kept_append)
  moreover have "jobs_ok t"
    using job_write_ok [OF jw_enqueue [OF sw_enqueue(2)]] assms(2) by (simp add: sys_ok_def)
  ultimately show ?thesis
    using sw_enqueue(1) by (intro rows_kept_ok [OF assms(2)]) simp_all
next
  case (sw_op ops)
  then show ?thesis
    using assms(2) by (intro rows_kept_ok [OF assms(2)]) (simp_all add: sys_ok_def rows_kept_refl)
qed

lemma side_writes_ok:
  "side_write\<^sup>*\<^sup>* db db' \<Longrightarrow> sys_ok kinds (s\<lparr>sy_db := db\<rparr>) \<Longrightarrow> sys_ok kinds (s\<lparr>sy_db := db'\<rparr>)"
proof (induction rule: rtranclp_induct)
  case (step y z)
  with side_write_ok [of "s\<lparr>sy_db := y\<rparr>" z kinds] show ?case by simp
qed simp

lemma checkpoint_jobs:
  assumes "checkpoint i w now force extended t = (c, extended', t')"
  shows "t' = t \<or> (\<exists>b. extend_lease i w now lease_seconds t = (b, t'))"
  using assms
  by (auto simp: checkpoint_def split: if_splits option.splits prod.splits bool.splits)

lemma checkpoint_ok:
  assumes "checkpoint i w now force extended (wd_jobs (sy_db s)) = (c, extended', t)" "sys_ok kinds s"
  shows "sys_ok kinds (s\<lparr>sy_db := (sy_db s)\<lparr>wd_jobs := t\<rparr>\<rparr>)"
  using checkpoint_jobs [OF assms(1)]
proof (elim disjE exE)
  assume "t = wd_jobs (sy_db s)"
  with assms(2) show ?thesis by simp
next
  fix b assume b: "extend_lease i w now lease_seconds (wd_jobs (sy_db s)) = (b, t)"
  then have t: "t = update_where (job_held i w)
      (\<lambda>r. r\<lparr>j_lease_until := Some (now + seconds lease_seconds)\<rparr>) (wd_jobs (sy_db s))"
    by (simp add: extend_lease_def)
  have "rows_kept (wd_jobs (sy_db s)) t"
    unfolding t by (rule rows_kept_update) (auto simp: job_held_def job_finished_def)
  then show ?thesis
    using job_write_ok [OF jw_extend [OF b]] assms(2)
    by (intro rows_kept_ok [OF assms(2)]) (simp_all add: sys_ok_def)
qed

lemma cancel_ok:
  assumes "request_cancellation i now (wd_jobs (sy_db s)) (wd_ops (sy_db s)) = (st, t, ops)"
    and "sys_ok kinds s"
  shows "sys_ok kinds (s\<lparr>sy_db := (sy_db s)\<lparr>wd_jobs := t, wd_ops := ops\<rparr>\<rparr>)"
proof -
  have t: "t = update_where (cancellable i) (cancel_values now) (wd_jobs (sy_db s))"
    using request_cancellation_jobs [of i now "wd_jobs (sy_db s)" "wd_ops (sy_db s)"] assms(1) by simp
  have "rows_kept (wd_jobs (sy_db s)) t"
    unfolding t
    by (rule rows_kept_update)
       (auto simp: cancellable_def job_held_def job_finished_def cancel_values_def Let_def)
  then show ?thesis
    using job_write_ok [OF jw_cancel [OF assms(1)]] assms(2)
    by (intro rows_kept_ok [OF assms(2)]) (simp_all add: sys_ok_def)
qed

section \<open>The lease\<close>

lemma entering_update:
  "entering i (pcs(w := pc)) =
     (if may_enter pc \<and> (\<exists>l. pc_lease pc = Some l \<and> l_id l = i)
      then insert w (entering i pcs) else entering i pcs - {w})"
  by (auto simp: entering_def)

lemma entering_finite: "leases_ok kinds s \<Longrightarrow> finite (entering i (sy_pc s))"
  by (auto simp: leases_ok_def entering_def elim: rev_finite_subset)

lemma may_enter_finite: "finite {v. may_enter (pcs v)} \<Longrightarrow> finite {v. may_enter ((pcs(w := pc)) v)}"
  by (rule finite_subset [of _ "insert w {v. may_enter (pcs v)}"]) auto

lemma acquire_ok:
  assumes "sy_pc s w = P_Idle"
    and acq: "acquire_lease locked w now secs (wd_jobs (sy_db s)) = (Some l, t)"
    and ok: "sys_ok kinds s"
  shows "sys_ok kinds (s\<lparr>sy_db := (sy_db s)\<lparr>wd_jobs := t\<rparr>, sy_pc := (sy_pc s)(w := P_Leased l now)\<rparr>)"
proof -
  let ?t = "wd_jobs (sy_db s)"
  have jok: "jobs_ok ?t" and uniq: "unique_by j_id ?t"
    using ok by (simp_all add: sys_ok_def jobs_ok_def)
  from acq obtain d where d: "d \<in> set ?t" "job_due now d" "l = leased_of (take_job w now secs d)"
    and t: "t = update_where (\<lambda>r. j_id r = j_id d) (take_job w now secs) ?t"
    by (rule acquire_lease_SomeD)
  have look: "lookup_by j_id i t =
      (if i = j_id d then Some (take_job w now secs d) else lookup_by j_id i ?t)" for i
  proof -
    have "lookup_by j_id (j_id d) ?t = Some d"
      using d(1) uniq by (simp add: lookup_by_unique)
    moreover have "lookup_by j_id i t =
        map_option (\<lambda>r. if j_id r = j_id d then take_job w now secs r else r) (lookup_by j_id i ?t)"
      unfolding t by (rule lookup_by_update_where) simp
    ultimately show ?thesis
      by (cases "lookup_by j_id i ?t") (auto simp del: lookup_by_None dest: lookup_by_key)
  qed
  have old: "lookup_by j_id (j_id d) ?t = Some d"
    using d(1) uniq by (simp add: lookup_by_unique)
  have pos: "0 \<le> j_attempts d" using jok d(1) by (auto simp: jobs_ok_def job_ok_def)
  have undone: "j_state d \<noteq> JobSucceeded" using d(2) by (auto simp: job_due_def)
  have l: "l_id l = j_id d" "l_kind l = j_kind d" "l_operation_id l = j_operation_id d"
    "l_max_attempts l = j_max_attempts d" "l_attempts l = j_attempts (take_job w now secs d)"
    "l_cancel_requested l = j_cancel_requested d"
    using d(3) by (simp_all add: leased_of_def)
  have "lease_agrees v l' t" if "lease_agrees v l' ?t" "v \<noteq> w" for v l'
    using that old by (auto simp: lease_agrees_def look job_held_def)
  moreover have "lease_agrees w l t"
    by (simp add: lease_agrees_def look l)
  ultimately have "leases_ok kinds (s\<lparr>sy_db := (sy_db s)\<lparr>wd_jobs := t\<rparr>,
      sy_pc := (sy_pc s)(w := P_Leased l now)\<rparr>)"
    using ok may_enter_finite [of "sy_pc s" w "P_Leased l now"]
    by (auto simp: sys_ok_def leases_ok_def)
  moreover have "effects_ok kinds ((sy_db s)\<lparr>wd_jobs := t\<rparr>)"
    unfolding effects_ok_def
  proof
    fix i
    from ok have "length (effects_of i (sy_db s)) = (case lookup_by j_id i ?t of None \<Rightarrow> 0
        | Some r \<Rightarrow> if ordinary_done kinds r then 1 else 0)"
      by (simp add: sys_ok_def effects_ok_def)
    then show "length (effects_of i ((sy_db s)\<lparr>wd_jobs := t\<rparr>)) =
        (case lookup_by j_id i (wd_jobs ((sy_db s)\<lparr>wd_jobs := t\<rparr>)) of None \<Rightarrow> 0
        | Some r \<Rightarrow> if ordinary_done kinds r then 1 else 0)"
      using old undone by (auto simp: effects_of_def look ordinary_done_def)
  qed
  moreover have "cancels_ok kinds t"
    using ok by (auto simp: sys_ok_def cancels_ok_def look job_finished_def)
  moreover have "budget_ok (s\<lparr>sy_db := (sy_db s)\<lparr>wd_jobs := t\<rparr>, sy_pc := (sy_pc s)(w := P_Leased l now)\<rparr>)"
    unfolding budget_ok_def
  proof
    fix i
    have b: "sy_entries s i + int (card (entering i (sy_pc s))) \<le> budget_used i ?t"
      using ok by (simp add: sys_ok_def budget_ok_def)
    have "w \<notin> entering i (sy_pc s)" using assms(1) by (simp add: entering_def)
    moreover have "finite (entering i (sy_pc s))"
      using ok entering_finite by (auto simp: sys_ok_def)
    ultimately show "sy_entries (s\<lparr>sy_db := (sy_db s)\<lparr>wd_jobs := t\<rparr>,
          sy_pc := (sy_pc s)(w := P_Leased l now)\<rparr>) i +
        int (card (entering i (sy_pc (s\<lparr>sy_db := (sy_db s)\<lparr>wd_jobs := t\<rparr>,
          sy_pc := (sy_pc s)(w := P_Leased l now)\<rparr>)))) \<le>
        budget_used i (wd_jobs (sy_db (s\<lparr>sy_db := (sy_db s)\<lparr>wd_jobs := t\<rparr>,
          sy_pc := (sy_pc s)(w := P_Leased l now)\<rparr>)))"
      using b old pos by (auto simp: entering_update budget_used_def look l)
  qed
  ultimately show ?thesis
    using job_write_ok [OF jw_acquire [OF acq] jok] by (simp add: sys_ok_def)
qed

section \<open>A worker's transaction\<close>

lemma ends_ok:
  assumes ok: "sys_ok kinds s" and pc: "pc_lease (sy_pc s w) = Some l"
    and tx: "tx_ends kinds w l d (sy_db s) db'"
    and d: "d = 0 \<or> d = 1 \<and> (may_enter (sy_pc s w) \<or> e = - 1)" and "e \<le> 0"
  shows "sys_ok kinds (s\<lparr>sy_db := db', sy_pc := (sy_pc s)(w := P_Idle),
    sy_entries := (sy_entries s)(l_id l := sy_entries s (l_id l) + e)\<rparr>)"
proof -
  let ?t = "wd_jobs (sy_db s)" and ?t' = "wd_jobs db'"
  from tx obtain r r' where en: "ends w (l_id l) d ?t ?t' r r'"
    and eff: "if continuation_for (l_kind l) kinds then wd_effects db' = wd_effects (sy_db s)
       else (j_cancel_requested r \<longrightarrow> j_state r' = JobCancelled) \<and>
            (if j_state r' = JobSucceeded
             then (\<exists>x. wd_effects db' = wd_effects (sy_db s) @ [(l_id l, x)])
             else wd_effects db' = wd_effects (sy_db s))"
    unfolding tx_ends_def by (auto split: if_splits)
  have r: "lookup_by j_id (l_id l) ?t = Some r" "job_held (l_id l) w r"
    "lookup_by j_id (l_id l) ?t' = Some r'" "same_job r r'" "j_state r' \<noteq> JobLeased"
    "j_attempts r' = j_attempts r - d" "job_write ?t ?t'"
    and other: "\<And>j. j \<noteq> l_id l \<Longrightarrow> lookup_by j_id j ?t' = lookup_by j_id j ?t"
    using en by (simp_all add: ends_def)
  have kind: "j_kind r = l_kind l"
    using ok pc r(1) by (fastforce simp: sys_ok_def leases_ok_def lease_agrees_def)
  have "lease_agrees v l' ?t'" if "lease_agrees v l' ?t" for v l'
  proof (cases "l_id l' = l_id l")
    case True
    with that r show ?thesis by (auto simp: lease_agrees_def same_job_def job_held_def)
  next
    case False
    with that show ?thesis by (simp add: lease_agrees_def other)
  qed
  then have "leases_ok kinds (s\<lparr>sy_db := db', sy_pc := (sy_pc s)(w := P_Idle),
      sy_entries := (sy_entries s)(l_id l := sy_entries s (l_id l) + e)\<rparr>)"
    using ok may_enter_finite [of "sy_pc s" w P_Idle] by (auto simp: sys_ok_def leases_ok_def)
  moreover have "effects_ok kinds db'"
    unfolding effects_ok_def
  proof
    fix i
    from ok have len: "length (effects_of i (sy_db s)) = (case lookup_by j_id i ?t of None \<Rightarrow> 0
        | Some r \<Rightarrow> if ordinary_done kinds r then 1 else 0)"
      by (simp add: sys_ok_def effects_ok_def)
    show "length (effects_of i db') = (case lookup_by j_id i ?t' of None \<Rightarrow> 0
        | Some r \<Rightarrow> if ordinary_done kinds r then 1 else 0)"
    proof (cases "i = l_id l")
      case True
      with len r kind eff show ?thesis
        by (auto simp: effects_of_def ordinary_done_def same_job_def job_held_def split: if_splits)
    next
      case False
      with len eff show ?thesis
        by (auto simp: effects_of_def other split: if_splits)
    qed
  qed
  moreover have "cancels_ok kinds ?t'"
    unfolding cancels_ok_def
  proof (intro allI impI)
    fix i q
    assume q: "lookup_by j_id i ?t' = Some q" "\<not> continuation_for (j_kind q) kinds" "j_cancel_requested q"
    show "\<not> job_finished q \<or> j_state q = JobCancelled"
    proof (cases "i = l_id l")
      case True
      with q r kind eff show ?thesis by (auto simp: same_job_def split: if_splits)
    next
      case False
      with q ok show ?thesis by (auto simp: other sys_ok_def cancels_ok_def)
    qed
  qed
  moreover have "budget_ok (s\<lparr>sy_db := db', sy_pc := (sy_pc s)(w := P_Idle),
      sy_entries := (sy_entries s)(l_id l := sy_entries s (l_id l) + e)\<rparr>)"
    unfolding budget_ok_def
  proof
    fix i
    have b: "sy_entries s i + int (card (entering i (sy_pc s))) \<le> budget_used i ?t"
      using ok by (simp add: sys_ok_def budget_ok_def)
    have fin: "finite (entering i (sy_pc s))"
      using ok entering_finite by (auto simp: sys_ok_def)
    then have le: "card (entering i (sy_pc s) - {w}) \<le> card (entering i (sy_pc s))"
      by (simp add: card_mono)
    have used: "budget_used i ?t - (if i = l_id l then d else 0) \<le> budget_used i ?t'"
      using r d other [of i] by (auto simp: budget_used_def same_job_def)
    have less: "card (entering i (sy_pc s) - {w}) + 1 = card (entering i (sy_pc s))"
      if "may_enter (sy_pc s w)" "i = l_id l"
      using that pc fin card_Suc_Diff1 [of "entering i (sy_pc s)" w] by (simp add: entering_def)
    have "sy_entries s i + (if i = l_id l then e else 0) + int (card (entering i (sy_pc s) - {w})) \<le>
        budget_used i ?t'"
      using b le used less d \<open>e \<le> 0\<close> by (auto split: if_splits)
    then show "sy_entries (s\<lparr>sy_db := db', sy_pc := (sy_pc s)(w := P_Idle),
          sy_entries := (sy_entries s)(l_id l := sy_entries s (l_id l) + e)\<rparr>) i +
        int (card (entering i (sy_pc (s\<lparr>sy_db := db', sy_pc := (sy_pc s)(w := P_Idle),
          sy_entries := (sy_entries s)(l_id l := sy_entries s (l_id l) + e)\<rparr>)))) \<le>
        budget_used i (wd_jobs (sy_db (s\<lparr>sy_db := db', sy_pc := (sy_pc s)(w := P_Idle),
          sy_entries := (sy_entries s)(l_id l := sy_entries s (l_id l) + e)\<rparr>)))"
      by (cases "i = l_id l") (auto simp: entering_update)
  qed
  ultimately show ?thesis
    using job_write_ok [OF r(7)] ok by (simp add: sys_ok_def)
qed

lemma same_ok:
  assumes ok: "sys_ok kinds s" and pc: "pc_lease (sy_pc s w) = Some l"
    and pc': "pc_ok kinds pc'" "pc' = P_Idle \<or> pc_lease pc' = Some l" "\<not> may_enter pc'"
    and e: "e = 1 \<Longrightarrow> may_enter (sy_pc s w)" "e \<le> 1"
  shows "sys_ok kinds (s\<lparr>sy_pc := (sy_pc s)(w := pc'),
    sy_entries := (sy_entries s)(l_id l := sy_entries s (l_id l) + e)\<rparr>)"
proof -
  have "leases_ok kinds (s\<lparr>sy_pc := (sy_pc s)(w := pc'),
      sy_entries := (sy_entries s)(l_id l := sy_entries s (l_id l) + e)\<rparr>)"
    using ok pc pc' may_enter_finite [of "sy_pc s" w pc'] by (auto simp: sys_ok_def leases_ok_def)
  moreover have bound: "sy_entries s i + (if i = l_id l then e else 0) +
      int (card (entering i ((sy_pc s)(w := pc')))) \<le> budget_used i (wd_jobs (sy_db s))" for i
  proof -
    have b: "sy_entries s i + int (card (entering i (sy_pc s))) \<le> budget_used i (wd_jobs (sy_db s))"
      using ok by (simp add: sys_ok_def budget_ok_def)
    have fin: "finite (entering i (sy_pc s))"
      using ok entering_finite by (auto simp: sys_ok_def)
    then have le: "card (entering i (sy_pc s) - {w}) \<le> card (entering i (sy_pc s))"
      by (simp add: card_mono)
    have less: "card (entering i (sy_pc s) - {w}) + 1 = card (entering i (sy_pc s))"
      if "may_enter (sy_pc s w)" "i = l_id l"
      using that pc fin card_Suc_Diff1 [of "entering i (sy_pc s)" w] by (simp add: entering_def)
    have "e = 1 \<or> e \<le> 0" using e(2) by linarith
    with b le less e(1) show ?thesis
      using pc'(3) by (auto simp: entering_update split: if_splits)
  qed
  have "budget_ok (s\<lparr>sy_pc := (sy_pc s)(w := pc'),
      sy_entries := (sy_entries s)(l_id l := sy_entries s (l_id l) + e)\<rparr>)"
    unfolding budget_ok_def
  proof
    fix i
    from bound [of i] show "sy_entries (s\<lparr>sy_pc := (sy_pc s)(w := pc'),
          sy_entries := (sy_entries s)(l_id l := sy_entries s (l_id l) + e)\<rparr>) i +
        int (card (entering i (sy_pc (s\<lparr>sy_pc := (sy_pc s)(w := pc'),
          sy_entries := (sy_entries s)(l_id l := sy_entries s (l_id l) + e)\<rparr>)))) \<le>
        budget_used i (wd_jobs (sy_db (s\<lparr>sy_pc := (sy_pc s)(w := pc'),
          sy_entries := (sy_entries s)(l_id l := sy_entries s (l_id l) + e)\<rparr>)))"
      by (cases "i = l_id l") auto
  qed
  ultimately show ?thesis
    using ok by (simp add: sys_ok_def)
qed

lemma worker_ok:
  assumes "pc_lease (sy_pc s w) = Some l"
    and tx: "worker_tx kinds w (sy_db s) (sy_pc s w) pc' db'" and ok: "sys_ok kinds s"
  shows "sys_ok kinds (s\<lparr>sy_db := db', sy_pc := (sy_pc s)(w := pc'),
      sy_entries := (sy_entries s)(l_id l := sy_entries s (l_id l) + entered (sy_pc s w) pc')\<rparr>)"
proof -
  have pok: "pc_ok kinds (sy_pc s w)" and uniq: "unique_by j_id (wd_jobs (sy_db s))"
    using ok by (simp_all add: sys_ok_def leases_ok_def jobs_ok_def)
  note nx = worker_tx_pc [OF tx assms(1) pok]
  from worker_tx_outcome [OF tx assms(1) pok uniq] show ?thesis
    unfolding tx_outcome_def
  proof (elim disjE conjE exE)
    assume "db' = sy_db s"
    moreover have "entered (sy_pc s w) pc' \<le> 1" by (simp add: entered_def split: pc.splits)
    ultimately show ?thesis
      using same_ok [OF ok assms(1) nx(1-4)] by simp
  next
    fix d dbm
    assume a: "pc' = P_Idle" "side_write\<^sup>*\<^sup>* (sy_db s) dbm" "tx_ends kinds w l d dbm db'"
      and d: "d = 0" "\<forall>l. sy_pc s w \<noteq> P_Unready l"
    have "entered (sy_pc s w) P_Idle = 0" using d(2) by (simp add: entered_def split: pc.splits)
    then show ?thesis
      using ends_ok [OF side_writes_ok [OF a(2), of kinds s], of w l d db' 0] ok assms(1) a d by simp
  next
    fix d dbm
    assume a: "pc' = P_Idle" "side_write\<^sup>*\<^sup>* (sy_db s) dbm" "tx_ends kinds w l d dbm db'"
      and d: "d = 1" "may_enter (sy_pc s w)"
    have "entered (sy_pc s w) P_Idle = 0" using d(2) by (cases "sy_pc s w") (simp_all add: entered_def)
    then show ?thesis
      using ends_ok [OF side_writes_ok [OF a(2), of kinds s], of w l d db' 0] ok assms(1) a d by simp
  next
    fix d dbm l'
    assume a: "pc' = P_Idle" "side_write\<^sup>*\<^sup>* (sy_db s) dbm" "tx_ends kinds w l d dbm db'"
      and d: "d = 1" "sy_pc s w = P_Unready l'"
    have "entered (sy_pc s w) P_Idle = - 1" using d(2) by (simp add: entered_def)
    then show ?thesis
      using ends_ok [OF side_writes_ok [OF a(2), of kinds s], of w l d db' "- 1"] ok assms(1) a d by simp
  qed
qed

lemma crash_ok: "sys_ok kinds s \<Longrightarrow> sys_ok kinds (s\<lparr>sy_pc := (sy_pc s)(w := P_Idle)\<rparr>)"
proof (cases "pc_lease (sy_pc s w)")
  case None
  moreover assume "sys_ok kinds s"
  moreover from None have "sy_pc s w = P_Idle" by (cases "sy_pc s w") simp_all
  ultimately show ?thesis by (metis fun_upd_triv sys.surjective sys.update_convs(2))
next
  case (Some l)
  assume "sys_ok kinds s"
  from same_ok [OF this Some, of P_Idle 0] show ?thesis by simp
qed

lemma job_step_ok: "job_step kinds s s' \<Longrightarrow> sys_ok kinds s \<Longrightarrow> sys_ok kinds s'"
proof (induction rule: job_step.induct)
  case (js_worker s w l pc' db')
  then show ?case by (intro worker_ok)
qed (auto intro: acquire_ok checkpoint_ok crash_ok side_write_ok cancel_ok)

lemma job_reach_ok: "job_reach kinds s \<Longrightarrow> sys_ok kinds s"
proof -
  have "sys_ok kinds (empty_sys :: ('a, 'b) sys)"
    by (simp add: sys_ok_def empty_sys_def jobs_ok_def unique_by_def leases_ok_def effects_ok_def
        effects_of_def cancels_ok_def budget_ok_def budget_used_def entering_def)
  moreover have "(job_step kinds)\<^sup>*\<^sup>* s0 s \<Longrightarrow> sys_ok kinds s0 \<Longrightarrow> sys_ok kinds s"
    for s0 s :: "('a, 'b) sys"
    by (induction rule: rtranclp_induct) (auto intro: job_step_ok)
  ultimately show "job_reach kinds s \<Longrightarrow> sys_ok kinds s" for s :: "('a, 'b) sys"
    unfolding job_reach_def by blast
qed

section \<open>The job table moves by the repository's writes alone\<close>

lemma side_write_jobs: "side_write db db' \<Longrightarrow> job_write\<^sup>*\<^sup>* (wd_jobs db) (wd_jobs db')"
  by (induction rule: side_write.induct) (auto intro: jw_enqueue)

lemma side_writes_jobs: "side_write\<^sup>*\<^sup>* db db' \<Longrightarrow> job_write\<^sup>*\<^sup>* (wd_jobs db) (wd_jobs db')"
  by (induction rule: rtranclp_induct) (auto dest: side_write_jobs)

lemma worker_jobs:
  assumes "worker_tx kinds w db pc pc' db'" "pc_lease pc = Some l" "pc_ok kinds pc"
    and "unique_by j_id (wd_jobs db)"
  shows "job_write\<^sup>*\<^sup>* (wd_jobs db) (wd_jobs db')"
  using worker_tx_outcome [OF assms] side_writes_jobs
  by (fastforce simp: tx_outcome_def tx_ends_def ends_def)

lemma job_step_jobs:
  assumes "job_step kinds s s'" "sys_ok kinds s"
  shows "job_write\<^sup>*\<^sup>* (wd_jobs (sy_db s)) (wd_jobs (sy_db s'))"
  using assms(1)
proof (cases rule: job_step.cases)
  case (js_worker w l pc' db')
  have "pc_ok kinds (sy_pc s w)" "unique_by j_id (wd_jobs (sy_db s))"
    using assms(2) by (simp_all add: sys_ok_def leases_ok_def jobs_ok_def)
  from worker_jobs [OF js_worker(3,2) this] show ?thesis
    using js_worker(1) by simp
next
  case (js_checkpoint w l now force extended c extended' t)
  from checkpoint_jobs [OF js_checkpoint(3)] show ?thesis
    using js_checkpoint(1) by (auto intro: jw_extend)
qed (auto intro: jw_acquire jw_cancel dest: side_write_jobs)

lemma job_steps_jobs:
  assumes "(job_step kinds)\<^sup>*\<^sup>* s s'" "sys_ok kinds s"
  shows "sys_ok kinds s' \<and> job_write\<^sup>*\<^sup>* (wd_jobs (sy_db s)) (wd_jobs (sy_db s'))"
  using assms
proof (induction rule: rtranclp_induct)
  case (step y z)
  with job_step_ok [OF step(2)] job_step_jobs [OF step(2)] show ?case by (auto intro: rtranclp_trans)
qed simp

end
