(* ===== verification/Job_Guarantees.thy ===== *)
theory Job_Guarantees
  imports Job_System
begin

text \<open>
  What the job half promises: effects exactly once, the retry budget, cancellation, the
  operation record beside the job, the lease, and the end of every visit. One run of the
  system (a job enqueued, leased, entered and finished by the worker \<open>''w''\<close>) serves as the
  witnesses.
\<close>

section \<open>A run of the system\<close>

definition run_kinds :: "unit kind_registry" where
  "run_kinds = \<lparr>kr_kinds = [\<lparr>k_name = ''m.k'', k_check = (\<lambda>_. None)\<rparr>], kr_continuations = []\<rparr>"

definition run_job :: "unit job" where
  "run_job = new_job 5 ''m.k'' () 0 3 0 (Some 6)"

definition run_db :: "unit jobs \<Rightarrow> nat list \<Rightarrow> (unit, nat) work_db" where
  "run_db t xs = \<lparr>wd_jobs = t, wd_ops = [], wd_effects = map (\<lambda>x. (5, x)) xs, wd_settlements = []\<rparr>"

definition run_lease_of :: "unit leased_job" where
  "run_lease_of = leased_of (take_job ''w'' 1 60 run_job)"

definition run_done_job :: "unit job" where
  "run_done_job = run_job\<lparr>j_state := JobSucceeded, j_attempts := 1, j_finished_at := Some 2\<rparr>"

definition run_sys :: "unit jobs \<Rightarrow> nat list \<Rightarrow> unit pc \<Rightarrow> int \<Rightarrow> (unit, nat) sys" where
  "run_sys t xs pc n = \<lparr>sy_db = run_db t xs, sy_pc = (\<lambda>_. P_Idle)(''w'' := pc),
     sy_entries = (\<lambda>_. 0)(5 := n)\<rparr>"

lemmas run_job_defs = run_kinds_def run_job_def run_db_def run_lease_of_def run_done_job_def
  run_sys_def new_job_def

lemma run_job_steps:
  "job_step run_kinds empty_sys (run_sys [run_job] [] P_Idle 0)"
  "job_step run_kinds (run_sys [run_job] [] P_Idle 0)
     (run_sys [take_job ''w'' 1 60 run_job] [] (P_Leased run_lease_of 1) 0)"
  "job_step run_kinds (run_sys [take_job ''w'' 1 60 run_job] [] (P_Leased run_lease_of 1) 0)
     (run_sys [take_job ''w'' 1 60 run_job] [] (P_Handler run_lease_of) 1)"
  "job_step run_kinds (run_sys [take_job ''w'' 1 60 run_job] [] (P_Handler run_lease_of) 1)
     (run_sys [run_done_job] [3] P_Idle 1)"
proof -
  have "side_write (sy_db empty_sys) (run_db [run_job] [])"
    using sw_enqueue [of 5 "\<lambda>_. True" "''m.k''" "()" 0 3 None "Some 6" False
        "sy_db (empty_sys :: (unit, nat) sys)" "Job_Id 5" "[run_job]"]
    by (simp add: empty_sys_def enqueue_job_def insert_row_def run_job_defs)
  from js_side [OF this, of run_kinds] show "job_step run_kinds empty_sys (run_sys [run_job] [] P_Idle 0)"
    by (simp add: empty_sys_def run_sys_def fun_upd_def)
  have "acquire_lease (\<lambda>_. False) ''w'' 1 lease_seconds [run_job] =
      (Some run_lease_of, [take_job ''w'' 1 60 run_job])"
    by (simp add: acquire_lease_def select_first_def job_due_def run_job_defs lease_seconds_def)
  with js_acquire [of "run_sys [run_job] [] P_Idle 0" "''w''" "\<lambda>_. False" 1 run_lease_of
      "[take_job ''w'' 1 60 run_job]" run_kinds]
  show "job_step run_kinds (run_sys [run_job] [] P_Idle 0)
      (run_sys [take_job ''w'' 1 60 run_job] [] (P_Leased run_lease_of 1) 0)"
    by (simp add: run_sys_def run_db_def)
  let ?s = "run_sys [take_job ''w'' 1 60 run_job] [] (P_Leased run_lease_of 1) 0"
  have gates: "run_leased_job run_kinds True 1 run_lease_of ''w'' 1 (sy_db ?s) =
      (P_Handler run_lease_of, sy_db ?s)"
    by (simp add: run_leased_job_def run_job_defs continuation_for_def lookup_kind_def
        leased_of_def take_job_def)
  from js_worker [of ?s "''w''" run_lease_of run_kinds "P_Handler run_lease_of" "sy_db ?s"]
    tx_gates [OF gates]
  show "job_step run_kinds ?s (run_sys [take_job ''w'' 1 60 run_job] [] (P_Handler run_lease_of) 1)"
    by (simp add: run_sys_def entered_def run_lease_of_def leased_of_def run_job_def new_job_def)
  let ?s = "run_sys [take_job ''w'' 1 60 run_job] [] (P_Handler run_lease_of) 1"
  have "run_handler (Handler_Done 3 (sy_db ?s)) 2 2 run_lease_of ''w'' (sy_db ?s) =
      (P_Idle, run_db [run_done_job] [3])"
    by (simp add: run_handler_def run_job_defs leased_of_def take_job_def
        job_finish_succeeded_def apply_where_def rowcount_def job_held_uncancelled_def job_held_def
        op_finish_succeeded_def)
  moreover have "handler_did (Handler_Done 3 (sy_db ?s)) (sy_db ?s)"
    by (simp add: handler_did_def)
  ultimately have "worker_tx run_kinds ''w'' (sy_db ?s) (P_Handler run_lease_of) P_Idle
      (run_db [run_done_job] [3])"
    by (intro tx_handler)
  with js_worker [of ?s "''w''" run_lease_of run_kinds P_Idle "run_db [run_done_job] [3]"]
  show "job_step run_kinds ?s (run_sys [run_done_job] [3] P_Idle 1)"
    by (simp add: run_sys_def entered_def run_lease_of_def leased_of_def run_job_def new_job_def)
qed

lemma run_job_reach:
  "job_reach run_kinds (run_sys [take_job ''w'' 1 60 run_job] [] (P_Handler run_lease_of) 1)"
  "job_reach run_kinds (run_sys [run_done_job] [3] P_Idle 1)"
proof -
  note r1 = r_into_rtranclp [of "job_step run_kinds", OF run_job_steps(1)]
  note r2 = rtranclp.rtrancl_into_rtrancl [OF r1 run_job_steps(2)]
  note r3 = rtranclp.rtrancl_into_rtrancl [OF r2 run_job_steps(3)]
  note r4 = rtranclp.rtrancl_into_rtrancl [OF r3 run_job_steps(4)]
  show "job_reach run_kinds (run_sys [take_job ''w'' 1 60 run_job] [] (P_Handler run_lease_of) 1)"
    "job_reach run_kinds (run_sys [run_done_job] [3] P_Idle 1)"
    unfolding job_reach_def by (rule r3, rule r4)
qed

section \<open>Effects\<close>

text \<open>
  C1. Exactly once: whatever workers, crashes, lease thefts and cancellations did, an ordinary
  job that succeeded has committed its handler's effects exactly once, and any other job, a
  retried or cancelled or abandoned one included, has committed none.
\<close>

theorem effects_exactly_once:
  assumes "job_reach kinds s" "lookup_by j_id i (wd_jobs (sy_db s)) = Some r"
    and "\<not> continuation_for (j_kind r) kinds"
  shows "(j_state r = JobSucceeded \<longrightarrow> (\<exists>x. effects_of i (sy_db s) = [(i, x)])) \<and>
         (j_state r \<noteq> JobSucceeded \<longrightarrow> effects_of i (sy_db s) = [])"
proof -
  have len: "length (effects_of i (sy_db s)) = (if j_state r = JobSucceeded then 1 else 0)"
    using job_reach_ok [OF assms(1)] assms(2,3)
    by (simp add: sys_ok_def effects_ok_def ordinary_done_def)
  have "fst e = i" if "e \<in> set (effects_of i (sy_db s))" for e
    using that by (simp add: effects_of_def)
  with len show ?thesis
    by (auto simp: length_Suc_conv split: if_splits)
qed

lemma effects_exactly_once_witness:
  "\<exists>x. effects_of 5 (sy_db (run_sys [run_done_job] [3] P_Idle 1)) = [(5, x)]"
  using effects_exactly_once [OF run_job_reach(2), of 5 run_done_job]
  by (simp add: run_job_defs continuation_for_def)

section \<open>The retry budget\<close>

text \<open>
  C10. A handler is entered at most \<open>max_attempts\<close> times for a job, by crashing workers and
  raising handlers together; only an entry that a module upgrade deferred is not counted.
\<close>

theorem entries_within_budget:
  assumes "job_reach kinds s" "lookup_by j_id i (wd_jobs (sy_db s)) = Some r"
  shows "sy_entries s i \<le> max 0 (j_max_attempts r) \<and> sy_entries s i \<le> j_attempts r"
proof -
  have "sy_entries s i + int (card (entering i (sy_pc s))) \<le> budget_used i (wd_jobs (sy_db s))"
    using job_reach_ok [OF assms(1)] by (simp add: sys_ok_def budget_ok_def)
  with assms(2) show ?thesis by (simp add: budget_used_def)
qed

lemma entries_within_budget_witness:
  "sy_entries (run_sys [run_done_job] [3] P_Idle 1) 5 \<le> (3::int)"
  using entries_within_budget [OF run_job_reach(2), of 5 run_done_job]
  by (simp add: run_job_defs)

section \<open>Cancellation\<close>

text \<open>The flag is never taken back.\<close>

lemma flag_stays:
  assumes "job_write t t'" "unique_by j_id t" "lookup_by j_id i t = Some r" "j_cancel_requested r"
  shows "\<exists>r'. lookup_by j_id i t' = Some r' \<and> j_cancel_requested r'"
  using assms(1)
proof (cases rule: job_write.cases)
  case (jw_enqueue fresh known kind p now mx nx op dd a)
  from enqueue_job_InrD [OF jw_enqueue] assms(3,4) show ?thesis
    by (auto simp: lookup_by_append)
next
  case (jw_acquire locked w now s l)
  show ?thesis
  proof (cases l)
    case None
    with jw_acquire have "t' = t" using acquire_lease_NoneD(1) by blast
    with assms(3,4) show ?thesis by simp
  next
    case (Some l')
    with jw_acquire have acq: "acquire_lease locked w now s t = (Some l', t')" by simp
    show ?thesis
    proof (rule acquire_lease_SomeD [OF acq])
      fix d assume "t' = update_where (\<lambda>r. j_id r = j_id d) (take_job w now s) t"
      with assms(3,4) show ?thesis by (simp add: lookup_by_update_where)
    qed
  qed
next
  case (jw_extend j w now s b)
  with assms(3,4) show ?thesis by (auto simp: extend_lease_def lookup_by_update_where)
next
  case (jw_owned j w now st e b)
  with assms(3,4) show ?thesis
    by (auto simp: job_finish_owned_def apply_where_def lookup_by_update_where split: if_splits)
next
  case (jw_cancel j now ops st ops')
  then have "t' = update_where (cancellable j) (cancel_values now) t"
    using request_cancellation_jobs [of j now t ops] by simp
  with assms(3,4) show ?thesis by (simp add: lookup_by_update_where)
qed (use assms(3,4) in \<open>auto simp: job_finishes lookup_by_update_where\<close>)

lemma flag_stays_star:
  "job_write\<^sup>*\<^sup>* t t' \<Longrightarrow> jobs_ok t \<Longrightarrow> lookup_by j_id i t = Some r \<Longrightarrow> j_cancel_requested r \<Longrightarrow>
   \<exists>r'. jobs_ok t' \<and> lookup_by j_id i t' = Some r' \<and> j_cancel_requested r'"
proof (induction rule: rtranclp_induct)
  case (step y z)
  then obtain q where q: "jobs_ok y" "lookup_by j_id i y = Some q" "j_cancel_requested q" by blast
  with flag_stays [OF step(2)] job_write_ok [OF step(2)] show ?case by (auto simp: jobs_ok_def)
qed blast

text \<open>
  C12. Once a cancellation is recorded on an ordinary job it can only end cancelled: whatever
  happens from then on, it is never succeeded, never failed, and none of its effects is ever
  committed.
\<close>

theorem cancelled_job_has_no_effects:
  assumes "job_reach kinds s" "lookup_by j_id i (wd_jobs (sy_db s)) = Some r"
    and "j_cancel_requested r" "(job_step kinds)\<^sup>*\<^sup>* s s'"
    and "lookup_by j_id i (wd_jobs (sy_db s')) = Some r'" "\<not> continuation_for (j_kind r') kinds"
  shows "j_state r' \<noteq> JobSucceeded \<and> j_state r' \<noteq> JobFailed \<and> effects_of i (sy_db s') = []"
proof -
  have ok: "sys_ok kinds s" by (rule job_reach_ok [OF assms(1)])
  from job_steps_jobs [OF assms(4) ok] have ok': "sys_ok kinds s'"
    and writes: "job_write\<^sup>*\<^sup>* (wd_jobs (sy_db s)) (wd_jobs (sy_db s'))" by simp_all
  have "jobs_ok (wd_jobs (sy_db s))" using ok by (simp add: sys_ok_def)
  from flag_stays_star [OF writes this assms(2,3)] assms(5) have "j_cancel_requested r'" by auto
  with ok' assms(5,6) have "\<not> job_finished r' \<or> j_state r' = JobCancelled"
    by (auto simp: sys_ok_def cancels_ok_def)
  then have "j_state r' \<noteq> JobSucceeded" "j_state r' \<noteq> JobFailed" by (auto simp: job_finished_def)
  moreover from this ok' assms(5) have "length (effects_of i (sy_db s')) = 0"
    by (simp add: sys_ok_def effects_ok_def ordinary_done_def)
  ultimately show ?thesis by simp
qed

text \<open>The run up to the handler, with the job cancelled under it.\<close>

lemma run_cancel_reach:
  "job_reach run_kinds (run_sys [(take_job ''w'' 1 60 run_job)\<lparr>j_cancel_requested := True\<rparr>] []
     (P_Handler run_lease_of) 1)"
proof -
  let ?s = "run_sys [take_job ''w'' 1 60 run_job] [] (P_Handler run_lease_of) 1"
  have "request_cancellation 5 2 (wd_jobs (sy_db ?s)) (wd_ops (sy_db ?s)) =
      (Some JobLeased, [(take_job ''w'' 1 60 run_job)\<lparr>j_cancel_requested := True\<rparr>], [])"
    by (simp add: request_cancellation_def run_job_defs cancellable_def take_job_def
        cancel_values_def Let_def)
  from js_cancel [OF this, of run_kinds]
  have "job_step run_kinds ?s (run_sys [(take_job ''w'' 1 60 run_job)\<lparr>j_cancel_requested := True\<rparr>] []
     (P_Handler run_lease_of) 1)"
    by (simp add: run_sys_def run_db_def)
  with run_job_reach(1) show ?thesis
    unfolding job_reach_def by (rule rtranclp.rtrancl_into_rtrancl)
qed

lemma cancelled_job_has_no_effects_witness:
  "effects_of 5 (sy_db (run_sys [(take_job ''w'' 1 60 run_job)\<lparr>j_cancel_requested := True\<rparr>] []
     (P_Handler run_lease_of) 1)) = []"
  using cancelled_job_has_no_effects [OF run_cancel_reach _ _ rtranclp.rtrancl_refl, of 5
      "(take_job ''w'' 1 60 run_job)\<lparr>j_cancel_requested := True\<rparr>"
      "(take_job ''w'' 1 60 run_job)\<lparr>j_cancel_requested := True\<rparr>"]
  by (simp add: run_job_defs continuation_for_def)

section \<open>The job and its operation record\<close>

lemma side_writes_row:
  assumes "side_write\<^sup>*\<^sup>* db db'" "lookup_by j_id i (wd_jobs db) = Some r"
  shows "lookup_by j_id i (wd_jobs db') = Some r"
  using assms
proof (induction rule: rtranclp_induct)
  case (step y z)
  from step(2) show ?case
    by (cases rule: side_write.cases)
       (use step in \<open>auto dest!: enqueue_job_InrD simp: lookup_by_append\<close>)
qed simp

lemma cancel_closes:
  assumes "request_cancellation j now t ops = (st, t', ops')" "unique_by j_id t"
    and "lookup_by j_id i t = Some r" "\<not> job_finished r"
    and "lookup_by j_id i t' = Some r'" "job_finished r'" "j_operation_id r' = Some q"
  shows "\<not> op_is_open q ops'"
proof -
  have t': "t' = update_where (cancellable j) (cancel_values now) t"
    using request_cancellation_jobs [of j now t ops] assms(1) by simp
  have r': "r' = (if cancellable j r then cancel_values now r else r)"
    using assms(3,5) unfolding t' by (simp add: lookup_by_update_where)
  with assms(4,6) have can: "cancellable j r" by (auto split: if_splits)
  have r: "r \<in> set t" using assms(3) by (rule lookup_by_in)
  then obtain d where d: "find (cancellable j) t = Some d"
    using can by (cases "find (cancellable j) t") (auto simp: find_None_iff)
  from find_cancellable [OF d] have "d = r"
    using r can assms(2) by (auto simp: cancellable_def intro: unique_by_eqD)
  moreover have "j_state r' = JobCancelled"
    using r' can assms(6)
    by (auto simp: cancellable_def cancel_values_def job_finished_def Let_def split: if_splits)
  moreover have "r' = cancel_values now r" using r' can by simp
  ultimately have "ops' = snd (op_finish_cancelled q now ops)"
    using assms(1,7) d by (simp add: request_cancellation_def Let_def)
  then show ?thesis by simp
qed

text \<open>
  C13. A job and its operation record end together: in the very transaction that puts an
  ordinary job into a terminal state, by a worker or by a cancellation, the record it carries
  is no longer pending or running.
\<close>

theorem job_and_operation_end_together:
  assumes "job_reach kinds s" "job_step kinds s s'"
    and r: "lookup_by j_id i (wd_jobs (sy_db s)) = Some r" "\<not> job_finished r"
    and r': "lookup_by j_id i (wd_jobs (sy_db s')) = Some r'" "job_finished r'"
    and ord: "\<not> continuation_for (j_kind r') kinds" and op: "j_operation_id r' = Some q"
  shows "\<not> op_is_open q (wd_ops (sy_db s'))"
proof -
  have ok: "sys_ok kinds s" by (rule job_reach_ok [OF assms(1)])
  then have jok: "jobs_ok (wd_jobs (sy_db s))" and uniq: "unique_by j_id (wd_jobs (sy_db s))"
    by (simp_all add: sys_ok_def jobs_ok_def)
  from assms(2) show ?thesis
  proof (cases rule: job_step.cases)
    case (js_acquire w locked now l t)
    from js_acquire(3) show ?thesis
    proof (rule acquire_lease_SomeD)
      fix d assume "t = update_where (\<lambda>r. j_id r = j_id d) (take_job w now lease_seconds) (wd_jobs (sy_db s))"
      with js_acquire(1) r r' show ?thesis
        by (auto simp: lookup_by_update_where job_finished_def split: if_splits)
    qed
  next
    case (js_checkpoint w l now force extended c extended' t)
    from checkpoint_jobs [OF js_checkpoint(3)] js_checkpoint(1) r r' show ?thesis
      by (auto simp: extend_lease_def lookup_by_update_where job_finished_def split: if_splits)
  next
    case (js_crash w)
    with r r' show ?thesis by simp
  next
    case (js_side db)
    then show ?thesis
      using side_writes_row [OF r_into_rtranclp [of side_write, OF js_side(2)] r(1)] r r' by simp
  next
    case (js_cancel j now st t ops)
    then show ?thesis
      using cancel_closes [OF js_cancel(2) uniq r] r' op by simp
  next
    case (js_worker w l pc' db')
    have pok: "pc_ok kinds (sy_pc s w)"
      using ok by (simp add: sys_ok_def leases_ok_def)
    from worker_tx_outcome [OF js_worker(3,2) pok uniq]
    consider "db' = sy_db s" | d dbm where "side_write\<^sup>*\<^sup>* (sy_db s) dbm" "tx_ends kinds w l d dbm db'"
      unfolding tx_outcome_def by blast
    then show ?thesis
    proof cases
      case 1
      with js_worker(1) r r' show ?thesis by simp
    next
      case (2 d dbm)
      have ri: "lookup_by j_id i (wd_jobs dbm) = Some r"
        by (rule side_writes_row [OF 2(1) r(1)])
      have "sys_ok kinds (s\<lparr>sy_db := dbm\<rparr>)"
        using side_writes_ok [OF 2(1), of kinds s] ok by simp
      then have ag: "lease_agrees w l (wd_jobs dbm)"
        using js_worker(2) by (simp add: sys_ok_def leases_ok_def)
      from 2(2) obtain p p' where en: "ends w (l_id l) d (wd_jobs dbm) (wd_jobs db') p p'"
        and close: "\<not> continuation_for (l_kind l) kinds \<Longrightarrow> job_finished p' \<Longrightarrow>
          l_operation_id l = Some q \<Longrightarrow> \<not> op_is_open q (wd_ops db')"
        unfolding tx_ends_def by (auto split: if_splits)
      have i: "i = l_id l"
        using en ri r r' js_worker(1) by (auto simp: ends_def)
      with en r' js_worker(1) have "p' = r'" "same_job p p'"
        "lookup_by j_id (l_id l) (wd_jobs dbm) = Some p"
        by (auto simp: ends_def)
      with ag ord op have "\<not> continuation_for (l_kind l) kinds" "l_operation_id l = Some q"
        by (auto simp: lease_agrees_def same_job_def)
      with close \<open>p' = r'\<close> r'(2) js_worker(1) show ?thesis by simp
    qed
  qed
qed

lemma job_and_operation_end_together_witness:
  "\<not> op_is_open 6 (wd_ops (sy_db (run_sys [run_done_job] [3] P_Idle 1)))"
  by (rule job_and_operation_end_together [OF run_job_reach(1) run_job_steps(4), of 5
        "take_job ''w'' 1 60 run_job" run_done_job])
     (simp_all add: run_job_defs continuation_for_def job_finished_def take_job_def)

section \<open>The lease\<close>

text \<open>
  The lease takes the due, unlocked row that has waited longest, fresh or abandoned by a
  dead worker, gives it to the worker with one more attempt (none more when it is only leased
  to be cancelled) and touches nothing else; it answers nothing only when nothing is due.
\<close>

theorem acquire_lease_spec:
  assumes "unique_by j_id t" "acquire_lease locked w now secs t = (a, t')"
  shows "case a of
      None \<Rightarrow> t' = t \<and> (\<forall>r \<in> set t. job_due now r \<longrightarrow> locked (j_id r))
    | Some l \<Rightarrow> (\<exists>d \<in> set t. job_due now d \<and> \<not> locked (j_id d) \<and>
        (\<forall>q \<in> set t. job_due now q \<and> \<not> locked (j_id q) \<longrightarrow> j_next_run_at d \<le> j_next_run_at q) \<and>
        l = leased_of (take_job w now secs d) \<and>
        l_attempts l = j_attempts d + (if j_cancel_requested d then 0 else 1) \<and>
        job_holds t' (j_id d) w \<and>
        (\<forall>j. j \<noteq> j_id d \<longrightarrow> lookup_by j_id j t' = lookup_by j_id j t))"
proof (cases a)
  case None
  with assms(2) have acq: "acquire_lease locked w now secs t = (None, t')" by simp
  show ?thesis
    using acquire_lease_NoneD [OF acq] None by simp
next
  case (Some l)
  with assms(2) have "acquire_lease locked w now secs t = (Some l, t')" by simp
  then show ?thesis
  proof (rule acquire_lease_SomeD)
    fix d
    assume d: "d \<in> set t" "job_due now d" "\<not> locked (j_id d)"
      "\<And>q. q \<in> set t \<Longrightarrow> job_due now q \<Longrightarrow> \<not> locked (j_id q) \<Longrightarrow> j_next_run_at d \<le> j_next_run_at q"
      "l = leased_of (take_job w now secs d)"
      and t': "t' = update_where (\<lambda>r. j_id r = j_id d) (take_job w now secs) t"
    have look: "lookup_by j_id j t' =
        map_option (\<lambda>r. if j_id r = j_id d then take_job w now secs r else r) (lookup_by j_id j t)" for j
      unfolding t' by (rule lookup_by_update_where) simp
    have "lookup_by j_id (j_id d) t = Some d"
      using d(1) assms(1) by (simp add: lookup_by_unique)
    then have "job_holds t' (j_id d) w"
      by (simp add: look job_holds_def job_held_def)
    moreover have "lookup_by j_id j t' = lookup_by j_id j t" if "j \<noteq> j_id d" for j
      unfolding look using that
      by (cases "lookup_by j_id j t") (auto dest: lookup_by_key simp del: lookup_by_None)
    ultimately show ?thesis
      using d Some by (auto simp: leased_of_def intro!: bexI [of _ d])
  qed
qed

lemma acquire_lease_spec_witness:
  "\<exists>d \<in> set [run_job]. job_holds [take_job ''w'' 1 60 run_job] (j_id d) ''w''"
proof -
  have "acquire_lease (\<lambda>_. False) ''w'' 1 60 [run_job] =
      (Some run_lease_of, [take_job ''w'' 1 60 run_job])"
    by (simp add: acquire_lease_def select_first_def job_due_def run_job_defs)
  from acquire_lease_spec [OF _ this] show ?thesis by (auto simp: unique_by_def)
qed

text \<open>
  C18. Only the worker that holds a job's lease ends its attempt, and no attempt is ended
  twice: a worker whose lease was taken over cannot finish, requeue or defer the job, and
  after any finish nobody else's finish of that attempt applies.
\<close>

theorem lease_excludes_others:
  assumes "unique_by j_id t" "job_holds t i w" "job_finish v i t t'"
  shows "v = w \<and> \<not> job_finish u i t' t'' \<and> (j \<noteq> i \<longrightarrow> job_holds t' j x = job_holds t j x)"
proof -
  have uniq': "unique_by j_id t'"
  proof -
    from job_finish_shape [OF assms(3)] obtain P f where a: "apply_where P f t = (True, t')"
      and P: "\<And>r. P r \<Longrightarrow> j_id (f r) = j_id r" by blast
    from a have "t' = update_where P f t" by (simp add: apply_where_def)
    with assms(1) P show ?thesis by (simp add: unique_update_where)
  qed
  have "v = w"
    using job_lease.stale_cannot_finish [OF assms(2)] assms(1,3) by blast
  moreover have "\<not> job_finish u i t' t''"
    using job_lease.no_second_finish [where t = t and t' = t' and t'' = t''] assms(1,3) uniq' by blast
  moreover have "job_holds t' j x = job_holds t j x" if "j \<noteq> i"
    using job_lease.finish_frame [where t = t and t' = t'] assms(1,3) that by blast
  ultimately show ?thesis by blast
qed

lemma lease_excludes_others_witness:
  "\<forall>t. \<not> job_finish ''v'' 5 [run_done_job] t"
proof -
  have "job_finish ''w'' 5 [take_job ''w'' 1 60 run_job] [run_done_job]"
    by (rule jf_succeeded [of 5 _ 2])
       (simp add: job_finish_succeeded_def apply_where_def rowcount_def run_job_defs take_job_def
         job_held_uncancelled_def job_held_def)
  then show ?thesis
    using lease_excludes_others [where t = "[take_job ''w'' 1 60 run_job]" and i = 5
        and w = "''w''" and v = "''w''" and t' = "[run_done_job]" and u = "''v''"]
    by (auto simp: unique_by_def job_holds_def job_held_def run_job_def new_job_def)
qed

text \<open>
  What happens to the job table while a worker runs a handler: the writes of everyone else, and
  the checkpoints of the worker's own token, which starts with no memory of an extension.
\<close>

inductive foreign_write :: "string \<Rightarrow> 'p jobs \<Rightarrow> 'p jobs \<Rightarrow> bool" for w where
  fw_enqueue: "enqueue_job fresh known kind p now mx nx op dd t = Inr (a, t') \<Longrightarrow> foreign_write w t t'"
| fw_acquire: "v \<noteq> w \<Longrightarrow> acquire_lease locked v now s t = (l, t') \<Longrightarrow> foreign_write w t t'"
| fw_extend: "v \<noteq> w \<Longrightarrow> extend_lease j v now s t = (b, t') \<Longrightarrow> foreign_write w t t'"
| fw_finish: "v \<noteq> w \<Longrightarrow> job_finish v j t t' \<Longrightarrow> foreign_write w t t'"
| fw_cancel: "request_cancellation j now t ops = (st, t', ops') \<Longrightarrow> foreign_write w t t'"

inductive token_run :: "uuid \<Rightarrow> string \<Rightarrow> instant option \<Rightarrow> 'p jobs \<Rightarrow> bool" for i w where
  tk_fresh: "unique_by j_id t \<Longrightarrow> token_run i w None t"
| tk_checkpoint: "token_run i w m t \<Longrightarrow> checkpoint i w now force m t = (c, m', t') \<Longrightarrow>
    token_run i w m' t'"
| tk_foreign: "token_run i w m t \<Longrightarrow> foreign_write w t t' \<Longrightarrow> token_run i w m t'"

text \<open>Nobody else gives a lease to the worker or moves the end of one it has.\<close>

lemma foreign_write_frame:
  assumes "foreign_write w t t'" "unique_by j_id t"
  shows "unique_by j_id t' \<and>
    (\<forall>i r'. lookup_by j_id i t' = Some r' \<and> job_held i w r' \<longrightarrow>
       (\<exists>r. lookup_by j_id i t = Some r \<and> job_held i w r \<and> j_lease_until r' = j_lease_until r))"
proof -
  have upd: ?thesis
    if "t' = update_where P f t" and "\<And>r. P r \<Longrightarrow> j_id (f r) = j_id r"
      "\<And>r i. P r \<Longrightarrow> job_held i w (f r) \<Longrightarrow> job_held i w r \<and> j_lease_until (f r) = j_lease_until r"
    for P f
    using that assms(2) by (auto simp: unique_update_where lookup_by_update_where split: if_splits)
  show ?thesis
    using assms(1)
  proof (cases rule: foreign_write.cases)
    case (fw_enqueue fresh known kind p now mx nx op dd a)
    have new: "j_id (new_job fresh kind p now mx n op) = fresh"
      "\<not> job_held i w (new_job fresh kind p now mx n op)" for n i
      by (simp_all add: new_job_def job_held_def)
    show ?thesis
      using enqueue_job_InrD [OF fw_enqueue] assms(2) new(2)
      by (auto simp: lookup_by_append unique_by_def new(1) split: option.splits if_splits)
  next
    case (fw_acquire v locked now s l)
    show ?thesis
    proof (cases l)
      case None
      with fw_acquire assms(2) show ?thesis by (auto dest: acquire_lease_NoneD(1))
    next
      case (Some l')
      with fw_acquire have "acquire_lease locked v now s t = (Some l', t')" by simp
      then obtain d where "d \<in> set t" "t' = update_where (\<lambda>r. j_id r = j_id d) (take_job v now s) t"
        by (rule acquire_lease_SomeD)
      from this(2) show ?thesis by (rule upd) (use fw_acquire(1) in \<open>auto simp: take_job_def job_held_def\<close>)
    qed
  next
    case (fw_extend v j now s b)
    then have "t' = update_where (job_held j v) (\<lambda>r. r\<lparr>j_lease_until := Some (now + seconds s)\<rparr>) t"
      by (simp add: extend_lease_def)
    then show ?thesis by (rule upd) (use fw_extend(1) in \<open>auto simp: job_held_def\<close>)
  next
    case (fw_finish v j)
    from job_finish_shape [OF fw_finish(2)] obtain P f where "apply_where P f t = (True, t')"
      and P: "\<And>r. P r \<Longrightarrow> job_held j v r \<and> j_id (f r) = j_id r \<and> j_state (f r) \<noteq> JobLeased" by blast
    then have "t' = update_where P f t" by (simp add: apply_where_def)
    then show ?thesis by (rule upd) (use P in \<open>auto simp: job_held_def\<close>)
  next
    case (fw_cancel j now ops st ops')
    then have "t' = update_where (cancellable j) (cancel_values now) t"
      using request_cancellation_jobs [of j now t ops] by simp
    then show ?thesis
      by (rule upd) (auto simp: cancel_values_def job_held_def Let_def split: if_splits)
  qed
qed

lemma find_held:
  assumes "lookup_by j_id i t = Some r" "unique_by j_id t"
  shows "find (job_held i w) t = (if job_held i w r then Some r else None)"
proof -
  have r: "r \<in> set t" "j_id r = i" using lookup_by_in [OF assms(1)] lookup_by_key [OF assms(1)] by auto
  have only: "q = r" if "q \<in> set t" "job_held i w q" for q
    using that r assms(2) by (auto simp: job_held_def intro: unique_by_eqD)
  show ?thesis
  proof (cases "job_held i w r")
    case True
    with r have "find (job_held i w) t \<noteq> None" by (auto simp: find_None_iff)
    then obtain q where q: "find (job_held i w) t = Some q" by blast
    then have "q \<in> set t" "job_held i w q" by (auto simp: find_Some_iff)
    with q True only show ?thesis by simp
  qed (use only in \<open>auto simp: find_None_iff\<close>)
qed

lemma checkpoint_row:
  assumes "checkpoint i w now force m t = (c, m', t')" "lookup_by j_id i t = Some r"
  shows "lookup_by j_id i t' = Some (if c \<noteq> Throttled \<and> job_held i w r
      then r\<lparr>j_lease_until := Some (now + seconds lease_seconds)\<rparr> else r)"
  using assms
  by (auto simp: checkpoint_def extend_lease_def lookup_by_update_where
      split: if_splits option.splits prod.splits bool.splits)

text \<open>So what a token remembers is where the lease of a job it still holds comes from.\<close>

lemma token_memory:
  assumes "token_run i w m t"
  shows "unique_by j_id t \<and> (\<forall>e r. m = Some e \<and> lookup_by j_id i t = Some r \<and> job_held i w r \<longrightarrow>
    j_lease_until r = Some (e + seconds lease_seconds))"
  using assms
proof (induction rule: token_run.induct)
  case (tk_checkpoint m t now force c m' t')
  have "unique_by j_id t'"
    using tk_checkpoint(2,3) checkpoint_jobs [OF tk_checkpoint(2)]
    by (auto simp: extend_lease_def unique_update_where)
  moreover have "j_lease_until r' = Some (e + seconds lease_seconds)"
    if "m' = Some e" "lookup_by j_id i t' = Some r'" "job_held i w r'" for e r'
  proof -
    have "lookup_by j_id i t \<noteq> None"
      using that(2) checkpoint_jobs [OF tk_checkpoint(2)]
      by (auto simp: extend_lease_def lookup_by_update_where simp del: lookup_by_None)
    then obtain r where r: "lookup_by j_id i t = Some r" by blast
    have held: "job_held i w r"
      using that checkpoint_row [OF tk_checkpoint(2) r] by (auto split: if_splits)
    have find: "find (job_held i w) t = Some r" using find_held [OF r] tk_checkpoint(3) held by simp
    show ?thesis
    proof (cases "c = Throttled")
      case True
      then have "m' = m" using tk_checkpoint(2)
        by (auto simp: checkpoint_def split: if_splits option.splits prod.splits bool.splits)
      with True that r held tk_checkpoint(3) checkpoint_row [OF tk_checkpoint(2) r] show ?thesis by simp
    next
      case False
      then have "m' = Some now" using tk_checkpoint(2) find
        by (auto simp: checkpoint_def extend_lease_def split: if_splits option.splits prod.splits bool.splits)
      with False that held checkpoint_row [OF tk_checkpoint(2) r] show ?thesis by auto
    qed
  qed
  ultimately show ?case by blast
next
  case (tk_foreign m t t')
  with foreign_write_frame [OF tk_foreign(2)] show ?case by metis
qed simp

text \<open>
  C23. Whatever others write and however often the token was used before, a checkpoint that returns
  to a worker that still holds its job leaves it more than forty seconds of lease. One that reads
  the database raises exactly when the lease is lost or the job is cancelled. It reads unless it
  is not forced and the token's last extension is less than twenty seconds old; then it returns
  without looking, also to a worker that has lost its lease meanwhile.
\<close>

theorem checkpoint_keeps_lease:
  assumes "token_run i w m t" "checkpoint i w now force m t = (c, m', t')"
    and "lookup_by j_id i t = Some r"
  shows "(job_held i w r \<and> (c = Throttled \<or> c = Extended) \<longrightarrow>
      (\<exists>r' u. lookup_by j_id i t' = Some r' \<and> job_held i w r' \<and> j_lease_until r' = Some u \<and>
         now + seconds 40 < u)) \<and>
    (c \<noteq> Throttled \<longrightarrow> (c = Raised_Lease_Lost \<longleftrightarrow> \<not> job_held i w r) \<and>
       (c = Raised_Cancelled \<longleftrightarrow> job_held i w r \<and> j_cancel_requested r)) \<and>
    (c = Throttled \<longleftrightarrow> \<not> force \<and> (\<exists>e. m = Some e \<and> now - e < seconds 20)) \<and>
    (c = Throttled \<longrightarrow> m' = m \<and> t' = t) \<and>
    (c = Extended \<or> c = Raised_Cancelled \<longrightarrow> m' = Some now)"
proof -
  note memory = token_memory [OF assms(1)]
  have find: "find (job_held i w) t = (if job_held i w r then Some r else None)"
    using find_held [OF assms(3)] memory by simp
  note row = checkpoint_row [OF assms(2,3)]
  show ?thesis
  proof (cases "\<not> force \<and> (\<exists>e. m = Some e \<and> now - e < seconds heartbeat_seconds)")
    case True
    then obtain e where e: "m = Some e" "now - e < seconds heartbeat_seconds" "c = Throttled" "m' = m" "t' = t"
      using assms(2) by (auto simp: checkpoint_def)
    then show ?thesis
      using True memory assms(3) by (auto simp: lease_seconds_def heartbeat_seconds_def seconds_def)
  next
    case False
    then have c: "(c, m') = (if \<not> job_held i w r then (Raised_Lease_Lost, m)
        else if j_cancel_requested r then (Raised_Cancelled, Some now) else (Extended, Some now))"
      using assms(2) find
      by (auto simp: checkpoint_def extend_lease_def split: option.splits if_splits bool.splits)
    with False row show ?thesis
      by (auto simp: lease_seconds_def heartbeat_seconds_def seconds_def job_held_def split: if_splits)
  qed
qed

lemma checkpoint_keeps_lease_witness:
  "checkpoint 5 ''w'' 30000000 False (Some 15000000) [(take_job ''w'' 1 60 run_job)\<lparr>j_lease_until := Some 75000000\<rparr>] =
     (Throttled, Some 15000000, [(take_job ''w'' 1 60 run_job)\<lparr>j_lease_until := Some 75000000\<rparr>]) \<and>
   (30000000::int) + seconds 40 < 75000000"
proof -
  let ?t = "[take_job ''w'' 1 60 run_job]" and ?r = "(take_job ''w'' 1 60 run_job)\<lparr>j_lease_until := Some 75000000\<rparr>"
  have first: "checkpoint 5 ''w'' 15000000 False None ?t = (Extended, Some 15000000, [?r])"
    by (simp add: checkpoint_def extend_lease_def job_held_def run_job_def new_job_def take_job_def
        lease_seconds_def seconds_def update_where_def)
  have run: "token_run 5 ''w'' (Some 15000000) [?r]"
    by (rule tk_checkpoint [OF tk_fresh first]) (simp add: unique_by_def)
  have c: "checkpoint 5 ''w'' 30000000 False (Some 15000000) [?r] = (Throttled, Some 15000000, [?r])"
    by (simp add: checkpoint_def heartbeat_seconds_def seconds_def)
  from checkpoint_keeps_lease [OF run c, of ?r] c show ?thesis
    by (simp add: run_job_def new_job_def job_held_def take_job_def)
qed

section \<open>A job's visit ends\<close>

fun pc_rank :: "'p pc \<Rightarrow> nat" where
  "pc_rank P_Idle = 0"
| "pc_rank (P_Resolve _ _) = 1"
| "pc_rank (P_Failed _ _) = 2"
| "pc_rank (P_Unready _) = 2"
| "pc_rank (P_Handler _) = 3"
| "pc_rank (P_Cont_Check _ _ n) = 3 * n + 1"
| "pc_rank (P_Cont_Failed _ _ n _) = 3 * n + 2"
| "pc_rank (P_Cont _ _ n) = 3 * n + 3"
| "pc_rank (P_Leased _ _) = 10"

text \<open>
  C24. A worker is never stuck on a job and never on it for ever: from every place of a visit
  some transaction can run, and every one brings it closer to the end, at most ten from the
  lease on.
\<close>

theorem visit_of_a_job_ends:
  assumes "pc \<noteq> P_Idle"
  shows "(\<exists>pc' db'. worker_tx kinds w db pc pc' db') \<and>
    (\<forall>pc' db'. worker_tx kinds w db pc pc' db' \<longrightarrow> pc_rank pc' < pc_rank pc)"
proof
  show "\<forall>pc' db'. worker_tx kinds w db pc pc' db' \<longrightarrow> pc_rank pc' < pc_rank pc"
  proof (intro allI impI)
    fix pc' db' assume "worker_tx kinds w db pc pc' db'"
    then show "pc_rank pc' < pc_rank pc"
      by (cases rule: worker_tx.cases;
          auto simp: run_leased_job_def fail_terminally_def run_handler_def handler_failed_def
            defer_unready_def resolve_place_def run_continuation_def continuation_failed_def
            continuation_check_def Let_def
            split: if_splits prod.splits option.splits handler_outcome.splits sum.splits)
  qed
  show "\<exists>pc' db'. worker_tx kinds w db pc pc' db'"
  proof (cases pc)
    case (P_Leased l now)
    obtain pc' db' where "run_leased_job kinds True 0 l w now db = (pc', db')" by fastforce
    with P_Leased show ?thesis by (blast intro: tx_gates)
  next
    case (P_Handler l)
    have "worker_tx kinds w db (P_Handler l) (P_Resolve l None) db"
      by (rule tx_handler [of Handler_Stopped]) (simp_all add: handler_did_def run_handler_def)
    with P_Handler show ?thesis by blast
  next
    case (P_Failed l e)
    obtain pc' db' where "handler_failed 0 None l w e db = (pc', db')" by fastforce
    with P_Failed show ?thesis by (blast intro: tx_failed)
  next
    case (P_Unready l)
    obtain pc' db' where "defer_unready 0 l w db = (pc', db')" by fastforce
    with P_Unready show ?thesis by (blast intro: tx_unready)
  next
    case (P_Resolve l handed)
    obtain pc' db' where "resolve_place 0 l handed w db = (pc', db')" by fastforce
    with P_Resolve show ?thesis by (blast intro: tx_resolve)
  next
    case (P_Cont l mode n)
    have "worker_tx kinds w db (P_Cont l mode n) (P_Cont_Failed l mode n []) db"
      by (rule tx_cont [of "Inl []"]) (simp_all add: continuation_did_def run_continuation_def)
    with P_Cont show ?thesis by blast
  next
    case (P_Cont_Failed l mode n e)
    obtain pc' db' where "continuation_failed 0 None l mode n e w db = (pc', db')" by fastforce
    with P_Cont_Failed show ?thesis by (blast intro: tx_cont_failed)
  next
    case (P_Cont_Check l mode n)
    then show ?thesis by (blast intro: tx_cont_check)
  qed (use assms in simp)
qed

lemma visit_of_a_job_ends_witness:
  "\<exists>pc' db'. worker_tx run_kinds ''w'' (run_db [] []) (P_Handler run_lease_of) pc' db' \<and>
     pc_rank pc' < 3"
  using visit_of_a_job_ends [of "P_Handler run_lease_of" run_kinds "''w''" "run_db [] []"]
  by fastforce

section \<open>What a cancellation request does\<close>

text \<open>
  C22. A cancellation request ends a queued job at once, together with its operation record;
  a queued external action is instead made due now so that its continuation settles it; a
  leased job is only flagged; a finished or unknown job is left exactly as it is.
\<close>

theorem request_cancellation_spec:
  assumes "unique_by j_id t" "request_cancellation i now t ops = (st, t', ops')"
  shows "case lookup_by j_id i t of
      None \<Rightarrow> st = None \<and> t' = t \<and> ops' = ops
    | Some r \<Rightarrow>
        if job_finished r then st = None \<and> t' = t \<and> ops' = ops
        else (\<exists>r'. lookup_by j_id i t' = Some r' \<and> st = Some (j_state r') \<and> j_cancel_requested r' \<and>
            (\<forall>j. j \<noteq> i \<longrightarrow> lookup_by j_id j t' = lookup_by j_id j t) \<and>
            (if j_state r = JobLeased then j_state r' = JobLeased \<and> ops' = ops
             else if j_kind r = external_action_execute
             then j_state r' = JobQueued \<and> j_next_run_at r' = now \<and> ops' = ops
             else j_state r' = JobCancelled \<and> j_finished_at r' = Some now \<and>
               ops' = (case j_operation_id r of None \<Rightarrow> ops
                       | Some q \<Rightarrow> snd (op_finish_cancelled q now ops))))"
proof -
  have t': "t' = update_where (cancellable i) (cancel_values now) t"
    using request_cancellation_jobs [of i now t ops] assms(2) by simp
  have look: "lookup_by j_id j t' =
      map_option (\<lambda>r. if cancellable i r then cancel_values now r else r) (lookup_by j_id j t)" for j
    unfolding t' by (rule lookup_by_update_where) simp
  have other: "lookup_by j_id j t' = lookup_by j_id j t" if "j \<noteq> i" for j
    unfolding look using that
    by (cases "lookup_by j_id j t") (auto simp: cancellable_def dest: lookup_by_key simp del: lookup_by_None)
  show ?thesis
  proof (cases "find (cancellable i) t")
    case None
    then have "\<forall>r \<in> set t. \<not> cancellable i r" by (auto simp: find_None_iff)
    moreover have "st = None \<and> t' = t \<and> ops' = ops"
      using None assms(2) by (simp add: request_cancellation_def)
    moreover have "job_finished r" if "lookup_by j_id i t = Some r" "\<forall>r \<in> set t. \<not> cancellable i r" for r
      using that(2) lookup_by_in [OF that(1)] lookup_by_key [OF that(1)]
      by (cases "j_state r") (auto simp: cancellable_def job_finished_def)
    ultimately show ?thesis
      by (cases "lookup_by j_id i t") (simp_all del: lookup_by_None)
  next
    case (Some r)
    from find_cancellable [OF Some] have r: "r \<in> set t" "cancellable i r" by simp_all
    then have lr: "lookup_by j_id i t = Some r"
      using assms(1) by (auto simp: lookup_by_unique cancellable_def)
    from Some assms(2) have st: "st = Some (j_state (cancel_values now r))"
      and ops: "ops' = (case j_operation_id r of None \<Rightarrow> ops | Some q \<Rightarrow>
        if j_state (cancel_values now r) = JobCancelled then snd (op_finish_cancelled q now ops) else ops)"
      by (auto simp: request_cancellation_def Let_def split: option.splits)
    let ?r' = "cancel_values now r"
    have row: "lookup_by j_id i t' = Some ?r'"
      using lr r(2) by (simp add: look)
    have live: "\<not> job_finished r"
      using r(2) by (auto simp: cancellable_def job_finished_def)
    have "if j_state r = JobLeased then j_state ?r' = JobLeased \<and> ops' = ops
       else if j_kind r = external_action_execute
       then j_state ?r' = JobQueued \<and> j_next_run_at ?r' = now \<and> ops' = ops
       else j_state ?r' = JobCancelled \<and> j_finished_at ?r' = Some now \<and>
         ops' = (case j_operation_id r of None \<Rightarrow> ops | Some q \<Rightarrow> snd (op_finish_cancelled q now ops))"
    proof -
      consider (leased) "j_state r = JobLeased"
        | (action) "j_state r = JobQueued" "j_kind r = external_action_execute"
        | (queued) "j_state r = JobQueued" "j_kind r \<noteq> external_action_execute"
        using r(2) by (auto simp: cancellable_def)
      then show ?thesis
      proof cases
        case leased
        then have "j_state ?r' = JobLeased" by (simp add: cancel_values_def Let_def)
        with leased ops show ?thesis by (simp split: option.splits)
      next
        case action
        then have "j_state ?r' = JobQueued" "j_next_run_at ?r' = now"
          by (simp_all add: cancel_values_def Let_def)
        with action ops show ?thesis by (simp split: option.splits)
      next
        case queued
        then have "j_state ?r' = JobCancelled" "j_finished_at ?r' = Some now"
          by (simp_all add: cancel_values_def Let_def)
        with queued ops show ?thesis by (simp split: option.splits)
      qed
    qed
    then show ?thesis
      unfolding lr option.case if_not_P [OF live]
      by (intro exI [of _ ?r'] conjI row st allI impI other) simp_all
  qed
qed

lemma request_cancellation_spec_witness:
  "\<exists>t'. request_cancellation 5 9 [run_job] [] = (Some JobCancelled, t', [])"
proof -
  obtain st t' ops' where q: "request_cancellation 5 9 [run_job] [] = (st, t', ops')"
    by (metis prod_cases3)
  from request_cancellation_spec [OF _ q] q show ?thesis
    by (auto simp: unique_by_def run_job_def new_job_def job_finished_def op_finish_cancelled_def
        apply_where_def external_action_execute_def)
qed

end
