(* ===== verification/Repository_Guarantees.thy ===== *)
theory Repository_Guarantees
  imports Deliveries Jobs
begin

text \<open>
  What the repositories of operation records, jobs and deliveries promise on their own: final
  outcomes, the state graph, checked successes, well-formed rows, the retry schedule, and the
  batched failure count against its unbatched meaning.
\<close>

section \<open>Operation records\<close>

definition sample_operation :: operation where
  "sample_operation = \<lparr>o_id = 6, o_name = ''m.o'', o_safety_class = ''internal'',
     o_actor_kind = ''user'', o_actor_id = None, o_entry = ''http'', o_audience_kind = ''all'',
     o_audience_id = None, o_state = OpPending, o_approval_id = None, o_progress_text = None,
     o_progress_fraction = None, o_result_ref = None, o_error_code = None, o_error_text = None,
     o_terminal_check_kind = None, o_terminal_check_at = None, o_provider_request_id = None,
     o_created_at = 0, o_started_at = None, o_terminal_at = None\<rparr>"

text \<open>
  The outcome of an operation is final: no sequence of writes changes anything in the
  record of an operation that succeeded, failed or was cancelled.
\<close>

theorem operation_outcome_final:
  assumes "op_write\<^sup>*\<^sup>* t t'" "lookup_by o_id i t = Some r" "op_terminal r"
  shows "lookup_by o_id i t' = Some r"
  using assms by (rule ops.terminal_stays)

lemma operation_outcome_final_witness:
  "lookup_by o_id 6 (snd (op_finish_failed 6 9 ''c'' ''e'' [sample_operation\<lparr>o_state := OpCancelled\<rparr>])) =
     Some (sample_operation\<lparr>o_state := OpCancelled\<rparr>)"
  by (rule operation_outcome_final [OF r_into_rtranclp [of op_write, OF w_failed]])
     (simp_all add: sample_operation_def op_terminal_def)

text \<open>
  C20. A record is never lost and moves only along the edges of the state graph: from pending
  anywhere, from running anywhere but back, from approval-required to running or an outcome,
  from unresolved to an outcome, and from an outcome nowhere.
\<close>

theorem operation_follows_state_graph:
  assumes "op_write t t'" "lookup_by o_id i t = Some r"
  shows "\<exists>r'. lookup_by o_id i t' = Some r' \<and> (r' = r \<or> op_edge (o_state r) (o_state r'))"
  using assms by (rule op_write_row)

lemma operation_follows_state_graph_witness:
  "\<exists>r'. lookup_by o_id 6 (snd (mark_running 6 9 [sample_operation])) = Some r' \<and>
     (r' = sample_operation \<or> op_edge OpPending (o_state r'))"
  using operation_follows_state_graph [OF w_running [of "[sample_operation]" 6 9], of 6 sample_operation]
  by (simp add: sample_operation_def)

text \<open>
  Nothing is ever recorded as succeeded without the check that says so: every succeeded
  record the writes can produce names its terminal check and when it was made, the resolution
  of an unresolved record included.
\<close>

theorem success_is_checked:
  assumes "op_write\<^sup>*\<^sup>* [] t" "r \<in> set t" "o_state r = OpSucceeded"
  shows "o_terminal_check_kind r \<noteq> None \<and> o_terminal_check_at r \<noteq> None"
proof -
  have "op_checked t"
    using assms(1) by (induction rule: rtranclp_induct) (auto intro: op_write_checked simp: op_checked_def [of "[]"])
  with assms(2,3) show ?thesis by (auto simp: op_checked_def operation_check_def)
qed

lemma success_is_checked_witness:
  "\<exists>r \<in> set (snd (op_finish_succeeded 6 9 Handler_Returned 9 None [sample_operation])).
     o_state r = OpSucceeded \<and> o_terminal_check_kind r \<noteq> None"
proof -
  let ?t = "snd (op_finish_succeeded 6 9 Handler_Returned 9 None [sample_operation])"
  have "mint 6 None ''m.o'' ''internal'' ''user'' None ''http'' ''all'' None 0 [] =
      Inr (6, [sample_operation])"
    by (simp add: mint_def insert_row_def sample_operation_def)
  then have "op_write [] [sample_operation]" by (rule w_mint)
  then have reach: "op_write\<^sup>*\<^sup>* [] ?t"
    using w_succeeded [of "[sample_operation]" 6 9 Handler_Returned 9 None]
    by (meson converse_rtranclp_into_rtranclp r_into_rtranclp)
  have "hd ?t \<in> set ?t \<and> o_state (hd ?t) = OpSucceeded"
    by (simp add: op_finish_succeeded_def sample_operation_def op_open_def)
  with success_is_checked [OF reach, of "hd ?t"] show ?thesis by blast
qed

section \<open>Jobs\<close>

definition sample_job :: "unit job" where
  "sample_job = new_job 5 ''m.k'' () 0 3 0 None"

lemma sample_job_write: "job_write [] [sample_job]"
  by (rule jw_enqueue [of 5 "\<lambda>_. True" "''m.k''" "()" 0 3 None None False _ "Job_Id 5"])
     (simp add: enqueue_job_def insert_row_def sample_job_def new_job_def)

text \<open>
  C21. Every job row the writes can produce is well formed: a lease exactly while leased, a
  finish time exactly once finished, attempts never negative, and a queued row flagged for
  cancellation only for an external action.
\<close>

theorem jobs_well_formed:
  assumes "job_write\<^sup>*\<^sup>* [] t"
  shows "unique_by j_id t \<and> (\<forall>r \<in> set t.
    (j_lease_owner r \<noteq> None \<longleftrightarrow> j_state r = JobLeased) \<and>
    (j_lease_until r \<noteq> None \<longleftrightarrow> j_state r = JobLeased) \<and>
    (j_finished_at r \<noteq> None \<longleftrightarrow> job_finished r) \<and> 0 \<le> j_attempts r \<and>
    (j_state r = JobQueued \<and> j_cancel_requested r \<longrightarrow> j_kind r = external_action_execute))"
proof -
  have "jobs_ok t"
    using assms
    by (induction rule: rtranclp_induct) (auto intro: job_write_ok simp: jobs_ok_def [of "[]"] unique_by_def)
  then show ?thesis by (auto simp: jobs_ok_def job_ok_def)
qed

lemma jobs_well_formed_witness: "j_lease_owner sample_job = None"
  using jobs_well_formed [OF r_into_rtranclp [of job_write, OF sample_job_write]]
  by (auto simp: sample_job_def new_job_def)

text \<open>
  The outcome of a job is final: once succeeded, failed or cancelled its row is never
  changed again, by any worker, lease or cancellation.
\<close>

theorem job_outcome_final:
  assumes "jobs_ok t" "job_write\<^sup>*\<^sup>* t t'" "lookup_by j_id i t = Some r" "job_finished r"
  shows "lookup_by j_id i t' = Some r"
proof -
  have "(\<lambda>t t'. jobs_ok t \<and> job_write t t')\<^sup>*\<^sup>* t t' \<and> jobs_ok t'"
    using assms(2,1)
    by (induction rule: rtranclp_induct) (auto intro: job_write_ok rtranclp.rtrancl_into_rtrancl)
  then show ?thesis
    using jobs.terminal_stays assms(3,4) by blast
qed

lemma job_outcome_final_witness:
  "lookup_by j_id 5 (snd (job_finish_cancelled 5 ''w'' 9
       [sample_job\<lparr>j_state := JobSucceeded, j_finished_at := Some 1\<rparr>])) =
     Some (sample_job\<lparr>j_state := JobSucceeded, j_finished_at := Some 1\<rparr>)"
  by (rule job_outcome_final [OF _ r_into_rtranclp [of job_write, OF jw_cancelled]])
     (simp_all add: sample_job_def new_job_def job_finished_def jobs_ok_def job_ok_def unique_by_def)

section \<open>The retry schedule\<close>

text \<open>
  C25. Whatever the jitter draws, a retry waits at least its step of the schedule and at most a
  tenth more, never less than five seconds nor more than sixty-six minutes; and each of the
  first six attempts waits strictly longer than the one before it.
\<close>

theorem retry_schedule:
  assumes "\<forall>u. jitter = Some u \<longrightarrow> uniform_within u" "\<forall>u. jitter' = Some u \<longrightarrow> uniform_within u"
  shows "seconds (backoff_base n) \<le> backoff_for n jitter \<and>
    backoff_for n jitter * 10 \<le> seconds (backoff_base n) * 11 \<and>
    seconds 5 \<le> backoff_for n jitter \<and> backoff_for n jitter \<le> seconds (66 * 60) \<and>
    (1 \<le> n \<longrightarrow> n < m \<longrightarrow> n \<le> 5 \<longrightarrow> backoff_for n jitter < backoff_for m jitter')"
proof -
  have lo: "seconds (backoff_base k) \<le> backoff_for k j"
    and up: "backoff_for k j \<le> backoff_base k * 1100000"
    if "\<forall>u. j = Some u \<longrightarrow> uniform_within u" for k j
    using that backoff_for_lower [of j k] backoff_for_upper [of j k] by simp_all
  have "5 \<le> backoff_base n" "backoff_base n \<le> 3600" by (simp_all add: backoff_base_eq)
  moreover have "backoff_for n jitter < backoff_for m jitter'" if "1 \<le> n" "n < m" "n \<le> 5"
    using lo [OF assms(2), of m] up [OF assms(1), of n] backoff_base_step [OF that(2,1,3)]
      backoff_base_pos [of n]
    by (simp add: seconds_def)
  ultimately show ?thesis
    using lo [OF assms(1), of n] up [OF assms(1), of n] by (auto simp: seconds_def)
qed

lemma retry_schedule_witness:
  "backoff_for 1 (Some (\<lambda>a b. b)) < backoff_for 2 None"
  using retry_schedule [of "Some (\<lambda>a b. b)" None 1 2] by (simp add: uniform_within_def)

section \<open>Deliveries\<close>

text \<open>
  C19. Only the worker that holds a delivery's lease ends its attempt, and no attempt is ended
  twice: a worker whose lease was taken over cannot deliver, requeue, defer or fail it.
\<close>

theorem delivery_lease_excludes_others:
  assumes "unique_by d_key t" "delivery_holds t k w" "delivery_finish v k t t'"
  shows "v = w \<and> \<not> delivery_finish u k t' t'' \<and>
    (j \<noteq> k \<longrightarrow> delivery_holds t' j x = delivery_holds t j x)"
proof -
  have uniq': "unique_by d_key t'"
    using delivery_finish_shape [OF assms(3)] assms(1)
    by (auto simp: apply_where_def intro!: unique_update_where)
  have "v = w"
    using delivery_lease.stale_cannot_finish [OF assms(2)] assms(1,3) by blast
  moreover have "\<not> delivery_finish u k t' t''"
    using delivery_lease.no_second_finish [where t = t and t' = t' and t'' = t''] assms(1,3) uniq'
    by blast
  moreover have "delivery_holds t' j x = delivery_holds t j x" if "j \<noteq> k"
    using delivery_lease.finish_frame [where t = t and t' = t'] assms(1,3) that by blast
  ultimately show ?thesis by blast
qed

lemma delivery_lease_excludes_others_witness:
  "\<forall>t. \<not> delivery_finish ''v'' (7, ''c'') [(fresh_delivery 0 ''c'' 7 ''s'' 1)\<lparr>d_state := DDelivered,
     d_attempts := 1, d_completed_at := Some 5\<rparr>] t"
proof -
  let ?t = "[take_delivery ''w'' 0 60 (fresh_delivery 0 ''c'' 7 ''s'' 1)]"
  let ?t' = "[(fresh_delivery 0 ''c'' 7 ''s'' 1)\<lparr>d_state := DDelivered,
     d_attempts := 1, d_completed_at := Some 5\<rparr>]"
  have "delivery_finish ''w'' (7, ''c'') ?t ?t'"
    by (rule df_delivered [of _ _ 5])
       (simp add: mark_delivered_def apply_where_def rowcount_def take_delivery_def
         fresh_delivery_def delivery_held_def d_key_def)
  then show ?thesis
    using delivery_lease_excludes_others [where t = ?t and t' = ?t' and k = "(7, ''c'')"
        and w = "''w''" and v = "''w''" and u = "''v''"]
    by (auto simp: unique_by_def delivery_holds_def delivery_held_def)
qed

lemma count_failed_in_append:
  "set xs \<inter> set ys = {} \<Longrightarrow>
   count_failed_in c (xs @ ys) t = count_failed_in c xs t + count_failed_in c ys t"
  by (induction t) (auto simp: count_failed_in_def rowcount_def)

lemma count_batches_eq:
  "distinct refs \<Longrightarrow> count_batches c refs t = count_failed_in c refs t"
proof (induction c refs t rule: count_batches.induct)
  case (1 c refs t)
  show ?case
  proof (cases "refs = []")
    case True
    then show ?thesis
      by (simp add: count_batches.simps count_failed_in_def rowcount_def)
  next
    case False
    have "count_failed_in c refs t =
        count_failed_in c (take 1000 refs) t + count_failed_in c (drop 1000 refs) t"
      using count_failed_in_append [of "take 1000 refs" "drop 1000 refs" c t]
        set_take_disj_set_drop_if_distinct [of refs 1000 1000] 1(2)
      by simp
    with 1 False show ?thesis
      by (subst count_batches.simps) simp
  qed
qed

text \<open>
  C28. The failure count over a list of subjects, however long and whatever repeats in it, is
  the number of the consumer's failed deliveries about one of them: batching counts no
  delivery twice and misses none.
\<close>

theorem failed_count_is_unbatched:
  "failed_delivery_count_for_subjects c refs t =
     card {k \<in> {..<length t}. d_state (t ! k) = DFailed \<and> d_consumer_id (t ! k) = c \<and>
        d_subject_ref (t ! k) \<in> set refs}"
proof -
  have "failed_delivery_count_for_subjects c refs t =
      count_failed_in c (sorted_list_of_set (set refs)) t"
    by (simp add: failed_delivery_count_for_subjects_def count_batches_eq)
  then show ?thesis
    by (simp add: count_failed_in_def rowcount_def length_filter_conv_card)
qed

end
