(* ===== verification/Due_Index.thy ===== *)
theory Due_Index
  imports Prelude
begin

text \<open>
  \<^verbatim>\<open>rheo_core/storage/work_index.py\<close>: the index from which workers discover the workspaces that
  may have work. \<open>due_index\<close> is the registry of workspaces with the index table.

  \<open>index_step\<close> is one transaction on it: a registration, a mark, the end of a visit. Its last
  argument is the process clock, which \<open>index_reach\<close> only moves forward. A mark names an instant
  that is not past the clock, as its two callers do (\<^verbatim>\<open>jobs.enqueue\<close> and
  \<^verbatim>\<open>dispatch._mark_workspace_due\<close> hand it the current time).
\<close>

section \<open>The tables\<close>

datatype workspace_state = WProvisioning | WMigrating | WActive | WUnavailable | WRestoring

record workspace_row =
  ws_id :: uuid
  ws_state :: workspace_state

record due_row =
  du_workspace_id :: uuid
  du_due_at :: instant
  du_updated_at :: instant

record due_index =
  di_workspaces :: "workspace_row list"
  di_due :: "due_row list"

record due_workspace =
  dw_workspace_id :: uuid
  dw_observed_due_at :: "instant option"

datatype index_error = Not_Positive | Index_Db db_error

section \<open>The read\<close>

definition due_of :: "due_index \<Rightarrow> uuid \<Rightarrow> instant option" where
  "due_of di w = map_option du_due_at (lookup_by du_workspace_id w (di_due di))"

text \<open>The rows of the outer join that the two conditions keep, in no order.\<close>

definition due_candidates :: "instant \<Rightarrow> due_index \<Rightarrow> due_workspace list" where
  "due_candidates now di =
     map (\<lambda>w. \<lparr>dw_workspace_id = ws_id w, dw_observed_due_at = due_of di (ws_id w)\<rparr>)
       (filter (\<lambda>w. ws_state w = WActive \<and>
                  (case due_of di (ws_id w) of None \<Rightarrow> True | Some d \<Rightarrow> d \<le> now))
          (di_workspaces di))"

text \<open>\<^verbatim>\<open>NULLS FIRST\<close> is the order of options: \<open>None\<close> is least.\<close>

definition workspaces_with_due_work ::
  "instant \<Rightarrow> int \<Rightarrow> due_index \<Rightarrow> index_error + due_workspace list" where
  "workspaces_with_due_work now limit di =
     (if limit < 1 then Inl Not_Positive
      else Inr (take (nat limit) (sort_key dw_observed_due_at (due_candidates now di))))"

section \<open>The writes\<close>

definition mark_work_due :: "instant \<Rightarrow> uuid \<Rightarrow> instant \<Rightarrow> due_index \<Rightarrow> index_error + due_index" where
  "mark_work_due now w instant di =
     (if w \<notin> ws_id ` set (di_workspaces di) then Inl (Index_Db Foreign_Key_Violation)
      else if w \<in> du_workspace_id ` set (di_due di)
      then Inr (di\<lparr>di_due := update_where (\<lambda>r. du_workspace_id r = w)
             (\<lambda>r. r\<lparr>du_due_at := min (du_due_at r) instant, du_updated_at := now\<rparr>) (di_due di)\<rparr>)
      else Inr (di\<lparr>di_due := di_due di @
             [\<lparr>du_workspace_id = w, du_due_at = instant, du_updated_at = now\<rparr>]\<rparr>))"

definition visit_due_at :: "instant \<Rightarrow> instant option \<Rightarrow> int \<Rightarrow> instant" where
  "visit_due_at now next_due_at reconcile_seconds =
     (let floor = now + seconds reconcile_seconds
      in case next_due_at of None \<Rightarrow> floor | Some n \<Rightarrow> min n floor)"

definition record_visit ::
  "instant \<Rightarrow> uuid \<Rightarrow> instant option \<Rightarrow> instant option \<Rightarrow> int \<Rightarrow> due_index \<Rightarrow>
   index_error + bool \<times> due_index" where
  "record_visit now w observed next_due_at reconcile_seconds di =
     (if reconcile_seconds < 1 then Inl Not_Positive
      else
        (let new_due_at = visit_due_at now next_due_at reconcile_seconds
         in case observed of
              None \<Rightarrow>
                if w \<in> du_workspace_id ` set (di_due di) then Inr (False, di)
                else if w \<notin> ws_id ` set (di_workspaces di) then Inl (Index_Db Foreign_Key_Violation)
                else Inr (True, di\<lparr>di_due := di_due di @
                       [\<lparr>du_workspace_id = w, du_due_at = new_due_at, du_updated_at = now\<rparr>]\<rparr>)
            | Some d \<Rightarrow>
                (let (applied, t) =
                   apply_where (\<lambda>r. du_workspace_id r = w \<and> du_due_at r = d)
                     (\<lambda>r. r\<lparr>du_due_at := new_due_at, du_updated_at := now\<rparr>) (di_due di)
                 in Inr (applied, di\<lparr>di_due := t\<rparr>))))"

section \<open>The transitions\<close>

inductive index_step :: "int \<Rightarrow> instant \<Rightarrow> due_index \<Rightarrow> due_index \<Rightarrow> bool"
  for reconcile clock where
  ix_register: "w \<notin> ws_id ` set (di_workspaces di) \<Longrightarrow>
    index_step reconcile clock di
      (di\<lparr>di_workspaces := di_workspaces di @ [\<lparr>ws_id = w, ws_state = st\<rparr>]\<rparr>)"
| ix_state: "index_step reconcile clock di
    (di\<lparr>di_workspaces := update_where (\<lambda>r. ws_id r = w) (\<lambda>r. r\<lparr>ws_state := st\<rparr>) (di_workspaces di)\<rparr>)"
| ix_delete: "index_step reconcile clock di
    (di\<lparr>di_workspaces := filter (\<lambda>r. ws_id r \<noteq> w) (di_workspaces di),
        di_due := filter (\<lambda>r. du_workspace_id r \<noteq> w) (di_due di)\<rparr>)"
| ix_mark: "mark_work_due clock w instant di = Inr di' \<Longrightarrow> instant \<le> clock \<Longrightarrow>
    index_step reconcile clock di di'"
| ix_visit: "record_visit clock w observed next_due_at reconcile di = Inr (b, di') \<Longrightarrow>
    index_step reconcile clock di di'"

inductive index_reach :: "int \<Rightarrow> instant \<Rightarrow> due_index \<Rightarrow> bool" for reconcile where
  ir_empty: "index_reach reconcile clock \<lparr>di_workspaces = [], di_due = []\<rparr>"
| ir_step: "index_reach reconcile clock di \<Longrightarrow> clock \<le> clock' \<Longrightarrow>
    index_step reconcile clock' di di' \<Longrightarrow> index_reach reconcile clock' di'"

section \<open>The invariant\<close>

definition index_ok :: "int \<Rightarrow> instant \<Rightarrow> due_index \<Rightarrow> bool" where
  "index_ok reconcile clock di \<longleftrightarrow>
     unique_by ws_id (di_workspaces di) \<and> unique_by du_workspace_id (di_due di) \<and>
     du_workspace_id ` set (di_due di) \<subseteq> ws_id ` set (di_workspaces di) \<and>
     (\<forall>r \<in> set (di_due di). du_due_at r \<le> clock + seconds reconcile)"

lemma visit_due_at_bound: "visit_due_at now n r \<le> now + seconds r"
  by (cases n) (simp_all add: visit_due_at_def Let_def)

lemma index_ok_later: "index_ok r c di \<Longrightarrow> c \<le> c' \<Longrightarrow> index_ok r c' di"
  by (fastforce simp: index_ok_def)

lemma mark_ok:
  assumes "mark_work_due clock w instant di = Inr di'" "instant \<le> clock" "0 < reconcile"
    and "index_ok reconcile clock di"
  shows "index_ok reconcile clock di'"
proof -
  have late: "instant \<le> clock + seconds reconcile" using assms(2,3) by (simp add: seconds_def)
  show ?thesis
    using assms(1,4) late
    by (auto simp: mark_work_due_def index_ok_def unique_by_def min_le_iff_disj
        split: if_splits intro!: unique_update_where [unfolded unique_by_def]
        elim!: in_update_whereE) (auto simp: update_where_def split: if_splits)
qed

lemma visit_ok:
  assumes "record_visit clock w observed n reconcile di = Inr (b, di')"
    and "index_ok reconcile clock di"
  shows "index_ok reconcile clock di'"
proof (cases observed)
  case None
  then show ?thesis
    using assms visit_due_at_bound [of clock n reconcile]
    by (auto simp: record_visit_def index_ok_def unique_by_def Let_def split: if_splits) blast
next
  case (Some d)
  then have "di_due di' = update_where (\<lambda>r. du_workspace_id r = w \<and> du_due_at r = d)
      (\<lambda>r. r\<lparr>du_due_at := visit_due_at clock n reconcile, du_updated_at := clock\<rparr>) (di_due di) \<and>
      di_workspaces di' = di_workspaces di"
    using assms(1) by (auto simp: record_visit_def apply_where_def Let_def split: if_splits)
  moreover from this have "unique_by du_workspace_id (di_due di')"
    using assms(2) by (simp add: index_ok_def unique_update_where)
  ultimately show ?thesis
    using assms(2) visit_due_at_bound [of clock n reconcile]
    by (auto simp: index_ok_def update_where_def split: if_splits)
qed

lemma index_step_ok:
  assumes "index_step reconcile clock di di'" "0 < reconcile" "index_ok reconcile clock di"
  shows "index_ok reconcile clock di'"
  using assms(1)
proof (cases rule: index_step.cases)
  case (ix_register w st)
  then show ?thesis using assms(3) by (auto simp: index_ok_def unique_by_def)
next
  case (ix_state w st)
  have "map ws_id (di_workspaces di') = map ws_id (di_workspaces di)"
    unfolding ix_state by (simp add: map_update_where)
  moreover from this have "ws_id ` set (di_workspaces di') = ws_id ` set (di_workspaces di)"
    by (metis list.set_map)
  ultimately show ?thesis
    using assms(3) ix_state by (simp add: index_ok_def unique_by_def)
next
  case (ix_delete w)
  then show ?thesis
    using assms(3) by (auto simp: index_ok_def unique_by_def distinct_map inj_on_def)
next
  case (ix_mark w instant)
  then show ?thesis using mark_ok assms(2,3) by blast
next
  case (ix_visit w observed n b)
  then show ?thesis using visit_ok assms(3) by blast
qed

lemma index_reach_ok:
  assumes "index_reach reconcile clock di" "0 < reconcile"
  shows "index_ok reconcile clock di"
  using assms
proof (induction rule: index_reach.induct)
  case (ir_step clock di clock' di')
  then show ?case using index_step_ok index_ok_later by blast
qed (simp add: index_ok_def unique_by_def)

section \<open>What the index promises\<close>

text \<open>
  C32. A workspace is found again within one reconcile interval of the last write, whatever marks
  were lost: a pass that reads the index a reconcile interval later returns every active
  workspace, or as many as its limit allows, none of them less urgent than the one left out.
\<close>

theorem every_workspace_rediscovered:
  assumes "index_reach reconcile clock di" "0 < reconcile" "clock + seconds reconcile \<le> now"
    and "workspaces_with_due_work now limit di = Inr ds"
    and "w \<in> set (di_workspaces di)" "ws_state w = WActive"
  shows "ws_id w \<in> dw_workspace_id ` set ds \<or>
    (length ds = nat limit \<and> (\<forall>d \<in> set ds. dw_observed_due_at d \<le> due_of di (ws_id w)))"
proof -
  let ?c = "due_candidates now di" and ?d = "\<lparr>dw_workspace_id = ws_id w, dw_observed_due_at = due_of di (ws_id w)\<rparr>"
  have ok: "index_ok reconcile clock di" by (rule index_reach_ok [OF assms(1,2)])
  have "\<forall>d. due_of di (ws_id w) = Some d \<longrightarrow> d \<le> now"
    using ok assms(3) by (fastforce simp: due_of_def index_ok_def dest: lookup_by_in)
  then have in_c: "?d \<in> set ?c"
    using assms(5,6) by (auto simp: due_candidates_def image_iff split: option.splits)
  have ds: "ds = take (nat limit) (sort_key dw_observed_due_at ?c)"
    using assms(4) by (auto simp: workspaces_with_due_work_def split: if_splits)
  show ?thesis
  proof (cases "?d \<in> set ds")
    case True
    then show ?thesis by force
  next
    case False
    let ?s = "sort_key dw_observed_due_at ?c"
    have parts: "?s = ds @ drop (nat limit) ?s" using ds by simp
    have "?d \<in> set ?s" using in_c by simp
    then have rest: "?d \<in> set (drop (nat limit) ?s)" using False parts by (metis Un_iff set_append)
    have "sorted (map dw_observed_due_at (ds @ drop (nat limit) ?s))"
      unfolding parts [symmetric] by simp
    then have "\<forall>d \<in> set ds. dw_observed_due_at d \<le> due_of di (ws_id w)"
      using rest by (force simp: sorted_append)
    moreover have "length ds = nat limit"
      using rest ds by (metis drop_all length_take list.set_cases min_def not_le_imp_less
          list.distinct(1) less_imp_le)
    ultimately show ?thesis by blast
  qed
qed

text \<open>The marks that commit between the read of the index and the end of the visit.\<close>

fun apply_marks :: "uuid \<Rightarrow> (instant \<times> instant) list \<Rightarrow> due_index \<Rightarrow> index_error + due_index" where
  "apply_marks w [] di = Inr di"
| "apply_marks w ((now, instant) # ms) di =
     (case mark_work_due now w instant di of Inl e \<Rightarrow> Inl e | Inr di' \<Rightarrow> apply_marks w ms di')"

definition lower_due :: "instant option \<Rightarrow> instant \<Rightarrow> instant option" where
  "lower_due d instant = Some (case d of None \<Rightarrow> instant | Some x \<Rightarrow> min x instant)"

lemma mark_due_of:
  assumes "mark_work_due now w instant di = Inr di'"
  shows "due_of di' w = lower_due (due_of di w) instant"
    "unique_by du_workspace_id (di_due di) \<Longrightarrow> unique_by du_workspace_id (di_due di')"
    "ws_id ` set (di_workspaces di') = ws_id ` set (di_workspaces di)" "w \<in> ws_id ` set (di_workspaces di)"
proof -
  show "due_of di' w = lower_due (due_of di w) instant"
  proof (cases "lookup_by du_workspace_id w (di_due di)")
    case None
    then have "w \<notin> du_workspace_id ` set (di_due di)" by simp
    then show ?thesis
      using assms by (auto simp: mark_work_due_def due_of_def lower_due_def lookup_by_append split: if_splits)
  next
    case (Some r)
    then have "w \<in> du_workspace_id ` set (di_due di)" by (auto dest!: lookup_by_SomeD)
    moreover have "du_workspace_id r = w" using Some by (auto dest!: lookup_by_SomeD)
    ultimately show ?thesis
      using assms Some
      by (auto simp: mark_work_due_def due_of_def lower_due_def lookup_by_update_where split: if_splits)
  qed
  show "unique_by du_workspace_id (di_due di) \<Longrightarrow> unique_by du_workspace_id (di_due di')"
    using assms by (auto simp: mark_work_due_def unique_by_def split: if_splits
        intro!: unique_update_where [unfolded unique_by_def])
  show "ws_id ` set (di_workspaces di') = ws_id ` set (di_workspaces di)" "w \<in> ws_id ` set (di_workspaces di)"
    using assms by (auto simp: mark_work_due_def split: if_splits)
qed

lemma apply_marks_due:
  assumes "apply_marks w ms di = Inr di'" "unique_by du_workspace_id (di_due di)"
  shows "due_of di' w = foldl lower_due (due_of di w) (map snd ms)"
    "unique_by du_workspace_id (di_due di')"
proof -
  have "due_of di' w = foldl lower_due (due_of di w) (map snd ms) \<and> unique_by du_workspace_id (di_due di')"
    using assms
  proof (induction w ms di rule: apply_marks.induct)
    case (2 w now instant ms di)
    then obtain di1 where m: "mark_work_due now w instant di = Inr di1" "apply_marks w ms di1 = Inr di'"
      by (auto split: sum.splits)
    show ?case using 2(1) [OF m] mark_due_of [OF m(1)] 2(3) by simp
  qed simp
  then show "due_of di' w = foldl lower_due (due_of di w) (map snd ms)"
    "unique_by du_workspace_id (di_due di')" by auto
qed

lemma lower_due_fold:
  "foldl lower_due (Some d) xs = Some (foldl min d xs)" "foldl min d xs \<le> (d :: instant)"
  "x \<in> set xs \<Longrightarrow> foldl min d xs \<le> x" "foldl min d xs = d \<longleftrightarrow> (\<forall>x \<in> set xs. d \<le> x)"
proof -
  have le: "foldl min d xs \<le> d" for d :: instant and xs
  proof (induction xs arbitrary: d)
    case (Cons x xs)
    show ?case using Cons [of "min d x"] by simp
  qed simp
  have mem: "x \<in> set xs \<Longrightarrow> foldl min d xs \<le> x" for d x :: instant and xs
  proof (induction xs arbitrary: d)
    case (Cons y ys)
    then show ?case using le [of "min d y" ys] by auto
  qed simp
  have above: "\<forall>x \<in> set xs. d \<le> x \<Longrightarrow> foldl min d xs = d" for d :: instant and xs
    by (induction xs arbitrary: d) (auto simp: min_def)
  show "foldl lower_due (Some d) xs = Some (foldl min d xs)"
    by (induction xs arbitrary: d) (simp_all add: lower_due_def)
  show "foldl min d xs \<le> d" by (rule le)
  show "x \<in> set xs \<Longrightarrow> foldl min d xs \<le> x" by (rule mem)
  show "foldl min d xs = d \<longleftrightarrow> (\<forall>x \<in> set xs. d \<le> x)" using above mem by metis
qed

lemma record_visit_due:
  assumes "record_visit now w observed n reconcile di = Inr (b, di')"
    and "unique_by du_workspace_id (di_due di)"
  shows "b \<longleftrightarrow> due_of di w = observed" "b \<Longrightarrow> due_of di' w = Some (visit_due_at now n reconcile)"
    "\<not> b \<Longrightarrow> di' = di"
proof -
  have "(b \<longleftrightarrow> due_of di w = observed) \<and> (b \<longrightarrow> due_of di' w = Some (visit_due_at now n reconcile)) \<and>
      (\<not> b \<longrightarrow> di' = di)"
  proof (cases observed)
    case None
    have "due_of di w = None \<longleftrightarrow> w \<notin> du_workspace_id ` set (di_due di)" by (simp add: due_of_def)
    then show ?thesis
      using assms(1) None
      by (auto simp: record_visit_def due_of_def lookup_by_append Let_def split: if_splits)
  next
    case (Some d)
    let ?P = "\<lambda>r. du_workspace_id r = w \<and> du_due_at r = d"
      and ?f = "\<lambda>r. r\<lparr>du_due_at := visit_due_at now n reconcile, du_updated_at := now\<rparr>"
    obtain t where t: "apply_where ?P ?f (di_due di) = (b, t)" "di' = di\<lparr>di_due := t\<rparr>"
      using assms(1) Some by (auto simp: record_visit_def Let_def split: if_splits prod.splits)
    have "(\<not> b \<and> t = di_due di) \<or> (b \<and> (\<exists>r. lookup_by du_workspace_id w (di_due di) = Some r \<and> ?P r \<and>
        lookup_by du_workspace_id w t = Some (?f r) \<and>
        (\<forall>j. j \<noteq> w \<longrightarrow> lookup_by du_workspace_id j t = lookup_by du_workspace_id j (di_due di))))"
      by (rule apply_where_row [OF assms(2) t(1)]) simp
    moreover have "b \<longleftrightarrow> (\<exists>r. lookup_by du_workspace_id w (di_due di) = Some r \<and> ?P r)"
      using predicated_write.applied_iff [OF predicated_writeI assms(2), of ?P w ?f] t(1) by simp
    ultimately show ?thesis using t(2) Some by (auto simp: due_of_def dest: lookup_by_key)
  qed
  then show "b \<longleftrightarrow> due_of di w = observed" "b \<Longrightarrow> due_of di' w = Some (visit_due_at now n reconcile)"
    "\<not> b \<Longrightarrow> di' = di" by auto
qed

text \<open>
  C33. What a visit's write does to the marks that committed since the read it goes by. Nothing,
  when one of them is lower than the instant the read saw, or the read saw no row: the write does
  not apply and the workspace stays due no later than the earliest of them. When all of them are
  at or above that instant the write applies and replaces them by its own instant, at most a
  reconcile interval from now.
\<close>

theorem visit_against_marks:
  assumes "unique_by du_workspace_id (di_due di)" "apply_marks w ms di = Inr di1"
    and "record_visit now w (due_of di w) n reconcile di1 = Inr (b, di2)"
  shows "(b \<longleftrightarrow> ms = [] \<or> (\<exists>d. due_of di w = Some d \<and> (\<forall>m \<in> set ms. d \<le> snd m))) \<and>
    (if b then due_of di2 w = Some (visit_due_at now n reconcile) \<and>
               visit_due_at now n reconcile \<le> now + seconds reconcile
     else di2 = di1 \<and> (\<exists>d. due_of di2 w = Some d \<and> (\<forall>m \<in> set ms. d \<le> snd m)))"
proof -
  note marks = apply_marks_due [OF assms(2,1)]
  note rv = record_visit_due [OF assms(3) marks(2)]
  have low: "\<exists>d. due_of di1 w = Some d \<and> (\<forall>m \<in> set ms. d \<le> snd m)" if "ms \<noteq> []"
  proof (cases "due_of di w")
    case None
    obtain m ms' where ms: "ms = m # ms'" using \<open>ms \<noteq> []\<close> by (cases ms) auto
    then have "due_of di1 w = Some (foldl min (snd m) (map snd ms'))"
      using marks(1) None by (simp add: lower_due_fold lower_due_def)
    then show ?thesis using ms lower_due_fold(2,3) by auto
  next
    case (Some d)
    then show ?thesis using marks(1) lower_due_fold(1,3) by auto
  qed
  have same: "due_of di1 w = due_of di w \<longleftrightarrow>
      ms = [] \<or> (\<exists>d. due_of di w = Some d \<and> (\<forall>m \<in> set ms. d \<le> snd m))"
  proof (cases "due_of di w")
    case None
    then show ?thesis using low marks(1) by (cases ms) auto
  next
    case (Some d)
    then show ?thesis using marks(1) lower_due_fold(4) [of d "map snd ms"] by (auto simp: lower_due_fold(1))
  qed
  show ?thesis
    using rv same low visit_due_at_bound [of now n reconcile] by (auto split: if_splits)
qed

lemmas index_calc = workspaces_with_due_work_def due_candidates_def due_of_def mark_work_due_def
  record_visit_def visit_due_at_def seconds_def apply_where_def rowcount_def

lemma every_workspace_rediscovered_witness:
  "workspaces_with_due_work 900000000 1
     \<lparr>di_workspaces = [\<lparr>ws_id = 3, ws_state = WActive\<rparr>], di_due = []\<rparr> =
     Inr [\<lparr>dw_workspace_id = 3, dw_observed_due_at = None\<rparr>] \<and>
   (3 :: uuid) \<in> dw_workspace_id ` set [\<lparr>dw_workspace_id = 3, dw_observed_due_at = None\<rparr>]"
proof -
  let ?di = "\<lparr>di_workspaces = [\<lparr>ws_id = 3, ws_state = WActive\<rparr>], di_due = []\<rparr>"
  have "index_step 900 0 \<lparr>di_workspaces = [], di_due = []\<rparr> ?di"
    using ix_register [of 3 "\<lparr>di_workspaces = [], di_due = []\<rparr>" 900 0 WActive] by simp
  then have reach: "index_reach 900 0 ?di" by (rule ir_step [OF ir_empty order_refl])
  have read: "workspaces_with_due_work 900000000 1 ?di = Inr [\<lparr>dw_workspace_id = 3, dw_observed_due_at = None\<rparr>]"
    by (simp add: index_calc)
  show ?thesis
    using every_workspace_rediscovered [OF reach _ _ read, of "\<lparr>ws_id = 3, ws_state = WActive\<rparr>"] read
    by (auto simp: seconds_def due_of_def)
qed

lemma visit_against_marks_witness:
  "\<exists>di2. record_visit 50 3 (Some 10) None 900
       \<lparr>di_workspaces = [\<lparr>ws_id = 3, ws_state = WActive\<rparr>],
        di_due = [\<lparr>du_workspace_id = 3, du_due_at = 10, du_updated_at = 40\<rparr>]\<rparr> = Inr (True, di2) \<and>
     due_of di2 3 = Some 900000050"
proof -
  let ?di = "\<lambda>u. \<lparr>di_workspaces = [\<lparr>ws_id = 3, ws_state = WActive\<rparr>],
        di_due = [\<lparr>du_workspace_id = 3, du_due_at = 10, du_updated_at = u\<rparr>]\<rparr>"
  let ?done = "\<lparr>di_workspaces = [\<lparr>ws_id = 3, ws_state = WActive\<rparr>],
        di_due = [\<lparr>du_workspace_id = 3, du_due_at = 900000050, du_updated_at = 50\<rparr>]\<rparr>"
  have m: "apply_marks 3 [(40, 40)] (?di 20) = Inr (?di 40)" by (simp add: index_calc)
  have v: "record_visit 50 3 (due_of (?di 20) 3) None 900 (?di 40) = Inr (True, ?done)"
    by (simp add: index_calc)
  have "due_of ?done 3 = Some (visit_due_at 50 None 900)"
    using visit_against_marks [OF _ m v] by (simp add: unique_by_def)
  then show ?thesis using v by (simp add: index_calc)
qed

end
