(* ===== verification/Engine_Pool.thy ===== *)
theory Engine_Pool
  imports Prelude "HOL-Library.Char_ord"
begin

text \<open>
  \<^verbatim>\<open>rheo_core/storage/pools.py\<close>: the cache of database engines, one per database name, bounded
  by an idle window and by a count.

  An engine is a number, never used twice. \<open>po_engines\<close> is the ordered dictionary, least recently
  used first; \<open>po_pins\<close> the pin counts. What SQLAlchemy answers for the connections an engine has
  checked out is the parameter \<open>out\<close>. Instants of the monotonic clock are integers. Disposing an
  engine closes sockets: the calls answer the engines they dispose.
\<close>

section \<open>The pool\<close>

record pool =
  po_cache_size :: nat
  po_pool_size :: nat
  po_idle_close :: int
  po_reserved :: nat
  po_engines :: "(string \<times> nat) list"
  po_last_used :: "string \<Rightarrow> int option"
  po_pins :: "nat \<Rightarrow> nat"
  po_next :: nat

definition new_pool :: "int \<Rightarrow> int \<Rightarrow> int \<Rightarrow> int \<Rightarrow> pool option" where
  "new_pool cache_size pool_size idle_close reserved =
     (if cache_size < 1 \<or> pool_size < 1 \<or> idle_close \<le> 0 \<or> reserved < 0 then None
      else Some \<lparr>po_cache_size = nat cache_size, po_pool_size = nat pool_size,
                 po_idle_close = idle_close, po_reserved = nat reserved, po_engines = [],
                 po_last_used = (\<lambda>_. None), po_pins = (\<lambda>_. 0), po_next = 0\<rparr>)"

definition database_char :: "char \<Rightarrow> bool" where
  "database_char c \<longleftrightarrow>
     (CHR ''a'' \<le> c \<and> c \<le> CHR ''z'') \<or> (CHR ''0'' \<le> c \<and> c \<le> CHR ''9'') \<or> c = CHR ''_''"

definition check_database_name :: "string \<Rightarrow> bool" where
  "check_database_name s \<longleftrightarrow>
     s \<noteq> [] \<and> length s \<le> 63 \<and> list_all database_char s \<and>
     \<not> (CHR ''0'' \<le> hd s \<and> hd s \<le> CHR ''9'')"

definition pooled_connections :: "pool \<Rightarrow> nat" where
  "pooled_connections p = po_cache_size p * po_pool_size p + po_reserved p"

definition held_connections :: "pool \<Rightarrow> nat" where
  "held_connections p = length (po_engines p) * po_pool_size p + po_reserved p"

definition cached :: "pool \<Rightarrow> string list" where
  "cached p = map fst (po_engines p)"

definition engine_of :: "pool \<Rightarrow> string \<Rightarrow> nat option" where
  "engine_of p = map_of (po_engines p)"

definition busy :: "(nat \<Rightarrow> nat) \<Rightarrow> pool \<Rightarrow> nat \<Rightarrow> bool" where
  "busy out p e \<longleftrightarrow> 0 < po_pins p e \<or> 0 < out e"

section \<open>Closing engines\<close>

definition expires :: "(nat \<Rightarrow> nat) \<Rightarrow> int \<Rightarrow> pool \<Rightarrow> string \<Rightarrow> bool" where
  "expires out now p n \<longleftrightarrow>
     (case po_last_used p n of None \<Rightarrow> False | Some used \<Rightarrow> po_idle_close p < now - used) \<and>
     (case engine_of p n of None \<Rightarrow> True | Some e \<Rightarrow> \<not> busy out p e)"

definition expire_idle :: "(nat \<Rightarrow> nat) \<Rightarrow> int \<Rightarrow> pool \<Rightarrow> nat list \<times> pool" where
  "expire_idle out now p =
     (map snd (filter (\<lambda>q. expires out now p (fst q)) (po_engines p)),
      p\<lparr>po_engines := filter (\<lambda>q. \<not> expires out now p (fst q)) (po_engines p),
        po_last_used := (\<lambda>n. if expires out now p n then None else po_last_used p n)\<rparr>)"

definition victim :: "(nat \<Rightarrow> nat) \<Rightarrow> string \<Rightarrow> pool \<Rightarrow> (string \<times> nat) option" where
  "victim out protect p = find (\<lambda>(n, e). n \<noteq> protect \<and> \<not> busy out p e) (po_engines p)"

function evict_unused_over_cap :: "(nat \<Rightarrow> nat) \<Rightarrow> string \<Rightarrow> pool \<Rightarrow> nat list \<times> pool" where
  "evict_unused_over_cap out protect p =
     (if length (po_engines p) \<le> po_cache_size p then ([], p)
      else case victim out protect p of
             None \<Rightarrow> ([], p)
           | Some (n, e) \<Rightarrow>
               (let (es, p') = evict_unused_over_cap out protect
                      (p\<lparr>po_engines := filter (\<lambda>q. fst q \<noteq> n) (po_engines p),
                         po_last_used := (po_last_used p)(n := None)\<rparr>)
                in (e # es, p')))"
  by pat_completeness auto
termination
  by (relation "measure (\<lambda>(out, protect, p). length (po_engines p))")
    (auto simp: victim_def find_Some_iff intro!: length_filter_less [OF nth_mem])

declare evict_unused_over_cap.simps [simp del]

definition close_idle :: "(nat \<Rightarrow> nat) \<Rightarrow> int \<Rightarrow> pool \<Rightarrow> nat list \<times> pool" where
  "close_idle = expire_idle"

definition dispose_all :: "pool \<Rightarrow> nat list \<times> pool" where
  "dispose_all p =
     (map snd (po_engines p),
      p\<lparr>po_engines := [], po_last_used := (\<lambda>_. None), po_pins := (\<lambda>_. 0)\<rparr>)"

section \<open>Handing engines out\<close>

definition pin :: "nat \<Rightarrow> pool \<Rightarrow> pool option" where
  "pin e p =
     (if e \<notin> snd ` set (po_engines p) then None
      else Some (p\<lparr>po_pins := (po_pins p)(e := po_pins p e + 1)\<rparr>))"

definition unpin :: "nat \<Rightarrow> pool \<Rightarrow> pool" where
  "unpin e p = p\<lparr>po_pins := (po_pins p)(e := po_pins p e - 1)\<rparr>"

text \<open>The answer: the engine, the engines disposed, the pool. \<open>None\<close> is the refused name.\<close>

definition engine_for ::
  "(nat \<Rightarrow> nat) \<Rightarrow> int \<Rightarrow> string \<Rightarrow> bool \<Rightarrow> pool \<Rightarrow> (nat \<times> nat list \<times> pool) option" where
  "engine_for out now name pinned p =
     (if \<not> check_database_name name then None
      else
        (let (gone, p1) = expire_idle out now p;
             (e, p2) =
               (case engine_of p1 name of
                  None \<Rightarrow> (po_next p1, p1\<lparr>po_engines := po_engines p1 @ [(name, po_next p1)],
                                          po_next := po_next p1 + 1\<rparr>)
                | Some e \<Rightarrow> (e, p1\<lparr>po_engines :=
                              filter (\<lambda>q. fst q \<noteq> name) (po_engines p1) @ [(name, e)]\<rparr>));
             (gone', p3) = evict_unused_over_cap out name
               (p2\<lparr>po_last_used := (po_last_used p2)(name \<mapsto> now)\<rparr>);
             p4 = (if pinned then p3\<lparr>po_pins := (po_pins p3)(e := po_pins p3 e + 1)\<rparr> else p3)
         in Some (e, gone @ gone', p4)))"

text \<open>A visit holds the engine pinned for its duration.\<close>

definition visit_engine ::
  "(nat \<Rightarrow> nat) \<Rightarrow> int \<Rightarrow> string \<Rightarrow> pool \<Rightarrow> (nat \<times> nat list \<times> pool) option" where
  "visit_engine out now name p =
     (case engine_for out now name True p of
        None \<Rightarrow> None
      | Some (e, gone, p') \<Rightarrow> Some (e, gone, unpin e p'))"

section \<open>The invariant\<close>

definition pool_ok :: "pool \<Rightarrow> bool" where
  "pool_ok p \<longleftrightarrow>
     distinct (map fst (po_engines p)) \<and> distinct (map snd (po_engines p)) \<and>
     (\<forall>e \<in> snd ` set (po_engines p). e < po_next p) \<and>
     (\<forall>e. po_next p \<le> e \<longrightarrow> po_pins p e = 0) \<and>
     dom (po_last_used p) = fst ` set (po_engines p)"

text \<open>What closing engines may do to a pool: \<open>gone\<close> are the engines no longer kept, none busy.\<close>

definition closes :: "(nat \<Rightarrow> nat) \<Rightarrow> pool \<Rightarrow> nat list \<Rightarrow> pool \<Rightarrow> bool" where
  "closes out p gone p' \<longleftrightarrow>
     (\<exists>keep. po_engines p' = filter keep (po_engines p) \<and>
        (\<forall>q \<in> set (po_engines p). \<not> keep q \<longrightarrow> \<not> busy out p (snd q)) \<and>
        set gone = snd ` {q \<in> set (po_engines p). \<not> keep q}) \<and>
     po_cache_size p' = po_cache_size p \<and> po_idle_close p' = po_idle_close p \<and>
     po_pins p' = po_pins p \<and> po_next p' = po_next p \<and>
     (\<forall>n \<in> fst ` set (po_engines p'). po_last_used p' n = po_last_used p n) \<and>
     (dom (po_last_used p) = fst ` set (po_engines p) \<longrightarrow>
        distinct (map fst (po_engines p)) \<longrightarrow> dom (po_last_used p') = fst ` set (po_engines p'))"

lemma closesD:
  assumes "closes out p gone p'"
  shows "set (po_engines p') \<subseteq> set (po_engines p)" "po_cache_size p' = po_cache_size p"
    "po_idle_close p' = po_idle_close p" "po_pins p' = po_pins p" "po_next p' = po_next p"
    "n \<in> fst ` set (po_engines p') \<Longrightarrow> po_last_used p' n = po_last_used p n"
    "q \<in> set (po_engines p) \<Longrightarrow> busy out p (snd q) \<Longrightarrow> q \<in> set (po_engines p')"
    "e \<in> set gone \<Longrightarrow> \<not> busy out p e" "busy out p' = busy out p"
  using assms by (auto simp: closes_def busy_def fun_eq_iff)

lemma closes_keep:
  assumes "closes out p gone p'"
  shows "\<exists>keep. po_engines p' = filter keep (po_engines p) \<and>
        (\<forall>q \<in> set (po_engines p). \<not> keep q \<longrightarrow> \<not> busy out p (snd q)) \<and>
        set gone = snd ` {q \<in> set (po_engines p). \<not> keep q}"
  using assms unfolding closes_def by (rule conjunct1)

lemma closes_trans:
  assumes 1: "closes out p g p'" and 2: "closes out p' g' p''"
  shows "closes out p (g @ g') p''"
proof -
  obtain k where k: "po_engines p' = filter k (po_engines p)"
    "\<forall>q \<in> set (po_engines p). \<not> k q \<longrightarrow> \<not> busy out p (snd q)"
    "set g = snd ` {q \<in> set (po_engines p). \<not> k q}"
    using closes_keep [OF 1] by (elim exE conjE)
  obtain k' where k': "po_engines p'' = filter k' (po_engines p')"
    "\<forall>q \<in> set (po_engines p'). \<not> k' q \<longrightarrow> \<not> busy out p' (snd q)"
    "set g' = snd ` {q \<in> set (po_engines p'). \<not> k' q}"
    using closes_keep [OF 2] by (elim exE conjE)
  have keep: "po_engines p'' = filter (\<lambda>q. k q \<and> k' q) (po_engines p) \<and>
      (\<forall>q \<in> set (po_engines p). \<not> (k q \<and> k' q) \<longrightarrow> \<not> busy out p (snd q)) \<and>
      set (g @ g') = snd ` {q \<in> set (po_engines p). \<not> (k q \<and> k' q)}"
  proof (intro conjI)
    show "po_engines p'' = filter (\<lambda>q. k q \<and> k' q) (po_engines p)"
      using k(1) k'(1) by (simp add: conj_commute)
    show "\<forall>q \<in> set (po_engines p). \<not> (k q \<and> k' q) \<longrightarrow> \<not> busy out p (snd q)"
    proof (intro ballI impI)
      fix q assume q: "q \<in> set (po_engines p)" "\<not> (k q \<and> k' q)"
      show "\<not> busy out p (snd q)"
      proof (cases "k q")
        case True
        then have "q \<in> set (po_engines p')" "\<not> k' q" using q k(1) by simp_all
        then show ?thesis using k'(2) closesD(9) [OF 1] by metis
      qed (use q k(2) in blast)
    qed
    have "{q \<in> set (po_engines p). \<not> (k q \<and> k' q)} =
        {q \<in> set (po_engines p). \<not> k q} \<union> {q \<in> set (po_engines p'). \<not> k' q}"
      unfolding k(1) by auto
    then show "set (g @ g') = snd ` {q \<in> set (po_engines p). \<not> (k q \<and> k' q)}"
      unfolding set_append k(3) k'(3) by (simp only: image_Un)
  qed
  have last: "\<forall>n \<in> fst ` set (po_engines p''). po_last_used p'' n = po_last_used p n"
  proof
    fix n assume n: "n \<in> fst ` set (po_engines p'')"
    then have "n \<in> fst ` set (po_engines p')" using closesD(1) [OF 2] by blast
    then show "po_last_used p'' n = po_last_used p n"
      using closesD(6) [OF 1] closesD(6) [OF 2 n] by simp
  qed
  have "distinct (map fst (po_engines p)) \<longrightarrow> distinct (map fst (po_engines p'))"
    using k(1) by (simp add: distinct_map_filter)
  then have dom: "dom (po_last_used p) = fst ` set (po_engines p) \<longrightarrow>
      distinct (map fst (po_engines p)) \<longrightarrow> dom (po_last_used p'') = fst ` set (po_engines p'')"
    using 1 2 by (simp add: closes_def)
  show ?thesis
    unfolding closes_def
  proof (intro conjI)
    show "\<exists>keep. po_engines p'' = filter keep (po_engines p) \<and>
        (\<forall>q \<in> set (po_engines p). \<not> keep q \<longrightarrow> \<not> busy out p (snd q)) \<and>
        set (g @ g') = snd ` {q \<in> set (po_engines p). \<not> keep q}"
      by (rule exI [of _ "\<lambda>q. k q \<and> k' q"]) (rule keep)
  qed (use closesD(2-5) [OF 1] closesD(2-5) [OF 2] last dom in simp_all)
qed

lemma closes_refl: "closes out p [] p"
  unfolding closes_def by (intro conjI exI [of _ "\<lambda>_. True"]) auto

lemma expire_idle_closes:
  assumes "distinct (map fst (po_engines p))" "expire_idle out now p = (gone, p')"
  shows "closes out p gone p'"
proof -
  let ?keep = "\<lambda>q. \<not> expires out now p (fst q)"
  have g: "gone = map snd (filter (\<lambda>q. expires out now p (fst q)) (po_engines p))"
    and p': "p' = p\<lparr>po_engines := filter ?keep (po_engines p),
      po_last_used := (\<lambda>n. if expires out now p n then None else po_last_used p n)\<rparr>"
    using assms(2) by (simp_all add: expire_idle_def)
  have "\<not> busy out p (snd q)" if "q \<in> set (po_engines p)" "expires out now p (fst q)" for q
  proof -
    have "engine_of p (fst q) = Some (snd q)"
      using that(1) assms(1) by (simp add: engine_of_def)
    then show ?thesis using that(2) by (auto simp: expires_def)
  qed
  moreover have "po_engines p' = filter ?keep (po_engines p)" using p' by simp
  moreover have "set gone = snd ` {q \<in> set (po_engines p). \<not> ?keep q}" using g by simp
  ultimately have keep: "\<exists>keep. po_engines p' = filter keep (po_engines p) \<and>
        (\<forall>q \<in> set (po_engines p). \<not> keep q \<longrightarrow> \<not> busy out p (snd q)) \<and>
        set gone = snd ` {q \<in> set (po_engines p). \<not> keep q}" by blast
  have "\<forall>n \<in> fst ` set (po_engines p'). po_last_used p' n = po_last_used p n"
    "dom (po_last_used p') = {n \<in> dom (po_last_used p). \<not> expires out now p n}"
    "fst ` set (po_engines p') = {n \<in> fst ` set (po_engines p). \<not> expires out now p n}"
    unfolding p' by (auto split: if_splits)
  then show ?thesis
    unfolding closes_def by (intro conjI keep) (auto simp: p')
qed

lemma victim_SomeD:
  "victim out protect p = Some (n, e) \<Longrightarrow> (n, e) \<in> set (po_engines p) \<and> n \<noteq> protect \<and> \<not> busy out p e"
  by (auto simp: victim_def find_Some_iff) (metis nth_mem)

lemma victim_None:
  "victim out protect p = None \<Longrightarrow> (n, e) \<in> set (po_engines p) \<Longrightarrow> n \<noteq> protect \<Longrightarrow> busy out p e"
  by (auto simp: victim_def find_None_iff)

text \<open>Eviction ends at the cap, or where every other engine is busy.\<close>

lemma evict_spec:
  assumes "evict_unused_over_cap out protect p = (gone, p')" "distinct (map fst (po_engines p))"
  shows "closes out p gone p'"
    "\<forall>q \<in> set (po_engines p). fst q = protect \<longrightarrow> q \<in> set (po_engines p')"
    "length (po_engines p') \<le> po_cache_size p \<or>
       (\<forall>q \<in> set (po_engines p'). fst q = protect \<or> busy out p (snd q))"
proof -
  have "closes out p gone p' \<and>
      (\<forall>q \<in> set (po_engines p). fst q = protect \<longrightarrow> q \<in> set (po_engines p')) \<and>
      (length (po_engines p') \<le> po_cache_size p \<or>
       (\<forall>q \<in> set (po_engines p'). fst q = protect \<or> busy out p (snd q)))"
    using assms
  proof (induction out protect p arbitrary: gone p' rule: evict_unused_over_cap.induct)
    case (1 out protect p)
    show ?case
    proof (cases "length (po_engines p) \<le> po_cache_size p")
      case True
      then show ?thesis
        using 1(2) by (subst (asm) evict_unused_over_cap.simps) (simp add: closes_refl)
    next
      case over: False
      show ?thesis
      proof (cases "victim out protect p")
        case None
        then have "gone = [] \<and> p' = p"
          using 1(2) over by (subst (asm) evict_unused_over_cap.simps) simp
        then show ?thesis using victim_None [OF None] closes_refl by fastforce
      next
        case (Some v)
        obtain n e where v: "v = (n, e)" by fastforce
        let ?p1 = "p\<lparr>po_engines := filter (\<lambda>q. fst q \<noteq> n) (po_engines p),
                     po_last_used := (po_last_used p)(n := None)\<rparr>"
        obtain g where g: "evict_unused_over_cap out protect ?p1 = (g, p')" "gone = e # g"
          using 1(2) over Some v
          by (subst (asm) evict_unused_over_cap.simps) (auto split: prod.splits)
        have d1: "distinct (map fst (po_engines ?p1))" using 1(3) by (simp add: distinct_map_filter)
        note ih = 1(1) [OF over Some v [symmetric] g(1) d1]
        note vic = victim_SomeD [OF Some [unfolded v]]
        have one: "snd q = e" if "q \<in> set (po_engines p)" "fst q = n" for q
          using that vic 1(3) by (metis eq_key_imp_eq_value prod.collapse)
        have "closes out p [e] ?p1"
          unfolding closes_def
        proof (intro conjI exI [of _ "\<lambda>q. fst q \<noteq> n"])
          show "\<forall>q \<in> set (po_engines p). \<not> fst q \<noteq> n \<longrightarrow> \<not> busy out p (snd q)"
            using one vic by blast
          have "q = (n, e)" if "q \<in> set (po_engines p)" "fst q = n" for q
            using one [OF that] that(2) by (metis prod.collapse)
          then have "{q \<in> set (po_engines p). \<not> fst q \<noteq> n} \<subseteq> {(n, e)}" by blast
          moreover have "(n, e) \<in> {q \<in> set (po_engines p). \<not> fst q \<noteq> n}" using vic by simp
          ultimately have "{q \<in> set (po_engines p). \<not> fst q \<noteq> n} = {(n, e)}" by blast
          then show "set [e] = snd ` {q \<in> set (po_engines p). \<not> fst q \<noteq> n}" by simp
        qed auto
        from closes_trans [OF this conjunct1 [OF ih]]
        have "closes out p gone p'" by (simp add: g(2))
        moreover have "busy out ?p1 = busy out p" by (simp add: busy_def fun_eq_iff)
        then have "length (po_engines p') \<le> po_cache_size p \<or>
            (\<forall>q \<in> set (po_engines p'). fst q = protect \<or> busy out p (snd q))"
          using conjunct2 [OF conjunct2 [OF ih]] by simp
        moreover have "\<forall>q \<in> set (po_engines p). fst q = protect \<longrightarrow> q \<in> set (po_engines p')"
        proof (intro ballI impI)
          fix q assume "q \<in> set (po_engines p)" "fst q = protect"
          moreover from this have "q \<in> set (po_engines ?p1)" using vic by auto
          ultimately show "q \<in> set (po_engines p')" using conjunct1 [OF conjunct2 [OF ih]] by blast
        qed
        ultimately show ?thesis by (intro conjI)
      qed
    qed
  qed
  then show "closes out p gone p'"
    "\<forall>q \<in> set (po_engines p). fst q = protect \<longrightarrow> q \<in> set (po_engines p')"
    "length (po_engines p') \<le> po_cache_size p \<or>
       (\<forall>q \<in> set (po_engines p'). fst q = protect \<or> busy out p (snd q))" by auto
qed

section \<open>Handing out keeps the invariant\<close>

text \<open>The pool between the idle sweep and the eviction: the engine asked for is at the end.\<close>

definition handed :: "string \<Rightarrow> int \<Rightarrow> pool \<Rightarrow> nat \<times> pool" where
  "handed name now p =
     (case engine_of p name of
        None \<Rightarrow> (po_next p, p\<lparr>po_engines := po_engines p @ [(name, po_next p)],
                              po_next := po_next p + 1,
                              po_last_used := (po_last_used p)(name \<mapsto> now)\<rparr>)
      | Some e \<Rightarrow> (e, p\<lparr>po_engines := filter (\<lambda>q. fst q \<noteq> name) (po_engines p) @ [(name, e)],
                       po_last_used := (po_last_used p)(name \<mapsto> now)\<rparr>))"

lemma engine_for_SomeD:
  assumes "engine_for out now name pinned p = Some (e, gone, p')"
  obtains g1 g2 p1 p2 p3 where "expire_idle out now p = (g1, p1)" "handed name now p1 = (e, p2)"
    "evict_unused_over_cap out name p2 = (g2, p3)" "gone = g1 @ g2"
    "p' = (if pinned then p3\<lparr>po_pins := (po_pins p3)(e := po_pins p3 e + 1)\<rparr> else p3)"
    "check_database_name name"
  using assms
  by (auto simp: engine_for_def handed_def Let_def split: if_splits prod.splits option.splits)

lemma handed_ok:
  assumes "pool_ok p" "handed name now p = (e, p')"
  shows "pool_ok p'" "(name, e) \<in> set (po_engines p')" "po_pins p' = po_pins p"
    "po_cache_size p' = po_cache_size p" "po_idle_close p' = po_idle_close p"
    "set (po_engines p) \<subseteq> set (po_engines p')"
    "set (po_engines p') = set (po_engines p) \<union> {(name, e)}"
proof -
  have "pool_ok p' \<and> set (po_engines p') = set (po_engines p) \<union> {(name, e)} \<and> po_pins p' = po_pins p \<and>
      po_cache_size p' = po_cache_size p \<and> po_idle_close p' = po_idle_close p"
  proof (cases "engine_of p name")
    case None
    then have "name \<notin> fst ` set (po_engines p)" by (simp add: engine_of_def map_of_eq_None_iff)
    moreover have "po_next p \<notin> snd ` set (po_engines p)"
      using assms(1) unfolding pool_ok_def by blast
    moreover have "\<forall>d \<in> snd ` set (po_engines p). d < po_next p + 1"
      using assms(1) unfolding pool_ok_def by (meson less_SucI Suc_eq_plus1 trans_less_add1)
    moreover have "e = po_next p" "p' = p\<lparr>po_engines := po_engines p @ [(name, po_next p)],
        po_next := po_next p + 1, po_last_used := (po_last_used p)(name \<mapsto> now)\<rparr>"
      using assms(2) None by (auto simp: handed_def)
    ultimately show ?thesis using assms(1) by (simp add: pool_ok_def)
  next
    case (Some e0)
    then have e: "e0 = e" "p' = p\<lparr>po_engines := filter (\<lambda>q. fst q \<noteq> name) (po_engines p) @ [(name, e)],
                       po_last_used := (po_last_used p)(name \<mapsto> now)\<rparr>"
      using assms(2) by (auto simp: handed_def)
    have mem: "(name, e) \<in> set (po_engines p)"
      using Some e(1) by (simp add: engine_of_def map_of_SomeD)
    have fst_uniq: "q = (name, e)" if "q \<in> set (po_engines p)" "fst q = name" for q
      using that mem assms(1) unfolding pool_ok_def by (metis eq_key_imp_eq_value prod.collapse)
    have snd_uniq: "q = (name, e)" if "q \<in> set (po_engines p)" "snd q = e" for q
      using that mem assms(1) unfolding pool_ok_def
      by (metis (no_types, lifting) distinct_map inj_onD snd_conv)
    have set': "set (po_engines p') = set (po_engines p) \<union> {(name, e)}"
    proof (intro equalityI subsetI)
      fix q assume "q \<in> set (po_engines p')"
      then show "q \<in> set (po_engines p) \<union> {(name, e)}" using e(2) by auto
    next
      fix q assume "q \<in> set (po_engines p) \<union> {(name, e)}"
      then have "q = (name, e) \<or> q \<in> set (po_engines p) \<and> fst q \<noteq> name" using fst_uniq by blast
      then show "q \<in> set (po_engines p')" using e(2) by auto
    qed
    have "distinct (map fst (po_engines p'))"
      using assms(1) unfolding e(2) by (auto simp: pool_ok_def distinct_map_filter)
    moreover have "distinct (map snd (po_engines p'))"
    proof -
      have "e \<notin> snd ` {q \<in> set (po_engines p). fst q \<noteq> name}" using snd_uniq by force
      moreover have "distinct (map snd (po_engines p))" using assms(1) by (simp add: pool_ok_def)
      ultimately show ?thesis unfolding e(2) by (simp add: distinct_map_filter)
    qed
    ultimately show ?thesis
      using assms(1) set' mem unfolding e(2) by (auto simp: pool_ok_def)
  qed
  then show "pool_ok p'" "(name, e) \<in> set (po_engines p')" "po_pins p' = po_pins p"
    "po_cache_size p' = po_cache_size p" "po_idle_close p' = po_idle_close p"
    "set (po_engines p) \<subseteq> set (po_engines p')"
    "set (po_engines p') = set (po_engines p) \<union> {(name, e)}" by auto
qed

lemma closes_ok:
  assumes "closes out p gone p'" "pool_ok p"
  shows "pool_ok p'"
proof -
  obtain k where k: "po_engines p' = filter k (po_engines p)"
    using closes_keep [OF assms(1)] by blast
  have "dom (po_last_used p') = fst ` set (po_engines p')"
    using assms by (simp add: closes_def pool_ok_def)
  then show ?thesis
    using assms(2) closesD(4,5) [OF assms(1)] k
    by (simp add: pool_ok_def distinct_map_filter)
qed

text \<open>
  C34. Handing out an engine answers a cached engine for the name, disposes only engines that no
  one holds and keeps every engine that someone does, and leaves the cache at its cap, or above
  it only with engines that are busy.
\<close>

theorem engine_pool_safe:
  assumes "pool_ok p" "engine_for out now name pinned p = Some (e, gone, p')"
  shows "pool_ok p' \<and> engine_of p' name = Some e \<and>
    (engine_of p name = None \<or> engine_of p name = Some e \<or> \<not> busy out p (the (engine_of p name))) \<and>
    (\<forall>d \<in> set gone. \<not> busy out p d) \<and>
    (\<forall>q \<in> set (po_engines p). busy out p (snd q) \<longrightarrow> q \<in> set (po_engines p')) \<and>
    (length (po_engines p') \<le> po_cache_size p' \<or>
       (\<forall>q \<in> set (po_engines p'). fst q = name \<or> busy out p' (snd q))) \<and>
    (pinned \<longrightarrow> busy out p' e)"
proof -
  obtain g1 g2 p1 p2 p3 where x: "expire_idle out now p = (g1, p1)" and h: "handed name now p1 = (e, p2)"
    and v: "evict_unused_over_cap out name p2 = (g2, p3)" and gone: "gone = g1 @ g2"
    and p': "p' = (if pinned then p3\<lparr>po_pins := (po_pins p3)(e := po_pins p3 e + 1)\<rparr> else p3)"
    using assms(2) by (rule engine_for_SomeD)
  have d0: "distinct (map fst (po_engines p))" using assms(1) by (simp add: pool_ok_def)
  note c1 = expire_idle_closes [OF d0 x]
  have ok1: "pool_ok p1" by (rule closes_ok [OF c1 assms(1)])
  note hd = handed_ok [OF ok1 h]
  have d2: "distinct (map fst (po_engines p2))" using hd(1) by (simp add: pool_ok_def)
  note ev = evict_spec [OF v d2]
  have ok3: "pool_ok p3" by (rule closes_ok [OF ev(1) hd(1)])
  have busy_same: "busy out p1 = busy out p" "busy out p2 = busy out p" "busy out p3 = busy out p"
    using closesD(9) [OF c1] closesD(9) [OF ev(1)] hd(3) by (auto simp: busy_def fun_eq_iff)
  have eng: "po_engines p' = po_engines p3" "po_cache_size p' = po_cache_size p3"
    "po_last_used p' = po_last_used p3" "po_next p' = po_next p3" using p' by simp_all
  have mem3: "(name, e) \<in> set (po_engines p3)" using ev(2) hd(2) by auto
  have "e < po_next p3" using ok3 mem3 by (force simp: pool_ok_def)
  then have "pool_ok p'" using ok3 unfolding pool_ok_def eng by (auto simp: p')
  moreover have "engine_of p' name = Some e"
    using mem3 \<open>pool_ok p'\<close> by (simp add: engine_of_def eng pool_ok_def)
  moreover have held: "\<forall>q \<in> set (po_engines p). busy out p (snd q) \<longrightarrow> q \<in> set (po_engines p')"
    using closesD(7) [OF c1] hd(6) closesD(7) [OF ev(1)] unfolding busy_same eng by blast
  moreover have "engine_of p name = None \<or> engine_of p name = Some e \<or> \<not> busy out p (the (engine_of p name))"
  proof (cases "engine_of p name")
    case (Some e0)
    then have "(name, e0) \<in> set (po_engines p)" by (simp add: engine_of_def map_of_SomeD)
    then have "busy out p e0 \<longrightarrow> engine_of p' name = Some e0"
      using held \<open>pool_ok p'\<close> by (auto simp: engine_of_def pool_ok_def)
    then show ?thesis using Some \<open>engine_of p' name = Some e\<close> by auto
  qed simp
  moreover have "\<forall>d \<in> set gone. \<not> busy out p d"
    using closesD(8) [OF c1] closesD(8) [OF ev(1)] unfolding gone busy_same by auto
  moreover have "length (po_engines p') \<le> po_cache_size p' \<or>
      (\<forall>q \<in> set (po_engines p'). fst q = name \<or> busy out p' (snd q))"
  proof -
    have "busy out p (snd q) \<longrightarrow> busy out p' (snd q)" for q
      using busy_same(3) by (auto simp: p' busy_def fun_eq_iff)
    then show ?thesis using ev(3) closesD(2) [OF ev(1)] unfolding eng busy_same by metis
  qed
  moreover have "pinned \<longrightarrow> busy out p' e" by (simp add: p' busy_def)
  ultimately show ?thesis by (intro conjI)
qed

lemma engine_pool_safe_witness:
  "\<exists>p p'. new_pool 1 5 60 2 = Some p \<and> engine_for (\<lambda>_. 0) 7 ''a'' True p = Some (0, [], p') \<and>
     engine_of p' ''a'' = Some 0 \<and> busy (\<lambda>_. 0) p' 0"
proof -
  obtain p where p: "new_pool 1 5 60 2 = Some p" by (simp add: new_pool_def)
  then have eq: "p = \<lparr>po_cache_size = 1, po_pool_size = 5, po_idle_close = 60, po_reserved = 2,
      po_engines = [], po_last_used = (\<lambda>_. None), po_pins = (\<lambda>_. 0), po_next = 0\<rparr>"
    by (simp add: new_pool_def)
  have ok: "pool_ok p" by (simp add: eq pool_ok_def)
  obtain p' where p': "engine_for (\<lambda>_. 0) 7 ''a'' True p = Some (0, [], p')"
    by (simp add: eq engine_for_def check_database_name_def database_char_def expire_idle_def
        engine_of_def evict_unused_over_cap.simps less_eq_char_def)
  from engine_pool_safe [OF ok p'] p p' show ?thesis by blast
qed

section \<open>The order of a pass\<close>

text \<open>The visits of a pass, one after the other: their engines, and the pool they leave. A visit
  reads the clock for itself.\<close>

fun visit_engines ::
  "(nat \<Rightarrow> nat) \<Rightarrow> (string \<times> int) list \<Rightarrow> pool \<Rightarrow> (nat list \<times> pool) option" where
  "visit_engines out [] p = Some ([], p)"
| "visit_engines out ((n, now) # vs) p =
     (case visit_engine out now n p of
        None \<Rightarrow> None
      | Some (e, gone, p') \<Rightarrow>
          (case visit_engines out vs p' of None \<Rightarrow> None | Some (es, p'') \<Rightarrow> Some (e # es, p'')))"

definition hits_first :: "('w \<Rightarrow> string) \<Rightarrow> string list \<Rightarrow> 'w list \<Rightarrow> 'w list" where
  "hits_first name hot due =
     filter (\<lambda>w. name w \<in> set hot) due @ filter (\<lambda>w. name w \<notin> set hot) due"

text \<open>No one holds an engine between two visits, and nothing has gone idle.\<close>

definition calm :: "int \<Rightarrow> pool \<Rightarrow> bool" where
  "calm now p \<longleftrightarrow> (\<forall>e. po_pins p e = 0) \<and> (\<forall>n u. po_last_used p n = Some u \<longrightarrow> now - u \<le> po_idle_close p)"

lemma expire_nothing:
  assumes "calm now p"
  shows "expire_idle out now p = ([], p)"
proof -
  have no: "\<not> expires out now p n" for n
  proof (cases "po_last_used p n")
    case (Some u)
    then have "now - u \<le> po_idle_close p" using assms by (simp add: calm_def)
    then show ?thesis using Some by (simp add: expires_def)
  qed (simp add: expires_def)
  then show ?thesis by (simp add: expire_idle_def)
qed

lemma evict_one:
  assumes "\<forall>e. po_pins p e = 0" "po_engines p = (n, e) # rest" "n \<noteq> protect"
    and "n \<notin> fst ` set rest" "length (po_engines p) \<le> Suc (po_cache_size p)"
  shows "\<exists>gone p'. evict_unused_over_cap (\<lambda>_. 0) protect p = (gone, p') \<and>
     po_engines p' = (if length (po_engines p) \<le> po_cache_size p then po_engines p else rest) \<and>
     (\<forall>m u. po_last_used p' m = Some u \<longrightarrow> po_last_used p m = Some u) \<and>
     po_pins p' = po_pins p \<and> po_next p' = po_next p \<and> po_cache_size p' = po_cache_size p \<and>
     po_idle_close p' = po_idle_close p"
proof (cases "length (po_engines p) \<le> po_cache_size p")
  case True
  then show ?thesis by (subst evict_unused_over_cap.simps) simp
next
  case False
  have "victim (\<lambda>_. 0) protect p = Some (n, e)"
    using assms(1,2,3) by (simp add: victim_def busy_def)
  moreover have "filter (\<lambda>q. fst q \<noteq> n) (po_engines p) = rest"
    using assms(2,4) by (auto intro: filter_True)
  moreover have "length rest \<le> po_cache_size p" using assms(2,5) by simp
  ultimately show ?thesis
    using False
    by (subst evict_unused_over_cap.simps) (simp add: evict_unused_over_cap.simps Let_def)
qed

text \<open>One visit: \<open>A\<close> are the engines no visit of the pass has touched yet, \<open>B\<close> those it has.\<close>

lemma visit_step:
  assumes ok: "distinct (map fst (po_engines p))" and calm: "calm now p" and name: "check_database_name n"
    and AB: "po_engines p = A @ B" "n \<notin> fst ` set B" and cap: "length (po_engines p) \<le> po_cache_size p"
    "length B < po_cache_size p"
  shows "\<exists>e gone p' A'. visit_engine (\<lambda>_. 0) now n p = Some (e, gone, p') \<and>
     po_engines p' = A' @ B @ [(n, e)] \<and>
     (if n \<in> fst ` set A then engine_of p n = Some e \<and> A' = filter (\<lambda>q. fst q \<noteq> n) A \<and> po_next p' = po_next p
      else e = po_next p \<and> (\<exists>k. A' = drop k A) \<and> po_next p' = po_next p + 1) \<and>
     length (po_engines p') \<le> po_cache_size p' \<and> po_cache_size p' = po_cache_size p \<and>
     po_idle_close p' = po_idle_close p \<and> (\<forall>e. po_pins p' e = 0) \<and>
     (\<forall>m u. po_last_used p' m = Some u \<longrightarrow> u = now \<or> po_last_used p m = Some u)"
proof -
  have pins: "\<forall>e. po_pins p e = 0" using calm by (simp add: calm_def)
  obtain e p2 where h: "handed n now p = (e, p2)" by fastforce
  have "\<exists>gone p3 A'. evict_unused_over_cap (\<lambda>_. 0) n p2 = (gone, p3) \<and> po_engines p3 = A' @ B @ [(n, e)] \<and>
     (if n \<in> fst ` set A then engine_of p n = Some e \<and> A' = filter (\<lambda>q. fst q \<noteq> n) A \<and> po_next p3 = po_next p
      else e = po_next p \<and> (\<exists>k. A' = drop k A) \<and> po_next p3 = po_next p + 1) \<and>
     length (po_engines p3) \<le> po_cache_size p \<and> po_cache_size p3 = po_cache_size p \<and>
     po_idle_close p3 = po_idle_close p \<and> po_pins p3 = po_pins p \<and>
     (\<forall>m u. po_last_used p3 m = Some u \<longrightarrow> u = now \<or> po_last_used p m = Some u)"
  proof (cases "n \<in> fst ` set A")
    case True
    then obtain e0 where e0: "engine_of p n = Some e0"
      using AB by (cases "engine_of p n") (auto simp: engine_of_def map_of_eq_None_iff)
    have B: "filter (\<lambda>q. fst q \<noteq> n) B = B" using AB(2) by (auto intro: filter_True)
    have p2: "e = e0" "p2 = p\<lparr>po_engines := filter (\<lambda>q. fst q \<noteq> n) A @ B @ [(n, e)],
        po_last_used := (po_last_used p)(n \<mapsto> now)\<rparr>"
      using h e0 AB(1) B by (auto simp: handed_def)
    have "length (filter (\<lambda>q. fst q \<noteq> n) A) < length A"
      using True by (auto intro: length_filter_less)
    then have len: "length (po_engines p2) \<le> po_cache_size p2" using cap(1) AB(1) p2(2) by simp
    then have "evict_unused_over_cap (\<lambda>_. 0) n p2 = ([], p2)"
      by (subst evict_unused_over_cap.simps) simp
    then show ?thesis using True e0 p2 len by auto
  next
    case False
    then have none: "engine_of p n = None"
      using AB by (auto simp: engine_of_def map_of_eq_None_iff)
    have p2: "e = po_next p" "p2 = p\<lparr>po_engines := A @ B @ [(n, e)], po_next := po_next p + 1,
        po_last_used := (po_last_used p)(n \<mapsto> now)\<rparr>"
      using h none AB(1) by (auto simp: handed_def)
    show ?thesis
    proof (cases A)
      case Nil
      then have len: "length (po_engines p2) \<le> po_cache_size p2" using cap(2) p2(2) by simp
      then have "evict_unused_over_cap (\<lambda>_. 0) n p2 = ([], p2)"
        by (subst evict_unused_over_cap.simps) simp
      then show ?thesis using False p2 len Nil by auto
    next
      case (Cons a A1)
      obtain m d where a: "a = (m, d)" by fastforce
      have "m \<noteq> n" using False Cons a by auto
      moreover have "m \<notin> fst ` set (A1 @ B @ [(n, e)])" using ok AB(1) Cons a \<open>m \<noteq> n\<close> by auto
      moreover have "length (po_engines p2) \<le> Suc (po_cache_size p2)" using cap(1) AB(1) p2(2) by simp
      moreover have "po_engines p2 = (m, d) # A1 @ B @ [(n, e)]" using p2(2) Cons a by simp
      moreover have "\<forall>e. po_pins p2 e = 0" using pins p2(2) by simp
      ultimately obtain gone p3 where p3: "evict_unused_over_cap (\<lambda>_. 0) n p2 = (gone, p3)"
        "po_engines p3 = (if length (po_engines p2) \<le> po_cache_size p2 then po_engines p2 else A1 @ B @ [(n, e)])"
        "\<forall>m u. po_last_used p3 m = Some u \<longrightarrow> po_last_used p2 m = Some u"
        "po_pins p3 = po_pins p2" "po_next p3 = po_next p2" "po_cache_size p3 = po_cache_size p2"
        "po_idle_close p3 = po_idle_close p2"
        using evict_one [of p2 m d "A1 @ B @ [(n, e)]" n] by blast
      let ?A' = "if length (po_engines p2) \<le> po_cache_size p2 then A else A1"
      have "po_engines p3 = ?A' @ B @ [(n, e)]" using p3(2) p2(2) by simp
      moreover have "\<exists>k. ?A' = drop k A" using Cons by (metis drop0 drop_Suc_Cons)
      moreover have "length (po_engines p3) \<le> po_cache_size p"
        using p3(2) p2(2) cap(1) AB(1) Cons by (auto split: if_splits)
      moreover have "\<forall>m u. po_last_used p3 m = Some u \<longrightarrow> u = now \<or> po_last_used p m = Some u"
        using p3(3) p2(2) by (auto split: if_splits)
      ultimately show ?thesis
        using False p2 p3 by (intro exI [of _ gone] exI [of _ p3] exI [of _ ?A']) simp
    qed
  qed
  then obtain gone p3 A' where ev: "evict_unused_over_cap (\<lambda>_. 0) n p2 = (gone, p3)" and
    post: "po_engines p3 = A' @ B @ [(n, e)]"
     "if n \<in> fst ` set A then engine_of p n = Some e \<and> A' = filter (\<lambda>q. fst q \<noteq> n) A \<and> po_next p3 = po_next p
      else e = po_next p \<and> (\<exists>k. A' = drop k A) \<and> po_next p3 = po_next p + 1"
     "length (po_engines p3) \<le> po_cache_size p" "po_cache_size p3 = po_cache_size p"
     "po_idle_close p3 = po_idle_close p" "po_pins p3 = po_pins p"
     "\<forall>m u. po_last_used p3 m = Some u \<longrightarrow> u = now \<or> po_last_used p m = Some u"
    by blast
  have "engine_for (\<lambda>_. 0) now n True p = Some (e, gone, p3\<lparr>po_pins := (po_pins p3)(e := po_pins p3 e + 1)\<rparr>)"
    using name expire_nothing [OF calm] h ev
    by (auto simp: engine_for_def handed_def Let_def split: option.splits prod.splits)
  then have "visit_engine (\<lambda>_. 0) now n p =
      Some (e, gone, unpin e (p3\<lparr>po_pins := (po_pins p3)(e := po_pins p3 e + 1)\<rparr>))"
    by (simp add: visit_engine_def)
  then show ?thesis
    using post pins
    by (intro exI [of _ e] exI [of _ gone] exI [of _ "unpin e (p3\<lparr>po_pins := (po_pins p3)(e := po_pins p3 e + 1)\<rparr>)"]
        exI [of _ A']) (simp add: unpin_def)
qed

text \<open>The rest of a pass: \<open>hits\<close> still to be visited are among the untouched, \<open>misses\<close> are not cached.\<close>

lemma visit_engines_pass:
  assumes "distinct (map fst (po_engines p))" "\<forall>e. po_pins p e = 0"
    and "po_engines p = A @ B" "length (po_engines p) \<le> po_cache_size p"
    and "length B + length vs \<le> po_cache_size p"
    and "map fst vs = hits @ misses" "distinct (hits @ misses)" "\<forall>n \<in> set (map fst vs). check_database_name n"
    and "set hits \<subseteq> fst ` set A" "set misses \<inter> fst ` set (A @ B) = {}"
    and "set hits \<inter> fst ` set B = {}"
    and "\<forall>t \<in> snd ` set vs. (\<forall>m u. po_last_used p m = Some u \<longrightarrow> t - u \<le> po_idle_close p) \<and>
      (\<forall>t' \<in> snd ` set vs. t - t' \<le> po_idle_close p)"
  shows "\<exists>es p'. visit_engines (\<lambda>_. 0) vs p = Some (es, p') \<and>
     es = map (\<lambda>n. the (engine_of p n)) hits @ [po_next p ..< po_next p + length misses] \<and>
     fst ` set B \<union> set (hits @ misses) \<subseteq> set (cached p')"
  using assms
proof (induction vs arbitrary: p A B hits misses)
  case Nil
  then show ?case by (auto simp: cached_def)
next
  case (Cons v vs)
  obtain n now where v: "v = (n, now)" by fastforce
  have n: "hits @ misses = n # map fst vs" using Cons.prems(6) v by simp
  have nB: "n \<notin> fst ` set B" using Cons.prems(9-11) n by (cases hits) auto
  have calm: "calm now p" using Cons.prems(2,12) v by (simp add: calm_def)
  have name: "check_database_name n" using Cons.prems(8) v by simp
  have room: "length B < po_cache_size p" using Cons.prems(5) by simp
  obtain e gone p1 A1 where s: "visit_engine (\<lambda>_. 0) now n p = Some (e, gone, p1)"
    and eng: "po_engines p1 = A1 @ B @ [(n, e)]"
    and which: "if n \<in> fst ` set A then engine_of p n = Some e \<and> A1 = filter (\<lambda>q. fst q \<noteq> n) A \<and> po_next p1 = po_next p
      else e = po_next p \<and> (\<exists>k. A1 = drop k A) \<and> po_next p1 = po_next p + 1"
    and len: "length (po_engines p1) \<le> po_cache_size p1"
    and frame: "po_cache_size p1 = po_cache_size p" "po_idle_close p1 = po_idle_close p" "\<forall>e. po_pins p1 e = 0"
    and lasts: "\<forall>m u. po_last_used p1 m = Some u \<longrightarrow> u = now \<or> po_last_used p m = Some u"
    using visit_step [OF Cons.prems(1) calm name Cons.prems(3) nB Cons.prems(4) room] by blast
  have subA: "set A1 \<subseteq> set A" using which by (auto split: if_splits dest: in_set_dropD)
  have dA: "distinct (map fst A)" using Cons.prems(1,3) by simp
  have "distinct (map fst A1)"
    using which dA by (auto simp: distinct_map_filter drop_map [symmetric] split: if_splits)
  moreover have n_A1: "n \<notin> fst ` set A1" using which subA by (auto split: if_splits)
  moreover have "distinct (map fst B)" "fst ` set A \<inter> fst ` set B = {}" using Cons.prems(1,3) by auto
  moreover from this have "fst ` set A1 \<inter> fst ` set B = {}" using subA by blast
  ultimately have d1: "distinct (map fst (po_engines p1))" using nB unfolding eng by simp
  have times: "\<forall>t \<in> snd ` set vs. (\<forall>m u. po_last_used p1 m = Some u \<longrightarrow> t - u \<le> po_idle_close p1) \<and>
      (\<forall>t' \<in> snd ` set vs. t - t' \<le> po_idle_close p1)"
  proof
    fix t assume "t \<in> snd ` set vs"
    then have "t \<in> snd ` set (v # vs)" by simp
    then have t: "\<forall>m u. po_last_used p m = Some u \<longrightarrow> t - u \<le> po_idle_close p"
      "\<forall>t' \<in> snd ` set (v # vs). t - t' \<le> po_idle_close p"
      using Cons.prems(12) by blast+
    have "t - u \<le> po_idle_close p" if "po_last_used p1 m = Some u" for m u
      using lasts that t v by auto
    then show "(\<forall>m u. po_last_used p1 m = Some u \<longrightarrow> t - u \<le> po_idle_close p1) \<and>
        (\<forall>t' \<in> snd ` set vs. t - t' \<le> po_idle_close p1)"
      using t(2) unfolding frame by simp
  qed
  have rest: "length (B @ [(n, e)]) + length vs \<le> po_cache_size p1"
    "\<forall>m \<in> set (map fst vs). check_database_name m"
    using Cons.prems(5,8) frame(1) by simp_all
  show ?case
  proof (cases hits)
    case (Cons h hs)
    then have h: "h = n" "map fst vs = hs @ misses" using n by simp_all
    have "n \<in> fst ` set A" using Cons.prems(9) Cons h by auto
    then have hit: "engine_of p n = Some e" "A1 = filter (\<lambda>q. fst q \<noteq> n) A" "po_next p1 = po_next p"
      using which by simp_all
    have hs: "set hs \<subseteq> fst ` set A1" using Cons.prems(7,9) Cons h hit(2) by force
    have ms: "set misses \<inter> fst ` set (A1 @ B @ [(n, e)]) = {}"
      using Cons.prems(7,10) Cons h subA by auto
    have hB: "set hs \<inter> fst ` set (B @ [(n, e)]) = {}"
      using Cons.prems(7,11) Cons h by auto
    have dis: "distinct (hs @ misses)" using Cons.prems(7) Cons by simp
    obtain es p' where ih: "visit_engines (\<lambda>_. 0) vs p1 = Some (es, p')"
      "es = map (\<lambda>n. the (engine_of p1 n)) hs @ [po_next p1 ..< po_next p1 + length misses]"
      "fst ` set (B @ [(n, e)]) \<union> set (hs @ misses) \<subseteq> set (cached p')"
      using Cons.IH [OF d1 frame(3) eng len rest(1) h(2) dis rest(2) hs ms hB times] by blast
    have "engine_of p1 m = engine_of p m" if m: "m \<in> set hs" for m
    proof -
      obtain d where d: "(m, d) \<in> set A1" using hs m by force
      then have "engine_of p1 m = Some d" using d1 unfolding engine_of_def eng by simp
      moreover have "engine_of p m = Some d"
        using d subA Cons.prems(1,3) unfolding engine_of_def by auto
      ultimately show ?thesis by simp
    qed
    then have "map (\<lambda>n. the (engine_of p1 n)) hs = map (\<lambda>n. the (engine_of p n)) hs" by simp
    then show ?thesis using ih s v Cons h hit by auto
  next
    case Nil
    then obtain ms where ms: "misses = n # ms" "map fst vs = ms" using n by (cases misses) auto
    have "n \<notin> fst ` set A" using Cons.prems(10) ms by auto
    then have miss: "e = po_next p" "po_next p1 = po_next p + 1" using which by simp_all
    have m1: "set ms \<inter> fst ` set (A1 @ B @ [(n, e)]) = {}"
      using Cons.prems(7,10) ms subA by auto
    have dis: "distinct ([] @ ms)" using Cons.prems(7) ms by simp
    obtain es p' where ih: "visit_engines (\<lambda>_. 0) vs p1 = Some (es, p')"
      "es = map (\<lambda>n. the (engine_of p1 n)) [] @ [po_next p1 ..< po_next p1 + length ms]"
      "fst ` set (B @ [(n, e)]) \<union> set ([] @ ms) \<subseteq> set (cached p')"
      using Cons.IH [OF d1 frame(3) eng len rest(1) _ dis rest(2) _ m1 _ times] ms by auto
    have "e # es = [po_next p ..< po_next p + length misses]"
    proof -
      have "[po_next p ..< po_next p + length misses] = po_next p # [Suc (po_next p) ..< po_next p + length misses]"
        using ms(1) by (intro upt_conv_Cons) simp
      moreover have "es = [Suc (po_next p) ..< po_next p + length misses]"
        using ih(2) miss(2) ms(1) by (simp del: upt_Suc)
      ultimately show ?thesis using miss(1) by simp
    qed
    then show ?thesis using ih s v Nil ms(1) by auto
  qed
qed

text \<open>
  C35. A pass over no more workspaces than the cache holds, ordered by \<open>hits_first\<close>, opens one
  engine for every workspace that had none and no other: each cached one is visited on the
  engine it had, and at the end every workspace of the pass is cached. (No one else uses the
  pool during the pass, and nothing in it goes idle.)
\<close>

theorem pass_opens_only_misses:
  assumes "pool_ok p" "\<forall>e. po_pins p e = 0" "length (po_engines p) \<le> po_cache_size p"
    and "distinct (map name due)" "length due \<le> po_cache_size p" "\<forall>w \<in> set due. check_database_name (name w)"
    and "map fst vs = map name (hits_first name (cached p) due)"
    and "\<forall>t \<in> snd ` set vs. (\<forall>m u. po_last_used p m = Some u \<longrightarrow> t - u \<le> po_idle_close p) \<and>
      (\<forall>t' \<in> snd ` set vs. t - t' \<le> po_idle_close p)"
  shows "\<exists>es p'. visit_engines (\<lambda>_. 0) vs p = Some (es, p') \<and>
     es = map (\<lambda>w. the (engine_of p (name w))) (filter (\<lambda>w. name w \<in> set (cached p)) due) @
       [po_next p ..< po_next p + length (filter (\<lambda>w. name w \<notin> set (cached p)) due)] \<and>
     name ` set due \<subseteq> set (cached p')"
proof -
  let ?h = "map name (filter (\<lambda>w. name w \<in> set (cached p)) due)"
    and ?m = "map name (filter (\<lambda>w. name w \<notin> set (cached p)) due)"
  have vs: "map fst vs = ?h @ ?m" using assms(7) by (simp add: hits_first_def)
  have all: "set (?h @ ?m) = name ` set due" by auto
  have "length vs = length (?h @ ?m)" using vs by (metis length_map)
  then have len: "length vs = length due"
    using sum_length_filter_compl [of "\<lambda>w. name w \<in> set (cached p)" due] by simp
  have dis: "distinct (?h @ ?m)"
    using assms(4) by (auto simp: distinct_map_filter)
  have names: "\<forall>n \<in> set (map fst vs). check_database_name n" using assms(6) vs all by auto
  have "\<exists>es p'. visit_engines (\<lambda>_. 0) vs p = Some (es, p') \<and>
     es = map (\<lambda>n. the (engine_of p n)) ?h @ [po_next p ..< po_next p + length ?m] \<and>
     fst ` set ([] :: (string \<times> nat) list) \<union> set (?h @ ?m) \<subseteq> set (cached p')"
    by (rule visit_engines_pass [where A = "po_engines p" and B = "[]"])
      (use assms vs len dis names in \<open>auto simp: pool_ok_def cached_def\<close>)
  then show ?thesis unfolding all by (simp add: comp_def)
qed

lemma pass_opens_only_misses_witness:
  "\<exists>p'. visit_engines (\<lambda>_. 0) [(''b'', 3), (''a'', 4)]
     \<lparr>po_cache_size = 2, po_pool_size = 5, po_idle_close = 60, po_reserved = 2,
      po_engines = [(''c'', 0), (''b'', 1)], po_last_used = [''c'' \<mapsto> 1, ''b'' \<mapsto> 2],
      po_pins = (\<lambda>_. 0), po_next = 2\<rparr> = Some ([1, 2], p') \<and> {''a'', ''b''} \<subseteq> set (cached p')"
proof -
  let ?p = "\<lparr>po_cache_size = 2, po_pool_size = 5, po_idle_close = 60, po_reserved = 2,
      po_engines = [(''c'', 0), (''b'', 1)], po_last_used = [''c'' \<mapsto> 1, ''b'' \<mapsto> 2],
      po_pins = (\<lambda>_. 0), po_next = 2\<rparr>"
  have ok: "pool_ok ?p" by (auto simp: pool_ok_def)
  have names: "\<forall>w \<in> set [''a'', ''b'']. check_database_name w"
    by (auto simp: check_database_name_def database_char_def less_eq_char_def)
  have order: "map fst [(''b'', 3 :: int), (''a'', 4)] =
      map (\<lambda>w. w) (hits_first (\<lambda>w. w) (cached ?p) [''a'', ''b''])"
    by (simp add: hits_first_def cached_def)
  have times: "\<forall>t \<in> snd ` set [(''b'', 3 :: int), (''a'', 4)].
      (\<forall>m u. po_last_used ?p m = Some u \<longrightarrow> t - u \<le> po_idle_close ?p) \<and>
      (\<forall>t' \<in> snd ` set [(''b'', 3 :: int), (''a'', 4)]. t - t' \<le> po_idle_close ?p)"
    by auto
  show ?thesis
    using pass_opens_only_misses [OF ok _ _ _ _ names order times]
    by (simp add: cached_def engine_of_def)
qed

end
