(* ===== verification/Visits.thy ===== *)
theory Visits
  imports Due_Index Engine_Pool Record_Refs Backoff
begin

text \<open>
  The upper half of \<^verbatim>\<open>rheo_core/work/loop.py\<close>: the visit of a workspace, the pass over the due
  index, and the worker's loop with its waits.

  What a visit calls in the workspace database (the schedules, the two leases, the run of one
  job or delivery, the instants of the three tables) is a parameter over an abstract state; the
  other theories model those calls. A visit that raises is \<open>None\<close>.
\<close>

definition max_jobs_per_visit :: nat where "max_jobs_per_visit = 16"
definition idle_interval_seconds :: rat where "idle_interval_seconds = 1"
definition max_pass_backoff_seconds :: rat where "max_pass_backoff_seconds = 60"
definition failed_visit_seconds :: int where "failed_visit_seconds = 60"

section \<open>The visit of a workspace\<close>

record visit_result =
  vr_next_due_at :: "instant option"
  vr_jobs_acquired :: nat
  vr_deliveries_acquired :: nat

text \<open>The bounded drain: how many leases were taken, and whether there was nothing left to take.\<close>

fun drain :: "nat \<Rightarrow> ('s \<Rightarrow> 'l option \<times> 's) \<Rightarrow> ('l \<Rightarrow> 's \<Rightarrow> 's) \<Rightarrow> 's \<Rightarrow> nat \<times> bool \<times> 's" where
  "drain 0 acquire run s = (0, False, s)"
| "drain (Suc n) acquire run s =
     (case acquire s of
        (None, s1) \<Rightarrow> (0, True, s1)
      | (Some l, s1) \<Rightarrow>
          (let (k, drained, s2) = drain n acquire run (run l s1) in (k + 1, drained, s2)))"

definition visit_workspace ::
  "('s \<Rightarrow> 's) \<Rightarrow> ('s \<Rightarrow> 'j option \<times> 's) \<Rightarrow> ('j \<Rightarrow> 's \<Rightarrow> 's) \<Rightarrow> ('s \<Rightarrow> 'd option \<times> 's) \<Rightarrow>
   ('d \<Rightarrow> 's \<Rightarrow> 's) \<Rightarrow> ('s \<Rightarrow> instant option list) \<Rightarrow> ('s \<Rightarrow> instant) \<Rightarrow> 's \<Rightarrow> visit_result \<times> 's" where
  "visit_workspace schedules acquire_job run_job acquire_delivery run_delivery instants clock s =
     (let (jobs, drained, s1) = drain max_jobs_per_visit acquire_job run_job (schedules s);
          (deliveries, deliveries_drained, s2) =
            drain max_jobs_per_visit acquire_delivery run_delivery s1;
          remaining = earliest (instants s2)
      in (\<lparr>vr_next_due_at =
             (if (drained \<and> deliveries_drained) \<or> remaining = None then remaining
              else Some (clock s2)),
           vr_jobs_acquired = jobs, vr_deliveries_acquired = deliveries\<rparr>, s2))"

lemma drain_bounds:
  assumes "drain n acquire run s = (k, drained, s')"
  shows "k \<le> n" "\<not> drained \<longrightarrow> k = n" "drained \<longrightarrow> (\<exists>s0. acquire s0 = (None, s'))"
proof -
  have "k \<le> n \<and> (\<not> drained \<longrightarrow> k = n) \<and> (drained \<longrightarrow> (\<exists>s0. acquire s0 = (None, s')))"
    using assms
  proof (induction n arbitrary: s k)
    case (Suc n)
    obtain l s1 where a: "acquire s = (l, s1)" by fastforce
    show ?case
    proof (cases l)
      case None
      then show ?thesis using Suc.prems a by auto
    next
      case (Some x)
      obtain k' where "drain n acquire run (run x s1) = (k', drained, s')" "k = k' + 1"
        using Suc.prems a Some by (auto split: prod.splits)
      then show ?thesis using Suc.IH by fastforce
    qed
  qed simp
  then show "k \<le> n" "\<not> drained \<longrightarrow> k = n" "drained \<longrightarrow> (\<exists>s0. acquire s0 = (None, s'))" by auto
qed

section \<open>The pass\<close>

definition database_name_for :: "uuid \<Rightarrow> string" where
  "database_name_for u = ''ws_'' @ uuid_hex u"

definition cache_hits_first :: "due_workspace list \<Rightarrow> string list \<Rightarrow> due_workspace list" where
  "cache_hits_first due hot = hits_first (\<lambda>w. database_name_for (dw_workspace_id w)) hot due"

record pass_result =
  pr_workspaces_visited :: nat
  pr_jobs_acquired :: nat
  pr_deliveries_acquired :: nat

definition found_work :: "pass_result \<Rightarrow> bool" where
  "found_work r \<longleftrightarrow> 0 < pr_jobs_acquired r \<or> 0 < pr_deliveries_acquired r"

text \<open>What a pass works on: the due index, the engine pool, the workspaces and the world.\<close>

record 's pass_state =
  pst_index :: due_index
  pst_pool :: pool
  pst_world :: 's

type_synonym 's visit = "due_workspace \<Rightarrow> 's pass_state \<Rightarrow> visit_result option \<times> 's pass_state"

definition next_due :: "instant \<Rightarrow> visit_result option \<Rightarrow> instant option" where
  "next_due now r =
     (case r of None \<Rightarrow> Some (now + seconds failed_visit_seconds) | Some v \<Rightarrow> vr_next_due_at v)"

fun visit_each ::
  "instant \<Rightarrow> int \<Rightarrow> 's visit \<Rightarrow> ('s \<Rightarrow> instant) \<Rightarrow> due_workspace list \<Rightarrow> 's pass_state \<Rightarrow>
   index_error + (nat \<times> nat) \<times> 's pass_state" where
  "visit_each now reconcile visit clock [] st = Inr ((0, 0), st)"
| "visit_each now reconcile visit clock (w # ws) st =
     (let (r, st1) = visit w st;
          (j, d) = (case r of None \<Rightarrow> (0, 0)
                    | Some v \<Rightarrow> (vr_jobs_acquired v, vr_deliveries_acquired v))
      in case record_visit (clock (pst_world st1)) (dw_workspace_id w) (dw_observed_due_at w)
                (next_due now r) reconcile (pst_index st1) of
           Inl e \<Rightarrow> Inl e
         | Inr (b, di) \<Rightarrow>
             (case visit_each now reconcile visit clock ws (st1\<lparr>pst_index := di\<rparr>) of
                Inl e \<Rightarrow> Inl e
              | Inr ((js, ds), st2) \<Rightarrow> Inr ((j + js, d + ds), st2)))"

text \<open>\<open>monotonic\<close> is the monotonic clock the pool reads when the pass closes the idle engines.\<close>

definition run_one_pass ::
  "instant \<Rightarrow> int \<Rightarrow> 's visit \<Rightarrow> ('s \<Rightarrow> instant) \<Rightarrow> (nat \<Rightarrow> nat) \<Rightarrow> ('s \<Rightarrow> int) \<Rightarrow> 's pass_state \<Rightarrow>
   index_error + pass_result \<times> 's pass_state" where
  "run_one_pass now reconcile visit clock out monotonic st =
     (case workspaces_with_due_work now (int (po_cache_size (pst_pool st))) (pst_index st) of
        Inl e \<Rightarrow> Inl e
      | Inr found \<Rightarrow>
          (let due = cache_hits_first found (cached (pst_pool st))
           in case visit_each now reconcile visit clock due st of
                Inl e \<Rightarrow> Inl e
              | Inr ((j, d), st1) \<Rightarrow>
                  Inr (\<lparr>pr_workspaces_visited = length due, pr_jobs_acquired = j,
                        pr_deliveries_acquired = d\<rparr>,
                       st1\<lparr>pst_pool := snd (close_idle out (monotonic (pst_world st1)) (pst_pool st1))\<rparr>)))"

section \<open>The loop\<close>

definition pass_backoff_seconds :: "int \<Rightarrow> rat" where
  "pass_backoff_seconds consecutive_failures =
     (let doublings = min (max (consecutive_failures - 1) 0) 8
      in min (idle_interval_seconds * 2 ^ nat doublings) max_pass_backoff_seconds)"

text \<open>\<open>Inl ()\<close> is a pass that raised.\<close>

type_synonym pass_outcome = "unit + pass_result"

text \<open>What one iteration meets: the stop event when it is tested, whether the heartbeat, the clock
  and the read of \<^verbatim>\<open>work.due_reconcile_seconds\<close> returned, which the loop calls outside its
  \<^verbatim>\<open>try\<close>, and the outcome of the pass.\<close>

record iteration =
  it_stop :: bool
  it_begun :: bool
  it_pass :: pass_outcome

text \<open>How the loop ended: by the stop event, by the pass limit, by an exception of its own; or it is
  still running after the iterations given.\<close>

datatype loop_end = Loop_Stopped | Loop_Limit | Loop_Raised | Loop_Running

text \<open>The waits after the passes that ran (\<open>None\<close>: none), and the end.\<close>

fun worker_loop :: "nat option \<Rightarrow> nat \<Rightarrow> int \<Rightarrow> iteration list \<Rightarrow> rat option list \<times> loop_end" where
  "worker_loop max_passes passes failures [] = ([], Loop_Running)"
| "worker_loop max_passes passes failures (it # rest) =
     (if it_stop it then ([], Loop_Stopped)
      else if (case max_passes of None \<Rightarrow> False | Some m \<Rightarrow> m \<le> passes) then ([], Loop_Limit)
      else if \<not> it_begun it then ([], Loop_Raised)
      else case it_pass it of
             Inl _ \<Rightarrow>
               (let (waits, e) = worker_loop max_passes (passes + 1) (failures + 1) rest
                in (Some (pass_backoff_seconds (failures + 1)) # waits, e))
           | Inr r \<Rightarrow>
               (let (waits, e) = worker_loop max_passes (passes + 1) 0 rest
                in ((if found_work r then None else Some idle_interval_seconds) # waits, e)))"

section \<open>Every visit is recorded\<close>

lemma record_visit_Some:
  "record_visit now w (Some d) n reconcile di = Inr (b, di') \<Longrightarrow>
   di_due di' = update_where (\<lambda>r. du_workspace_id r = w \<and> du_due_at r = d)
     (\<lambda>r. r\<lparr>du_due_at := visit_due_at now n reconcile, du_updated_at := now\<rparr>) (di_due di)"
  by (auto simp: record_visit_def apply_where_def Let_def split: if_splits)

lemma record_visit_others:
  assumes "record_visit now w observed n reconcile di = Inr (b, di')" "unique_by du_workspace_id (di_due di)"
  shows "v \<noteq> w \<Longrightarrow> due_of di' v = due_of di v" "unique_by du_workspace_id (di_due di')"
proof -
  show "due_of di' v = due_of di v" if "v \<noteq> w"
  proof (cases observed)
    case None
    then show ?thesis
      using assms(1) that
      by (auto simp: record_visit_def due_of_def lookup_by_append Let_def split: if_splits option.splits)
  next
    case (Some d)
    let ?P = "\<lambda>r :: due_row. du_workspace_id r = w \<and> du_due_at r = d"
      and ?f = "\<lambda>r :: due_row. r\<lparr>du_due_at := visit_due_at now n reconcile, du_updated_at := now\<rparr>"
    have pw: "predicated_write du_workspace_id ?P ?f w" by (rule predicated_writeI) simp
    have "di_due di' = snd (apply_where ?P ?f (di_due di))"
      using record_visit_Some [OF assms(1) [unfolded Some]] by simp
    then show ?thesis using predicated_write.other_rows [OF pw that] by (simp add: due_of_def)
  qed
  show "unique_by du_workspace_id (di_due di')"
  proof (cases observed)
    case None
    then show ?thesis
      using assms by (auto simp: record_visit_def unique_by_def Let_def split: if_splits)
  next
    case (Some d)
    then have "di_due di' = update_where (\<lambda>r. du_workspace_id r = w \<and> du_due_at r = d)
        (\<lambda>r. r\<lparr>du_due_at := visit_due_at now n reconcile, du_updated_at := now\<rparr>) (di_due di)"
      using record_visit_Some [OF assms(1) [unfolded Some]] by simp
    then show ?thesis using assms(2) by (simp add: unique_update_where)
  qed
qed

text \<open>Where a visit leaves its workspace due: at the instant it reported, a minute after the pass
  began when it failed, and in any case no later than a reconcile interval from the write.\<close>

definition recorded_due :: "instant \<Rightarrow> instant \<Rightarrow> int \<Rightarrow> visit_result option \<Rightarrow> instant" where
  "recorded_due pass_began written reconcile r =
     (case r of None \<Rightarrow> min (pass_began + seconds 60) (written + seconds reconcile)
      | Some v \<Rightarrow> (case vr_next_due_at v of None \<Rightarrow> written + seconds reconcile
                  | Some n \<Rightarrow> min n (written + seconds reconcile)))"

lemma visit_due_recorded: "visit_due_at written (next_due began r) reconcile = recorded_due began written reconcile r"
  by (simp add: visit_due_at_def next_due_def recorded_due_def failed_visit_seconds_def split: option.split)

text \<open>
  One visit of a pass, from the state it began in to the state the next one begins in. A mark may
  have landed in the index meanwhile, which then is not the index the pass read.
\<close>

definition recorded_visit ::
  "instant \<Rightarrow> int \<Rightarrow> 's visit \<Rightarrow> ('s \<Rightarrow> instant) \<Rightarrow> due_workspace \<Rightarrow> 's pass_state \<Rightarrow>
   visit_result option \<Rightarrow> 's pass_state \<Rightarrow> bool" where
  "recorded_visit now reconcile visit clock w s r s' \<longleftrightarrow>
     (\<exists>m. visit w s = (r, m) \<and> pst_pool s' = pst_pool m \<and> pst_world s' = pst_world m \<and>
        due_of (pst_index s') (dw_workspace_id w) =
          (if due_of (pst_index m) (dw_workspace_id w) = dw_observed_due_at w
           then Some (recorded_due now (clock (pst_world m)) reconcile r)
           else due_of (pst_index m) (dw_workspace_id w)) \<and>
        (\<forall>v. v \<noteq> dw_workspace_id w \<longrightarrow> due_of (pst_index s') v = due_of (pst_index m) v))"

definition jobs_in :: "visit_result option \<Rightarrow> nat" where
  "jobs_in r = (case r of None \<Rightarrow> 0 | Some v \<Rightarrow> vr_jobs_acquired v)"

definition deliveries_in :: "visit_result option \<Rightarrow> nat" where
  "deliveries_in r = (case r of None \<Rightarrow> 0 | Some v \<Rightarrow> vr_deliveries_acquired v)"

lemma visit_each_chain:
  assumes "visit_each now reconcile visit clock ws st = Inr ((j, d), st')"
    and keeps: "\<And>w s. unique_by du_workspace_id (di_due (pst_index s)) \<Longrightarrow>
      unique_by du_workspace_id (di_due (pst_index (snd (visit w s))))"
    and "unique_by du_workspace_id (di_due (pst_index st))"
  shows "\<exists>ss rs. length rs = length ws \<and> length ss = Suc (length ws) \<and> ss ! 0 = st \<and>
    ss ! length ws = st' \<and> j = sum_list (map jobs_in rs) \<and> d = sum_list (map deliveries_in rs) \<and>
    (\<forall>k < length ws. recorded_visit now reconcile visit clock (ws ! k) (ss ! k) (rs ! k) (ss ! Suc k))"
  using assms(1,3)
proof (induction ws arbitrary: st j d)
  case Nil
  then show ?case by (intro exI [of _ "[st]"] exI [of _ "[]"]) simp
next
  case (Cons w ws)
  obtain r m where v: "visit w st = (r, m)" by fastforce
  obtain b di where rec: "record_visit (clock (pst_world m)) (dw_workspace_id w)
      (dw_observed_due_at w) (next_due now r) reconcile (pst_index m) = Inr (b, di)"
    using Cons.prems(1) v by (auto simp: Let_def split: sum.splits prod.splits)
  obtain js ds where rest: "visit_each now reconcile visit clock ws (m\<lparr>pst_index := di\<rparr>) = Inr ((js, ds), st')"
    and sums: "j = jobs_in r + js" "d = deliveries_in r + ds"
    using Cons.prems(1) v rec
    by (cases r) (auto simp: Let_def jobs_in_def deliveries_in_def split: sum.splits prod.splits)
  have um: "unique_by du_workspace_id (di_due (pst_index m))"
    using keeps [OF Cons.prems(2), of w] v by simp
  note rv = record_visit_due [OF rec um] and others = record_visit_others [OF rec um]
  have one: "recorded_visit now reconcile visit clock w st r (m\<lparr>pst_index := di\<rparr>)"
    unfolding recorded_visit_def using v rv others(1)
    by (intro exI [of _ m]) (auto simp: visit_due_recorded)
  obtain ss rs where ih: "length rs = length ws" "length ss = Suc (length ws)"
    "ss ! 0 = m\<lparr>pst_index := di\<rparr>" "ss ! length ws = st'" "js = sum_list (map jobs_in rs)"
    "ds = sum_list (map deliveries_in rs)"
    "\<forall>k < length ws. recorded_visit now reconcile visit clock (ws ! k) (ss ! k) (rs ! k) (ss ! Suc k)"
    using Cons.IH [OF rest] others(2) by auto
  have "recorded_visit now reconcile visit clock ((w # ws) ! k) ((st # ss) ! k) ((r # rs) ! k)
      ((st # ss) ! Suc k)" if "k < length (w # ws)" for k
    using that one ih(3,7) by (cases k) auto
  then show ?case
    using ih sums by (intro exI [of _ "st # ss"] exI [of _ "r # rs"]) auto
qed

text \<open>A due time that no visit touches stays as it was recorded.\<close>

lemma recorded_stays:
  assumes "\<forall>k < n. recorded_visit now reconcile visit clock (ws ! k) (ss ! k) (rs ! k) (ss ! Suc k)"
    and "\<And>x s. due_of (pst_index (snd (visit x s))) v = due_of (pst_index s) v"
    and "k \<le> n" "\<forall>i. k \<le> i \<longrightarrow> i < n \<longrightarrow> dw_workspace_id (ws ! i) \<noteq> v"
  shows "due_of (pst_index (ss ! n)) v = due_of (pst_index (ss ! k)) v"
  using assms(3)
proof (induction rule: inc_induct)
  case (step i)
  then have r: "recorded_visit now reconcile visit clock (ws ! i) (ss ! i) (rs ! i) (ss ! Suc i)"
    and "dw_workspace_id (ws ! i) \<noteq> v"
    using assms(1,4) by auto
  then have "due_of (pst_index (ss ! Suc i)) v = due_of (pst_index (snd (visit (ws ! i) (ss ! i)))) v"
    by (auto simp: recorded_visit_def)
  with step.IH assms(2) show ?case by simp
qed simp

lemma due_found:
  assumes "workspaces_with_due_work now limit di = Inr found" "unique_by ws_id (di_workspaces di)"
  shows "distinct (map dw_workspace_id found)"
    "\<forall>w \<in> set found. due_of di (dw_workspace_id w) = dw_observed_due_at w"
proof -
  let ?c = "due_candidates now di"
  have found: "found = take (nat limit) (sort_key dw_observed_due_at ?c)"
    using assms(1) by (auto simp: workspaces_with_due_work_def split: if_splits)
  have "distinct (map dw_workspace_id ?c)"
    using assms(2) by (simp add: due_candidates_def comp_def unique_by_def distinct_map_filter)
  then have "distinct (map dw_workspace_id (sort_key dw_observed_due_at ?c))"
    by (metis distinct_map set_sort distinct_sort)
  then show "distinct (map dw_workspace_id found)"
    unfolding found take_map [symmetric] by (rule distinct_take)
  show "\<forall>w \<in> set found. due_of di (dw_workspace_id w) = dw_observed_due_at w"
    unfolding found by (auto simp: due_candidates_def dest!: in_set_takeD)
qed

text \<open>
  C35. A pass visits every workspace its read found (the earliest due, at most as many as the pool
  caches), each once, engines already open first, failed visits included. Each visit starts in the
  state the one before left, and is recorded by a compare-and-set: when the workspace is still due
  as the pass read it, it becomes due at the instant this visit reported (a minute after the pass
  began when it failed), but no later than a reconcile interval from the write; when a mark has
  landed meanwhile and moved it, the mark stays. No record moves another workspace. So a workspace
  whose due time nobody else moves is left due as its own visit said.
\<close>

theorem pass_records_every_visit:
  assumes "run_one_pass now reconcile visit clock out monotonic st = Inr (result, st')"
    and "workspaces_with_due_work now (int (po_cache_size (pst_pool st))) (pst_index st) = Inr found"
    and "unique_by ws_id (di_workspaces (pst_index st))" "unique_by du_workspace_id (di_due (pst_index st))"
    and "\<And>w s. unique_by du_workspace_id (di_due (pst_index s)) \<Longrightarrow>
      unique_by du_workspace_id (di_due (pst_index (snd (visit w s))))"
    and due: "due = cache_hits_first found (cached (pst_pool st))"
  shows "length found \<le> po_cache_size (pst_pool st) \<and> set due = set found \<and>
    length due = length found \<and> distinct (map dw_workspace_id due) \<and>
    (\<exists>ss rs. length rs = length due \<and> length ss = Suc (length due) \<and> ss ! 0 = st \<and>
       (\<forall>k < length due. recorded_visit now reconcile visit clock (due ! k) (ss ! k) (rs ! k) (ss ! Suc k)) \<and>
       result = \<lparr>pr_workspaces_visited = length found, pr_jobs_acquired = sum_list (map jobs_in rs),
                 pr_deliveries_acquired = sum_list (map deliveries_in rs)\<rparr> \<and>
       st' = (ss ! length due)\<lparr>pst_pool := snd (close_idle out (monotonic (pst_world (ss ! length due)))
                (pst_pool (ss ! length due)))\<rparr> \<and>
       (\<forall>k < length due.
          (\<forall>x s. due_of (pst_index (snd (visit x s))) (dw_workspace_id (due ! k)) =
             due_of (pst_index s) (dw_workspace_id (due ! k))) \<longrightarrow>
          due_of (pst_index st') (dw_workspace_id (due ! k)) =
            Some (recorded_due now (clock (pst_world (ss ! Suc k))) reconcile (rs ! k))))"
proof -
  obtain j d st1 where each: "visit_each now reconcile visit clock due st = Inr ((j, d), st1)"
    and res: "st' = st1\<lparr>pst_pool := snd (close_idle out (monotonic (pst_world st1)) (pst_pool st1))\<rparr>"
      "result = \<lparr>pr_workspaces_visited = length due, pr_jobs_acquired = j, pr_deliveries_acquired = d\<rparr>"
    using assms(1,2) due by (auto simp: run_one_pass_def Let_def split: sum.splits)
  have cap: "length found \<le> po_cache_size (pst_pool st)"
    using assms(2) by (auto simp: workspaces_with_due_work_def split: if_splits)
  have set_due: "set due = set found" by (auto simp: due cache_hits_first_def hits_first_def)
  have len: "length due = length found"
    by (simp add: due cache_hits_first_def hits_first_def sum_length_filter_compl)
  have dist: "distinct (map dw_workspace_id due)"
    using due_found(1) [OF assms(2,3)]
    by (auto simp: due cache_hits_first_def hits_first_def distinct_map_filter distinct_map inj_on_def)
  have read: "\<forall>w \<in> set due. due_of (pst_index st) (dw_workspace_id w) = dw_observed_due_at w"
    using due_found(2) [OF assms(2,3)] set_due by simp
  obtain ss rs where c: "length rs = length due" "length ss = Suc (length due)" "ss ! 0 = st"
    "ss ! length due = st1" "j = sum_list (map jobs_in rs)" "d = sum_list (map deliveries_in rs)"
    and visits: "\<forall>k < length due. recorded_visit now reconcile visit clock (due ! k) (ss ! k) (rs ! k) (ss ! Suc k)"
    using visit_each_chain [OF each assms(5,4)] by blast
  have kept: "due_of (pst_index st') (dw_workspace_id (due ! k)) =
      Some (recorded_due now (clock (pst_world (ss ! Suc k))) reconcile (rs ! k))"
    if k: "k < length due" and quiet: "\<And>x s. due_of (pst_index (snd (visit x s)))
      (dw_workspace_id (due ! k)) = due_of (pst_index s) (dw_workspace_id (due ! k))" for k
  proof -
    have others: "dw_workspace_id (due ! i) \<noteq> dw_workspace_id (due ! k)" if "i < length due" "i \<noteq> k" for i
      using dist k that by (auto simp: distinct_conv_nth)
    have "due_of (pst_index (ss ! k)) (dw_workspace_id (due ! k)) = dw_observed_due_at (due ! k)"
      using recorded_stays [of k now reconcile visit clock due ss rs "dw_workspace_id (due ! k)" 0]
        visits quiet others k c(3) read by simp
    with visits k quiet have "due_of (pst_index (ss ! Suc k)) (dw_workspace_id (due ! k)) =
        Some (recorded_due now (clock (pst_world (ss ! Suc k))) reconcile (rs ! k))"
      unfolding recorded_visit_def by (metis snd_conv)
    then show ?thesis
      using recorded_stays [of "length due" now reconcile visit clock due ss rs
          "dw_workspace_id (due ! k)" "Suc k"] visits quiet others k c(4) res(1) by simp
  qed
  show ?thesis
    using cap set_due dist c visits res kept len
    by (intro conjI exI [of _ ss] exI [of _ rs]) auto
qed

lemma pass_records_every_visit_witness:
  "\<exists>result st'. run_one_pass 1000 900 (\<lambda>w s. (None, s)) (\<lambda>_. 1500) (\<lambda>_. 0) (\<lambda>_. 0)
     \<lparr>pst_index = \<lparr>di_workspaces = [\<lparr>ws_id = 3, ws_state = WActive\<rparr>], di_due = []\<rparr>,
      pst_pool = the (new_pool 2 5 60 2), pst_world = ()\<rparr> = Inr (result, st') \<and>
     pr_workspaces_visited result = 1 \<and> due_of (pst_index st') 3 = Some 60001000"
proof -
  let ?di = "\<lparr>di_workspaces = [\<lparr>ws_id = 3, ws_state = WActive\<rparr>], di_due = []\<rparr>"
  let ?st = "\<lparr>pst_index = ?di, pst_pool = the (new_pool 2 5 60 2), pst_world = ()\<rparr>"
  let ?visit = "\<lambda>w s. (None, s) :: visit_result option \<times> unit pass_state"
  have found: "workspaces_with_due_work 1000 (int (po_cache_size (pst_pool ?st))) (pst_index ?st) =
      Inr [\<lparr>dw_workspace_id = 3, dw_observed_due_at = None\<rparr>]"
    by (simp add: index_calc new_pool_def)
  obtain result st' where run: "run_one_pass 1000 900 ?visit (\<lambda>_. 1500) (\<lambda>_. 0) (\<lambda>_. 0) ?st = Inr (result, st')"
    using found by (simp add: run_one_pass_def cache_hits_first_def hits_first_def new_pool_def cached_def
        record_visit_def Let_def)
  have "pr_workspaces_visited result = 1 \<and> due_of (pst_index st') 3 = Some (recorded_due 1000 1500 900 None)"
    using pass_records_every_visit [OF run found _ _ _ refl]
    by (auto simp: unique_by_def cache_hits_first_def hits_first_def new_pool_def cached_def
        recorded_visit_def)
  moreover have "recorded_due 1000 1500 900 None = 60001000"
    by (simp add: recorded_due_def seconds_def)
  ultimately show ?thesis using run by auto
qed

section \<open>The waits of the loop\<close>

lemma pass_backoff_doubles:
  assumes "1 \<le> k"
  shows "pass_backoff_seconds k = (if k \<le> 6 then 2 ^ nat (k - 1) else 60)"
proof (cases "k \<le> 6")
  case True
  then have "(2 :: rat) ^ nat (k - 1) \<le> 2 ^ 5" by (intro power_increasing) auto
  then show ?thesis
    using True assms
    by (simp add: pass_backoff_seconds_def Let_def idle_interval_seconds_def max_pass_backoff_seconds_def)
next
  case False
  then have "(2 :: rat) ^ 6 \<le> 2 ^ nat (min (k - 1) 8)" by (intro power_increasing) auto
  then show ?thesis
    using False assms
    by (simp add: pass_backoff_seconds_def Let_def idle_interval_seconds_def max_pass_backoff_seconds_def)
qed

text \<open>The failures at the end of a list of iterations, and the loop's count of them.\<close>

definition failures_in_row :: "iteration list \<Rightarrow> nat" where
  "failures_in_row its = length (takeWhile (\<lambda>it. it_pass it = Inl ()) (rev its))"

definition counted :: "int \<Rightarrow> iteration list \<Rightarrow> int" where
  "counted n its = foldl (\<lambda>n it. case it_pass it of Inl _ \<Rightarrow> n + 1 | Inr _ \<Rightarrow> 0) n its"

lemma counted_in_row: "counted 0 its = int (failures_in_row its)"
  by (induction its rule: rev_induct) (auto simp: counted_def failures_in_row_def split: sum.split)

definition wait_after :: "int \<Rightarrow> iteration \<Rightarrow> rat option" where
  "wait_after failures it =
     (case it_pass it of Inl _ \<Rightarrow> Some (pass_backoff_seconds failures)
      | Inr r \<Rightarrow> if found_work r then None else Some idle_interval_seconds)"

lemma worker_loop_run:
  assumes "worker_loop max_passes passes failures its = (waits, e)"
  shows "length waits \<le> length its \<and>
    (\<forall>k < length waits. \<not> it_stop (its ! k) \<and> it_begun (its ! k) \<and>
       (\<forall>m. max_passes = Some m \<longrightarrow> passes + k < m) \<and>
       waits ! k = wait_after (counted failures (take (Suc k) its)) (its ! k)) \<and>
    (if length waits = length its then e = Loop_Running
     else let it = its ! length waits
          in e = (if it_stop it then Loop_Stopped
                  else if max_passes \<noteq> None \<and> the max_passes \<le> passes + length waits then Loop_Limit
                  else Loop_Raised) \<and> (e = Loop_Raised \<longrightarrow> \<not> it_begun it))"
  using assms
proof (induction max_passes passes failures its arbitrary: waits e rule: worker_loop.induct)
  case (2 max_passes passes failures it rest)
  let ?over = "case max_passes of None \<Rightarrow> False | Some m \<Rightarrow> m \<le> passes"
  show ?case
  proof (cases "it_stop it \<or> ?over \<or> \<not> it_begun it")
    case True
    with 2(3) show ?thesis by (auto split: option.splits if_splits)
  next
    case False
    define f where "f = (case it_pass it of Inl _ \<Rightarrow> failures + 1 | Inr _ \<Rightarrow> 0)"
    obtain ws where ws: "waits = wait_after (case it_pass it of Inl _ \<Rightarrow> failures + 1 | Inr _ \<Rightarrow> 0) it # ws"
      and rest: "worker_loop max_passes (passes + 1) f rest = (ws, e)"
      using 2(3) False
      by (cases "it_pass it") (auto simp: f_def wait_after_def split: prod.splits option.splits)
    have ih: "length ws \<le> length rest \<and>
        (\<forall>k < length ws. \<not> it_stop (rest ! k) \<and> it_begun (rest ! k) \<and>
           (\<forall>m. max_passes = Some m \<longrightarrow> passes + 1 + k < m) \<and>
           ws ! k = wait_after (counted f (take (Suc k) rest)) (rest ! k)) \<and>
        (if length ws = length rest then e = Loop_Running
         else let it = rest ! length ws
              in e = (if it_stop it then Loop_Stopped
                      else if max_passes \<noteq> None \<and> the max_passes \<le> passes + 1 + length ws then Loop_Limit
                      else Loop_Raised) \<and> (e = Loop_Raised \<longrightarrow> \<not> it_begun it))"
    proof (cases "it_pass it")
      case (Inl u)
      with rest have "worker_loop max_passes (passes + 1) (failures + 1) rest = (ws, e)"
        by (simp add: f_def)
      from 2(1) [OF _ _ _ Inl this] False Inl show ?thesis by (simp add: f_def)
    next
      case (Inr r)
      with rest have "worker_loop max_passes (passes + 1) 0 rest = (ws, e)" by (simp add: f_def)
      from 2(2) [OF _ _ _ Inr this] False Inr show ?thesis by (simp add: f_def)
    qed
    have count: "counted failures (take (Suc k) (it # rest)) = counted f (take k rest)" for k
      by (simp add: counted_def f_def)
    have "\<not> it_stop ((it # rest) ! k) \<and> it_begun ((it # rest) ! k) \<and>
        (\<forall>m. max_passes = Some m \<longrightarrow> passes + k < m) \<and>
        waits ! k = wait_after (counted failures (take (Suc k) (it # rest))) ((it # rest) ! k)"
      if "k < length waits" for k
    proof (cases k)
      case 0
      with False ws show ?thesis by (auto simp: count counted_def f_def split: option.splits)
    next
      case (Suc j)
      then have "j < length ws" using that ws by simp
      with ih Suc show ?thesis unfolding count by (auto simp: ws)
    qed
    with ih show ?thesis by (auto simp: ws Let_def)
  qed
qed auto

text \<open>
  C40. A pass that fails never ends the loop. It runs iteration after iteration until the stop
  event, the pass limit, or an exception of what it calls outside its guard (the heartbeat, the
  clock, the settings read). After a pass that took a lease it does not wait; after a pass that
  took none it waits a second; after the failure that is the \<open>n\<close>-th since the last success it waits
  \<open>2 ^ (n - 1)\<close> seconds, and a minute from the seventh on.
\<close>

theorem worker_loop_waits:
  assumes "worker_loop max_passes 0 0 its = (waits, e)"
  shows "length waits \<le> length its \<and>
    (\<forall>k < length waits. \<not> it_stop (its ! k) \<and> it_begun (its ! k) \<and>
       (\<forall>m. max_passes = Some m \<longrightarrow> k < m) \<and>
       waits ! k =
         (case it_pass (its ! k) of
            Inr r \<Rightarrow> if 0 < pr_jobs_acquired r \<or> 0 < pr_deliveries_acquired r then None else Some 1
          | Inl _ \<Rightarrow> let n = failures_in_row (take (Suc k) its)
                     in Some (if n \<le> 6 then 2 ^ (n - 1) else 60))) \<and>
    (if length waits = length its then e = Loop_Running
     else let it = its ! length waits
          in e = (if it_stop it then Loop_Stopped
                  else if max_passes \<noteq> None \<and> the max_passes \<le> length waits then Loop_Limit
                  else Loop_Raised) \<and> (e = Loop_Raised \<longrightarrow> \<not> it_begun it))"
proof -
  note run = worker_loop_run [OF assms, unfolded add_0]
  have "waits ! k =
         (case it_pass (its ! k) of
            Inr r \<Rightarrow> if 0 < pr_jobs_acquired r \<or> 0 < pr_deliveries_acquired r then None else Some 1
          | Inl _ \<Rightarrow> let n = failures_in_row (take (Suc k) its)
                     in Some (if n \<le> 6 then 2 ^ (n - 1) else 60))"
    if k: "k < length waits" for k
  proof -
    let ?n = "failures_in_row (take (Suc k) its)"
    have w: "waits ! k = wait_after (int ?n) (its ! k)"
      using run k by (simp add: counted_in_row)
    have "1 \<le> ?n" if "it_pass (its ! k) = Inl ()"
      using that run k by (simp add: failures_in_row_def take_Suc_conv_app_nth)
    then have "pass_backoff_seconds (int ?n) = (if ?n \<le> 6 then 2 ^ (?n - 1) else 60)"
      if "it_pass (its ! k) = Inl ()"
      using that pass_backoff_doubles [of "int ?n"] by (simp add: nat_diff_distrib)
    with w show ?thesis
      by (auto simp: wait_after_def found_work_def idle_interval_seconds_def Let_def split: sum.split)
  qed
  with run show ?thesis by blast
qed

text \<open>Two failures, a pass that found nothing, a failure, a busy pass, and the stop event.\<close>

definition sample_iterations :: "iteration list" where
  "sample_iterations = map (\<lambda>p. \<lparr>it_stop = False, it_begun = True, it_pass = p\<rparr>)
     [Inl (), Inl (), Inr \<lparr>pr_workspaces_visited = 0, pr_jobs_acquired = 0, pr_deliveries_acquired = 0\<rparr>,
      Inl (), Inr \<lparr>pr_workspaces_visited = 1, pr_jobs_acquired = 0, pr_deliveries_acquired = 2\<rparr>] @
     [\<lparr>it_stop = True, it_begun = True, it_pass = Inl ()\<rparr>]"

lemma sample_loop:
  "worker_loop None 0 0 sample_iterations = ([Some 1, Some 2, Some 1, Some 1, None], Loop_Stopped)"
  by (simp add: sample_iterations_def found_work_def idle_interval_seconds_def
      pass_backoff_seconds_def max_pass_backoff_seconds_def)

lemma worker_loop_waits_witness:
  "fst (worker_loop None 0 0 sample_iterations) ! 1 =
     Some (2 ^ (failures_in_row (take 2 sample_iterations) - 1)) \<and>
   fst (worker_loop None 0 0 sample_iterations) ! 3 =
     Some (2 ^ (failures_in_row (take 4 sample_iterations) - 1)) \<and>
   failures_in_row (take 2 sample_iterations) = 2 \<and> failures_in_row (take 4 sample_iterations) = 1"
proof -
  have n: "failures_in_row (take 2 sample_iterations) = 2" "failures_in_row (take 4 sample_iterations) = 1"
    "it_pass (sample_iterations ! 1) = Inl ()" "it_pass (sample_iterations ! 3) = Inl ()"
    by (simp_all add: sample_iterations_def failures_in_row_def numeral_eq_Suc)
  note w = worker_loop_waits [OF sample_loop, THEN conjunct2, THEN conjunct1]
  show ?thesis
    using w [THEN spec, of 1] w [THEN spec, of 3] n by (simp add: sample_loop numeral_eq_Suc)
qed

end
