(* ===== verification/Canonical_Json.thy ===== *)
theory Canonical_Json
  imports Prelude "HOL-Library.List_Lexorder"
begin

text \<open>
  The canonical JSON the core digests: \<^verbatim>\<open>json.dumps(.., sort_keys=True, separators=(",", ":"))\<close>
  with \<^verbatim>\<open>ensure_ascii\<close> on (\<^verbatim>\<open>approvals/binding.py\<close>) and off
  (\<^verbatim>\<open>operations/idempotency.py\<close>), and its UTF-8 bytes.

  A Python string is the list of its code points. A finite float is the text of its
  \<^verbatim>\<open>repr\<close>. \<open>escaping\<close> is the contract of the two ways of escaping a character; the printer is
  proved injective once, for any escaping, up to the order of keys in objects.
\<close>

section \<open>Documents\<close>

type_synonym utext = "nat list"

datatype json =
    JNull
  | JBool bool
  | JInt int
  | JFloat utext
  | JNan
  | JInf bool
  | JString utext
  | JArray "json list"
  | JObject "(utext \<times> json) list"

text \<open>A Unicode scalar value: what UTF-8 can encode.\<close>

definition scalar :: "nat \<Rightarrow> bool" where
  "scalar c \<longleftrightarrow> c < 0x110000 \<and> \<not> (0xD800 \<le> c \<and> c \<le> 0xDFFF)"

definition digit :: "nat \<Rightarrow> bool" where
  "digit c \<longleftrightarrow> 48 \<le> c \<and> c \<le> 57"

text \<open>The characters of a number: digits, sign, point and exponent.\<close>

definition number_char :: "nat \<Rightarrow> bool" where
  "number_char c \<longleftrightarrow> digit c \<or> c = 43 \<or> c = 45 \<or> c = 46 \<or> c = 101"

text \<open>What \<^verbatim>\<open>float.__repr__\<close> of a finite float looks like: it always has a point or an exponent.\<close>

definition float_text :: "utext \<Rightarrow> bool" where
  "float_text s \<longleftrightarrow>
     s \<noteq> [] \<and> (digit (hd s) \<or> hd s = 45 \<and> tl s \<noteq> [] \<and> digit (hd (tl s))) \<and>
     list_all number_char s \<and> (46 \<in> set s \<or> 101 \<in> set s)"

text \<open>What the printer tells apart: strings of scalar values (a Python string may also hold lone
  surrogates, which are excluded here), and no key twice, as in any dict.\<close>

fun json_ok :: "json \<Rightarrow> bool" where
  "json_ok (JFloat s) = float_text s"
| "json_ok (JString s) = list_all scalar s"
| "json_ok (JArray xs) = list_all json_ok xs"
| "json_ok (JObject kvs) =
     (distinct (map fst kvs) \<and> list_all (\<lambda>(k, v). list_all scalar k \<and> json_ok v) kvs)"
| "json_ok _ = True"

text \<open>No \<^verbatim>\<open>nan\<close> or \<^verbatim>\<open>inf\<close>: what \<^verbatim>\<open>allow_nan=False\<close> accepts.\<close>

fun json_finite :: "json \<Rightarrow> bool" where
  "json_finite JNan = False"
| "json_finite (JInf _) = False"
| "json_finite (JArray xs) = list_all json_finite xs"
| "json_finite (JObject kvs) = list_all (\<lambda>(k, v). json_finite v) kvs"
| "json_finite _ = True"

text \<open>Two dicts are the same whatever the order of their keys: a document with the keys of every
  object in code point order.\<close>

fun sorted_keys :: "json \<Rightarrow> json" where
  "sorted_keys (JArray xs) = JArray (map sorted_keys xs)"
| "sorted_keys (JObject kvs) = JObject (sort_key fst (map (\<lambda>(k, v). (k, sorted_keys v)) kvs))"
| "sorted_keys v = v"

definition same_document :: "json \<Rightarrow> json \<Rightarrow> bool" where
  "same_document v w \<longleftrightarrow> sorted_keys v = sorted_keys w"

section \<open>Printing\<close>

function digits :: "nat \<Rightarrow> utext" where
  "digits n = (if n < 10 then [48 + n] else digits (n div 10) @ [48 + n mod 10])"
  by pat_completeness auto
termination by (relation "measure id") auto

declare digits.simps [simp del]

definition int_text :: "int \<Rightarrow> utext" where
  "int_text i = (if i < 0 then 45 # digits (nat (- i)) else digits (nat i))"

definition hex_code :: "nat \<Rightarrow> nat" where
  "hex_code d = (if d < 10 then 48 + d else 87 + d)"

definition hex4 :: "nat \<Rightarrow> utext" where
  "hex4 n = [hex_code (n div 4096), hex_code (n div 256 mod 16), hex_code (n div 16 mod 16),
             hex_code (n mod 16)]"

text \<open>\<^verbatim>\<open>ESCAPE_DCT\<close> of \<^verbatim>\<open>json.encoder\<close>.\<close>

definition escape_short :: "nat \<Rightarrow> utext option" where
  "escape_short c =
     (if c = 92 then Some [92, 92] else if c = 34 then Some [92, 34]
      else if c = 8 then Some [92, 98] else if c = 12 then Some [92, 102]
      else if c = 10 then Some [92, 110] else if c = 13 then Some [92, 114]
      else if c = 9 then Some [92, 116] else None)"

definition escape_ascii :: "nat \<Rightarrow> utext" where
  "escape_ascii c =
     (case escape_short c of
        Some s \<Rightarrow> s
      | None \<Rightarrow>
          if 32 \<le> c \<and> c \<le> 126 then [c]
          else if c < 0x10000 then [92, 117] @ hex4 c
          else [92, 117] @ hex4 (0xD800 + (c - 0x10000) div 1024) @
               [92, 117] @ hex4 (0xDC00 + (c - 0x10000) mod 1024))"

definition escape_plain :: "nat \<Rightarrow> utext" where
  "escape_plain c =
     (case escape_short c of
        Some s \<Rightarrow> s
      | None \<Rightarrow> if c < 32 then [92, 117] @ hex4 c else [c])"

definition string_text :: "(nat \<Rightarrow> utext) \<Rightarrow> utext \<Rightarrow> utext" where
  "string_text esc s = 34 # concat (map esc s) @ [34]"

text \<open>The elements with a comma between them.\<close>

fun comma_list :: "utext list \<Rightarrow> utext" where
  "comma_list [] = []"
| "comma_list [x] = x"
| "comma_list (x # y # xs) = x @ 44 # comma_list (y # xs)"

fun json_text :: "(nat \<Rightarrow> utext) \<Rightarrow> json \<Rightarrow> utext" where
  "json_text esc JNull = [110, 117, 108, 108]"
| "json_text esc (JBool b) = (if b then [116, 114, 117, 101] else [102, 97, 108, 115, 101])"
| "json_text esc (JInt i) = int_text i"
| "json_text esc (JFloat s) = s"
| "json_text esc JNan = [78, 97, 78]"
| "json_text esc (JInf neg) = (if neg then [45] else []) @ [73, 110, 102, 105, 110, 105, 116, 121]"
| "json_text esc (JString s) = string_text esc s"
| "json_text esc (JArray xs) = 91 # comma_list (map (json_text esc) xs) @ [93]"
| "json_text esc (JObject kvs) =
     123 # comma_list (map (\<lambda>(k, t). string_text esc k @ 58 # t)
             (sort_key fst (map (\<lambda>(k, v). (k, json_text esc v)) kvs))) @ [125]"

text \<open>\<^verbatim>\<open>str.encode("utf-8")\<close> of one scalar value.\<close>

definition utf8_char :: "nat \<Rightarrow> nat list" where
  "utf8_char c =
     (if c < 0x80 then [c]
      else if c < 0x800 then [0xC0 + c div 64, 0x80 + c mod 64]
      else if c < 0x10000 then [0xE0 + c div 4096, 0x80 + c div 64 mod 64, 0x80 + c mod 64]
      else [0xF0 + c div 0x40000, 0x80 + c div 4096 mod 64, 0x80 + c div 64 mod 64,
            0x80 + c mod 64])"

text \<open>\<open>None\<close> is \<^verbatim>\<open>UnicodeEncodeError\<close>.\<close>

definition utf8 :: "utext \<Rightarrow> nat list option" where
  "utf8 s = (if list_all scalar s then Some (concat (map utf8_char s)) else None)"

section \<open>Numbers\<close>

definition digits_value :: "utext \<Rightarrow> nat" where
  "digits_value = foldl (\<lambda>a c. 10 * a + (c - 48)) 0"

lemma digits_value_digits [simp]: "digits_value (digits n) = n"
proof (induction n rule: digits.induct)
  case (1 n)
  show ?case
  proof (cases "n < 10")
    case True
    then show ?thesis by (simp add: digits.simps [of n] digits_value_def)
  next
    case False
    with 1 have "digits_value (digits (n div 10)) = n div 10" by simp
    with False show ?thesis by (simp add: digits.simps [of n] digits_value_def)
  qed
qed

lemma digits_inject [simp]: "digits m = digits n \<longleftrightarrow> m = n"
  by (metis digits_value_digits)

lemma digits_digit: "list_all digit (digits n)"
proof (induction n rule: digits.induct)
  case (1 n)
  then show ?case by (cases "n < 10") (simp_all add: digits.simps [of n] digit_def)
qed

lemma digits_not_Nil [simp]: "digits n \<noteq> []"
  by (subst digits.simps) simp

lemma digits_hd: "digit (hd (digits n))"
  using digits_digit [of n] by (cases "digits n") auto

lemma int_text_chars: "list_all number_char (int_text i) \<and> 46 \<notin> set (int_text i) \<and> 101 \<notin> set (int_text i)"
proof -
  have "list_all number_char (digits n) \<and> 46 \<notin> set (digits n) \<and> 101 \<notin> set (digits n)" for n
    using digits_digit [of n] by (auto simp: list_all_iff number_char_def digit_def)
  then show ?thesis by (auto simp: int_text_def number_char_def)
qed

lemma int_text_inject [simp]: "int_text i = int_text j \<longleftrightarrow> i = j"
proof -
  have "hd (digits n) \<noteq> 45" for n
    using digits_hd [of n] by (auto simp: digit_def)
  then have "digits n \<noteq> 45 # s" for n s by (metis list.sel(1))
  then show ?thesis by (auto simp: int_text_def) metis+
qed

text \<open>How a number starts.\<close>

definition number_start :: "utext \<Rightarrow> bool" where
  "number_start s \<longleftrightarrow> s \<noteq> [] \<and> (digit (hd s) \<or> hd s = 45 \<and> tl s \<noteq> [] \<and> digit (hd (tl s)))"

lemma number_start_int: "number_start (int_text i @ r)"
  using digits_hd by (auto simp: int_text_def number_start_def hd_append)

lemma number_start_float: "float_text s \<Longrightarrow> number_start (s @ r)"
  by (cases s) (auto simp: float_text_def number_start_def hd_append)

lemma number_start_Cons: "number_start (c # s) \<Longrightarrow> digit c \<or> c = 45 \<and> s \<noteq> [] \<and> digit (hd s)"
  by (simp add: number_start_def)

text \<open>A token of characters of one class ends where the class ends.\<close>

lemma token_unique:
  assumes "list_all p s" "list_all p t" "s @ r = t @ q"
    and "r = [] \<or> \<not> p (hd r)" "q = [] \<or> \<not> p (hd q)"
  shows "s = t \<and> r = q"
proof -
  have "takeWhile p (s @ r) = s" if "list_all p s" "r = [] \<or> \<not> p (hd r)" for s r
    using that by (induction s) (simp, cases r, simp_all)
  from this [OF assms(1,4)] this [OF assms(2,5)] assms(3) show ?thesis by simp
qed

section \<open>What follows a value\<close>

definition value_end :: "utext \<Rightarrow> bool" where
  "value_end r \<longleftrightarrow> r = [] \<or> hd r \<in> {44, 93, 125}"

lemma value_end_simps [simp]:
  "value_end []" "value_end (c # r) \<longleftrightarrow> c \<in> {44, 93, 125}"
  by (simp_all add: value_end_def)

lemma value_end_number: "value_end r \<Longrightarrow> r = [] \<or> \<not> number_char (hd r)"
  by (auto simp: value_end_def number_char_def digit_def)

lemma comma_list_Cons:
  "comma_list (x # xs) = x @ (if xs = [] then [] else 44 # comma_list xs)"
  by (cases xs) auto

text \<open>A comma list with a closing bracket can be taken apart in one way.\<close>

lemma comma_list_unique:
  assumes "comma_list (map f xs) @ c # r = comma_list (map h ys) @ c # q"
    and "\<And>x y r q. x \<in> set xs \<Longrightarrow> y \<in> set ys \<Longrightarrow> value_end r \<Longrightarrow> value_end q \<Longrightarrow>
           f x @ r = h y @ q \<Longrightarrow> g x = g' y \<and> r = q"
    and "\<And>x. x \<in> set xs \<Longrightarrow> f x \<noteq> [] \<and> hd (f x) \<noteq> c"
    and "\<And>y. y \<in> set ys \<Longrightarrow> h y \<noteq> [] \<and> hd (h y) \<noteq> c"
    and "c \<in> {93, 125}"
  shows "map g xs = map g' ys \<and> r = q"
  using assms(1-4)
proof (induction xs arbitrary: ys)
  case Nil
  show ?case
  proof (cases ys)
    case (Cons y ys')
    with Nil.prems(4) [of y] have "h y \<noteq> []" "hd (h y) \<noteq> c" by auto
    with Nil.prems(1) Cons show ?thesis
      by (cases "h y") (simp_all add: comma_list_Cons)
  next
    case ys_Nil: Nil
    with Nil.prems(1) show ?thesis by simp
  qed
next
  case (Cons x xs)
  from Cons.prems(3) [of x] have x: "f x \<noteq> []" "hd (f x) \<noteq> c" by auto
  then obtain y ys' where ys: "ys = y # ys'"
    using Cons.prems(1) by (cases ys; cases "f x") (simp_all add: comma_list_Cons)
  let ?u = "(if xs = [] then [] else 44 # comma_list (map f xs)) @ c # r"
  let ?v = "(if ys' = [] then [] else 44 # comma_list (map h ys')) @ c # q"
  from Cons.prems(1) ys have eq: "f x @ ?u = h y @ ?v"
    by (simp add: comma_list_Cons split: if_splits)
  have "value_end ?u" "value_end ?v"
    using assms(5) by auto
  with Cons.prems(2) [of x y ?u ?v] ys eq have g: "g x = g' y" and uv: "?u = ?v"
    by auto
  show ?case
  proof (cases "xs = []")
    case True
    with uv assms(5) g ys show ?thesis by (auto split: if_splits)
  next
    case False
    with uv assms(5) have "ys' \<noteq> []"
      and "comma_list (map f xs) @ c # r = comma_list (map h ys') @ c # q"
      by (auto split: if_splits)
    with Cons.IH [of ys'] Cons.prems(2-4) ys have "map g xs = map g' ys' \<and> r = q"
      by simp blast
    with g ys show ?thesis by simp
  qed
qed

lemma sort_key_map_keeps: "(\<And>x. k (h x) = k' x) \<Longrightarrow> sort_key k (map h xs) = map h (sort_key k' xs)"
proof (induction xs)
  case (Cons x xs)
  have "insort_key k (h x) (map h ys) = map h (insort_key k' x ys)" for ys
    using Cons.prems by (induction ys) auto
  with Cons show ?case by simp
qed simp

lemma sorted_keys_JObject:
  "sorted_keys (JObject kvs) = JObject (map (\<lambda>(k, v). (k, sorted_keys v)) (sort_key fst kvs))"
  by (simp add: sort_key_map_keeps [where k' = fst] split_beta)

lemma json_text_JObject:
  "json_text esc (JObject kvs) =
     123 # comma_list (map (\<lambda>(k, v). string_text esc k @ 58 # json_text esc v) (sort_key fst kvs)) @ [125]"
  by (simp add: sort_key_map_keeps [where k' = fst] case_prod_beta' comp_def)

section \<open>The contract of an escaping\<close>

locale escaping =
  fixes esc :: "nat \<Rightarrow> utext"
  assumes no_quote: "scalar c \<Longrightarrow> esc c \<noteq> [] \<and> hd (esc c) \<noteq> 34"
    and decodable: "scalar c \<Longrightarrow> scalar d \<Longrightarrow> esc c @ x = esc d @ y \<Longrightarrow> c = d \<and> x = y"
begin

lemma string_unique:
  "list_all scalar s \<Longrightarrow> list_all scalar t \<Longrightarrow>
   string_text esc s @ r = string_text esc t @ q \<Longrightarrow> s = t \<and> r = q"
proof (induction s arbitrary: t)
  case Nil
  show ?case
  proof (cases t)
    case (Cons d t')
    with Nil no_quote [of d] show ?thesis
      by (cases "esc d") (auto simp: string_text_def)
  qed (use Nil in \<open>simp add: string_text_def\<close>)
next
  case (Cons c s)
  from Cons.prems(1) have c: "scalar c" by simp
  show ?case
  proof (cases t)
    case Nil
    with Cons.prems no_quote [OF c] show ?thesis
      by (cases "esc c") (auto simp: string_text_def)
  next
    case (Cons d t')
    with Cons.prems(2) have d: "scalar d" by simp
    from Cons Cons.prems(3) have "esc c @ concat (map esc s) @ 34 # r = esc d @ concat (map esc t') @ 34 # q"
      by (simp add: string_text_def)
    with decodable [OF c d] have "c = d"
      and "concat (map esc s) @ 34 # r = concat (map esc t') @ 34 # q" by blast+
    with Cons.IH [of t'] Cons Cons.prems(1,2) show ?thesis
      by (simp add: string_text_def)
  qed
qed

lemma text_start:
  "json_ok v \<Longrightarrow> json_text esc v \<noteq> [] \<and> hd (json_text esc v) \<notin> {44, 93, 125}"
proof (cases v)
  case (JInt i)
  then show ?thesis
    using number_start_int [of i "[]"] by (auto simp: number_start_def digit_def)
next
  case (JFloat s)
  moreover assume "json_ok v"
  ultimately show ?thesis
    using number_start_float [of s "[]"] by (auto simp: number_start_def digit_def)
qed (auto simp: string_text_def)

text \<open>Which of the value forms a text starts like.\<close>

definition form :: "utext \<Rightarrow> nat" where
  "form s =
     (if number_start s then 1 else if hd s = 110 then 2 else if hd s = 116 then 3
      else if hd s = 102 then 4 else if hd s = 78 then 5 else if hd s = 73 then 6
      else if hd s = 45 then 7 else if hd s = 34 then 8 else if hd s = 91 then 9 else 10)"

fun form_of :: "json \<Rightarrow> nat" where
  "form_of (JInt _) = 1"
| "form_of (JFloat _) = 1"
| "form_of JNull = 2"
| "form_of (JBool b) = (if b then 3 else 4)"
| "form_of JNan = 5"
| "form_of (JInf neg) = (if neg then 7 else 6)"
| "form_of (JString _) = 8"
| "form_of (JArray _) = 9"
| "form_of (JObject _) = 10"

lemma form_text: "json_ok v \<Longrightarrow> form (json_text esc v @ r) = form_of v"
proof (cases v)
  case (JInt i)
  then show ?thesis using number_start_int [of i r] by (simp add: form_def)
next
  case (JFloat s)
  moreover assume "json_ok v"
  ultimately show ?thesis using number_start_float [of s r] by (simp add: form_def)
qed (simp_all add: form_def string_text_def number_start_def digit_def)

lemma same_form:
  "json_ok v \<Longrightarrow> json_ok w \<Longrightarrow> json_text esc v @ r = json_text esc w @ q \<Longrightarrow> form_of v = form_of w"
  by (metis form_text)

lemma number_unique:
  assumes "json_ok v" "json_ok w" "value_end r" "value_end q"
    and "json_text esc v @ r = json_text esc w @ q"
    and v: "(\<exists>i. v = JInt i) \<or> (\<exists>s. v = JFloat s)" and w: "(\<exists>i. w = JInt i) \<or> (\<exists>s. w = JFloat s)"
  shows "v = w \<and> r = q"
proof -
  have chars: "list_all number_char (json_text esc u)"
    if "json_ok u" "(\<exists>i. u = JInt i) \<or> (\<exists>s. u = JFloat s)" for u
    using that int_text_chars by (auto simp: float_text_def)
  have "json_text esc v = json_text esc w \<and> r = q"
    by (rule token_unique [OF chars [OF assms(1) v] chars [OF assms(2) w] assms(5)])
       (use assms(3,4) value_end_number in auto)
  moreover have "v = w" if "json_text esc v = json_text esc w"
    using v w that assms(1,2) int_text_chars by (auto simp: float_text_def)
  ultimately show ?thesis by simp
qed

theorem text_unique:
  "json_ok v \<Longrightarrow> json_ok w \<Longrightarrow> value_end r \<Longrightarrow> value_end q \<Longrightarrow>
   json_text esc v @ r = json_text esc w @ q \<Longrightarrow> sorted_keys v = sorted_keys w \<and> r = q"
proof (induction v arbitrary: w r q)
  case (JArray xs)
  from same_form [OF JArray.prems(1,2,5)] obtain ys where w: "w = JArray ys"
    by (cases w) (simp_all split: if_splits)
  have "map sorted_keys xs = map sorted_keys ys \<and> r = q"
  proof (rule comma_list_unique)
    show "comma_list (map (json_text esc) xs) @ 93 # r = comma_list (map (json_text esc) ys) @ 93 # q"
      using JArray.prems(5) w by simp
  next
    fix x y r' q'
    assume "x \<in> set xs" "y \<in> set ys" "value_end r'" "value_end q'"
      "json_text esc x @ r' = json_text esc y @ q'"
    with JArray.IH [of x y r' q'] JArray.prems(1,2) w
    show "sorted_keys x = sorted_keys y \<and> r' = q'"
      by (auto simp: list_all_iff)
  next
    fix x assume "x \<in> set xs"
    with JArray.prems(1) text_start [of x] show "json_text esc x \<noteq> [] \<and> hd (json_text esc x) \<noteq> 93"
      by (auto simp: list_all_iff)
  next
    fix y assume "y \<in> set ys"
    with JArray.prems(2) w text_start [of y] show "json_text esc y \<noteq> [] \<and> hd (json_text esc y) \<noteq> 93"
      by (auto simp: list_all_iff)
  qed simp
  with w show ?case by simp
next
  case (JObject kvs)
  from same_form [OF JObject.prems(1,2,5)] obtain kws where w: "w = JObject kws"
    by (cases w) (simp_all split: if_splits)
  let ?f = "\<lambda>(k, v). string_text esc k @ 58 # json_text esc v"
  have ok: "list_all scalar k \<and> json_ok v" if "(k, v) \<in> set kvs" for k v
    using JObject.prems(1) that by (auto simp: list_all_iff)
  have ok': "list_all scalar k \<and> json_ok v" if "(k, v) \<in> set kws" for k v
    using JObject.prems(2) that w by (auto simp: list_all_iff)
  have "map (\<lambda>(k, v). (k, sorted_keys v)) (sort_key fst kvs) =
        map (\<lambda>(k, v). (k, sorted_keys v)) (sort_key fst kws) \<and> r = q"
  proof (rule comma_list_unique)
    show "comma_list (map ?f (sort_key fst kvs)) @ 125 # r =
          comma_list (map ?f (sort_key fst kws)) @ 125 # q"
      using JObject.prems(5) w by (simp add: json_text_JObject del: json_text.simps)
  next
    fix x y r' q'
    assume x: "x \<in> set (sort_key fst kvs)" and y: "y \<in> set (sort_key fst kws)"
      and ends: "value_end r'" "value_end q'" and eq: "?f x @ r' = ?f y @ q'"
    obtain k v where xkv: "x = (k, v)" by force
    obtain l u where ylu: "y = (l, u)" by force
    from x xkv have xin: "(k, v) \<in> set kvs" by simp
    from y ylu have yin: "(l, u) \<in> set kws" by simp
    have "k = l" and "58 # json_text esc v @ r' = 58 # json_text esc u @ q'"
      using string_unique [of k l "58 # json_text esc v @ r'" "58 # json_text esc u @ q'"]
        eq xkv ylu ok [OF xin] ok' [OF yin] by auto
    moreover have "sorted_keys v = sorted_keys u \<and> r' = q'"
      by (rule JObject.IH [of "(k, v)" v]) (use xin ok [OF xin] ok' [OF yin] ends calculation in auto)
    ultimately show "(\<lambda>(k, v). (k, sorted_keys v)) x = (\<lambda>(k, v). (k, sorted_keys v)) y \<and> r' = q'"
      using xkv ylu by simp
  qed (auto simp: string_text_def)
  with w show ?case by (simp add: sorted_keys_JObject del: sorted_keys.simps)
next
  case (JString s)
  from same_form [OF JString(1,2,5)] obtain t where "w = JString t"
    by (cases w) (simp_all split: if_splits)
  with JString string_unique [of s t r q] show ?case by simp
next
  case (JInt i)
  from same_form [OF JInt(1,2,5)]
  have "(\<exists>i. w = JInt i) \<or> (\<exists>s. w = JFloat s)"
    by (cases w) (simp_all split: if_splits)
  with number_unique [OF JInt] show ?case by simp
next
  case (JFloat s)
  from same_form [OF JFloat(1,2,5)]
  have "(\<exists>i. w = JInt i) \<or> (\<exists>s. w = JFloat s)"
    by (cases w) (simp_all split: if_splits)
  with number_unique [OF JFloat] show ?case by simp
next
  case JNull
  from same_form [OF JNull(1,2,5)] have "w = JNull"
    by (cases w) (simp_all split: if_splits)
  with JNull show ?case by simp
next
  case (JBool b)
  from same_form [OF JBool(1,2,5)] have "w = JBool b"
    by (cases w) (simp_all split: if_splits)
  with JBool show ?case by simp
next
  case JNan
  from same_form [OF JNan(1,2,5)] have "w = JNan"
    by (cases w) (simp_all split: if_splits)
  with JNan show ?case by simp
next
  case (JInf b)
  from same_form [OF JInf(1,2,5)] have "w = JInf b"
    by (cases w) (simp_all split: if_splits)
  with JInf show ?case by simp
qed

end

section \<open>The two escapings\<close>

text \<open>Reading one escaped character back.\<close>

definition hex_of :: "nat \<Rightarrow> nat" where
  "hex_of c = (if c < 58 then c - 48 else c - 87)"

definition unhex4 :: "utext \<Rightarrow> nat" where
  "unhex4 s = 4096 * hex_of (s ! 0) + 256 * hex_of (s ! 1) + 16 * hex_of (s ! 2) + hex_of (s ! 3)"

definition unescape_short :: "nat \<Rightarrow> nat" where
  "unescape_short c =
     (if c = 98 then 8 else if c = 102 then 12 else if c = 110 then 10
      else if c = 114 then 13 else if c = 116 then 9 else c)"

definition unescape :: "utext \<Rightarrow> nat \<times> utext" where
  "unescape s =
     (if hd s \<noteq> 92 then (hd s, tl s)
      else if s ! 1 \<noteq> 117 then (unescape_short (s ! 1), drop 2 s)
      else (let n = unhex4 (drop 2 s)
            in if 0xD800 \<le> n \<and> n < 0xDC00
               then (0x10000 + (n - 0xD800) * 1024 + (unhex4 (drop 8 s) - 0xDC00), drop 12 s)
               else (n, drop 6 s)))"

lemma hex_of_code [simp]: "d < 16 \<Longrightarrow> hex_of (hex_code d) = d"
  by (simp add: hex_of_def hex_code_def)

lemma unhex4_hex4 [simp]: "n < 0x10000 \<Longrightarrow> unhex4 (hex4 n @ x) = n"
proof -
  assume n: "n < 0x10000"
  have "n div 4096 < 16" using n by simp
  moreover have "4096 * (n div 4096) + 256 * (n div 256 mod 16) + 16 * (n div 16 mod 16) + n mod 16 = n"
  proof -
    have "n div 256 = n div 16 div 16" "n div 4096 = n div 256 div 16"
      by (simp_all flip: div_mult2_eq)
    then have "16 * (n div 4096) + n div 256 mod 16 = n div 256"
      and "16 * (n div 256) + n div 16 mod 16 = n div 16"
      and "16 * (n div 16) + n mod 16 = n"
      by simp_all
    then show ?thesis by linarith
  qed
  ultimately show ?thesis by (simp add: unhex4_def hex4_def)
qed

lemma length_hex4 [simp]: "length (hex4 n) = 4"
  by (simp add: hex4_def)

lemma drop_hex4 [simp]: "drop 4 (hex4 n @ x) = x"
  by (simp add: hex4_def)

lemma unescape_hex:
  "scalar c \<Longrightarrow> c < 0x10000 \<Longrightarrow> unescape ([92, 117] @ hex4 c @ x) = (c, x)"
proof -
  assume c: "scalar c" "c < 0x10000"
  have "drop 2 ([92, 117] @ hex4 c @ x) = hex4 c @ x" "drop 6 ([92, 117] @ hex4 c @ x) = x"
    by (simp_all add: hex4_def)
  with c unhex4_hex4 [OF c(2), of x] show ?thesis
    unfolding unescape_def by (auto simp: Let_def scalar_def)
qed

lemma unescape_short: "escape_short c = Some s \<Longrightarrow> unescape (s @ x) = (c, x)"
  by (auto simp: escape_short_def unescape_def unescape_short_def split: if_splits)

lemma unescape_pair:
  assumes "scalar c" "0x10000 \<le> c"
  shows "unescape ([92, 117] @ hex4 (0xD800 + (c - 0x10000) div 1024) @
                   [92, 117] @ hex4 (0xDC00 + (c - 0x10000) mod 1024) @ x) = (c, x)"
proof -
  let ?hi = "0xD800 + (c - 0x10000) div 1024" and ?lo = "0xDC00 + (c - 0x10000) mod 1024"
  have hi: "0xD800 \<le> ?hi" "?hi < 0xDC00" and lo: "?lo < 0x10000"
    using assms by (auto simp: scalar_def)
  have s8: "drop 8 ([92, 117] @ hex4 ?hi @ [92, 117] @ hex4 ?lo @ x) = hex4 ?lo @ x"
    by (simp add: hex4_def)
  have s12: "drop 12 ([92, 117] @ hex4 ?hi @ [92, 117] @ hex4 ?lo @ x) = x"
    by (simp add: hex4_def)
  have "0x10000 + (?hi - 0xD800) * 1024 + (?lo - 0xDC00) = c"
    using assms(2) by simp
  then show ?thesis
    using hi lo unhex4_hex4 [OF lo] unhex4_hex4 [of ?hi "[92, 117] @ hex4 ?lo @ x"]
    unfolding unescape_def s8 s12 by (simp add: Let_def)
qed

lemma unescape_ascii: "scalar c \<Longrightarrow> unescape (escape_ascii c @ x) = (c, x)"
proof (cases "escape_short c")
  case None
  assume c: "scalar c"
  show ?thesis
  proof (cases "32 \<le> c \<and> c \<le> 126")
    case True
    with None show ?thesis by (simp add: escape_ascii_def unescape_def escape_short_def split: if_splits)
  next
    case False
    with None c show ?thesis
      using unescape_hex [OF c, of x] unescape_pair [OF c, of x]
      by (cases "c < 0x10000") (auto simp: escape_ascii_def)
  qed
next
  case (Some s)
  then show ?thesis by (simp add: escape_ascii_def unescape_short)
qed

lemma unescape_plain: "scalar c \<Longrightarrow> unescape (escape_plain c @ x) = (c, x)"
proof (cases "escape_short c")
  case None
  assume c: "scalar c"
  from None have "c \<noteq> 92" by (auto simp: escape_short_def split: if_splits)
  with None c show ?thesis
    using unescape_hex [OF c, of x] by (simp add: escape_plain_def unescape_def [of "c # x"])
next
  case (Some s)
  then show ?thesis by (simp add: escape_plain_def unescape_short)
qed

lemma escape_short_start: "escape_short c = Some s \<Longrightarrow> s \<noteq> [] \<and> hd s \<noteq> 34"
  by (auto simp: escape_short_def split: if_splits)

interpretation ascii: escaping escape_ascii
proof
  fix c show "escape_ascii c \<noteq> [] \<and> hd (escape_ascii c) \<noteq> 34"
  proof (cases "escape_short c")
    case None
    moreover from None have "c \<noteq> 34" by (auto simp: escape_short_def)
    ultimately show ?thesis by (simp add: escape_ascii_def)
  qed (use escape_short_start in \<open>simp add: escape_ascii_def\<close>)
next
  fix c d x y assume "scalar c" "scalar d" "escape_ascii c @ x = escape_ascii d @ y"
  then show "c = d \<and> x = y" using unescape_ascii by (metis prod.inject)
qed

interpretation plain: escaping escape_plain
proof
  fix c show "escape_plain c \<noteq> [] \<and> hd (escape_plain c) \<noteq> 34"
  proof (cases "escape_short c")
    case None
    moreover from None have "c \<noteq> 34" by (auto simp: escape_short_def)
    ultimately show ?thesis by (simp add: escape_plain_def)
  qed (use escape_short_start in \<open>simp add: escape_plain_def\<close>)
next
  fix c d x y assume "scalar c" "scalar d" "escape_plain c @ x = escape_plain d @ y"
  then show "c = d \<and> x = y" using unescape_plain by (metis prod.inject)
qed

section \<open>Bytes\<close>

definition utf8_read :: "nat list \<Rightarrow> nat \<times> nat list" where
  "utf8_read s =
     (let b = hd s; t = (\<lambda>i. s ! i - 0x80)
      in if b < 0x80 then (b, drop 1 s)
         else if b < 0xE0 then ((b - 0xC0) * 64 + t 1, drop 2 s)
         else if b < 0xF0 then ((b - 0xE0) * 4096 + t 1 * 64 + t 2, drop 3 s)
         else ((b - 0xF0) * 0x40000 + t 1 * 4096 + t 2 * 64 + t 3, drop 4 s))"

lemma utf8_read_char:
  assumes "c < 0x110000"
  shows "utf8_read (utf8_char c @ x) = (c, x)"
proof -
  have d2: "c div 64 * 64 + c mod 64 = c" by simp
  have d3: "c div 4096 * 4096 + c div 64 mod 64 * 64 + c mod 64 = c"
  proof -
    have "c div 4096 = c div 64 div 64" by (simp flip: div_mult2_eq)
    then have "c div 4096 * 64 + c div 64 mod 64 = c div 64" by simp
    then show ?thesis using d2 by linarith
  qed
  have d4: "c div 0x40000 * 0x40000 + c div 4096 mod 64 * 4096 + c div 64 mod 64 * 64 + c mod 64 = c"
  proof -
    have "c div 0x40000 = c div 4096 div 64" by (simp flip: div_mult2_eq)
    then have "c div 0x40000 * 64 + c div 4096 mod 64 = c div 4096" by simp
    then show ?thesis using d3 by linarith
  qed
  consider "c < 0x80" | "0x80 \<le> c" "c < 0x800" | "0x800 \<le> c" "c < 0x10000" | "0x10000 \<le> c"
    by linarith
  then show ?thesis
  proof cases
    case 1
    then show ?thesis by (simp add: utf8_read_def utf8_char_def)
  next
    case 2
    then have "c div 64 < 32" by simp
    with 2 d2 show ?thesis by (simp add: utf8_read_def utf8_char_def Let_def)
  next
    case 3
    then have "c div 4096 < 16" by simp
    with 3 d3 show ?thesis by (simp add: utf8_read_def utf8_char_def Let_def)
  next
    case 4
    with d4 show ?thesis by (simp add: utf8_read_def utf8_char_def Let_def)
  qed
qed

lemma utf8_char_not_Nil [simp]: "utf8_char c \<noteq> []"
  by (simp add: utf8_char_def)

lemma utf8_inject:
  "list_all scalar s \<Longrightarrow> list_all scalar t \<Longrightarrow>
   concat (map utf8_char s) = concat (map utf8_char t) \<Longrightarrow> s = t"
proof (induction s arbitrary: t)
  case Nil
  then show ?case by (cases t) auto
next
  case (Cons c s)
  from Cons.prems(3) obtain d t' where t: "t = d # t'" by (cases t) auto
  from Cons.prems t have "scalar c" "scalar d" by auto
  then have "c < 0x110000" "d < 0x110000" by (simp_all add: scalar_def)
  note read = this [THEN utf8_read_char]
  from Cons.prems(3) t
  have "utf8_char c @ concat (map utf8_char s) = utf8_char d @ concat (map utf8_char t')" by simp
  then have "(c, concat (map utf8_char s)) = (d, concat (map utf8_char t'))"
    unfolding read [symmetric] by (rule arg_cong)
  then have "c = d" "concat (map utf8_char s) = concat (map utf8_char t')" by simp_all
  with Cons.IH [of t'] Cons.prems(1,2) t show ?case by simp
qed

text \<open>\<^verbatim>\<open>approvals/binding.py\<close>: the canonical text is ASCII, so its bytes are its characters.\<close>

definition canonical_json :: "json \<Rightarrow> utext" where
  "canonical_json v = json_text escape_ascii v"

definition payload_bytes :: "json \<Rightarrow> nat" where
  "payload_bytes body = length (canonical_json body)"

text \<open>\<^verbatim>\<open>_canonical_bytes\<close> of \<^verbatim>\<open>operations/idempotency.py\<close>; \<open>None\<close> is its
  \<^verbatim>\<open>IdempotencyContractError\<close>.\<close>

definition canonical_bytes :: "json \<Rightarrow> nat list option" where
  "canonical_bytes v = (if json_finite v then utf8 (json_text escape_plain v) else None)"

section \<open>Canonical JSON identifies documents\<close>

text \<open>Printing does not see the order of the keys of an object.\<close>

lemma json_text_sorted_keys: "json_text esc (sorted_keys v) = json_text esc v"
proof (induction v)
  case (JArray xs)
  then show ?case by (simp add: comp_def cong: map_cong)
next
  case (JObject kvs)
  have "sorted (map fst (map (\<lambda>(k, v). (k, sorted_keys v)) (sort_key fst kvs)))"
    by (simp add: comp_def case_prod_beta')
  then have "sort_key fst (map (\<lambda>(k, v). (k, sorted_keys v)) (sort_key fst kvs)) =
             map (\<lambda>(k, v). (k, sorted_keys v)) (sort_key fst kvs)"
    by (rule sort_key_id_if_sorted)
  with JObject show ?case
    unfolding sorted_keys_JObject json_text_JObject
    by (auto simp: comp_def case_prod_beta' intro!: arg_cong [of _ _ comma_list])
qed simp_all

lemma same_document_text: "same_document v w \<Longrightarrow> json_text esc v = json_text esc w"
  unfolding same_document_def by (metis json_text_sorted_keys)

lemma canonical_json_same:
  "json_ok v \<Longrightarrow> json_ok w \<Longrightarrow> canonical_json v = canonical_json w \<longleftrightarrow> same_document v w"
  using ascii.text_unique [of v w "[]" "[]"] same_document_text [of v w]
  by (auto simp: canonical_json_def same_document_def)

lemma json_finite_sorted_keys [simp]: "json_finite (sorted_keys v) = json_finite v"
proof (induction v)
  case (JObject kvs)
  then show ?case
    unfolding sorted_keys_JObject by (force simp: list_all_iff)
qed (simp_all add: list_all_iff)

lemma scalar_ascii: "c < 0xD800 \<Longrightarrow> scalar c"
  by (simp add: scalar_def)

lemma scalar_hex4: "n < 0x10000 \<Longrightarrow> list_all scalar (hex4 n)"
proof -
  assume "n < 0x10000"
  moreover have "scalar (hex_code d)" if "d < 16" for d
    using that by (simp add: hex_code_def scalar_def)
  ultimately show ?thesis by (simp add: hex4_def)
qed

lemma scalar_escape_plain: "scalar c \<Longrightarrow> list_all scalar (escape_plain c)"
  by (auto simp: escape_plain_def escape_short_def scalar_hex4 intro: scalar_ascii)

lemma scalar_string_text: "list_all scalar s \<Longrightarrow> list_all scalar (string_text escape_plain s)"
  using scalar_escape_plain by (auto simp: string_text_def list_all_iff scalar_ascii)

lemma scalar_comma_list: "list_all (list_all scalar) xs \<Longrightarrow> list_all scalar (comma_list xs)"
  by (induction xs rule: comma_list.induct) (simp_all add: scalar_ascii)

lemma scalar_number: "list_all number_char s \<Longrightarrow> list_all scalar s"
  by (auto simp: list_all_iff number_char_def digit_def scalar_def)

lemma scalar_json_text: "json_ok v \<Longrightarrow> list_all scalar (json_text escape_plain v)"
proof (induction v)
  case (JInt i)
  then show ?case using int_text_chars scalar_number by simp
next
  case (JFloat s)
  then show ?case using scalar_number by (simp add: float_text_def)
next
  case (JArray xs)
  then have "list_all (list_all scalar) (map (json_text escape_plain) xs)"
    by (simp add: list_all_iff)
  then show ?case by (simp add: scalar_comma_list scalar_ascii)
next
  case (JObject kvs)
  then have "list_all (list_all scalar)
    (map (\<lambda>(k, v). string_text escape_plain k @ 58 # json_text escape_plain v) (sort_key fst kvs))"
    by (fastforce simp: list_all_iff scalar_ascii dest: scalar_string_text [unfolded list_all_iff])
  then show ?case
    unfolding json_text_JObject by (simp add: scalar_comma_list scalar_ascii)
qed (simp_all add: scalar_string_text scalar_ascii)

lemma canonical_bytes_Some: "json_ok v \<Longrightarrow> json_finite v \<Longrightarrow> \<exists>b. canonical_bytes v = Some b"
  by (simp add: canonical_bytes_def utf8_def scalar_json_text)

lemma canonical_bytes_SomeD:
  "canonical_bytes v = Some b \<Longrightarrow>
   json_finite v \<and> list_all scalar (json_text escape_plain v) \<and>
   b = concat (map utf8_char (json_text escape_plain v))"
  by (auto simp: canonical_bytes_def utf8_def split: if_splits)

lemma canonical_bytes_same:
  assumes "json_ok v" "json_ok w" "canonical_bytes v = Some b"
  shows "canonical_bytes w = Some b \<longleftrightarrow> same_document v w"
proof
  assume "canonical_bytes w = Some b"
  with assms(3) have "json_text escape_plain v = json_text escape_plain w"
    by (auto dest!: canonical_bytes_SomeD intro: utf8_inject)
  with plain.text_unique [of v w "[]" "[]"] assms(1,2) show "same_document v w"
    by (simp add: same_document_def)
next
  assume eq: "same_document v w"
  then have "json_finite v = json_finite w"
    unfolding same_document_def by (metis json_finite_sorted_keys)
  with assms(3) same_document_text [OF eq, of escape_plain] show "canonical_bytes w = Some b"
    unfolding canonical_bytes_def by (simp split: if_splits)
qed

text \<open>C39. The canonical JSON both digests are taken over identifies the document: two documents
  print alike exactly when they are the same up to the order of the keys of their objects, and every
  document without \<^verbatim>\<open>nan\<close> or \<^verbatim>\<open>inf\<close> has canonical bytes, which identify it
  too. So an approved payload that is changed in any value, or a keyed request that differs in any
  field, has other canonical bytes.\<close>

theorem canonical_json_identifies:
  assumes "json_ok v" "json_ok w"
  shows "(canonical_json v = canonical_json w \<longleftrightarrow> same_document v w) \<and>
    (json_finite v \<longrightarrow> canonical_bytes v \<noteq> None \<and>
       (canonical_bytes w = canonical_bytes v \<longleftrightarrow> same_document v w))"
proof -
  from canonical_bytes_Some [OF assms(1)] obtain b where
    "json_finite v \<longrightarrow> canonical_bytes v = Some b" by blast
  with canonical_json_same [OF assms] canonical_bytes_same [OF assms] show ?thesis by auto
qed

text \<open>\<^verbatim>\<open>{"b": [1, -2.5], "a": ..}\<close>, \<^verbatim>\<open>a\<close> an accented letter and a newline, with its keys in both orders.\<close>

theorem canonical_json_identifies_witness:
  "canonical_json (JObject [([98], JArray [JInt 1, JFloat [45, 50, 46, 53]]), ([97], JString [233, 10])]) =
   canonical_json (JObject [([97], JString [233, 10]), ([98], JArray [JInt 1, JFloat [45, 50, 46, 53]])]) \<and>
   canonical_json (JString [233]) \<noteq> canonical_json (JString [101])"
proof -
  have "json_ok (JObject [([98], JArray [JInt 1, JFloat [45, 50, 46, 53]]), ([97], JString [233, 10])])"
    and "json_ok (JObject [([97], JString [233, 10]), ([98], JArray [JInt 1, JFloat [45, 50, 46, 53]])])"
    and "json_ok (JString [233])" "json_ok (JString [101])"
    by (simp_all add: scalar_def float_text_def number_char_def digit_def)
  with canonical_json_identifies show ?thesis
    by (simp add: same_document_def)
qed

end
