(* ===== verification/Py_Text.thy ===== *)
theory Py_Text
  imports Canonical_Json "HOL-Library.Char_ord"
begin

text \<open>
  Python text: a string is the list of its code points. \<^verbatim>\<open>str.strip\<close>, \<^verbatim>\<open>int(text)\<close> and
  what reads back what \<^verbatim>\<open>str(int)\<close> and \<^verbatim>\<open>",".join\<close> wrote.
\<close>

section \<open>Spaces\<close>

text \<open>\<^verbatim>\<open>str.isspace\<close> of one character.\<close>

definition unicode_space :: "nat \<Rightarrow> bool" where
  "unicode_space c \<longleftrightarrow>
     9 \<le> c \<and> c \<le> 13 \<or> 28 \<le> c \<and> c \<le> 32 \<or> c = 0x85 \<or> c = 0xA0 \<or> c = 0x1680 \<or>
     0x2000 \<le> c \<and> c \<le> 0x200A \<or> c = 0x2028 \<or> c = 0x2029 \<or> c = 0x202F \<or> c = 0x205F \<or>
     c = 0x3000"

definition utext_of :: "string \<Rightarrow> utext" where
  "utext_of s = map of_char s"

section \<open>Integers\<close>

text \<open>\<open>uni\<close> gives the decimal value of the characters beyond ASCII that have one (the Unicode
  database). After a digit one underscore may come.\<close>

definition py_digit :: "(nat \<Rightarrow> nat option) \<Rightarrow> nat \<Rightarrow> nat option" where
  "py_digit uni c =
     (if 48 \<le> c \<and> c \<le> 57 then Some (c - 48) else if c < 128 then None else uni c)"

fun decimal_digits :: "(nat \<Rightarrow> nat option) \<Rightarrow> bool \<Rightarrow> nat \<Rightarrow> utext \<Rightarrow> nat option" where
  "decimal_digits uni after acc [] = (if after then Some acc else None)"
| "decimal_digits uni after acc (c # s) =
     (if c = 95 then if after then decimal_digits uni False acc s else None
      else case py_digit uni c of None \<Rightarrow> None | Some d \<Rightarrow> decimal_digits uni True (10 * acc + d) s)"

definition max_str_digits :: nat where "max_str_digits = 4300"

text \<open>\<^verbatim>\<open>int(text.strip())\<close>; \<open>None\<close> is its \<^verbatim>\<open>ValueError\<close>.\<close>

definition py_int :: "(nat \<Rightarrow> nat option) \<Rightarrow> utext \<Rightarrow> int option" where
  "py_int uni text =
     (let s = strip_chars unicode_space text;
          neg = (s \<noteq> [] \<and> hd s = 45);
          ds = (if s \<noteq> [] \<and> (hd s = 45 \<or> hd s = 43) then tl s else s)
      in if max_str_digits < length (filter (\<lambda>c. c \<noteq> 95) ds) then None
         else map_option (\<lambda>n. if neg then - int n else int n) (decimal_digits uni False 0 ds))"

text \<open>\<^verbatim>\<open>str(n)\<close>, with the same limit.\<close>

definition py_str_int :: "int \<Rightarrow> utext option" where
  "py_str_int n =
     (if max_str_digits < length (digits (nat \<bar>n\<bar>)) then None else Some (int_text n))"

lemma strip_chars_ends:
  "s \<noteq> [] \<Longrightarrow> \<not> p (hd s) \<Longrightarrow> \<not> p (last s) \<Longrightarrow> strip_chars p s = s"
proof -
  assume s: "s \<noteq> []" "\<not> p (hd s)" "\<not> p (last s)"
  then have "dropWhile p s = s" by (cases s) auto
  moreover have "dropWhile p (rev s) = rev s" using s by (cases s rule: rev_cases) auto
  ultimately show ?thesis by (simp add: strip_chars_def)
qed

lemma strip_chars_plain [simp]: "list_all (\<lambda>c. \<not> p c) s \<Longrightarrow> strip_chars p s = s"
  by (cases "s = []") (auto simp: strip_chars_def[of p "[]"] list_all_iff intro!: strip_chars_ends)

lemma decimal_digits_snoc:
  "decimal_digits uni a acc s = Some m \<Longrightarrow> py_digit uni c = Some d \<Longrightarrow> c \<noteq> 95 \<Longrightarrow>
   decimal_digits uni a acc (s @ [c]) = Some (10 * m + d)"
  by (induction uni a acc s rule: decimal_digits.induct) (auto split: if_splits option.splits)

lemma decimal_digits_digits [simp]: "decimal_digits uni False 0 (digits n) = Some n"
proof (induction n rule: digits.induct)
  case (1 n)
  show ?case
  proof (cases "n < 10")
    case True
    then have "digits n = [48 + n]" by (simp add: digits.simps [of n])
    with True show ?thesis by (simp add: py_digit_def)
  next
    case False
    with 1 have "decimal_digits uni False 0 (digits (n div 10)) = Some (n div 10)" by simp
    moreover have "py_digit uni (48 + n mod 10) = Some (n mod 10)"
      using pos_mod_bound [of 10 "int n"] by (simp add: py_digit_def)
    ultimately show ?thesis using False by (subst digits.simps) (simp add: decimal_digits_snoc)
  qed
qed

lemma digit_plain: "digit c \<Longrightarrow> \<not> unicode_space c \<and> c \<noteq> 95 \<and> c \<noteq> 45 \<and> c \<noteq> 43"
  by (auto simp: digit_def unicode_space_def)

lemma py_int_str: "py_str_int n = Some t \<Longrightarrow> py_int uni t = Some n"
proof -
  assume t: "py_str_int n = Some t"
  let ?ds = "digits (nat \<bar>n\<bar>)"
  have d: "list_all digit ?ds" by (rule digits_digit)
  then have f: "filter (\<lambda>c. c \<noteq> 95) ?ds = ?ds" using digit_plain by (auto simp: list_all_iff filter_id_conv)
  have h: "digit (hd ?ds)" by (rule digits_hd)
  have sp: "list_all (\<lambda>c. \<not> unicode_space c) ?ds" "\<not> unicode_space 45"
    using d digit_plain by (auto simp: list_all_iff unicode_space_def)
  show ?thesis
  proof (cases "n < 0")
    case True
    with t have "t = 45 # ?ds" "length ?ds \<le> max_str_digits"
      by (auto simp: py_str_int_def int_text_def split: if_splits)
    with True f sp show ?thesis by (simp add: py_int_def Let_def)
  next
    case False
    with t have "t = ?ds" "length ?ds \<le> max_str_digits"
      by (auto simp: py_str_int_def int_text_def split: if_splits)
    with False f sp digit_plain [OF h] show ?thesis by (simp add: py_int_def Let_def)
  qed
qed

section \<open>Comma-separated items\<close>

definition comma_items :: "utext \<Rightarrow> utext list" where
  "comma_items text = filter (\<lambda>s. s \<noteq> []) (map (strip_chars unicode_space) (split_on 44 text))"

fun join_commas :: "utext list \<Rightarrow> utext" where
  "join_commas [] = []"
| "join_commas [x] = x"
| "join_commas (x # y # xs) = x @ 44 # join_commas (y # xs)"

text \<open>An item that survives the journey.\<close>

definition plain_item :: "utext \<Rightarrow> bool" where
  "plain_item s \<longleftrightarrow> s \<noteq> [] \<and> 44 \<notin> set s \<and> strip_chars unicode_space s = s"

lemma split_on_not_Nil [simp]: "split_on c s \<noteq> []"
  by (cases s) (auto split: list.splits)

lemma split_on_plain [simp]: "c \<notin> set s \<Longrightarrow> split_on c s = [s]"
  by (induction s) auto

lemma split_on_append [simp]: "c \<notin> set s \<Longrightarrow> split_on c (s @ c # t) = s # split_on c t"
  by (induction s) auto

lemma comma_items_join:
  "list_all plain_item xs \<Longrightarrow> comma_items (join_commas xs) = xs"
  by (induction xs rule: join_commas.induct) (auto simp: comma_items_def plain_item_def strip_chars_def)

end
