(* ===== verification/Keyed_Requests.thy ===== *)
theory Keyed_Requests
  imports Py_Text
begin

text \<open>
  \<^verbatim>\<open>rheo_core/operations/idempotency.py\<close> over \<^verbatim>\<open>core.idempotency_result\<close> of
  \<^verbatim>\<open>operations/idempotency_tables.py\<close>: the identity of a keyed request, the adapters between
  schema versions, the reservation, the replay, the two ways a reservation ends, and the sweep.

  Parameters: \<open>sha256\<close> is the digest; \<open>jsonb v\<close> is the document PostgreSQL gives back for a stored
  \<open>v\<close> (a \<^verbatim>\<open>jsonb\<close> column keeps the value of a number, not its spelling). An adapter is its
  identity together with what it does, \<open>None\<close> for an exception.
\<close>

section \<open>Keys\<close>

datatype contract_error =
  Key_Not_String | Key_Blank | Key_Not_Utf8 | Key_Too_Long | Not_Keyed | Not_Canonical

definition max_key_bytes :: nat where
  "max_key_bytes = 256"

text \<open>\<open>None\<close> is a value that is no string.\<close>

definition validate_idempotency_key :: "utext option \<Rightarrow> contract_error + utext" where
  "validate_idempotency_key v =
     (case v of
        None \<Rightarrow> Inl Key_Not_String
      | Some k \<Rightarrow>
          if list_all unicode_space k then Inl Key_Blank
          else (case utf8 k of
                  None \<Rightarrow> Inl Key_Not_Utf8
                | Some b \<Rightarrow> if length b > max_key_bytes then Inl Key_Too_Long else Inr k))"

section \<open>The canonical request\<close>

record canonical_request =
  cr_identity :: json
  cr_encoded :: "nat list"
  cr_digest :: "nat list"
  cr_key :: utext

record keyed_spec =
  ks_key_field :: string
  ks_request_version :: int
  ks_result_version :: int

text \<open>\<open>key\<close> is the key field of the validated input, \<open>projected\<close> the input's dump (\<open>None\<close> when it
  raises).\<close>

definition canonical_request ::
  "(nat list \<Rightarrow> nat list) \<Rightarrow> keyed_spec option \<Rightarrow> string \<Rightarrow> utext option \<Rightarrow> json option \<Rightarrow>
   contract_error + canonical_request" where
  "canonical_request sha256 spec name key projected =
     (case spec of None \<Rightarrow> Inl Not_Keyed
      | Some _ \<Rightarrow>
     (case validate_idempotency_key key of Inl e \<Rightarrow> Inl e
      | Inr k \<Rightarrow>
     (case projected of None \<Rightarrow> Inl Not_Canonical
      | Some p \<Rightarrow>
          (let identity = JObject [(utext_of ''operation_name'', JString (utext_of name)),
                                   (utext_of ''input'', p)]
           in case canonical_bytes identity of
                None \<Rightarrow> Inl Not_Canonical
              | Some b \<Rightarrow>
                  Inr \<lparr>cr_identity = identity, cr_encoded = b, cr_digest = sha256 b,
                       cr_key = k\<rparr>))))"

section \<open>Adapters\<close>

record adapter =
  ad_id :: nat
  ad_run :: "json \<Rightarrow> json option"

type_synonym adapter_table = "((string \<times> int) \<times> (int \<times> adapter)) list"

definition edge_at :: "adapter_table \<Rightarrow> string \<Rightarrow> int \<Rightarrow> (int \<times> adapter) option" where
  "edge_at t name v = map_of t (name, v)"

datatype register_error =
  Bad_Version | No_Advance | More_Than_One_Path | Graph_Cycle

text \<open>The versions of one operation the table leads on from: an upper bound for the walks.\<close>

definition table_versions :: "adapter_table \<Rightarrow> string \<Rightarrow> int set" where
  "table_versions t name = {v. edge_at t name v \<noteq> None}"

lemma finite_table_versions [simp]: "finite (table_versions t name)"
proof -
  have "table_versions t name \<subseteq> snd ` fst ` set t"
    by (force simp: table_versions_def edge_at_def dest: map_of_SomeD)
  then show ?thesis by (rule finite_subset) simp
qed

lemma walk_smaller:
  "edge_at t name v = Some e \<Longrightarrow> v \<notin> set visited \<Longrightarrow>
   card (table_versions t name - set (v # visited)) < card (table_versions t name - set visited)"
proof (rule psubset_card_mono)
  show "finite (table_versions t name - set visited)" by simp
qed (auto simp: table_versions_def)

text \<open>The \<^verbatim>\<open>while True\<close> of \<^verbatim>\<open>_register\<close>: whether the chain from \<open>cursor\<close> meets a visited
  version.\<close>

function chain_cycles :: "adapter_table \<Rightarrow> string \<Rightarrow> int list \<Rightarrow> int \<Rightarrow> bool" where
  "chain_cycles t name visited cursor =
     (if cursor \<in> set visited then True
      else case edge_at t name cursor of
             None \<Rightarrow> False
           | Some e \<Rightarrow> chain_cycles t name (cursor # visited) (fst e))"
  by pat_completeness auto
termination
  by (relation "measure (\<lambda>(t, name, visited, cursor). card (table_versions t name - set visited))")
     (use walk_smaller in force)+

declare chain_cycles.simps [simp del]

definition register_adapter ::
  "string \<Rightarrow> int \<Rightarrow> int \<Rightarrow> adapter \<Rightarrow> adapter_table \<Rightarrow> register_error + adapter_table" where
  "register_adapter name from_version to_version adapter t =
     (if name = [] \<or> from_version \<le> 0 \<or> to_version \<le> 0 then Inl Bad_Version
      else if from_version = to_version then Inl No_Advance
      else case edge_at t name from_version of
             Some e \<Rightarrow>
               if fst e = to_version \<and> ad_id (snd e) = ad_id adapter then Inr t
               else Inl More_Than_One_Path
           | None \<Rightarrow>
               if chain_cycles t name [from_version] to_version then Inl Graph_Cycle
               else Inr (((name, from_version), (to_version, adapter)) # t))"

datatype schema_error =
    Adapter_Cycle | No_Adapter | Adapter_Failed | Not_An_Object
  | Identity_Mismatch | No_Result | Result_Invalid | No_Error_Code | Not_Keyed_Now

definition is_object :: "json \<Rightarrow> bool" where
  "is_object v = (case v of JObject _ \<Rightarrow> True | _ \<Rightarrow> False)"

text \<open>One adapter step: an exception, no object, or no canonical bytes all fail it.\<close>

definition adapt_step :: "adapter \<Rightarrow> json \<Rightarrow> schema_error + json" where
  "adapt_step a v =
     (case ad_run a v of
        None \<Rightarrow> Inl Adapter_Failed
      | Some w \<Rightarrow> (case w of
                    JObject kvs \<Rightarrow> if canonical_bytes w = None then Inl Adapter_Failed else Inr w
                  | _ \<Rightarrow> Inl Not_An_Object))"

function adapt ::
  "adapter_table \<Rightarrow> string \<Rightarrow> int list \<Rightarrow> int \<Rightarrow> int \<Rightarrow> json \<Rightarrow> schema_error + json" where
  "adapt t name visited current to_version v =
     (if current = to_version then Inr v
      else if current \<in> set visited then Inl Adapter_Cycle
      else case edge_at t name current of
             None \<Rightarrow> Inl No_Adapter
           | Some e \<Rightarrow>
               (case adapt_step (snd e) v of
                  Inl x \<Rightarrow> Inl x
                | Inr w \<Rightarrow> adapt t name (current # visited) (fst e) to_version w))"
  by pat_completeness auto
termination
  by (relation "measure (\<lambda>(t, name, visited, current, to, v).
        card (table_versions t name - set visited))")
     (use walk_smaller in force)+

declare adapt.simps [simp del]

text \<open>\<^verbatim>\<open>_require_path\<close>: the same walk without running the adapters.\<close>

function require_path ::
  "adapter_table \<Rightarrow> string \<Rightarrow> int list \<Rightarrow> int \<Rightarrow> int \<Rightarrow> schema_error option" where
  "require_path t name visited current to_version =
     (if current = to_version then None
      else if current \<in> set visited then Some Adapter_Cycle
      else case edge_at t name current of
             None \<Rightarrow> Some No_Adapter
           | Some e \<Rightarrow> require_path t name (current # visited) (fst e) to_version)"
  by pat_completeness auto
termination
  by (relation "measure (\<lambda>(t, name, visited, current, to).
        card (table_versions t name - set visited))")
     (use walk_smaller in force)+

declare require_path.simps [simp del]

record compatibility =
  kc_request :: adapter_table
  kc_result :: adapter_table

section \<open>The retained envelopes\<close>

datatype envelope_state =
  EnPending | EnSucceeded | EnFailed | EnRefused | EnUnresolved | EnCancelled

record envelope =
  en_operation :: string
  en_key :: utext
  en_identity :: json
  en_digest :: "nat list"
  en_request_version :: int
  en_state :: envelope_state
  en_operation_id :: "uuid option"
  en_result :: "json option"
  en_result_version :: "int option"
  en_error_code :: "string option"
  en_error_detail :: "string option"
  en_created_at :: instant
  en_updated_at :: instant
  en_retained_until :: instant

type_synonym envelopes = "envelope list"

definition en_ref :: "envelope \<Rightarrow> string \<times> utext" where
  "en_ref r = (en_operation r, en_key r)"

text \<open>The constraint \<^verbatim>\<open>idempotency_result_terminal_shape\<close>.\<close>

definition envelope_check :: "envelope \<Rightarrow> bool" where
  "envelope_check r \<longleftrightarrow>
     (case en_state r of
        EnSucceeded \<Rightarrow> en_result r \<noteq> None \<and> en_result_version r \<noteq> None \<and> en_error_code r = None
      | EnPending \<Rightarrow> en_result r = None \<and> en_result_version r = None \<and>
                     en_error_code r = None \<and> en_error_detail r = None
      | _ \<Rightarrow> en_result r = None \<and> en_result_version r = None \<and> en_error_code r \<noteq> None)"

datatype keyed_error =
  Contract contract_error | Incompatible schema_error | Keyed_Db db_error | Not_Advanced |
  Bad_Error_State

text \<open>\<^verbatim>\<open>_row\<close>: the stored identity, and the result when there is one, must be objects.\<close>

definition read_envelope :: "envelope \<Rightarrow> keyed_error + envelope" where
  "read_envelope r =
     (if is_object (en_identity r) \<and> (case en_result r of None \<Rightarrow> True | Some v \<Rightarrow> is_object v)
      then Inr r else Inl (Incompatible Not_An_Object))"

section \<open>Reservation\<close>

definition new_envelope ::
  "string \<Rightarrow> keyed_spec \<Rightarrow> canonical_request \<Rightarrow> uuid option \<Rightarrow> instant \<Rightarrow> instant \<Rightarrow> envelope" where
  "new_envelope name spec request operation_id now retained_until =
     \<lparr>en_operation = name, en_key = cr_key request, en_identity = cr_identity request,
      en_digest = cr_digest request, en_request_version = ks_request_version spec,
      en_state = EnPending, en_operation_id = operation_id, en_result = None,
      en_result_version = None, en_error_code = None, en_error_detail = None,
      en_created_at = now, en_updated_at = now, en_retained_until = retained_until\<rparr>"

text \<open>\<^verbatim>\<open>INSERT .. ON CONFLICT DO NOTHING RETURNING\<close>, then the existing row. The flag is
  \<^verbatim>\<open>Reservation.created\<close>. The table's check on the retention is the only one a keyed
  declaration can break.\<close>

definition reserve ::
  "(json \<Rightarrow> json) \<Rightarrow> keyed_spec option \<Rightarrow> string \<Rightarrow> canonical_request \<Rightarrow> uuid option \<Rightarrow>
   instant \<Rightarrow> instant \<Rightarrow> envelopes \<Rightarrow> keyed_error + bool \<times> envelope \<times> envelopes" where
  "reserve jsonb spec name request operation_id now retained_until t =
     (case spec of None \<Rightarrow> Inl (Contract Not_Keyed)
      | Some sp \<Rightarrow>
     (case lookup_by en_ref (name, cr_key request) t of
        Some r \<Rightarrow> (case read_envelope r of Inl e \<Rightarrow> Inl e | Inr row \<Rightarrow> Inr (False, row, t))
      | None \<Rightarrow>
          if retained_until < now then Inl (Keyed_Db Check_Violation)
          else (let r = new_envelope name sp
                          (request\<lparr>cr_identity := jsonb (cr_identity request)\<rparr>) operation_id
                          now retained_until
                in case read_envelope r of Inl e \<Rightarrow> Inl e
                   | Inr row \<Rightarrow> Inr (True, row, t @ [row]))))"

section \<open>Replay\<close>

record 'o retained_replay =
  rr_state :: string
  rr_result :: "'o option"
  rr_error_code :: "string option"
  rr_error_detail :: "string option"
  rr_operation_id :: "uuid option"

definition key_reused :: string where
  "key_reused = ''idempotency_key_reused''"

fun envelope_state_text :: "envelope_state \<Rightarrow> string" where
  "envelope_state_text EnPending = ''pending''"
| "envelope_state_text EnSucceeded = ''succeeded''"
| "envelope_state_text EnFailed = ''failed''"
| "envelope_state_text EnRefused = ''refused''"
| "envelope_state_text EnUnresolved = ''unresolved''"
| "envelope_state_text EnCancelled = ''cancelled''"

text \<open>The stored identity at the declaration's current version, as bytes.\<close>

definition stored_request ::
  "(nat list \<Rightarrow> nat list) \<Rightarrow> compatibility \<Rightarrow> keyed_spec \<Rightarrow> string \<Rightarrow> envelope \<Rightarrow>
   schema_error + nat list" where
  "stored_request sha256 adapters spec name row =
     (case canonical_bytes (en_identity row) of
        None \<Rightarrow> Inl Identity_Mismatch
      | Some original \<Rightarrow>
          if sha256 original \<noteq> en_digest row then Inl Identity_Mismatch
          else (case adapt (kc_request adapters) name [] (en_request_version row)
                       (ks_request_version spec) (en_identity row) of
                  Inl e \<Rightarrow> Inl e
                | Inr identity \<Rightarrow>
                    (case canonical_bytes identity of None \<Rightarrow> Inl Identity_Mismatch
                     | Some b \<Rightarrow> Inr b)))"

definition replay ::
  "(nat list \<Rightarrow> nat list) \<Rightarrow> compatibility \<Rightarrow> keyed_spec option \<Rightarrow> string \<Rightarrow>
   (json \<Rightarrow> 'o option) \<Rightarrow> envelope \<Rightarrow> canonical_request \<Rightarrow>
   schema_error + 'o retained_replay" where
  "replay sha256 adapters spec name validate_output row request =
     (case spec of None \<Rightarrow> Inl Not_Keyed_Now
      | Some sp \<Rightarrow>
     (case stored_request sha256 adapters sp name row of Inl e \<Rightarrow> Inl e
      | Inr stored \<Rightarrow>
        if stored \<noteq> cr_encoded request
        then Inr \<lparr>rr_state = ''refused'', rr_result = None, rr_error_code = Some key_reused,
                  rr_error_detail =
                    Some ''the idempotency key is already bound to a different request'',
                  rr_operation_id = en_operation_id row\<rparr>
        else if en_state row = EnSucceeded
        then (case (en_result row, en_result_version row) of
                (Some body, Some version) \<Rightarrow>
                  (case adapt (kc_result adapters) name [] version (ks_result_version sp) body of
                     Inl e \<Rightarrow> Inl e
                   | Inr adapted \<Rightarrow>
                       (case validate_output adapted of None \<Rightarrow> Inl Result_Invalid
                        | Some model \<Rightarrow>
                            Inr \<lparr>rr_state = ''succeeded'', rr_result = Some model,
                                 rr_error_code = None, rr_error_detail = None,
                                 rr_operation_id = en_operation_id row\<rparr>))
              | _ \<Rightarrow> Inl No_Result)
        else if en_state row = EnPending
        then Inr \<lparr>rr_state = ''pending'', rr_result = None, rr_error_code = None,
                  rr_error_detail = None, rr_operation_id = en_operation_id row\<rparr>
        else (case en_error_code row of
                None \<Rightarrow> Inl No_Error_Code
              | Some code \<Rightarrow>
                  Inr \<lparr>rr_state = (if en_state row = EnRefused then code
                                   else envelope_state_text (en_state row)),
                       rr_result = None, rr_error_code = Some code,
                       rr_error_detail =
                         (case en_error_detail row of
                            None \<Rightarrow> Some code
                          | Some d \<Rightarrow> if d = [] then Some code else Some d),
                       rr_operation_id = en_operation_id row\<rparr>)))"

section \<open>The ends of a reservation\<close>

definition en_pending_at :: "string \<times> utext \<Rightarrow> envelope \<Rightarrow> bool" where
  "en_pending_at k r \<longleftrightarrow> en_ref r = k \<and> en_state r = EnPending"

definition en_succeeded_values :: "json \<Rightarrow> int \<Rightarrow> instant \<Rightarrow> envelope \<Rightarrow> envelope" where
  "en_succeeded_values body version now r =
     r\<lparr>en_state := EnSucceeded, en_result := Some body, en_result_version := Some version,
       en_error_code := None, en_error_detail := None, en_updated_at := now\<rparr>"

definition en_error_values ::
  "envelope_state \<Rightarrow> string \<Rightarrow> string \<Rightarrow> instant \<Rightarrow> envelope \<Rightarrow> envelope" where
  "en_error_values s code detail now r =
     r\<lparr>en_state := s, en_result := None, en_result_version := None,
       en_error_code := Some code, en_error_detail := Some detail, en_updated_at := now\<rparr>"

definition finish_success ::
  "(json \<Rightarrow> json) \<Rightarrow> keyed_spec option \<Rightarrow> string \<Rightarrow> utext \<Rightarrow> json \<Rightarrow> instant \<Rightarrow> envelopes \<Rightarrow>
   keyed_error + envelopes" where
  "finish_success jsonb spec name key body now t =
     (case spec of None \<Rightarrow> Inl (Contract Not_Keyed)
      | Some sp \<Rightarrow>
        if canonical_bytes body = None then Inl (Contract Not_Canonical)
        else (case apply_where (en_pending_at (name, key))
                     (en_succeeded_values (jsonb body) (ks_result_version sp) now) t of
                (True, t') \<Rightarrow> Inr t'
              | (False, _) \<Rightarrow> Inl Not_Advanced))"

text \<open>The caller passes one of the four error states.\<close>

definition keyed_error_state :: "envelope_state \<Rightarrow> bool" where
  "keyed_error_state s \<longleftrightarrow> s \<in> {EnFailed, EnRefused, EnUnresolved, EnCancelled}"

definition finish_error ::
  "string \<Rightarrow> utext \<Rightarrow> envelope_state \<Rightarrow> string \<Rightarrow> string \<Rightarrow> instant \<Rightarrow> envelopes \<Rightarrow>
   keyed_error + envelopes" where
  "finish_error name key s code detail now t =
     (if \<not> keyed_error_state s then Inl Bad_Error_State
      else case apply_where (en_pending_at (name, key)) (en_error_values s code detail now) t of
             (True, t') \<Rightarrow> Inr t'
           | (False, _) \<Rightarrow> Inl Not_Advanced)"

text \<open>\<open>protected\<close>: an open or unresolved external action was staged under this key.\<close>

definition purge_expired ::
  "(string \<times> utext \<Rightarrow> bool) \<Rightarrow> instant \<Rightarrow> envelopes \<Rightarrow> nat \<times> envelopes" where
  "purge_expired protected now t =
     (let gone = (\<lambda>r. en_retained_until r < now \<and> \<not> protected (en_ref r))
      in (rowcount gone t, filter (\<lambda>r. \<not> gone r) t))"

section \<open>The startup check\<close>

datatype compatibility_error =
  No_Keyed_Operation | Past_Current_Version | No_Path schema_error | No_Longer_Keyed

fun first_problem :: "('a \<Rightarrow> 'e option) \<Rightarrow> 'a list \<Rightarrow> 'e option" where
  "first_problem f [] = None"
| "first_problem f (x # xs) = (case f x of Some e \<Rightarrow> Some e | None \<Rightarrow> first_problem f xs)"

text \<open>\<open>lookup name\<close>: the keyed specification of the registered operation, \<open>None\<close> when it is not
  registered, \<open>Some None\<close> when it is not keyed.\<close>

definition validate_table ::
  "(string \<Rightarrow> keyed_spec option option) \<Rightarrow> (keyed_spec \<Rightarrow> int) \<Rightarrow> adapter_table \<Rightarrow>
   compatibility_error option" where
  "validate_table lookup current t =
     first_problem
       (\<lambda>(name, from_version).
          case lookup name of
            Some (Some spec) \<Rightarrow>
              if edge_at t name (current spec) \<noteq> None then Some Past_Current_Version
              else map_option No_Path (require_path t name [] from_version (current spec))
          | _ \<Rightarrow> Some No_Keyed_Operation)
       (sort (map fst t))"

definition validate_graphs ::
  "(string \<Rightarrow> keyed_spec option option) \<Rightarrow> compatibility \<Rightarrow> compatibility_error option" where
  "validate_graphs lookup adapters =
     (case validate_table lookup ks_request_version (kc_request adapters) of
        Some e \<Rightarrow> Some e
      | None \<Rightarrow> validate_table lookup ks_result_version (kc_result adapters))"

definition retained_row_problem ::
  "(string \<Rightarrow> keyed_spec option option) \<Rightarrow> compatibility \<Rightarrow> string \<times> int \<times> int option \<Rightarrow>
   compatibility_error option" where
  "retained_row_problem lookup adapters = (\<lambda>(name, request_version, result_version).
     case lookup name of
       None \<Rightarrow> None
     | Some None \<Rightarrow> Some No_Longer_Keyed
     | Some (Some spec) \<Rightarrow>
         (case require_path (kc_request adapters) name [] request_version (ks_request_version spec) of
            Some e \<Rightarrow> Some (No_Path e)
          | None \<Rightarrow>
              (case result_version of None \<Rightarrow> None
               | Some v \<Rightarrow> map_option No_Path
                   (require_path (kc_result adapters) name [] v (ks_result_version spec)))))"

text \<open>\<open>workspaces\<close>: the envelopes of every active workspace.\<close>

definition check_keyed_replay_compatibility ::
  "(string \<Rightarrow> keyed_spec option option) \<Rightarrow> compatibility \<Rightarrow> instant \<Rightarrow> envelopes list \<Rightarrow>
   compatibility_error option" where
  "check_keyed_replay_compatibility lookup adapters now workspaces =
     (case validate_graphs lookup adapters of
        Some e \<Rightarrow> Some e
      | None \<Rightarrow>
          first_problem
            (\<lambda>t. first_problem (retained_row_problem lookup adapters)
               (remdups (map (\<lambda>r. (en_operation r, en_request_version r, en_result_version r))
                  (filter (\<lambda>r. now \<le> en_retained_until r) t))))
            workspaces)"

section \<open>The adapter graphs\<close>

definition version_edges :: "adapter_table \<Rightarrow> string \<Rightarrow> (int \<times> int) set" where
  "version_edges t name = {(v, w). \<exists>a. edge_at t name v = Some (w, a)}"

text \<open>No operation's versions lead in a circle.\<close>

definition acyclic_table :: "adapter_table \<Rightarrow> bool" where
  "acyclic_table t \<longleftrightarrow> (\<forall>name. acyclic (version_edges t name))"

lemma version_edges_functional:
  "(v, w) \<in> version_edges t name \<Longrightarrow> (v, w') \<in> version_edges t name \<Longrightarrow> w' = w"
  by (auto simp: version_edges_def)

lemma chain_cycles_sound:
  "\<not> chain_cycles t name visited cursor \<Longrightarrow> v \<in> set visited \<Longrightarrow>
   (cursor, v) \<notin> (version_edges t name)\<^sup>*"
proof (induction t name visited cursor arbitrary: v rule: chain_cycles.induct)
  case (1 t name visited cursor)
  from 1(2) have fresh: "cursor \<notin> set visited"
    by (subst (asm) chain_cycles.simps) (simp split: if_splits)
  show ?case
  proof
    assume "(cursor, v) \<in> (version_edges t name)\<^sup>*"
    moreover from fresh 1(3) have "cursor \<noteq> v" by auto
    ultimately obtain w where w: "(cursor, w) \<in> version_edges t name"
        "(w, v) \<in> (version_edges t name)\<^sup>*"
      by (metis converse_rtranclE)
    then obtain a where e: "edge_at t name cursor = Some (w, a)"
      by (auto simp: version_edges_def)
    with fresh 1(2) have "\<not> chain_cycles t name (cursor # visited) w"
      by (subst (asm) chain_cycles.simps) simp
    with 1(1) [OF fresh e, of v] 1(3) w(2) show False by simp
  qed
qed

lemma register_adapter_acyclic:
  assumes "register_adapter name from_version to_version a t = Inr t'" "acyclic_table t"
  shows "acyclic_table t'"
proof (cases "edge_at t name from_version")
  case (Some e)
  with assms show ?thesis by (auto simp: register_adapter_def split: if_splits)
next
  case None
  with assms(1) have ok: "\<not> chain_cycles t name [from_version] to_version"
    and t': "t' = ((name, from_version), (to_version, a)) # t"
    by (auto simp: register_adapter_def split: if_splits)
  show ?thesis
    unfolding acyclic_table_def
  proof
    fix m
    have "version_edges t' m =
      (if m = name then insert (from_version, to_version) (version_edges t m) else version_edges t m)"
      using None by (auto simp: version_edges_def edge_at_def t' split: if_splits)
    with assms(2) chain_cycles_sound [OF ok, of from_version] show "acyclic (version_edges t' m)"
      by (simp add: acyclic_table_def acyclic_insert)
  qed
qed

lemma require_path_no_cycle:
  "acyclic (version_edges t name) \<Longrightarrow>
   \<forall>v \<in> set visited. (v, current) \<in> (version_edges t name)\<^sup>+ \<Longrightarrow>
   require_path t name visited current to \<noteq> Some Adapter_Cycle"
proof (induction t name visited current to rule: require_path.induct)
  case (1 t name visited current to)
  have fresh: "current \<notin> set visited"
    using 1(2,3) by (auto simp: acyclic_def)
  show ?case
  proof (cases "current = to \<or> edge_at t name current = None")
    case True
    with fresh show ?thesis by (subst require_path.simps) auto
  next
    case False
    then obtain w a where e: "edge_at t name current = Some (w, a)" by auto
    then have cw: "(current, w) \<in> version_edges t name" by (auto simp: version_edges_def)
    with 1(3) have "\<forall>v \<in> set (current # visited). (v, w) \<in> (version_edges t name)\<^sup>+"
      by (auto intro: trancl_into_trancl)
    with 1(1) [OF _ fresh e] False 1(2) e fresh show ?thesis
      by (subst require_path.simps) simp
  qed
qed

text \<open>Where a path exists, adapting a value can fail only in an adapter.\<close>

lemma adapt_step_Inl: "adapt_step a v = Inl e \<Longrightarrow> e \<in> {Adapter_Failed, Not_An_Object}"
  by (auto simp: adapt_step_def split: option.splits json.splits if_splits)

lemma adapt_on_path:
  "require_path t name visited current to = None \<Longrightarrow>
   adapt t name visited current to v = Inl e \<Longrightarrow> e \<in> {Adapter_Failed, Not_An_Object}"
proof (induction t name visited current to v rule: adapt.induct)
  case (1 t name visited current to v)
  show ?case
  proof (cases "current = to")
    case True
    with 1(3) show ?thesis by (simp add: adapt.simps)
  next
    case False
    with 1(2) obtain w a where e: "edge_at t name current = Some (w, a)"
      and fresh: "current \<notin> set visited" and path: "require_path t name (current # visited) w to = None"
      by (subst (asm) require_path.simps) (auto split: if_splits option.splits)
    show ?thesis
    proof (cases "adapt_step a v")
      case (Inl x)
      with False e fresh 1(3) have "x = e"
        by (simp add: adapt.simps [of t name visited])
      with adapt_step_Inl [OF Inl] show ?thesis by simp
    next
      case (Inr u)
      with False e fresh 1(3) have "adapt t name (current # visited) w to u = Inl e"
        by (simp add: adapt.simps [of t name visited])
      with 1(1) [OF False fresh e] Inr path show ?thesis by simp
    qed
  qed
qed

lemma adapt_same [simp]: "adapt t name visited v v x = Inr x"
  by (simp add: adapt.simps)

text \<open>The tables a process can build: registrations only.\<close>

inductive registered_table :: "adapter_table \<Rightarrow> bool" where
  rt_empty: "registered_table []"
| rt_register: "registered_table t \<Longrightarrow> register_adapter name f g a t = Inr t' \<Longrightarrow> registered_table t'"

lemma registered_table_acyclic: "registered_table t \<Longrightarrow> acyclic_table t"
proof (induction rule: registered_table.induct)
  case rt_empty
  have "version_edges [] m = {}" for m by (auto simp: version_edges_def edge_at_def)
  then show ?case by (simp add: acyclic_table_def acyclic_def)
next
  case (rt_register t name f g a t')
  then show ?case using register_adapter_acyclic by blast
qed

lemma first_problem_None [simp]: "first_problem f xs = None \<longleftrightarrow> (\<forall>x \<in> set xs. f x = None)"
  by (induction xs) (auto split: option.splits)

text \<open>The two answers of a reservation.\<close>

lemma reserve_created:
  assumes "reserve jsonb spec name req oid now until t = Inr (True, row, t')"
  shows "\<exists>sp. spec = Some sp \<and> (name, cr_key req) \<notin> en_ref ` set t \<and> t' = t @ [row] \<and>
    en_identity row = jsonb (cr_identity req) \<and> en_digest row = cr_digest req \<and>
    en_request_version row = ks_request_version sp \<and> en_operation_id row = oid \<and>
    en_state row = EnPending \<and> en_ref row = (name, cr_key req)"
  using assms
  by (auto simp: reserve_def read_envelope_def new_envelope_def Let_def en_ref_def
      split: option.splits if_splits sum.splits)

lemma reserve_existing:
  assumes "reserve jsonb spec name req oid now until t = Inr (False, row, t')"
  shows "t' = t \<and> lookup_by en_ref (name, cr_key req) t = Some row"
  using assms
  by (auto simp: reserve_def read_envelope_def Let_def split: option.splits if_splits sum.splits)

end
