(* ===== verification/Keyed_Guarantees.thy ===== *)
theory Keyed_Guarantees
  imports Keyed_Requests
begin

text \<open>
  What a retained key promises: the same request gets the same answer, another request under the
  same key is refused, and the startup check leaves nothing to fail at a replay but the adapters
  themselves.
\<close>

section \<open>The identity of a request\<close>

lemma utext_of_scalar: "list_all scalar (utext_of s)"
proof -
  have "scalar (of_char c)" for c
    by (rule scalar_ascii) (rule less_trans [OF nat_of_char_less_256], simp)
  then show ?thesis by (simp add: utext_of_def list_all_iff)
qed

definition request_document :: "string \<Rightarrow> json \<Rightarrow> json" where
  "request_document name p =
     JObject [(utext_of ''operation_name'', JString (utext_of name)), (utext_of ''input'', p)]"

lemma canonical_request_InrD:
  assumes "canonical_request sha256 spec name key projected = Inr req"
  shows "\<exists>p. projected = Some p \<and> cr_identity req = request_document name p \<and>
    canonical_bytes (request_document name p) = Some (cr_encoded req) \<and>
    cr_digest req = sha256 (cr_encoded req) \<and> key = Some (cr_key req)"
  using assms
  by (auto simp: canonical_request_def validate_idempotency_key_def request_document_def Let_def
      split: option.splits sum.splits if_splits)

lemma request_document_ok: "json_ok (request_document name p) = json_ok p"
  using utext_of_scalar by (simp add: request_document_def) (simp add: utext_of_def)

lemma request_document_same:
  "same_document (request_document name p) (request_document name q) = same_document p q"
  by (simp add: same_document_def request_document_def utext_of_def)

lemma encoded_same:
  assumes "canonical_request sha256 spec name key (Some p) = Inr req"
    and "canonical_request sha256 spec name key' (Some q) = Inr req'" "json_ok p" "json_ok q"
  shows "cr_encoded req' = cr_encoded req \<longleftrightarrow> same_document p q"
proof -
  from canonical_request_InrD [OF assms(1)] have p: "canonical_bytes (request_document name p) = Some (cr_encoded req)"
    by simp
  from canonical_request_InrD [OF assms(2)] have q: "canonical_bytes (request_document name q) = Some (cr_encoded req')"
    by simp
  have "canonical_bytes (request_document name q) = Some (cr_encoded req) \<longleftrightarrow> same_document p q"
    using canonical_bytes_same [OF _ _ p] assms(3,4)
    by (simp add: request_document_ok request_document_same)
  with q show ?thesis by auto
qed

section \<open>What never changes in an envelope\<close>

definition same_request :: "envelope \<Rightarrow> envelope \<Rightarrow> bool" where
  "same_request r r' \<longleftrightarrow>
     en_ref r' = en_ref r \<and> en_identity r' = en_identity r \<and> en_digest r' = en_digest r \<and>
     en_request_version r' = en_request_version r \<and> en_operation_id r' = en_operation_id r"

lemma same_request_ends [simp]:
  "same_request r (en_succeeded_values b v now r)" "same_request r (en_error_values s c d now r)"
  "same_request r r"
  by (simp_all add: same_request_def en_succeeded_values_def en_error_values_def en_ref_def)

text \<open>
  C36. A retained key means one request. Whatever state its envelope has reached, a repeat under the
  key reserves nothing: the reservation finds the envelope (or reports one it cannot read) and leaves
  the table as it is. A repeat of the request that reserved the key is answered from the envelope
  (still pending, the stored success, or the stored error under its public state), with the operation
  it was reserved for; any other validated input under the key is refused as a reuse of the key.

  This holds when storing the identity as \<^verbatim>\<open>jsonb\<close> keeps its canonical bytes (without that the same
  request is refused, see \<open>respelled_identity_not_replayable\<close>), and while the declaration's request
  and result versions are those of the envelope, so that no adapter runs.
\<close>

theorem keyed_repeat_answers:
  assumes first: "canonical_request sha256 (Some sp) name key (Some p) = Inr req" "json_ok p"
    and reserved: "reserve jsonb (Some sp) name req oid now until t = Inr (True, row, t')"
    and stored: "canonical_bytes (jsonb (cr_identity req)) = canonical_bytes (cr_identity req)"
    and later: "same_request row row'" "envelope_check row'"
    and "result": "en_result_version row' \<in> {None, Some (ks_result_version sp)}"
    and repeated: "canonical_request sha256 (Some sp) name key (Some q) = Inr req'" "json_ok q"
  shows "(\<forall>oid' now' until' u. lookup_by en_ref (en_ref row) u = Some row' \<longrightarrow>
      reserve jsonb (Some sp) name req' oid' now' until' u =
        (case read_envelope row' of Inl e \<Rightarrow> Inl e | Inr r \<Rightarrow> Inr (False, row', u))) \<and>
    replay sha256 adapters (Some sp) name validate row' req' =
    (if \<not> same_document p q
     then Inr \<lparr>rr_state = ''refused'', rr_result = None, rr_error_code = Some key_reused,
               rr_error_detail = Some ''the idempotency key is already bound to a different request'',
               rr_operation_id = oid\<rparr>
     else case en_state row' of
       EnPending \<Rightarrow> Inr \<lparr>rr_state = ''pending'', rr_result = None, rr_error_code = None,
                        rr_error_detail = None, rr_operation_id = oid\<rparr>
     | EnSucceeded \<Rightarrow>
         (case validate (the (en_result row')) of
            None \<Rightarrow> Inl Result_Invalid
          | Some m \<Rightarrow> Inr \<lparr>rr_state = ''succeeded'', rr_result = Some m, rr_error_code = None,
                           rr_error_detail = None, rr_operation_id = oid\<rparr>)
     | s \<Rightarrow> (let code = the (en_error_code row')
            in Inr \<lparr>rr_state = (if s = EnRefused then code else envelope_state_text s),
                    rr_result = None, rr_error_code = Some code,
                    rr_error_detail = Some (case en_error_detail row' of None \<Rightarrow> code
                                      | Some d \<Rightarrow> if d = [] then code else d),
                    rr_operation_id = oid\<rparr>))"
proof -
  from canonical_request_InrD [OF first(1)] have enc: "canonical_bytes (cr_identity req) = Some (cr_encoded req)"
    and dig: "cr_digest req = sha256 (cr_encoded req)" by auto
  from reserve_created [OF reserved] later(1)
  have row: "en_identity row' = jsonb (cr_identity req)" "en_digest row' = cr_digest req"
    "en_request_version row' = ks_request_version sp" "en_operation_id row' = oid"
    by (auto simp: same_request_def)
  have st: "stored_request sha256 adapters sp name row' = Inr (cr_encoded req)"
    using row enc dig stored by (simp add: stored_request_def)
  have same: "cr_encoded req = cr_encoded req' \<longleftrightarrow> same_document p q"
    using encoded_same [OF first(1) repeated(1) first(2) repeated(2)] by auto
  have "cr_key req' = cr_key req"
    using canonical_request_InrD [OF first(1)] canonical_request_InrD [OF repeated(1)] by auto
  then have ref: "en_ref row = (name, cr_key req')" using reserve_created [OF reserved] by auto
  have "read_envelope row' = Inr r \<Longrightarrow> r = row'" for r
    by (auto simp: read_envelope_def split: if_splits)
  then have found: "\<forall>oid' now' until' u. lookup_by en_ref (en_ref row) u = Some row' \<longrightarrow>
      reserve jsonb (Some sp) name req' oid' now' until' u =
        (case read_envelope row' of Inl e \<Rightarrow> Inl e | Inr r \<Rightarrow> Inr (False, row', u))"
    by (auto simp: reserve_def ref split: sum.split)
  show ?thesis
    using later(2) "result"
    by (intro conjI found, cases "en_state row'")
       (auto simp: replay_def st same row envelope_check_def split: option.splits)
qed

definition sample_keyed :: keyed_spec where
  "sample_keyed = \<lparr>ks_key_field = ''key'', ks_request_version = 1, ks_result_version = 1\<rparr>"

lemma keyed_repeat_answers_witness:
  "replay (\<lambda>b. b) \<lparr>kc_request = [], kc_result = []\<rparr> (Some sample_keyed) ''m.o.x''
     (\<lambda>v. Some v)
     (new_envelope ''m.o.x'' sample_keyed (projr (canonical_request (\<lambda>b. b) (Some sample_keyed)
        ''m.o.x'' (Some [65]) (Some (JInt 1)))) (Some 6) 5 9)
     (projr (canonical_request (\<lambda>b. b) (Some sample_keyed) ''m.o.x'' (Some [65]) (Some (JInt 2)))) =
   Inr \<lparr>rr_state = ''refused'', rr_result = None, rr_error_code = Some key_reused,
        rr_error_detail = Some ''the idempotency key is already bound to a different request'',
        rr_operation_id = Some 6\<rparr>"
proof -
  have ok: "\<exists>req. canonical_request (\<lambda>b. b) (Some sample_keyed) ''m.o.x'' (Some [65]) (Some (JInt i)) = Inr req"
    for i
  proof -
    have "\<exists>b. canonical_bytes (request_document ''m.o.x'' (JInt i)) = Some b"
      by (rule canonical_bytes_Some) (simp_all add: request_document_ok, simp add: request_document_def)
    then show ?thesis
      by (auto simp: canonical_request_def validate_idempotency_key_def unicode_space_def utf8_def
          scalar_def utf8_char_def max_key_bytes_def Let_def request_document_def)
  qed
  obtain r1 r2 where r1: "canonical_request (\<lambda>b. b) (Some sample_keyed) ''m.o.x'' (Some [65]) (Some (JInt 1)) = Inr r1"
    and r2: "canonical_request (\<lambda>b. b) (Some sample_keyed) ''m.o.x'' (Some [65]) (Some (JInt 2)) = Inr r2"
    using ok by blast
  let ?row = "new_envelope ''m.o.x'' sample_keyed r1 (Some 6) 5 9"
  from canonical_request_InrD [OF r1] have id1: "cr_identity r1 = request_document ''m.o.x'' (JInt 1)" by auto
  have "reserve (\<lambda>v. v) (Some sample_keyed) ''m.o.x'' r1 (Some 6) 5 9 [] = Inr (True, ?row, [?row])"
    by (cases r1) (use id1 in \<open>simp add: reserve_def read_envelope_def new_envelope_def is_object_def
          request_document_def Let_def\<close>)
  from keyed_repeat_answers [OF r1 _ this _ _ _ _ r2, of ?row "\<lparr>kc_request = [], kc_result = []\<rparr>" "\<lambda>v. Some v"]
  have "replay (\<lambda>b. b) \<lparr>kc_request = [], kc_result = []\<rparr> (Some sample_keyed) ''m.o.x'' (\<lambda>v. Some v) ?row r2 =
    Inr \<lparr>rr_state = ''refused'', rr_result = None, rr_error_code = Some key_reused,
        rr_error_detail = Some ''the idempotency key is already bound to a different request'',
        rr_operation_id = Some 6\<rparr>"
    by (simp add: same_document_def new_envelope_def envelope_check_def)
  then show ?thesis by (simp only: r1 r2 sum.sel)
qed

section \<open>The startup check\<close>

lemma retained_row_pathD:
  assumes "retained_row_problem lookup adapters (name, v, rv) = None" "lookup name = Some (Some sp)"
  shows "require_path (kc_request adapters) name [] v (ks_request_version sp) = None"
    and "rv = Some w \<Longrightarrow> require_path (kc_result adapters) name [] w (ks_result_version sp) = None"
  using assms by (auto simp: retained_row_problem_def split: option.splits)

lemma adapted_canonical:
  "adapt t name visited v w x = Inr y \<Longrightarrow> canonical_bytes x \<noteq> None \<Longrightarrow> canonical_bytes y \<noteq> None"
proof (induction t name visited v w x rule: adapt.induct)
  case (1 t name visited v w x)
  show ?case
  proof (cases "v = w")
    case True
    with 1 show ?thesis by (simp add: adapt.simps)
  next
    case False
    with 1(2) obtain u a z where e: "edge_at t name v = Some (u, a)" and f: "v \<notin> set visited"
      and z: "adapt_step a x = Inr z" "adapt t name (v # visited) u w z = Inr y"
      by (subst (asm) adapt.simps) (auto split: if_splits option.splits sum.splits)
    from z(1) have "canonical_bytes z \<noteq> None"
      by (auto simp: adapt_step_def split: option.splits json.splits if_splits)
    with 1(1) [OF False f e] z show ?thesis by simp
  qed
qed

text \<open>
  C37. A process whose startup check passed can read every envelope its workspaces retain: replaying
  one whose stored identity is intact fails only when an adapter itself fails, or when the stored
  result no longer validates. No missing path, no circle of versions, no dropped declaration is
  first met by a caller.
\<close>

theorem startup_check_covers_replays:
  assumes "check_keyed_replay_compatibility lookup adapters now workspaces = None"
    and "t \<in> set workspaces" "row \<in> set t" "now \<le> en_retained_until row"
    and "lookup (en_operation row) = Some spec"
    and "canonical_bytes (en_identity row) = Some b" "sha256 b = en_digest row"
    and "envelope_check row"
    and "replay sha256 adapters spec (en_operation row) validate row req = Inl e"
  shows "e \<in> {Adapter_Failed, Not_An_Object, Result_Invalid}"
proof -
  let ?name = "en_operation row"
  have "retained_row_problem lookup adapters (?name, en_request_version row, en_result_version row) = None"
    using assms(1-4)
    by (fastforce simp: check_keyed_replay_compatibility_def split: option.splits)
  moreover from this assms(5) obtain sp where sp: "spec = Some sp"
    by (cases spec) (auto simp: retained_row_problem_def)
  ultimately have req_path: "require_path (kc_request adapters) ?name [] (en_request_version row) (ks_request_version sp) = None"
    and res_path: "\<And>w. en_result_version row = Some w \<Longrightarrow>
      require_path (kc_result adapters) ?name [] w (ks_result_version sp) = None"
    using retained_row_pathD assms(5) by blast+
  show ?thesis
  proof (cases "stored_request sha256 adapters sp ?name row")
    case (Inl x)
    with sp assms(9) have "x = e" by (simp add: replay_def)
    with Inl assms(6,7) have "adapt (kc_request adapters) ?name [] (en_request_version row)
        (ks_request_version sp) (en_identity row) = Inl e"
      using adapted_canonical by (fastforce simp: stored_request_def split: sum.splits option.splits)
    with adapt_on_path [OF req_path] show ?thesis by auto
  next
    case (Inr stored)
    show ?thesis
    proof (cases "en_state row = EnSucceeded \<and> stored = cr_encoded req")
      case True
      with assms(8) obtain body w where bw: "en_result row = Some body" "en_result_version row = Some w"
        by (auto simp: envelope_check_def)
      with Inr sp assms(9) True have "e = Result_Invalid \<or>
          adapt (kc_result adapters) ?name [] w (ks_result_version sp) body = Inl e"
        by (auto simp: replay_def split: sum.splits option.splits)
      with adapt_on_path [OF res_path [OF bw(2)]] show ?thesis by blast
    next
      case False
      with Inr sp assms(8,9) show ?thesis
        by (cases "en_state row") (auto simp: replay_def envelope_check_def split: if_splits option.splits)
    qed
  qed
qed

text \<open>An envelope of version 1 at a declaration of version 2, with an adapter whose answer is no
  object.\<close>

definition sample_adapters :: compatibility where
  "sample_adapters =
     \<lparr>kc_request = [((''m.o.x'', 1), (2, \<lparr>ad_id = 0, ad_run = (\<lambda>v. Some JNull)\<rparr>))],
      kc_result = []\<rparr>"

definition sample_envelope :: envelope where
  "sample_envelope =
     \<lparr>en_operation = ''m.o.x'', en_key = [65], en_identity = JObject [], en_digest = [123, 125],
      en_request_version = 1, en_state = EnPending, en_operation_id = Some 6, en_result = None,
      en_result_version = None, en_error_code = None, en_error_detail = None, en_created_at = 0,
      en_updated_at = 0, en_retained_until = 9\<rparr>"

lemma startup_check_covers_replays_witness:
  "\<exists>e. replay (\<lambda>b. b) sample_adapters (Some (sample_keyed\<lparr>ks_request_version := 2\<rparr>)) ''m.o.x''
      (\<lambda>v. Some v) sample_envelope \<lparr>cr_identity = JNull, cr_encoded = [], cr_digest = [], cr_key = [65]\<rparr> =
      Inl e \<and> e \<in> {Adapter_Failed, Not_An_Object, Result_Invalid}"
proof -
  let ?lookup = "\<lambda>n. if n = ''m.o.x'' then Some (Some (sample_keyed\<lparr>ks_request_version := 2\<rparr>)) else None"
  let ?req = "\<lparr>cr_identity = JNull, cr_encoded = [], cr_digest = [], cr_key = [65]\<rparr>"
  have path: "require_path (kc_request sample_adapters) ''m.o.x'' [] 1 2 = None"
    by (simp add: require_path.simps sample_adapters_def edge_at_def)
  have "validate_graphs ?lookup sample_adapters = None"
    using path
    by (simp add: validate_graphs_def validate_table_def sample_adapters_def edge_at_def)
  moreover have "retained_row_problem ?lookup sample_adapters (''m.o.x'', 1, None) = None"
    using path by (simp add: retained_row_problem_def)
  ultimately have checked: "check_keyed_replay_compatibility ?lookup sample_adapters 5 [[sample_envelope]] = None"
    by (simp add: check_keyed_replay_compatibility_def sample_envelope_def)
  have bytes: "canonical_bytes (en_identity sample_envelope) = Some [123, 125]"
    by (simp add: sample_envelope_def canonical_bytes_def utf8_def scalar_def utf8_char_def)
  have failed: "replay (\<lambda>b. b) sample_adapters (Some (sample_keyed\<lparr>ks_request_version := 2\<rparr>))
      (en_operation sample_envelope) (\<lambda>v. Some v) sample_envelope ?req = Inl Not_An_Object"
    using bytes
    by (simp add: replay_def stored_request_def sample_envelope_def sample_keyed_def adapt.simps
        sample_adapters_def edge_at_def adapt_step_def)
  have "Not_An_Object \<in> {Adapter_Failed, Not_An_Object, Result_Invalid}"
    by (rule startup_check_covers_replays
        [OF checked, of "[sample_envelope]", OF _ _ _ _ bytes _ _ failed])
       (simp_all add: sample_envelope_def envelope_check_def)
  with failed show ?thesis by (auto simp: sample_envelope_def)
qed

section \<open>Storage that respells a number\<close>

text \<open>A document whose stored form has other canonical bytes cannot be replayed at all: the very
  same request is answered with an incompatibility. PostgreSQL reads the float \<^verbatim>\<open>1e+16\<close>
  back as an integer.\<close>

lemma respelled_identity_not_replayable:
  assumes "reserve jsonb (Some sp) name req oid now until t = Inr (True, row, t')"
    and "canonical_bytes (jsonb (cr_identity req)) = Some b" "sha256 b \<noteq> cr_digest req"
  shows "replay sha256 adapters (Some sp) name validate row req = Inl Identity_Mismatch"
  using reserve_created [OF assms(1)] assms(2,3)
  by (simp add: replay_def stored_request_def)

end
