(* ===== verification/Approval_Records.thy ===== *)
theory Approval_Records
  imports Operation_Records Canonical_Json
begin

text \<open>
  \<^verbatim>\<open>rheo_core/approvals/records.py\<close> over \<^verbatim>\<open>core.approval\<close> and
  \<^verbatim>\<open>core.approval_payload\<close> of \<^verbatim>\<open>approvals/tables.py\<close>, and the binding comparison of
  \<^verbatim>\<open>approvals/binding.py\<close>.

  \<open>approval_write\<close> is the relation of the writes of the module: a \<open>lifecycle\<close> (an approval that
  was executed or refused keeps its row), and each write a \<open>predicated_write\<close>.
\<close>

section \<open>The tables\<close>

datatype approval_state =
    ApPending | ApApproved | ApExecuted | ApExpired | ApInvalidated | ApRefused
  | ApRequires_Reapproval

record approval =
  ap_id :: uuid
  ap_actor_kind :: string
  ap_actor_id :: "uuid option"
  ap_operation_name :: string
  ap_operation_id :: uuid
  ap_destination_ref :: "string option"
  ap_subject_ref :: "string option"
  ap_subject_revision :: "int option"
  ap_payload_digest :: "nat list"
  ap_payload_ref :: "uuid option"
  ap_purpose :: "string option"
  ap_window_start :: instant
  ap_window_end :: instant
  ap_state :: approval_state
  ap_approved_by_kind :: "string option"
  ap_approved_by_id :: "uuid option"
  ap_approved_at :: "instant option"
  ap_approved_entry :: "string option"
  ap_executed_at :: "instant option"
  ap_invalidated_reason :: "string option"

record approval_payload =
  py_approval_id :: uuid
  py_body :: json
  py_byte_length :: nat

type_synonym approvals = "approval list"
type_synonym approval_payloads = "approval_payload list"

section \<open>The mint\<close>

text \<open>\<open>fresh\<close> is the value of \<^verbatim>\<open>uuid7()\<close>. The payload row's primary key is the approval's id.\<close>

definition new_approval ::
  "uuid \<Rightarrow> string \<Rightarrow> uuid option \<Rightarrow> string \<Rightarrow> uuid \<Rightarrow> string option \<Rightarrow> string option \<Rightarrow>
   int option \<Rightarrow> nat list \<Rightarrow> string option \<Rightarrow> instant \<Rightarrow> instant \<Rightarrow> approval" where
  "new_approval fresh actor_kind actor_id operation_name operation_id destination_ref
     subject_ref subject_revision payload_digest purpose window_start window_end =
     \<lparr>ap_id = fresh, ap_actor_kind = actor_kind, ap_actor_id = actor_id,
      ap_operation_name = operation_name, ap_operation_id = operation_id,
      ap_destination_ref = destination_ref, ap_subject_ref = subject_ref,
      ap_subject_revision = subject_revision, ap_payload_digest = payload_digest,
      ap_payload_ref = Some fresh, ap_purpose = purpose, ap_window_start = window_start,
      ap_window_end = window_end, ap_state = ApPending, ap_approved_by_kind = None,
      ap_approved_by_id = None, ap_approved_at = None, ap_approved_entry = None,
      ap_executed_at = None, ap_invalidated_reason = None\<rparr>"

definition create_approval ::
  "approval \<Rightarrow> json \<Rightarrow> nat \<Rightarrow> approvals \<times> approval_payloads \<Rightarrow>
   db_error + uuid \<times> approvals \<times> approval_payloads" where
  "create_approval r body byte_length t =
   (case insert_row ap_id r (fst t) of
      Inl e \<Rightarrow> Inl e
    | Inr approvals \<Rightarrow>
        (case insert_row py_approval_id
             \<lparr>py_approval_id = ap_id r, py_body = body, py_byte_length = byte_length\<rparr> (snd t) of
           Inl e \<Rightarrow> Inl e
         | Inr payloads \<Rightarrow> Inr (ap_id r, approvals, payloads)))"

lemma new_approval_simps [simp]:
  "ap_id (new_approval i ak ai n oi d s sr dg p ws we) = i"
  "ap_state (new_approval i ak ai n oi d s sr dg p ws we) = ApPending"
  "ap_operation_id (new_approval i ak ai n oi d s sr dg p ws we) = oi"
  "ap_operation_name (new_approval i ak ai n oi d s sr dg p ws we) = n"
  "ap_payload_digest (new_approval i ak ai n oi d s sr dg p ws we) = dg"
  "ap_destination_ref (new_approval i ak ai n oi d s sr dg p ws we) = d"
  "ap_approved_at (new_approval i ak ai n oi d s sr dg p ws we) = None"
  "ap_executed_at (new_approval i ak ai n oi d s sr dg p ws we) = None"
  by (simp_all add: new_approval_def)

section \<open>The transitions\<close>

definition ap_in_state :: "uuid \<Rightarrow> approval_state \<Rightarrow> approval \<Rightarrow> bool" where
  "ap_in_state i s r \<longleftrightarrow> ap_id r = i \<and> ap_state r = s"

definition approved_values ::
  "string \<Rightarrow> uuid option \<Rightarrow> string \<Rightarrow> instant \<Rightarrow> instant option \<Rightarrow> approval \<Rightarrow> approval" where
  "approved_values by_kind by_id by_entry now reopened_until r =
     (let r1 = r\<lparr>ap_state := ApApproved, ap_approved_by_kind := Some by_kind,
                 ap_approved_by_id := by_id, ap_approved_entry := Some by_entry,
                 ap_approved_at := Some now\<rparr>
      in case reopened_until of
           None \<Rightarrow> r1
         | Some u \<Rightarrow> r1\<lparr>ap_window_start := now, ap_window_end := u\<rparr>)"

definition mark_approved ::
  "uuid \<Rightarrow> string \<Rightarrow> uuid option \<Rightarrow> string \<Rightarrow> instant \<Rightarrow> instant option \<Rightarrow> approvals \<Rightarrow>
   bool \<times> approvals" where
  "mark_approved i by_kind by_id by_entry now reopened_until =
     apply_where
       (ap_in_state i (case reopened_until of None \<Rightarrow> ApPending
                       | Some _ \<Rightarrow> ApRequires_Reapproval))
       (approved_values by_kind by_id by_entry now reopened_until)"

definition ap_decidable_row :: "uuid \<Rightarrow> approval \<Rightarrow> bool" where
  "ap_decidable_row i r \<longleftrightarrow>
     ap_id r = i \<and> (ap_state r = ApPending \<or> ap_state r = ApRequires_Reapproval)"

definition mark_refused :: "uuid \<Rightarrow> approvals \<Rightarrow> bool \<times> approvals" where
  "mark_refused i = apply_where (ap_decidable_row i) (\<lambda>r. r\<lparr>ap_state := ApRefused\<rparr>)"

definition mark_guard_refused :: "uuid \<Rightarrow> approvals \<Rightarrow> bool \<times> approvals" where
  "mark_guard_refused i =
     apply_where (ap_in_state i ApApproved) (\<lambda>r. r\<lparr>ap_state := ApRefused\<rparr>)"

definition mark_executed :: "uuid \<Rightarrow> instant \<Rightarrow> approvals \<Rightarrow> bool \<times> approvals" where
  "mark_executed i now =
     apply_where (ap_in_state i ApApproved)
       (\<lambda>r. r\<lparr>ap_state := ApExecuted, ap_executed_at := Some now\<rparr>)"

lemmas approval_writes =
  mark_approved_def mark_refused_def mark_guard_refused_def mark_executed_def

declare approval_writes [writes]

section \<open>The reads\<close>

text \<open>\<^verbatim>\<open>one_or_none\<close>: \<open>Inl\<close> is its exception for more than one row.\<close>

datatype read_error = Multiple_Results

definition get_approval :: "uuid \<Rightarrow> approvals \<Rightarrow> approval option" where
  "get_approval i t = lookup_by ap_id i t"

definition get_approval_for_operation :: "uuid \<Rightarrow> approvals \<Rightarrow> read_error + approval option" where
  "get_approval_for_operation i t =
     (case filter (\<lambda>r. ap_operation_id r = i) t of
        [] \<Rightarrow> Inr None
      | [r] \<Rightarrow> Inr (Some r)
      | _ \<Rightarrow> Inl Multiple_Results)"

text \<open>\<^verbatim>\<open>dict(body) if isinstance(body, Mapping) else {}\<close>.\<close>

definition payload_body :: "uuid \<Rightarrow> approval_payloads \<Rightarrow> json option" where
  "payload_body i t =
     map_option (\<lambda>r. case py_body r of JObject kvs \<Rightarrow> JObject kvs | _ \<Rightarrow> JObject [])
       (lookup_by py_approval_id i t)"

section \<open>The binding comparison\<close>

datatype binding_problem = Payload_Differs | Window_Passed

definition binding_detail ::
  "nat list \<Rightarrow> nat list \<Rightarrow> instant \<Rightarrow> instant \<Rightarrow> instant \<Rightarrow> binding_problem option" where
  "binding_detail approved_digest digest window_start window_end now =
     (if digest \<noteq> approved_digest then Some Payload_Differs
      else if now < window_start \<or> now > window_end then Some Window_Passed
      else None)"

lemma binding_detail_None [simp]:
  "binding_detail a d ws we now = None \<longleftrightarrow> d = a \<and> ws \<le> now \<and> now \<le> we"
  by (auto simp: binding_detail_def)

section \<open>All writes as one relation\<close>

inductive approval_write ::
  "approvals \<times> approval_payloads \<Rightarrow> approvals \<times> approval_payloads \<Rightarrow> bool" where
  aw_create: "create_approval (new_approval fresh ak ai n oi d s sr dg p ws we) b bl t = Inr (i, t') \<Longrightarrow>
    approval_write t t'"
| aw_approved: "approval_write (t, ps) (snd (mark_approved i k b e now u t), ps)"
| aw_refused: "approval_write (t, ps) (snd (mark_refused i t), ps)"
| aw_guard_refused: "approval_write (t, ps) (snd (mark_guard_refused i t), ps)"
| aw_executed: "approval_write (t, ps) (snd (mark_executed i now t), ps)"

lemma create_approval_InrD:
  assumes "create_approval r b bl t = Inr (i, t')"
  shows "i = ap_id r" "fst t' = fst t @ [r]" "ap_id r \<notin> ap_id ` set (fst t)"
    "snd t' = snd t @ [\<lparr>py_approval_id = ap_id r, py_body = b, py_byte_length = bl\<rparr>]"
    "ap_id r \<notin> py_approval_id ` set (snd t)"
  using assms by (auto simp: create_approval_def dest!: insert_row_InrD split: sum.splits)

lemma approved_values_simps [simp]:
  "ap_id (approved_values k b e now u r) = ap_id r"
  "ap_state (approved_values k b e now u r) = ApApproved"
  "ap_operation_id (approved_values k b e now u r) = ap_operation_id r"
  "ap_operation_name (approved_values k b e now u r) = ap_operation_name r"
  "ap_payload_digest (approved_values k b e now u r) = ap_payload_digest r"
  "ap_destination_ref (approved_values k b e now u r) = ap_destination_ref r"
  "ap_actor_kind (approved_values k b e now u r) = ap_actor_kind r"
  "ap_actor_id (approved_values k b e now u r) = ap_actor_id r"
  "ap_purpose (approved_values k b e now u r) = ap_purpose r"
  "ap_subject_revision (approved_values k b e now u r) = ap_subject_revision r"
  "ap_approved_by_kind (approved_values k b e now u r) = Some k"
  "ap_approved_by_id (approved_values k b e now u r) = b"
  "ap_approved_at (approved_values k b e now u r) = Some now"
  "ap_executed_at (approved_values k b e now u r) = ap_executed_at r"
  by (simp_all add: approved_values_def Let_def split: option.splits)

text \<open>The edges of the state machine. Nothing leaves \<^verbatim>\<open>executed\<close>, \<^verbatim>\<open>refused\<close>,
  \<^verbatim>\<open>expired\<close> or \<^verbatim>\<open>invalidated\<close>.\<close>

fun ap_edge :: "approval_state \<Rightarrow> approval_state \<Rightarrow> bool" where
  "ap_edge ApPending s \<longleftrightarrow> s = ApApproved \<or> s = ApRefused"
| "ap_edge ApRequires_Reapproval s \<longleftrightarrow> s = ApApproved \<or> s = ApRefused"
| "ap_edge ApApproved s \<longleftrightarrow> s = ApExecuted \<or> s = ApRefused"
| "ap_edge _ s \<longleftrightarrow> False"

text \<open>What binds an approval and never changes; a reopened window is set by the write that
  approves.\<close>

definition same_binding :: "approval \<Rightarrow> approval \<Rightarrow> bool" where
  "same_binding r r' \<longleftrightarrow>
     ap_id r' = ap_id r \<and> ap_operation_id r' = ap_operation_id r \<and>
     ap_operation_name r' = ap_operation_name r \<and> ap_payload_digest r' = ap_payload_digest r \<and>
     ap_destination_ref r' = ap_destination_ref r \<and> ap_actor_kind r' = ap_actor_kind r \<and>
     ap_actor_id r' = ap_actor_id r \<and> ap_purpose r' = ap_purpose r \<and>
     ap_subject_revision r' = ap_subject_revision r"

lemma same_binding_refl [simp]: "same_binding r r"
  by (simp add: same_binding_def)

lemma same_binding_changes [simp]:
  "same_binding r (approved_values k b e now u r)"
  "same_binding r (r\<lparr>ap_state := s\<rparr>)"
  "same_binding r (r\<lparr>ap_state := s, ap_executed_at := x\<rparr>)"
  by (simp_all add: same_binding_def)

lemma same_binding_trans: "same_binding r q \<Longrightarrow> same_binding q p \<Longrightarrow> same_binding r p"
  by (simp add: same_binding_def)

lemma approval_write_row:
  assumes "approval_write t t'" "lookup_by ap_id i (fst t) = Some r"
  shows "\<exists>r'. lookup_by ap_id i (fst t') = Some r' \<and> same_binding r r' \<and>
    (r' = r \<or> ap_edge (ap_state r) (ap_state r') \<and>
      (ap_state r' = ApExecuted \<longrightarrow> ap_executed_at r' \<noteq> None) \<and>
      (ap_state r' = ApApproved \<longrightarrow> ap_approved_at r' \<noteq> None))"
  using assms
proof (cases rule: approval_write.cases)
  case (aw_create fresh ak ai n oi d s sr dg p ws we b bl j)
  then show ?thesis
    using assms(2) create_approval_InrD(2) [OF aw_create] by (simp add: lookup_by_append)
next
  case (aw_approved t0 ps j k b e now u)
  with assms(2) show ?thesis
    by (cases u) (auto simp: mark_approved_def lookup_by_update_where ap_in_state_def)
next
  case (aw_refused t0 ps j)
  with assms(2) show ?thesis
    by (auto simp: mark_refused_def lookup_by_update_where ap_decidable_row_def)
next
  case (aw_guard_refused t0 ps j)
  with assms(2) show ?thesis
    by (auto simp: mark_guard_refused_def lookup_by_update_where ap_in_state_def)
next
  case (aw_executed t0 ps j now)
  with assms(2) show ?thesis
    by (auto simp: mark_executed_def lookup_by_update_where ap_in_state_def)
qed

lemma approval_write_unique [inv_intros]:
  "approval_write t t' \<Longrightarrow> unique_by ap_id (fst t) \<Longrightarrow> unique_by ap_id (fst t')"
proof (induction rule: approval_write.induct)
  case (aw_create fresh ak ai n oi d s sr dg p ws we b bl t i t')
  then show ?case
    using create_approval_InrD(2,3) [OF aw_create(1)] by (simp add: unique_by_def)
qed (simp_all add: approval_writes unique_update_where)

definition ap_terminal :: "approval \<Rightarrow> bool" where
  "ap_terminal r \<longleftrightarrow> ap_state r \<in> {ApExecuted, ApRefused, ApExpired, ApInvalidated}"

interpretation appr: lifecycle "\<lambda>t i. lookup_by ap_id i (fst t)" approval_write ap_terminal
proof
  fix t t' i r
  assume "approval_write t t'" "lookup_by ap_id i (fst t) = Some r" "ap_terminal r"
  with approval_write_row [of t t' i r] show "lookup_by ap_id i (fst t') = Some r"
    by (auto simp: ap_terminal_def)
qed

interpretation ap_execute: predicated_write ap_id "ap_in_state i ApApproved"
  "\<lambda>r. r\<lparr>ap_state := ApExecuted, ap_executed_at := Some now\<rparr>" i for i now
  by unfold_locales (auto simp: ap_in_state_def)

interpretation ap_approve: predicated_write ap_id
  "ap_in_state i (case u of None \<Rightarrow> ApPending | Some _ \<Rightarrow> ApRequires_Reapproval)"
  "approved_values k b e now u" i for i k b e now u
  by unfold_locales (auto simp: ap_in_state_def)

interpretation ap_refuse: predicated_write ap_id "ap_decidable_row i"
  "\<lambda>r. r\<lparr>ap_state := ApRefused\<rparr>" i for i
  by unfold_locales (auto simp: ap_decidable_row_def)

interpretation ap_guard_refuse: predicated_write ap_id "ap_in_state i ApApproved"
  "\<lambda>r. r\<lparr>ap_state := ApRefused\<rparr>" i for i
  by unfold_locales (auto simp: ap_in_state_def)

end
