(* ===== verification/External_Actions.thy ===== *)
theory External_Actions
  imports Canonical_Json
begin

text \<open>
  \<^verbatim>\<open>rheo_core/operations/external_actions.py\<close> over \<^verbatim>\<open>core.external_action\<close>: the staged
  action, its binding to one continuation job, its predicated update and the reads.
\<close>

section \<open>The table\<close>

datatype action_state =
  XPending | XExecuting | XSucceeded | XFailed | XRefused | XUnresolved | XCancelled

datatype failure_class =
    Destination_Unavailable_No_Effect | Permanent_Refusal_No_Effect | Retryable_No_Effect
  | Outcome_Unknown | Cancelled_No_Effect

record external_action =
  x_id :: uuid
  x_operation_id :: uuid
  x_approval_id :: uuid
  x_operation_name :: string
  x_subject_ref :: "string option"
  x_source_ref :: "string option"
  x_destination_ref :: string
  x_payload_ref :: uuid
  x_payload_digest :: "nat list"
  x_key :: utext
  x_request_version :: int
  x_result_version :: int
  x_job_id :: "uuid option"
  x_state :: action_state
  x_created_at :: instant
  x_updated_at :: instant
  x_provider_request_id :: "string option"
  x_failure_class :: "failure_class option"
  x_attempts :: int
  x_result_ref :: "string option"
  x_result_detail :: "json option"
  x_error_code :: "string option"
  x_error_detail :: "string option"
  x_terminal_at :: "instant option"

type_synonym actions = "external_action list"

definition x_ref :: "external_action \<Rightarrow> string \<times> utext" where
  "x_ref r = (x_operation_name r, x_key r)"

text \<open>\<^verbatim>\<open>OPEN_STATES\<close>.\<close>

definition x_open_state :: "action_state \<Rightarrow> bool" where
  "x_open_state s \<longleftrightarrow> s = XPending \<or> s = XExecuting"

text \<open>The three checks on the state's shape.\<close>

definition action_check :: "external_action \<Rightarrow> bool" where
  "action_check r \<longleftrightarrow>
     (x_terminal_at r = None \<longleftrightarrow> x_open_state (x_state r)) \<and>
     (x_state r = XSucceeded \<longrightarrow> x_result_ref r \<noteq> None \<and> x_failure_class r = None) \<and>
     (x_state r \<in> {XFailed, XRefused, XUnresolved, XCancelled} \<longrightarrow>
        x_failure_class r \<noteq> None \<and> x_error_code r \<noteq> None)"

section \<open>The mint\<close>

definition new_action ::
  "uuid \<Rightarrow> uuid \<Rightarrow> uuid \<Rightarrow> string \<Rightarrow> string option \<Rightarrow> string option \<Rightarrow> string \<Rightarrow> nat list \<Rightarrow>
   utext \<Rightarrow> int \<Rightarrow> int \<Rightarrow> instant \<Rightarrow> external_action" where
  "new_action fresh operation_id approval_id operation_name subject_ref source_ref
     destination_ref digest key request_version result_version now =
     \<lparr>x_id = fresh, x_operation_id = operation_id, x_approval_id = approval_id,
      x_operation_name = operation_name, x_subject_ref = subject_ref, x_source_ref = source_ref,
      x_destination_ref = destination_ref, x_payload_ref = approval_id,
      x_payload_digest = digest, x_key = key, x_request_version = request_version,
      x_result_version = result_version, x_job_id = None, x_state = XPending,
      x_created_at = now, x_updated_at = now, x_provider_request_id = None,
      x_failure_class = None, x_attempts = 0, x_result_ref = None, x_result_detail = None,
      x_error_code = None, x_error_detail = None, x_terminal_at = None\<rparr>"

text \<open>The table is unique by id, by operation and by approval.\<close>

definition create_pending :: "external_action \<Rightarrow> actions \<Rightarrow> db_error + actions" where
  "create_pending r t =
     (if x_id r \<in> x_id ` set t \<or> x_operation_id r \<in> x_operation_id ` set t \<or>
         x_approval_id r \<in> x_approval_id ` set t
      then Inl Unique_Violation else Inr (t @ [r]))"

section \<open>The writes\<close>

definition attach_job :: "uuid \<Rightarrow> uuid \<Rightarrow> instant \<Rightarrow> actions \<Rightarrow> bool \<times> actions" where
  "attach_job i job now =
     apply_where (\<lambda>r. x_id r = i \<and> x_state r = XPending \<and> x_job_id r = None)
       (\<lambda>r. r\<lparr>x_job_id := Some job, x_updated_at := now\<rparr>)"

definition x_in_states :: "uuid \<Rightarrow> (action_state \<Rightarrow> bool) \<Rightarrow> external_action \<Rightarrow> bool" where
  "x_in_states i from_states r \<longleftrightarrow> x_id r = i \<and> from_states (x_state r)"

text \<open>\<open>values\<close> is what the keyword arguments set.\<close>

definition update_action ::
  "uuid \<Rightarrow> (action_state \<Rightarrow> bool) \<Rightarrow> (external_action \<Rightarrow> external_action) \<Rightarrow> actions \<Rightarrow>
   bool \<times> actions" where
  "update_action i from_states values = apply_where (x_in_states i from_states) values"

section \<open>The reads\<close>

definition get_action :: "uuid \<Rightarrow> actions \<Rightarrow> external_action option" where
  "get_action i t = lookup_by x_id i t"

definition get_for_approval :: "uuid \<Rightarrow> actions \<Rightarrow> external_action option" where
  "get_for_approval i t = lookup_by x_approval_id i t"

definition get_for_operation :: "uuid \<Rightarrow> actions \<Rightarrow> external_action option" where
  "get_for_operation i t = lookup_by x_operation_id i t"

definition get_for_key :: "string \<Rightarrow> utext \<Rightarrow> actions \<Rightarrow> external_action option" where
  "get_for_key name key t = lookup_by x_ref (name, key) t"

definition has_action_for_key :: "string \<Rightarrow> utext \<Rightarrow> actions \<Rightarrow> bool" where
  "has_action_for_key name key t \<longleftrightarrow> (\<exists>r \<in> set t. x_ref r = (name, key))"

text \<open>\<^verbatim>\<open>restage_eligible\<close> of the published record.\<close>

definition restage_eligible :: "external_action \<Rightarrow> bool" where
  "restage_eligible r \<longleftrightarrow>
     x_state r = XFailed \<or>
     x_state r = XRefused \<and> x_failure_class r = Some Destination_Unavailable_No_Effect"

record external_action_record =
  er_external_action_id :: uuid
  er_operation_id :: uuid
  er_approval_id :: uuid
  er_operation_name :: string
  er_subject_ref :: "string option"
  er_source_ref :: "string option"
  er_destination_ref :: string
  er_state :: action_state
  er_failure_class :: "failure_class option"
  er_attempts :: int
  er_result_ref :: "string option"
  er_error_code :: "string option"
  er_error_detail :: "string option"
  er_execution_job_id :: "uuid option"
  er_restage_eligible :: bool
  er_created_at :: instant
  er_updated_at :: instant
  er_terminal_at :: "instant option"

definition published_action :: "external_action \<Rightarrow> external_action_record" where
  "published_action r =
     \<lparr>er_external_action_id = x_id r, er_operation_id = x_operation_id r,
      er_approval_id = x_approval_id r, er_operation_name = x_operation_name r,
      er_subject_ref = x_subject_ref r, er_source_ref = x_source_ref r,
      er_destination_ref = x_destination_ref r, er_state = x_state r,
      er_failure_class = x_failure_class r, er_attempts = x_attempts r,
      er_result_ref = x_result_ref r, er_error_code = x_error_code r,
      er_error_detail = x_error_detail r, er_execution_job_id = x_job_id r,
      er_restage_eligible = restage_eligible r, er_created_at = x_created_at r,
      er_updated_at = x_updated_at r, er_terminal_at = x_terminal_at r\<rparr>"

text \<open>\<open>None\<close> is the refusal \<^verbatim>\<open>not_found\<close>.\<close>

definition get_action_handler :: "uuid \<Rightarrow> actions \<Rightarrow> external_action_record option" where
  "get_action_handler i t = map_option published_action (get_action i t)"

section \<open>Helper lemmas\<close>

text \<open>What ties an action to its approval, operation, key, destination and payload.\<close>

definition same_action :: "external_action \<Rightarrow> external_action \<Rightarrow> bool" where
  "same_action r r' \<longleftrightarrow>
     x_id r' = x_id r \<and> x_operation_id r' = x_operation_id r \<and>
     x_approval_id r' = x_approval_id r \<and> x_operation_name r' = x_operation_name r \<and>
     x_destination_ref r' = x_destination_ref r \<and> x_payload_digest r' = x_payload_digest r \<and>
     x_key r' = x_key r \<and> x_request_version r' = x_request_version r \<and>
     x_result_version r' = x_result_version r"

lemma same_action_refl [simp]: "same_action r r"
  by (simp add: same_action_def)

lemma create_pending_InrD:
  "create_pending r t = Inr t' \<Longrightarrow>
     t' = t @ [r] \<and> x_id r \<notin> x_id ` set t \<and> x_operation_id r \<notin> x_operation_id ` set t \<and>
     x_approval_id r \<notin> x_approval_id ` set t"
  by (auto simp: create_pending_def split: if_splits)

lemma update_action_write:
  "(\<And>r. x_id (values r) = x_id r) \<Longrightarrow>
   predicated_write x_id (x_in_states i from_states) values i"
  by (rule predicated_writeI) (simp add: x_in_states_def)

interpretation act_attach: predicated_write x_id
  "\<lambda>r. x_id r = i \<and> x_state r = XPending \<and> x_job_id r = None"
  "\<lambda>r. r\<lparr>x_job_id := Some job, x_updated_at := now\<rparr>" i for i job now
  by unfold_locales auto

end
