(* ===== verification/Workspace.thy ===== *)
theory Workspace
  imports Approval_Records Keyed_Requests External_Actions Jobs Record_Refs
begin

text \<open>
  What an operation runs in: the context of its caller and how one is rebuilt from stored
  provenance (\<^verbatim>\<open>boundary/factories.py\<close>), the tables of one workspace database, and the
  registries a process is composed of (\<^verbatim>\<open>operations/registry.py\<close>,
  \<^verbatim>\<open>modules/execution.py\<close>, \<^verbatim>\<open>refs/resolver.py\<close>).

  \<open>'i\<close> is a validated input and \<open>'o\<close> an output, both values of third-party models; \<open>'s\<close> is the data
  the modules keep in the workspace database; \<open>'w\<close> is the world outside it, which no rollback
  reaches. Module code (handlers, guards, resolvers, destinations, deletion owners) is a
  parameter: a field of \<open>env\<close>. A refusal is its state; the texts of refusals that are not stored
  are dropped.
\<close>

section \<open>Contexts\<close>

datatype actor_kind = Account_Actor | Token_Actor | Operator_Actor | System_Actor | Connection_Actor

datatype role = Owner | Member | Operator_Role | Service

datatype safety_class = Read_Class | Draft_Class | Mutate_Class | Destructive | External | Financial

fun actor_kind_text :: "actor_kind \<Rightarrow> string" where
  "actor_kind_text Account_Actor = ''account''"
| "actor_kind_text Token_Actor = ''token''"
| "actor_kind_text Operator_Actor = ''operator''"
| "actor_kind_text System_Actor = ''system''"
| "actor_kind_text Connection_Actor = ''connection''"

text \<open>\<^verbatim>\<open>ActorKind(value)\<close>; \<open>None\<close> is its \<^verbatim>\<open>ValueError\<close>.\<close>

definition actor_kind_of :: "string \<Rightarrow> actor_kind option" where
  "actor_kind_of s =
     find (\<lambda>k. actor_kind_text k = s)
       [Account_Actor, Token_Actor, Operator_Actor, System_Actor, Connection_Actor]"

fun safety_class_text :: "safety_class \<Rightarrow> string" where
  "safety_class_text Read_Class = ''read''"
| "safety_class_text Draft_Class = ''draft''"
| "safety_class_text Mutate_Class = ''mutate''"
| "safety_class_text Destructive = ''destructive''"
| "safety_class_text External = ''external''"
| "safety_class_text Financial = ''financial''"

definition audience_kinds :: "string list" where
  "audience_kinds = [''session'', ''token'', ''job'', ''channel'']"

definition entries :: "string list" where
  "entries = [''web'', ''api'', ''mcp'', ''cli'', ''job'', ''intake'', ''channel'']"

definition context_purposes :: "string list" where
  "context_purposes = [''respond'', ''follow_up'', ''share_with_referral'', ''internal_analysis'']"

text \<open>\<open>cx_operation_set = None\<close> is \<^verbatim>\<open>ALL_OPERATIONS\<close>; \<open>cx_account\<close> and \<open>cx_purpose\<close> are the
  principal.\<close>

record caller =
  cx_workspace :: uuid
  cx_actor_kind :: actor_kind
  cx_actor_id :: "uuid option"
  cx_role :: role
  cx_entry :: string
  cx_audience :: "(string \<times> uuid option) option"
  cx_operation_set :: "string list option"
  cx_enabled :: "string list"
  cx_account :: "uuid option"
  cx_purpose :: "string option"

section \<open>The control plane\<close>

record membership =
  mb_account :: uuid
  mb_workspace :: uuid
  mb_role :: role

record access_token =
  tk_id :: uuid
  tk_workspace :: uuid
  tk_account :: uuid
  tk_revoked_at :: "instant option"
  tk_expires_at :: instant
  tk_purpose :: "string option"
  tk_operations :: "string list"

record control_plane =
  cp_memberships :: "membership list"
  cp_tokens :: "access_token list"
  cp_workspaces :: "(uuid \<times> string) list"

definition get_membership :: "control_plane \<Rightarrow> uuid \<Rightarrow> uuid \<Rightarrow> membership option" where
  "get_membership cp account workspace =
     find (\<lambda>m. mb_account m = account \<and> mb_workspace m = workspace) (cp_memberships cp)"

definition get_access_token :: "control_plane \<Rightarrow> uuid \<Rightarrow> access_token option" where
  "get_access_token cp i = find (\<lambda>k. tk_id k = i) (cp_tokens cp)"

text \<open>The enabled modules, or the refusal when the workspace is not active.\<close>

definition active_workspace_modules ::
  "control_plane \<Rightarrow> (string \<times> string) list \<Rightarrow> uuid \<Rightarrow> string + string list" where
  "active_workspace_modules cp module_states workspace =
     (case map_of (cp_workspaces cp) workspace of
        None \<Rightarrow> Inl ''workspace_unavailable''
      | Some s \<Rightarrow>
          if s \<noteq> ''active'' then Inl ''workspace_unavailable''
          else Inr (map fst (filter (\<lambda>(m, s). s = ''enabled'') module_states)))"

section \<open>Rebuilding the context of a stored caller\<close>

text \<open>\<^verbatim>\<open>_parse_purpose\<close>: an unknown purpose refuses, a missing one is unbound.\<close>

definition parse_purpose :: "string option \<Rightarrow> string + string option" where
  "parse_purpose purpose =
     (case purpose of
        None \<Rightarrow> Inr None
      | Some p \<Rightarrow> if p \<in> set context_purposes then Inr (Some p) else Inl ''purpose_mismatch'')"

text \<open>The account that is responsible, its role and the operations it may call.\<close>

definition stored_principal ::
  "control_plane \<Rightarrow> uuid \<Rightarrow> actor_kind \<Rightarrow> uuid option \<Rightarrow> string option \<Rightarrow>
   string + uuid \<times> role \<times> string list option" where
  "stored_principal cp workspace kind actor_id bound_purpose =
     (case (kind, actor_id) of
        (Account_Actor, Some a) \<Rightarrow>
          (case get_membership cp a workspace of
             None \<Rightarrow> Inl ''membership_missing''
           | Some m \<Rightarrow> Inr (a, mb_role m, None))
      | (Token_Actor, Some i) \<Rightarrow>
          (case get_access_token cp i of
             None \<Rightarrow> Inl ''runtime_actor_required''
           | Some k \<Rightarrow>
               if tk_workspace k \<noteq> workspace then Inl ''runtime_actor_required''
               else (case get_membership cp (tk_account k) workspace of
                       None \<Rightarrow> Inl ''membership_missing''
                     | Some m \<Rightarrow>
                         if (case tk_purpose k of Some p \<Rightarrow> if p = [] then None else Some p
                             | None \<Rightarrow> None) \<noteq> bound_purpose
                         then Inl ''purpose_mismatch''
                         else Inr (tk_account k, mb_role m, Some (tk_operations k))))
      | _ \<Rightarrow> Inl ''runtime_actor_required'')"

definition context_from_operation ::
  "control_plane \<Rightarrow> (string \<times> string) list \<Rightarrow> uuid \<Rightarrow> string \<Rightarrow> uuid option \<Rightarrow> string \<Rightarrow>
   uuid option \<Rightarrow> string \<Rightarrow> string option \<Rightarrow> string + caller" where
  "context_from_operation cp module_states workspace actor_kind actor_id audience_kind
     audience_id entry purpose =
   (case actor_kind_of actor_kind of None \<Rightarrow> Inl ''runtime_actor_required''
    | Some kind \<Rightarrow>
      if audience_kind \<notin> set audience_kinds \<or> entry \<notin> set entries
      then Inl ''runtime_actor_required''
      else if kind \<in> {Operator_Actor, System_Actor, Connection_Actor}
      then Inl ''runtime_actor_required''
      else (case parse_purpose purpose of Inl e \<Rightarrow> Inl e
            | Inr bound_purpose \<Rightarrow>
           (case stored_principal cp workspace kind actor_id bound_purpose of Inl e \<Rightarrow> Inl e
            | Inr (account, role, operation_set) \<Rightarrow>
           (case active_workspace_modules cp module_states workspace of Inl e \<Rightarrow> Inl e
            | Inr enabled \<Rightarrow>
                Inr \<lparr>cx_workspace = workspace, cx_actor_kind = kind, cx_actor_id = actor_id,
                     cx_role = role, cx_entry = entry,
                     cx_audience = Some (audience_kind, audience_id),
                     cx_operation_set = operation_set, cx_enabled = enabled,
                     cx_account = Some account, cx_purpose = bound_purpose\<rparr>))))"

section \<open>The workspace database\<close>

record audit_row =
  au_operation :: string
  au_safety_class :: safety_class
  au_subject :: "record_ref option"
  au_digest :: "nat list"
  au_outcome :: string
  au_operation_id :: "uuid option"
  au_actor_kind :: actor_kind
  au_actor_id :: "uuid option"

record 's ws_db =
  db_operations :: operations
  db_approvals :: approvals
  db_payloads :: approval_payloads
  db_actions :: actions
  db_envelopes :: envelopes
  db_jobs :: "json jobs"
  db_modules :: "(string \<times> string) list"
  db_audits :: "audit_row list"
  db_data :: 's

definition context_for_approved_execution ::
  "control_plane \<Rightarrow> 's ws_db \<Rightarrow> uuid \<Rightarrow> approval \<Rightarrow> string + caller" where
  "context_for_approved_execution cp db workspace approval =
     (case get_context_provenance (ap_operation_id approval) (db_operations db) of
        None \<Rightarrow> Inl ''operation_provenance_missing''
      | Some p \<Rightarrow>
          context_from_operation cp (db_modules db) workspace (ap_actor_kind approval)
            (ap_actor_id approval) (pv_audience_kind p) (pv_audience_id p) (pv_entry p)
            (ap_purpose approval))"

end
