(* ===== verification/Execution.thy ===== *)
theory Execution
  imports Workspace
begin

text \<open>
  The registries of a process and what the execution of a gated operation asks of them: the
  authorization of \<^verbatim>\<open>operations/registry.py\<close>, the resolution of a reference
  (\<^verbatim>\<open>refs/resolver.py\<close>), the availability of a destination
  (\<^verbatim>\<open>modules/execution.py\<close>), the audit row (\<^verbatim>\<open>operations/dispatch.py\<close>) and the
  execution guards (\<^verbatim>\<open>approvals/guards.py\<close>).

  Whether a module is ready (\<^verbatim>\<open>modules/readiness.py\<close> asks the migration library and the
  version library) is the field \<open>e_ready\<close> of the process.
\<close>

section \<open>Module code\<close>

datatype ('o, 's) handler_result =
  Returns 'o 's | Raises_Stale | Raises_Refused string | Raises_Other

record record_head =
  hd_state :: string
  hd_revision :: "int option"

text \<open>\<open>Inl\<close> is \<^verbatim>\<open>Unavailable\<close> with its reason.\<close>

type_synonym 's resolver = "caller \<Rightarrow> 's ws_db \<Rightarrow> record_ref \<Rightarrow> string + record_head"

text \<open>What a declared subject field holds.\<close>

datatype subject_value = No_Subject | Subject record_ref | Not_A_Reference

text \<open>
  A declaration with its handler (\<^verbatim>\<open>RegisteredOperation\<close>). \<open>rg_validate\<close>, \<open>rg_dump\<close>,
  \<open>rg_project\<close> and their \<open>output\<close> counterparts are the models; \<open>rg_destination\<close>, \<open>rg_key\<close>,
  \<open>rg_subject\<close> and \<open>rg_result_ref\<close> read the declared fields. \<open>rg_subject = None\<close>: no subject field
  is declared. \<open>rg_keyed = None\<close>: not KEYED. \<open>rg_delete_ref\<close>: the reference of an input of
  \<^verbatim>\<open>core.record.delete\<close>.
\<close>

record ('i, 'o, 's) registered =
  rg_name :: string
  rg_module :: string
  rg_safety :: safety_class
  rg_roles :: "role list"
  rg_validate :: "json \<Rightarrow> 'i option"
  rg_dump :: "'i \<Rightarrow> json"
  rg_project :: "'i \<Rightarrow> json option"
  rg_keyed :: "keyed_spec option"
  rg_key :: "'i \<Rightarrow> utext option"
  rg_external :: "string option"
  rg_destination :: "'i \<Rightarrow> string option"
  rg_subject :: "('i \<Rightarrow> subject_value) option"
  rg_delete_ref :: "'i \<Rightarrow> record_ref option"
  rg_guards :: "string list"
  rg_is_output :: "'o \<Rightarrow> bool"
  rg_dump_output :: "'o \<Rightarrow> json"
  rg_validate_output :: "json \<Rightarrow> 'o option"
  rg_result_ref :: "'o \<Rightarrow> string"
  rg_handler :: "caller \<Rightarrow> uuid option \<Rightarrow> 's ws_db \<Rightarrow> 'i \<Rightarrow> ('o, 's) handler_result"

text \<open>What \<^verbatim>\<open>execute\<close> did; \<open>Exec_Crashes\<close> is an exception that is no
  \<^verbatim>\<open>ExternalDestinationError\<close>, by its type name.\<close>

datatype ('o, 's) exec_result =
  Exec_Returns 'o 's | Exec_Raises failure_class string string | Exec_Crashes string

datatype 'o reconcile_result =
  Rec_Found 'o | Rec_Absent | Rec_Raises failure_class string string | Rec_Crashes string

text \<open>A check answers \<open>None\<close> when it raises. A provider has a reconcile and a credentials check;
  reconciling only asks.\<close>

record ('i, 'o, 's, 'w) destination =
  ds_operation_name :: string
  ds_provider :: bool
  ds_installed :: "bool option"
  ds_enabled :: "caller \<Rightarrow> bool option"
  ds_ready :: "caller \<Rightarrow> 's ws_db \<Rightarrow> bool option"
  ds_credentials :: "(caller \<Rightarrow> 's ws_db \<Rightarrow> bool option) option"
  ds_execute :: "caller \<Rightarrow> uuid \<Rightarrow> 's ws_db \<Rightarrow> 'i \<Rightarrow> 'w \<Rightarrow> ('o, 's) exec_result \<times> 'w"
  ds_reconcile :: "(caller \<Rightarrow> 's ws_db \<Rightarrow> string option \<Rightarrow> 'w \<Rightarrow> 'o reconcile_result) option"

section \<open>Guard refusals\<close>

datatype permission_problem =
    Not_Recorded | Unknown_Kind | No_Recorded_Id | Token_Gone | Token_Elsewhere
  | Token_Revoked instant | Token_Expired instant | Token_Not_Permitted | No_Membership
  | Role_Not_Permitted role

datatype destination_problem =
    Not_Registered | Registered_For_Another | Not_Installed | Not_Enabled | Not_Ready
  | No_Credentials | Not_Proven

datatype guard_detail =
    Operation_Unregistered
  | Gated_Actor permission_problem
  | Approving_Actor permission_problem
  | Outside_Window instant instant
  | No_Reference
  | Not_Resolved record_ref string
  | Subject_State record_ref string
  | Revision_Moved record_ref "int option" "int option"
  | Destination_Differs "string option" string
  | Not_Bound
  | Destination_Unavailable string destination_problem
  | Guard_Unregistered
  | Module_Detail string

type_synonym guard_refusal = "string \<times> guard_detail"

type_synonym ('i, 's) module_guard =
  "caller \<Rightarrow> 's ws_db \<Rightarrow> approval \<Rightarrow> 'i \<Rightarrow> instant \<Rightarrow> string option"

text \<open>Why a leased job may not continue an action.\<close>

datatype bind_problem =
    Action_Missing | Action_Is action_state | Not_Its_Job | Job_Missing | Job_Kind_Differs
  | Job_Not_Ours | Job_Has_Operation | Job_Payload_Differs | Approval_Missing
  | Approval_Is approval_state | Approval_Other_Operation | Approval_Destination_Differs
  | Approval_Digest_Differs | Operation_Missing | Operation_Other_Action | Operation_Is op_state
  | Reservation_Missing | Reservation_Is envelope_state | Reservation_Other_Operation
  | Reservation_Version_Differs

section \<open>The process\<close>

text \<open>\<open>e_wording\<close> and \<open>e_refusal_text\<close>: the texts a guard's refusal and a refused context are
  stored under (a refused context's by its state), and of the problems of a grant. \<open>e_delete_owner\<close>: the owning module of a
  deletable record with its authorizer; \<open>e_job_action\<close>: what the input model of the continuation
  job reads from a payload. An authorizer answers a refusal state or nothing. The integers are
  settings resolved for the workspace; the deployment's own payload bound is the one a hold reads.\<close>

record ('i, 'o, 's, 'w) env =
  e_registry :: "string \<Rightarrow> ('i, 'o, 's) registered option"
  e_resolvers :: "string \<Rightarrow> string \<Rightarrow> 's resolver option"
  e_guards :: "string \<Rightarrow> ('i, 's) module_guard option"
  e_destinations :: "string \<Rightarrow> ('i, 'o, 's, 'w) destination option"
  e_delete_owner :: "record_ref \<Rightarrow>
    (string \<times> (caller \<Rightarrow> 's ws_db \<Rightarrow> record_ref \<Rightarrow> string option)) option"
  e_ready :: "string \<Rightarrow> 's ws_db \<Rightarrow> bool"
  e_sinks :: "string \<Rightarrow> bool"
  e_control :: control_plane
  e_job_action :: "json \<Rightarrow> uuid option"
  e_sha256 :: "nat list \<Rightarrow> nat list"
  e_jsonb :: "json \<Rightarrow> json"
  e_adapters :: compatibility
  e_wording :: "guard_refusal \<Rightarrow> string"
  e_refusal_text :: "string \<Rightarrow> string"
  e_bind_text :: "bind_problem list \<Rightarrow> string"
  e_max_payload_bytes :: int
  e_deployment_payload_bytes :: int
  e_default_window_seconds :: int
  e_max_window_seconds :: int
  e_max_attempts :: int
  e_retention_days :: int

definition payload_digest :: "('i, 'o, 's, 'w) env \<Rightarrow> json \<Rightarrow> nat list" where
  "payload_digest env body = e_sha256 env (canonical_json body)"

text \<open>\<^verbatim>\<open>window_seconds\<close> of \<^verbatim>\<open>approvals/gate.py\<close>.\<close>

definition window_seconds :: "('i, 'o, 's, 'w) env \<Rightarrow> int" where
  "window_seconds env = min (e_default_window_seconds env) (e_max_window_seconds env)"

section \<open>Authorization and resolution\<close>

definition authorize ::
  "('i, 'o, 's, 'w) env \<Rightarrow> caller \<Rightarrow> string \<Rightarrow> string + ('i, 'o, 's) registered" where
  "authorize env ctx name =
     (case e_registry env name of
        None \<Rightarrow> Inl ''operation_unknown''
      | Some oper \<Rightarrow>
          if (case cx_operation_set ctx of None \<Rightarrow> False | Some ops \<Rightarrow> name \<notin> set ops)
          then Inl ''operation_not_permitted''
          else if rg_module oper \<noteq> ''core'' \<and> rg_module oper \<notin> set (cx_enabled ctx)
          then Inl ''module_disabled''
          else if cx_role ctx \<notin> set (rg_roles oper) then Inl ''role_not_permitted''
          else Inr oper)"

definition resolve_in ::
  "('i, 'o, 's, 'w) env \<Rightarrow> record_ref \<Rightarrow> caller \<Rightarrow> 's ws_db \<Rightarrow> string + record_head" where
  "resolve_in env ref ctx db =
     (case e_resolvers env (r_module ref) (r_type ref) of
        None \<Rightarrow> Inl ''unresolvable''
      | Some resolver \<Rightarrow>
          if \<not> is_reserved_segment (r_module ref) \<and> r_module ref \<notin> set (cx_enabled ctx)
          then Inl ''module_disabled''
          else if \<not> e_ready env (r_module ref) db then Inl ''module_unavailable''
          else resolver ctx db ref)"

text \<open>\<^verbatim>\<open>DestinationRegistry.availability_problem\<close>: each check in turn, and a check that
  raises proves nothing.\<close>

definition availability_problem ::
  "('i, 'o, 's, 'w) env \<Rightarrow> caller \<Rightarrow> 's ws_db \<Rightarrow> string \<Rightarrow> string \<Rightarrow> destination_problem option" where
  "availability_problem env ctx db destination_ref operation_name =
     (case e_destinations env destination_ref of
        None \<Rightarrow> Some Not_Registered
      | Some d \<Rightarrow>
          if ds_operation_name d \<noteq> operation_name then Some Registered_For_Another
          else (case ds_installed d of None \<Rightarrow> Some Not_Proven | Some False \<Rightarrow> Some Not_Installed
                | Some True \<Rightarrow>
               (case ds_enabled d ctx of None \<Rightarrow> Some Not_Proven | Some False \<Rightarrow> Some Not_Enabled
                | Some True \<Rightarrow>
               (case ds_ready d ctx db of None \<Rightarrow> Some Not_Proven | Some False \<Rightarrow> Some Not_Ready
                | Some True \<Rightarrow>
               (case ds_credentials d of None \<Rightarrow> None
                | Some check \<Rightarrow>
                   (case check ctx db of None \<Rightarrow> Some Not_Proven
                    | Some False \<Rightarrow> Some No_Credentials | Some True \<Rightarrow> None))))))"

section \<open>The audit row\<close>

definition audit_subject :: "('i, 'o, 's) registered \<Rightarrow> 'i \<Rightarrow> record_ref option" where
  "audit_subject oper inp =
     (case rg_subject oper of None \<Rightarrow> None
      | Some f \<Rightarrow> (case f inp of Subject r \<Rightarrow> Some r | _ \<Rightarrow> None))"

text \<open>\<^verbatim>\<open>record_operation_audit\<close>: the flag says whether a row was written.\<close>

definition record_operation_audit ::
  "('i, 'o, 's, 'w) env \<Rightarrow> caller \<Rightarrow> ('i, 'o, 's) registered \<Rightarrow> nat list \<Rightarrow> 'i \<Rightarrow> string \<Rightarrow>
   uuid option \<Rightarrow> 's ws_db \<Rightarrow> bool \<times> 's ws_db" where
  "record_operation_audit env ctx oper digest inp outcome operation_id db =
     (if rg_safety oper = Read_Class \<or> \<not> e_sinks env (rg_module oper) then (False, db)
      else (True, db\<lparr>db_audits := db_audits db @
             [\<lparr>au_operation = rg_name oper, au_safety_class = rg_safety oper,
               au_subject = audit_subject oper inp, au_digest = digest, au_outcome = outcome,
               au_operation_id = operation_id, au_actor_kind = cx_actor_kind ctx,
               au_actor_id = cx_actor_id ctx\<rparr>]\<rparr>))"

section \<open>The execution guards\<close>

definition guarded_class :: "safety_class \<Rightarrow> bool" where
  "guarded_class c \<longleftrightarrow> c = Destructive \<or> c = External \<or> c = Financial"

text \<open>\<^verbatim>\<open>APPROVE_DECLARATION\<close>: its name and roles.\<close>

definition approval_approve :: string where
  "approval_approve = ''core.approval.approve''"

definition approval_roles :: "role list" where
  "approval_roles = [Owner, Member]"

definition permission_problem ::
  "control_plane \<Rightarrow> uuid \<Rightarrow> string option \<Rightarrow> uuid option \<Rightarrow> role list \<Rightarrow> string \<Rightarrow> instant \<Rightarrow>
   permission_problem option" where
  "permission_problem cp workspace actor_kind actor_id roles operation_name now =
     (case actor_kind of None \<Rightarrow> Some Not_Recorded
      | Some k \<Rightarrow>
     (case actor_kind_of k of None \<Rightarrow> Some Unknown_Kind
      | Some kind \<Rightarrow>
        if kind \<noteq> Account_Actor \<and> kind \<noteq> Token_Actor then None
        else (case actor_id of None \<Rightarrow> Some No_Recorded_Id
        | Some i \<Rightarrow>
          (let token_check =
             (if kind = Token_Actor
              then (case get_access_token cp i of
                      None \<Rightarrow> Inl Token_Gone
                    | Some tk \<Rightarrow>
                        if tk_workspace tk \<noteq> workspace then Inl Token_Elsewhere
                        else (case tk_revoked_at tk of
                                Some revoked \<Rightarrow> Inl (Token_Revoked revoked)
                              | None \<Rightarrow>
                                  if tk_expires_at tk \<le> now then Inl (Token_Expired (tk_expires_at tk))
                                  else if operation_name \<notin> set (tk_operations tk)
                                  then Inl Token_Not_Permitted
                                  else Inr (tk_account tk)))
              else Inr i)
           in case token_check of Inl p \<Rightarrow> Some p
              | Inr account \<Rightarrow>
                  (case get_membership cp account workspace of
                     None \<Rightarrow> Some No_Membership
                   | Some m \<Rightarrow> if mb_role m \<notin> set roles then Some (Role_Not_Permitted (mb_role m))
                             else None)))))"

text \<open>Each guard answers why it refuses. \<open>guard_for\<close> is a guard by its place in the effective
  order.\<close>

datatype guard =
    Actor_Permission_Guard
  | Window_Guard
  | Record_State_Guard
  | Destination_Guard string
  | Module_Guard string
  | Unavailable_Guard string

fun guard_name :: "guard \<Rightarrow> string" where
  "guard_name Actor_Permission_Guard = ''ActorPermissionGuard''"
| "guard_name Window_Guard = ''WindowGuard''"
| "guard_name Record_State_Guard = ''RecordStateGuard''"
| "guard_name (Destination_Guard _) = ''DestinationGuard''"
| "guard_name (Module_Guard n) = n"
| "guard_name (Unavailable_Guard n) = n"

definition actor_permission_check ::
  "('i, 'o, 's, 'w) env \<Rightarrow> caller \<Rightarrow> approval \<Rightarrow> instant \<Rightarrow> guard_detail option" where
  "actor_permission_check env ctx approval now =
     (case e_registry env (ap_operation_name approval) of
        None \<Rightarrow> Some Operation_Unregistered
      | Some oper \<Rightarrow>
          (case permission_problem (e_control env) (cx_workspace ctx) (Some (ap_actor_kind approval))
                  (ap_actor_id approval) (rg_roles oper) (ap_operation_name approval) now of
             Some p \<Rightarrow> Some (Gated_Actor p)
           | None \<Rightarrow>
               map_option Approving_Actor
                 (permission_problem (e_control env) (cx_workspace ctx)
                    (ap_approved_by_kind approval) (ap_approved_by_id approval) approval_roles
                    approval_approve now)))"

definition window_check :: "approval \<Rightarrow> instant \<Rightarrow> guard_detail option" where
  "window_check approval now =
     (if ap_window_start approval \<le> now \<and> now \<le> ap_window_end approval then None
      else Some (Outside_Window (ap_window_start approval) (ap_window_end approval)))"

definition live :: string where "live = ''live''"

definition record_state_check ::
  "('i, 'o, 's, 'w) env \<Rightarrow> subject_value \<Rightarrow> caller \<Rightarrow> 's ws_db \<Rightarrow> approval \<Rightarrow>
   guard_detail option" where
  "record_state_check env subject ctx db approval =
     (case subject of
        Subject ref \<Rightarrow>
          (case resolve_in env ref ctx db of
             Inl reason \<Rightarrow> Some (Not_Resolved ref reason)
           | Inr head \<Rightarrow>
               if hd_state head \<noteq> live then Some (Subject_State ref (hd_state head))
               else if hd_revision head \<noteq> ap_subject_revision approval
               then Some (Revision_Moved ref (hd_revision head) (ap_subject_revision approval))
               else None)
      | _ \<Rightarrow> Some No_Reference)"

definition destination_check ::
  "('i, 'o, 's, 'w) env \<Rightarrow> string \<Rightarrow> string \<Rightarrow> string option \<Rightarrow> caller \<Rightarrow> 's ws_db \<Rightarrow> approval \<Rightarrow>
   guard_detail option" where
  "destination_check env operation_name destination_ref supplied ctx db approval =
     (if supplied \<noteq> Some destination_ref then Some (Destination_Differs supplied destination_ref)
      else if ap_destination_ref approval \<noteq> Some destination_ref then Some Not_Bound
      else map_option (Destination_Unavailable destination_ref)
             (availability_problem env ctx db destination_ref operation_name))"

definition guard_check ::
  "('i, 'o, 's, 'w) env \<Rightarrow> ('i, 'o, 's) registered \<Rightarrow> guard \<Rightarrow> caller \<Rightarrow> 's ws_db \<Rightarrow> approval \<Rightarrow>
   'i \<Rightarrow> instant \<Rightarrow> guard_detail option" where
  "guard_check env oper g ctx db approval inp now =
     (case g of
        Actor_Permission_Guard \<Rightarrow> actor_permission_check env ctx approval now
      | Window_Guard \<Rightarrow> window_check approval now
      | Record_State_Guard \<Rightarrow>
          record_state_check env (case rg_subject oper of None \<Rightarrow> No_Subject | Some f \<Rightarrow> f inp)
            ctx db approval
      | Destination_Guard ref \<Rightarrow>
          destination_check env (rg_name oper) ref (rg_destination oper inp) ctx db approval
      | Module_Guard n \<Rightarrow>
          (case e_guards env n of None \<Rightarrow> Some Guard_Unregistered
           | Some check \<Rightarrow> map_option Module_Detail (check ctx db approval inp now))
      | Unavailable_Guard n \<Rightarrow> Some Guard_Unregistered)"

definition core_guards_for :: "('i, 'o, 's) registered \<Rightarrow> guard list" where
  "core_guards_for oper =
     (if \<not> guarded_class (rg_safety oper) then []
      else [Actor_Permission_Guard, Window_Guard] @
           (if rg_subject oper = None then [] else [Record_State_Guard]))"

definition effective_guards_for ::
  "('i, 'o, 's, 'w) env \<Rightarrow> ('i, 'o, 's) registered \<Rightarrow> guard list" where
  "effective_guards_for env oper =
     core_guards_for oper @
     (if rg_safety oper = External \<or> rg_safety oper = Financial
      then (case rg_external oper of
              None \<Rightarrow> [Unavailable_Guard ''DestinationGuard'']
            | Some ref \<Rightarrow> [Destination_Guard ref])
      else []) @
     map (\<lambda>n. if e_guards env n = None then Unavailable_Guard n else Module_Guard n)
       (rg_guards oper)"

text \<open>The first refusal, in order.\<close>

fun run_guards ::
  "('i, 'o, 's, 'w) env \<Rightarrow> ('i, 'o, 's) registered \<Rightarrow> caller \<Rightarrow> 's ws_db \<Rightarrow> approval \<Rightarrow> 'i \<Rightarrow>
   instant \<Rightarrow> guard list \<Rightarrow> guard_refusal option" where
  "run_guards env oper ctx db approval inp now [] = None"
| "run_guards env oper ctx db approval inp now (g # gs) =
     (case guard_check env oper g ctx db approval inp now of
        Some detail \<Rightarrow> Some (guard_name g, detail)
      | None \<Rightarrow> run_guards env oper ctx db approval inp now gs)"

lemma run_guards_None [simp]:
  "run_guards env oper ctx db approval inp now gs = None \<longleftrightarrow>
     (\<forall>g \<in> set gs. guard_check env oper g ctx db approval inp now = None)"
  by (induction gs) (auto split: option.splits)

section \<open>The owned-delete check before an approval is minted\<close>

definition record_delete :: string where
  "record_delete = ''core.record.delete''"

definition authorize_owned_delete ::
  "('i, 'o, 's, 'w) env \<Rightarrow> caller \<Rightarrow> 's ws_db \<Rightarrow> record_ref \<Rightarrow> string option" where
  "authorize_owned_delete env ctx db ref =
     (case e_delete_owner env ref of
        None \<Rightarrow> Some ''record_not_deletable''
      | Some (owner, authorizer) \<Rightarrow>
          if owner \<notin> set (cx_enabled ctx) then Some ''record_not_deletable''
          else authorizer ctx db ref)"

definition pre_mint_refusal ::
  "('i, 'o, 's, 'w) env \<Rightarrow> caller \<Rightarrow> 's ws_db \<Rightarrow> ('i, 'o, 's) registered \<Rightarrow> 'i \<Rightarrow> string option" where
  "pre_mint_refusal env ctx db oper inp =
     (if rg_name oper \<noteq> record_delete then None
      else case rg_delete_ref oper inp of None \<Rightarrow> None
           | Some ref \<Rightarrow> authorize_owned_delete env ctx db ref)"

end
