(* ===== verification/Settlement.thy ===== *)
theory Settlement
  imports Execution Job_Worker
begin

text \<open>
  The settlement vocabulary of \<^verbatim>\<open>operations/continuation.py\<close>: how one external action ends,
  in every row that knows of it (action, approval, operation, keyed reservation) and in the audit
  trail, and what the approval and the refusal of a staged action write.

  A function here runs inside its caller's transaction. \<open>Inl\<close> is an exception, which aborts that
  transaction; \<open>attempt\<close> is the sequence of two statements.
\<close>

section \<open>Statements of a transaction\<close>

datatype exc = Raise_Refused string | Raise_Error

definition attempt :: "'e + 'a \<Rightarrow> ('a \<Rightarrow> 'e + 'b) \<Rightarrow> 'e + 'b" where
  "attempt m f = (case m of Inl e \<Rightarrow> Inl e | Inr x \<Rightarrow> f x)"

text \<open>A write that must apply, or the exception.\<close>

definition demand :: "'e \<Rightarrow> bool \<times> 'a \<Rightarrow> 'e + 'a" where
  "demand e bx = (if fst bx then Inr (snd bx) else Inl e)"

text \<open>\<open>returned\<close>: when a sequence of statements returns, and what.\<close>

named_theorems returned \<open>when a chain of statements returns\<close>

lemma attempt_simps [simp]:
  "attempt (Inl e) f = Inl e" "attempt (Inr x) f = f x"
  by (simp_all add: attempt_def)

lemma attempt_Inr [returned]: "attempt m f = Inr y \<longleftrightarrow> (\<exists>x. m = Inr x \<and> f x = Inr y)"
  by (cases m) simp_all

lemma demand_Inr [returned]: "demand e bx = Inr y \<longleftrightarrow> fst bx \<and> snd bx = y"
  by (simp add: demand_def)

section \<open>Writes on one table of the workspace database\<close>

definition on_actions :: "(actions \<Rightarrow> bool \<times> actions) \<Rightarrow> 's ws_db \<Rightarrow> bool \<times> 's ws_db" where
  "on_actions w db = (let (b, t) = w (db_actions db) in (b, db\<lparr>db_actions := t\<rparr>))"

definition on_approvals :: "(approvals \<Rightarrow> bool \<times> approvals) \<Rightarrow> 's ws_db \<Rightarrow> bool \<times> 's ws_db" where
  "on_approvals w db = (let (b, t) = w (db_approvals db) in (b, db\<lparr>db_approvals := t\<rparr>))"

definition on_operations ::
  "(operations \<Rightarrow> bool \<times> operations) \<Rightarrow> 's ws_db \<Rightarrow> bool \<times> 's ws_db" where
  "on_operations w db = (let (b, t) = w (db_operations db) in (b, db\<lparr>db_operations := t\<rparr>))"

definition on_envelopes :: "(envelopes \<Rightarrow> bool \<times> envelopes) \<Rightarrow> 's ws_db \<Rightarrow> bool \<times> 's ws_db" where
  "on_envelopes w db = (let (b, t) = w (db_envelopes db) in (b, db\<lparr>db_envelopes := t\<rparr>))"

lemmas on_tables = on_actions_def on_approvals_def on_operations_def on_envelopes_def

lemma on_tables_fst [simp]:
  "fst (on_actions w1 db) = fst (w1 (db_actions db))"
  "fst (on_approvals w2 db) = fst (w2 (db_approvals db))"
  "fst (on_operations w3 db) = fst (w3 (db_operations db))"
  "fst (on_envelopes w4 db) = fst (w4 (db_envelopes db))"
  by (simp_all add: on_tables split_beta)

lemma on_tables_snd [simp]:
  "snd (on_actions w1 db) = db\<lparr>db_actions := snd (w1 (db_actions db))\<rparr>"
  "snd (on_approvals w2 db) = db\<lparr>db_approvals := snd (w2 (db_approvals db))\<rparr>"
  "snd (on_operations w3 db) = db\<lparr>db_operations := snd (w3 (db_operations db))\<rparr>"
  "snd (on_envelopes w4 db) = db\<lparr>db_envelopes := snd (w4 (db_envelopes db))\<rparr>"
  by (simp_all add: on_tables split_beta)

section \<open>What is being settled\<close>

definition outcome_unknown :: string where "outcome_unknown = ''outcome_unknown''"
definition guard_refused :: string where "guard_refused = ''guard_refused''"
definition budget_exhausted :: string where "budget_exhausted = ''retry_budget_exhausted''"
definition continuation_cancelled :: string where "continuation_cancelled = ''continuation_cancelled''"
definition approval_refused :: string where "approval_refused = ''approval_refused''"
definition destination_failed :: string where "destination_failed = ''destination_failed''"
definition invalid_approval :: string where "invalid_approval = ''invalid_approval''"
definition detail_limit :: nat where "detail_limit = 2000"

record ('i, 'o, 's) settle =
  st_action :: uuid
  st_approval :: uuid
  st_operation_id :: uuid
  st_name :: string
  st_key :: utext
  st_digest :: "nat list"
  st_now :: instant
  st_held :: "caller option"
  st_operation :: "('i, 'o, 's) registered option"
  st_input :: "'i option"

definition short :: "string \<Rightarrow> string" where
  "short txt = take detail_limit txt"

text \<open>\<^verbatim>\<open>uow\<close> is there whenever \<^verbatim>\<open>_audit\<close> is reached.\<close>

definition settle_audit ::
  "('i, 'o, 's, 'w) env \<Rightarrow> ('i, 'o, 's) settle \<Rightarrow> string \<Rightarrow> bool \<Rightarrow> 's ws_db \<Rightarrow> exc + 's ws_db" where
  "settle_audit env s outcome required db =
     (case (st_held s, st_operation s, st_input s) of
        (Some held, Some oper, Some inp) \<Rightarrow>
          (let (written, db') =
             record_operation_audit env held oper (st_digest s) inp outcome
               (Some (st_operation_id s)) db
           in if required \<and> \<not> written then Inl Raise_Error else Inr db')
      | _ \<Rightarrow> if required then Inl Raise_Error else Inr db)"

definition envelope_error ::
  "('i, 'o, 's) settle \<Rightarrow> envelope_state \<Rightarrow> string \<Rightarrow> string \<Rightarrow> 's ws_db \<Rightarrow> exc + 's ws_db" where
  "envelope_error s state code detail db =
     demand Raise_Error
       (on_envelopes (apply_where (en_pending_at (st_name s, st_key s))
          (en_error_values state code (short detail) (st_now s))) db)"

definition terminal_values ::
  "action_state \<Rightarrow> failure_class \<Rightarrow> string \<Rightarrow> string \<Rightarrow> instant \<Rightarrow> external_action \<Rightarrow>
   external_action" where
  "terminal_values state fclass code detail now r =
     r\<lparr>x_state := state, x_failure_class := Some fclass, x_error_code := Some code,
       x_error_detail := Some (short detail), x_updated_at := now, x_terminal_at := Some now\<rparr>"

definition action_terminal ::
  "('i, 'o, 's) settle \<Rightarrow> action_state \<Rightarrow> failure_class \<Rightarrow> string \<Rightarrow> string \<Rightarrow> 's ws_db \<Rightarrow>
   exc + 's ws_db" where
  "action_terminal s state fclass code detail db =
     demand Raise_Error
       (on_actions (update_action (st_action s) x_open_state
          (terminal_values state fclass code detail (st_now s))) db)"

section \<open>The settlements\<close>

type_synonym 's settled = "(disposition \<times> string option) \<times> 's ws_db"

definition audit_succeeded :: string where "audit_succeeded = ''succeeded''"
definition audit_failed :: string where "audit_failed = ''failed''"
definition audit_refused :: string where "audit_refused = ''refused''"

definition text_blank :: "string \<Rightarrow> bool" where
  "text_blank s \<longleftrightarrow> list_all unicode_space (utext_of s)"

definition succeeded_values ::
  "string \<Rightarrow> json \<Rightarrow> instant \<Rightarrow> external_action \<Rightarrow> external_action" where
  "succeeded_values result_ref dump now r =
     r\<lparr>x_state := XSucceeded, x_result_ref := Some result_ref, x_result_detail := Some dump,
       x_failure_class := None, x_error_code := None, x_error_detail := None,
       x_updated_at := now, x_terminal_at := Some now\<rparr>"

text \<open>Both results are dumped by the declaration's model; the columns are jsonb.\<close>

definition settle_success ::
  "('i, 'o, 's, 'w) env \<Rightarrow> ('i, 'o, 's) settle \<Rightarrow> 'o \<Rightarrow> terminal_check \<Rightarrow> 's ws_db \<Rightarrow>
   exc + 's settled" where
  "settle_success env s out check_kind db =
     (case st_operation s of
        None \<Rightarrow> Inl Raise_Error
      | Some oper \<Rightarrow>
          if rg_external oper = None then Inl Raise_Error
          else if text_blank (rg_result_ref oper out) then Inl Raise_Error
          else
         (case finish_success (e_jsonb env) (rg_keyed oper) (rg_name oper) (st_key s)
                 (rg_dump_output oper out) (st_now s) (db_envelopes db) of
            Inl e \<Rightarrow> Inl Raise_Error
          | Inr t \<Rightarrow>
              attempt (demand Raise_Error
                (on_actions (update_action (st_action s) x_open_state
                   (succeeded_values (rg_result_ref oper out)
                      (e_jsonb env (rg_dump_output oper out)) (st_now s)))
                   (db\<lparr>db_envelopes := t\<rparr>))) (\<lambda>db1.
              attempt (demand Raise_Error
                (on_approvals (mark_executed (st_approval s) (st_now s)) db1)) (\<lambda>db2.
              attempt (demand Raise_Error
                (on_operations (op_finish_succeeded (st_operation_id s) (st_now s) check_kind
                   (st_now s) (Some (rg_result_ref oper out))) db2)) (\<lambda>db3.
              attempt (settle_audit env s audit_succeeded True db3) (\<lambda>db4.
                Inr ((Disp_Succeeded, None), db4)))))))"

definition settle_refused ::
  "('i, 'o, 's, 'w) env \<Rightarrow> ('i, 'o, 's) settle \<Rightarrow> failure_class \<Rightarrow> string \<Rightarrow> string \<Rightarrow> 's ws_db \<Rightarrow>
   exc + 's settled" where
  "settle_refused env s fclass code detail db =
     attempt (action_terminal s XRefused fclass code detail db) (\<lambda>db1.
     attempt (demand Raise_Error (on_approvals (mark_guard_refused (st_approval s)) db1)) (\<lambda>db2.
     attempt (demand Raise_Error (on_operations
       (op_finish_failed (st_operation_id s) (st_now s) code (short detail)) db2)) (\<lambda>db3.
     attempt (envelope_error s EnRefused code detail db3) (\<lambda>db4.
     attempt (settle_audit env s audit_refused False db4) (\<lambda>db5.
       Inr ((Disp_Handled_Terminal, Some (code @ '': '' @ detail)), db5))))))"

definition settle_failed ::
  "('i, 'o, 's, 'w) env \<Rightarrow> ('i, 'o, 's) settle \<Rightarrow> string \<Rightarrow> string \<Rightarrow> 's ws_db \<Rightarrow>
   exc + 's settled" where
  "settle_failed env s code detail db =
     attempt (action_terminal s XFailed Retryable_No_Effect code detail db) (\<lambda>db1.
     attempt (demand Raise_Error
       (on_approvals (mark_executed (st_approval s) (st_now s)) db1)) (\<lambda>db2.
     attempt (demand Raise_Error (on_operations
       (op_finish_failed (st_operation_id s) (st_now s) code (short detail)) db2)) (\<lambda>db3.
     attempt (envelope_error s EnFailed code detail db3) (\<lambda>db4.
     attempt (settle_audit env s audit_failed False db4) (\<lambda>db5.
       Inr ((Disp_Failed, Some (code @ '': '' @ detail)), db5))))))"

definition settle_cancelled ::
  "('i, 'o, 's, 'w) env \<Rightarrow> ('i, 'o, 's) settle \<Rightarrow> string \<Rightarrow> string \<Rightarrow> 's ws_db \<Rightarrow>
   exc + 's settled" where
  "settle_cancelled env s code detail db =
     attempt (action_terminal s XCancelled Cancelled_No_Effect code detail db) (\<lambda>db1.
     attempt (demand Raise_Error (on_approvals (mark_guard_refused (st_approval s)) db1)) (\<lambda>db2.
     attempt (demand Raise_Error (on_operations
       (op_finish_cancelled (st_operation_id s) (st_now s)) db2)) (\<lambda>db3.
     attempt (envelope_error s EnCancelled code detail db3) (\<lambda>db4.
     attempt (settle_audit env s audit_refused False db4) (\<lambda>db5.
       Inr ((Disp_Cancelled, Some (code @ '': '' @ detail)), db5))))))"

definition settle_unresolved ::
  "('i, 'o, 's, 'w) env \<Rightarrow> ('i, 'o, 's) settle \<Rightarrow> string \<Rightarrow> string \<Rightarrow> 's ws_db \<Rightarrow>
   exc + 's settled" where
  "settle_unresolved env s code detail db =
     attempt (action_terminal s XUnresolved Outcome_Unknown code detail db) (\<lambda>db1.
     attempt (demand Raise_Error
       (on_approvals (mark_executed (st_approval s) (st_now s)) db1)) (\<lambda>db2.
     attempt (demand Raise_Error (on_operations
       (mark_unresolved (st_operation_id s) (st_now s)) db2)) (\<lambda>db3.
     attempt (envelope_error s EnUnresolved code detail db3) (\<lambda>db4.
     attempt (settle_audit env s audit_failed False db4) (\<lambda>db5.
       Inr ((Disp_Handled_Terminal, Some (code @ '': '' @ detail)), db5))))))"

text \<open>The row of an action whose lease may be tried again.\<close>

definition retryable_values :: "string \<Rightarrow> string \<Rightarrow> instant \<Rightarrow> external_action \<Rightarrow> external_action" where
  "retryable_values code detail now r =
     r\<lparr>x_error_code := Some code, x_error_detail := Some (short detail), x_updated_at := now\<rparr>"

definition classified ::
  "('i, 'o, 's, 'w) env \<Rightarrow> ('i, 'o, 's) settle \<Rightarrow> int \<Rightarrow> int \<Rightarrow> failure_class \<Rightarrow> string \<Rightarrow> string \<Rightarrow>
   's ws_db \<Rightarrow> exc + 's settled" where
  "classified env s attempts max_attempts fclass code detail db =
     (case fclass of
        Destination_Unavailable_No_Effect \<Rightarrow> settle_refused env s fclass code detail db
      | Permanent_Refusal_No_Effect \<Rightarrow> settle_refused env s fclass code detail db
      | Cancelled_No_Effect \<Rightarrow> settle_cancelled env s code detail db
      | Outcome_Unknown \<Rightarrow> settle_unresolved env s code detail db
      | Retryable_No_Effect \<Rightarrow>
          if attempts \<ge> max_attempts
          then settle_failed env s budget_exhausted (code @ '': '' @ detail) db
          else attempt (demand Raise_Error
                 (on_actions (update_action (st_action s) x_open_state
                    (retryable_values code detail (st_now s))) db)) (\<lambda>db1.
               Inr ((Disp_Retry, Some (code @ '': '' @ detail)), db1)))"

end
