(* ===== verification/Held_Calls.thy ===== *)
theory Held_Calls
  imports Settlement
begin

text \<open>
  Held calls: \<^verbatim>\<open>approvals/gate.py\<close> (the hold and the execution of an approved call),
  \<^verbatim>\<open>approvals/snapshot.py\<close> (the verifier), and \<^verbatim>\<open>approvals/operations.py\<close>
  (\<^verbatim>\<open>core.approval.preview\<close>, \<^verbatim>\<open>.approve\<close> and \<^verbatim>\<open>.refuse\<close>), with the approval
  side of \<^verbatim>\<open>operations/continuation.py\<close>.

  Every function runs in its caller's transaction. \<open>now\<close> is the one reading of the clock the
  handlers make, \<open>fresh\<close> an identifier drawn with \<^verbatim>\<open>uuid7\<close>.
\<close>

section \<open>The snapshot verifier\<close>

datatype snapshot_cause =
    Snap_Operation_Unknown | Snap_Payload_Absent | Snap_Payload_Invalid | Snap_Payload_Digest
  | Snap_Destination | Snap_Subject | Snap_Staged_Absent | Snap_Staged_Mismatch

definition snapshot_state :: "snapshot_cause \<Rightarrow> string" where
  "snapshot_state c =
     (if c = Snap_Operation_Unknown then ''operation_unknown'' else invalid_approval)"

record ('i, 'o, 's) verified =
  vf_operation :: "('i, 'o, 's) registered"
  vf_input :: 'i
  vf_payload :: json
  vf_subject :: "record_ref option"
  vf_destination :: "string option"

text \<open>The destination clause, the subject clause and the staged-action clause.\<close>

definition snapshot_destination_ok :: "('i, 'o, 's) registered \<Rightarrow> 'i \<Rightarrow> approval \<Rightarrow> bool" where
  "snapshot_destination_ok oper inp row \<longleftrightarrow>
     (case rg_external oper of
        None \<Rightarrow> ap_destination_ref row = None
      | Some ref \<Rightarrow> ap_destination_ref row = Some ref \<and> rg_destination oper inp = Some ref)"

definition snapshot_subject ::
  "('i, 'o, 's) registered \<Rightarrow> 'i \<Rightarrow> record_ref option option" where
  "snapshot_subject oper inp =
     (case rg_subject oper of
        None \<Rightarrow> Some None
      | Some f \<Rightarrow> (case f inp of No_Subject \<Rightarrow> Some None | Subject r \<Rightarrow> Some (Some r)
                   | Not_A_Reference \<Rightarrow> None))"

definition staged_class :: "('i, 'o, 's) registered \<Rightarrow> bool" where
  "staged_class oper \<longleftrightarrow>
     (rg_safety oper = External \<or> rg_safety oper = Financial) \<and> rg_keyed oper \<noteq> None"

definition snapshot_staged ::
  "('i, 'o, 's) registered \<Rightarrow> approval \<Rightarrow> actions \<Rightarrow> snapshot_cause option" where
  "snapshot_staged oper row t =
     (if \<not> staged_class oper then None
      else case get_for_approval (ap_id row) t of
             None \<Rightarrow> Some Snap_Staged_Absent
           | Some r \<Rightarrow>
               if x_operation_id r \<noteq> ap_operation_id row \<or>
                  x_operation_name r \<noteq> ap_operation_name row \<or>
                  Some (x_destination_ref r) \<noteq> ap_destination_ref row \<or>
                  x_payload_digest r \<noteq> ap_payload_digest row
               then Some Snap_Staged_Mismatch else None)"

definition verify_snapshot ::
  "('i, 'o, 's, 'w) env \<Rightarrow> approval \<Rightarrow> 's ws_db \<Rightarrow> snapshot_cause + ('i, 'o, 's) verified" where
  "verify_snapshot env row db =
     (case e_registry env (ap_operation_name row) of
        None \<Rightarrow> Inl Snap_Operation_Unknown
      | Some oper \<Rightarrow>
     (case payload_body (ap_id row) (db_payloads db) of
        None \<Rightarrow> Inl Snap_Payload_Absent
      | Some body \<Rightarrow>
     (case rg_validate oper body of
        None \<Rightarrow> Inl Snap_Payload_Invalid
      | Some inp \<Rightarrow>
        if payload_digest env (rg_dump oper inp) \<noteq> ap_payload_digest row
        then Inl Snap_Payload_Digest
        else if \<not> snapshot_destination_ok oper inp row then Inl Snap_Destination
        else (case snapshot_subject oper inp of
                None \<Rightarrow> Inl Snap_Subject
              | Some subject \<Rightarrow>
                  (case snapshot_staged oper row (db_actions db) of
                     Some c \<Rightarrow> Inl c
                   | None \<Rightarrow>
                       Inr \<lparr>vf_operation = oper, vf_input = inp, vf_payload = rg_dump oper inp,
                            vf_subject = subject, vf_destination = ap_destination_ref row\<rparr>)))))"

section \<open>The hold\<close>

definition audience_none :: string where "audience_none = ''none''"

definition bound_destination :: "('i, 'o, 's) registered \<Rightarrow> 'i \<Rightarrow> string option" where
  "bound_destination oper inp =
     (case rg_external oper of None \<Rightarrow> None
      | Some ref \<Rightarrow> if rg_destination oper inp = Some ref then Some ref else None)"

definition subject_revision ::
  "('i, 'o, 's, 'w) env \<Rightarrow> caller \<Rightarrow> 's ws_db \<Rightarrow> record_ref option \<Rightarrow> int option" where
  "subject_revision env ctx db subject =
     (case subject of None \<Rightarrow> None
      | Some ref \<Rightarrow> (case resolve_in env ref ctx db of Inl _ \<Rightarrow> None | Inr h \<Rightarrow> hd_revision h))"

text \<open>The three writes of every held call: the record, the approval with its snapshot, and the
  record's hold.\<close>

definition mint_for :: "caller \<Rightarrow> ('i, 'o, 's) registered \<Rightarrow> uuid \<Rightarrow> instant \<Rightarrow> 's ws_db \<Rightarrow>
    exc + uuid \<times> 's ws_db" where
  "mint_for ctx oper fresh now db =
     (case mint fresh None (rg_name oper) (safety_class_text (rg_safety oper))
             (actor_kind_text (cx_actor_kind ctx)) (cx_actor_id ctx) (cx_entry ctx)
             (case cx_audience ctx of None \<Rightarrow> audience_none | Some a \<Rightarrow> fst a)
             (case cx_audience ctx of None \<Rightarrow> None | Some a \<Rightarrow> snd a) now (db_operations db) of
        Inl e \<Rightarrow> Inl Raise_Error
      | Inr (i, t) \<Rightarrow> Inr (i, db\<lparr>db_operations := t\<rparr>))"

definition create_for ::
  "('i, 'o, 's, 'w) env \<Rightarrow> caller \<Rightarrow> ('i, 'o, 's) registered \<Rightarrow> uuid \<Rightarrow> uuid \<Rightarrow> string option \<Rightarrow>
   record_ref option \<Rightarrow> int option \<Rightarrow> json \<Rightarrow> instant \<Rightarrow> 's ws_db \<Rightarrow> exc + uuid \<times> 's ws_db" where
  "create_for env ctx oper fresh operation_id destination subject revision body now db =
     (case create_approval
             (new_approval fresh (actor_kind_text (cx_actor_kind ctx)) (cx_actor_id ctx)
                (rg_name oper) operation_id destination (map_option format_ref subject) revision
                (payload_digest env body) (cx_purpose ctx) now
                (now + seconds (window_seconds env)))
             (e_jsonb env body) (payload_bytes body) (db_approvals db, db_payloads db) of
        Inl e \<Rightarrow> Inl Raise_Error
      | Inr (i, t, ps) \<Rightarrow> Inr (i, db\<lparr>db_approvals := t, db_payloads := ps\<rparr>))"

text \<open>\<open>Inl\<close> of the inner sum is a refusal answered before anything was written. The audit
  writer is the dispatcher's: outcome refused, digest of the raw request; the answer is the
  approval and the record.\<close>

definition hold_for_approval ::
  "('i, 'o, 's, 'w) env \<Rightarrow> caller \<Rightarrow> ('i, 'o, 's) registered \<Rightarrow> 'i \<Rightarrow> nat list \<Rightarrow>
   uuid \<Rightarrow> uuid \<Rightarrow> instant \<Rightarrow> 's ws_db \<Rightarrow> exc + (string + uuid \<times> uuid) \<times> 's ws_db" where
  "hold_for_approval env ctx oper inp request_digest fresh_op fresh_ap now db =
     (let body = rg_dump oper inp; subject = audit_subject oper inp
      in if int (payload_bytes body) > e_deployment_payload_bytes env
         then Inr (Inl ''approval_payload_too_large'', db)
         else (case pre_mint_refusal env ctx db oper inp of
                 Some state \<Rightarrow> Inr (Inl state, db)
               | None \<Rightarrow>
                   attempt (mint_for ctx oper fresh_op now db) (\<lambda>(operation_id, db1).
                   attempt (create_for env ctx oper fresh_ap operation_id
                              (bound_destination oper inp) subject
                              (subject_revision env ctx db1 subject) body now db1)
                     (\<lambda>(approval_id, db2).
                   attempt (demand Raise_Error
                     (on_operations (mark_approval_required operation_id approval_id) db2))
                     (\<lambda>db3.
                   Inr (Inr (approval_id, operation_id),
                        snd (record_operation_audit env ctx oper request_digest inp audit_refused
                               (Some operation_id) db3)))))))"

section \<open>The execution of an approved call\<close>

text \<open>Neither write of a guard's refusal is checked.\<close>

definition record_guard_refusal ::
  "('i, 'o, 's, 'w) env \<Rightarrow> approval \<Rightarrow> guard_refusal \<Rightarrow> instant \<Rightarrow> 's ws_db \<Rightarrow> 's ws_db" where
  "record_guard_refusal env approval refusal now db =
     snd (on_operations (finish_held_failed (ap_operation_id approval) now guard_refused
            (e_wording env refusal))
       (snd (on_approvals (mark_guard_refused (ap_id approval)) db)))"

definition run_held_handler ::
  "('i, 'o, 's, 'w) env \<Rightarrow> ('i, 'o, 's) registered \<Rightarrow> caller \<Rightarrow> uuid \<Rightarrow> 'i \<Rightarrow> 's ws_db \<Rightarrow>
   exc + 's ws_db" where
  "run_held_handler env oper held operation_id inp db =
     (if \<not> e_ready env (rg_module oper) db then Inl Raise_Error
      else case rg_handler oper held (Some operation_id) db inp of
             Raises_Stale \<Rightarrow> Inl (Raise_Refused ''record_stale'')
           | Raises_Refused state \<Rightarrow> Inl (Raise_Refused state)
           | Raises_Other \<Rightarrow> Inl Raise_Error
           | Returns out data \<Rightarrow>
               if rg_is_output oper out then Inr (db\<lparr>db_data := data\<rparr>)
               else Inl (Raise_Refused ''output_invalid''))"

text \<open>The flag says whether the handler ran; otherwise a guard refused.\<close>

definition execute_approved ::
  "('i, 'o, 's, 'w) env \<Rightarrow> caller \<Rightarrow> approval \<Rightarrow> instant \<Rightarrow> 's ws_db \<Rightarrow> exc + bool \<times> 's ws_db" where
  "execute_approved env ctx approval now db =
     (case verify_snapshot env approval db of
        Inl c \<Rightarrow> Inl (Raise_Refused (snapshot_state c))
      | Inr v \<Rightarrow>
          if binding_detail (ap_payload_digest approval) (payload_digest env (vf_payload v))
               (ap_window_start approval) (ap_window_end approval) now \<noteq> None
          then Inl (Raise_Refused invalid_approval)
          else
         (let held = context_for_approved_execution (e_control env) db (cx_workspace ctx) approval
          in case run_guards env (vf_operation v) (case held of Inl _ \<Rightarrow> ctx | Inr h \<Rightarrow> h) db approval
                    (vf_input v) now (effective_guards_for env (vf_operation v)) of
               Some refusal \<Rightarrow> Inr (False, record_guard_refusal env approval refusal now db)
             | None \<Rightarrow>
                 (case held of
                    Inl state \<Rightarrow> Inl (Raise_Refused state)
                  | Inr h \<Rightarrow>
                      attempt (run_held_handler env (vf_operation v) h (ap_operation_id approval)
                                 (vf_input v) db) (\<lambda>db1.
                      attempt (demand (Raise_Refused invalid_approval)
                        (on_approvals (mark_executed (ap_id approval) now) db1)) (\<lambda>db2.
                      attempt (demand (Raise_Refused invalid_approval)
                        (on_operations (finish_held_succeeded (ap_operation_id approval) now
                           Handler_Returned now) db2)) (\<lambda>db3.
                      attempt (demand (Raise_Refused ''audit_sink_missing'')
                        (record_operation_audit env h (vf_operation v)
                           (ap_payload_digest approval) (vf_input v) audit_succeeded
                           (Some (ap_operation_id approval)) db3)) (\<lambda>db4.
                      Inr (True, db4))))))))"

end
