(* ===== verification/Decisions.thy ===== *)
theory Decisions
  imports Held_Calls
begin

text \<open>
  What a person decides about a held call: \<^verbatim>\<open>approvals/operations.py\<close> (preview, approve,
  refuse), and the approval side of \<^verbatim>\<open>operations/continuation.py\<close>, which an approved or refused
  staged action takes.
\<close>

section \<open>Queueing and refusing a staged action\<close>

definition settle_of :: "external_action \<Rightarrow> nat list \<Rightarrow> instant \<Rightarrow> ('i, 'o, 's) settle" where
  "settle_of r digest now =
     \<lparr>st_action = x_id r, st_approval = x_approval_id r, st_operation_id = x_operation_id r,
      st_name = x_operation_name r, st_key = x_key r, st_digest = digest, st_now = now,
      st_held = None, st_operation = None, st_input = None\<rparr>"

definition external_job_input :: "uuid \<Rightarrow> json" where
  "external_job_input i =
     JObject [(utext_of ''external_action_id'', JString (utext_of (uuid_text i)))]"

text \<open>The durable refusal of a guard: the approval of a hold that never ran.\<close>

definition queue_refused ::
  "('i, 'o, 's, 'w) env \<Rightarrow> ('i, 'o, 's) settle \<Rightarrow> guard_refusal \<Rightarrow> 's ws_db \<Rightarrow> exc + 's ws_db" where
  "queue_refused env s refusal db =
     attempt (action_terminal s XRefused
       (if fst refusal = ''DestinationGuard'' then Destination_Unavailable_No_Effect
        else Permanent_Refusal_No_Effect) guard_refused (e_wording env refusal) db) (\<lambda>db1.
     attempt (demand Raise_Error (on_approvals (mark_guard_refused (st_approval s)) db1)) (\<lambda>db2.
     attempt (demand Raise_Error (on_operations
       (finish_held_failed (st_operation_id s) (st_now s) guard_refused
          (short (e_wording env refusal))) db2)) (\<lambda>db3.
     attempt (envelope_error s EnRefused guard_refused (e_wording env refusal) db3) (\<lambda>db4.
     settle_audit env s audit_refused False db4))))"

definition queue_job ::
  "('i, 'o, 's, 'w) env \<Rightarrow> external_action \<Rightarrow> approval \<Rightarrow> uuid \<Rightarrow> instant \<Rightarrow> 's ws_db \<Rightarrow>
   exc + 's ws_db" where
  "queue_job env action approval fresh now db =
     (case enqueue_job fresh (\<lambda>i. i \<in> o_id ` set (db_operations db)) external_action_execute
             (external_job_input (x_id action)) now (e_max_attempts env) None None False
             (db_jobs db) of
        Inl e \<Rightarrow> Inl Raise_Error
      | Inr (_, t) \<Rightarrow>
          attempt (demand Raise_Error
            (on_actions (attach_job (x_id action) fresh now) (db\<lparr>db_jobs := t\<rparr>))) (\<lambda>db1.
          demand Raise_Error
            (on_operations (start_held (ap_operation_id approval) now) db1)))"

text \<open>The binding an approval of a staged action is rechecked against.\<close>

definition queue_binding ::
  "('i, 'o, 's, 'w) env \<Rightarrow> approval \<Rightarrow> external_action \<Rightarrow> instant \<Rightarrow> 's ws_db \<Rightarrow>
   string + ('i, 'o, 's) registered \<times> 'i \<times> nat list" where
  "queue_binding env approval action now db =
     (case e_registry env (ap_operation_name approval) of
        None \<Rightarrow> Inl ''operation_unknown''
      | Some oper \<Rightarrow>
     (case payload_body (ap_id approval) (db_payloads db) of
        None \<Rightarrow> Inl invalid_approval
      | Some body \<Rightarrow>
     (case rg_validate oper body of
        None \<Rightarrow> Inl invalid_approval
      | Some inp \<Rightarrow>
          (let digest = payload_digest env (rg_dump oper inp)
           in if binding_detail (ap_payload_digest approval) digest (ap_window_start approval)
                   (ap_window_end approval) now \<noteq> None \<or> digest \<noteq> x_payload_digest action
              then Inl invalid_approval else Inr (oper, inp, digest)))))"

definition queue_approved_external ::
  "('i, 'o, 's, 'w) env \<Rightarrow> caller \<Rightarrow> approval \<Rightarrow> external_action \<Rightarrow> uuid \<Rightarrow> instant \<Rightarrow> 's ws_db \<Rightarrow>
   exc + 's ws_db" where
  "queue_approved_external env ctx approval action fresh now db =
     (case queue_binding env approval action now db of
        Inl state \<Rightarrow> Inl (Raise_Refused state)
      | Inr (oper, inp, digest) \<Rightarrow>
         (let held = context_for_approved_execution (e_control env) db (cx_workspace ctx) approval
          in case run_guards env oper (case held of Inl _ \<Rightarrow> ctx | Inr h \<Rightarrow> h) db approval inp now
                    (effective_guards_for env oper) of
               Some refusal \<Rightarrow>
                 queue_refused env
                   ((settle_of action digest now)
                      \<lparr>st_approval := ap_id approval, st_operation_id := ap_operation_id approval,
                       st_held := (case held of Inl _ \<Rightarrow> None | Inr h \<Rightarrow> Some h),
                       st_operation := Some oper, st_input := Some inp\<rparr>) refusal db
             | None \<Rightarrow>
                 (case held of
                    Inl state \<Rightarrow> Inl (Raise_Refused state)
                  | Inr h \<Rightarrow> queue_job env action approval fresh now db)))"

definition refuse_staged_external ::
  "external_action \<Rightarrow> instant \<Rightarrow> 's ws_db \<Rightarrow> exc + 's ws_db" where
  "refuse_staged_external action now db =
     (let s = (settle_of action (x_payload_digest action) now :: (unit, unit, 's) settle);
          detail = ''the approval was refused before any effect''
      in attempt (action_terminal s XRefused Cancelled_No_Effect approval_refused detail db)
           (\<lambda>db1. envelope_error s EnRefused approval_refused detail db1))"

section \<open>Who may see and decide\<close>

definition eligible :: "('i, 'o, 's, 'w) env \<Rightarrow> caller \<Rightarrow> bool" where
  "eligible env ctx \<longleftrightarrow>
     cx_actor_kind ctx = Account_Actor \<and> cx_actor_id ctx \<noteq> None \<and>
     cx_account ctx = cx_actor_id ctx \<and> cx_role ctx \<in> set approval_roles \<and>
     (case get_membership (e_control env) (the (cx_actor_id ctx)) (cx_workspace ctx) of
        None \<Rightarrow> False | Some m \<Rightarrow> mb_role m \<in> set approval_roles)"

datatype subject_access = Access_Read | Access_Erasure | Access_None

definition subject_access_of ::
  "('i, 'o, 's, 'w) env \<Rightarrow> caller \<Rightarrow> 's ws_db \<Rightarrow> ('i, 'o, 's) verified \<Rightarrow> subject_access" where
  "subject_access_of env ctx db v =
     (case vf_subject v of
        None \<Rightarrow> Access_Read
      | Some ref \<Rightarrow>
          (case resolve_in env ref ctx db of
             Inr _ \<Rightarrow> Access_Read
           | Inl _ \<Rightarrow>
               if rg_name (vf_operation v) \<noteq> record_delete then Access_None
               else if pre_mint_refusal env ctx db (vf_operation v) (vf_input v) = None
               then Access_Erasure else Access_None))"

definition held_caller_resolves ::
  "('i, 'o, 's, 'w) env \<Rightarrow> caller \<Rightarrow> 's ws_db \<Rightarrow> approval \<Rightarrow> ('i, 'o, 's) verified \<Rightarrow> bool" where
  "held_caller_resolves env ctx db row v =
     (case vf_subject v of
        None \<Rightarrow> True
      | Some ref \<Rightarrow>
          (case context_for_approved_execution (e_control env) db (cx_workspace ctx) row of
             Inl _ \<Rightarrow> False
           | Inr held \<Rightarrow> (case resolve_in env ref held db of Inl _ \<Rightarrow> False | Inr _ \<Rightarrow> True)))"

definition stored_subject_visible ::
  "('i, 'o, 's, 'w) env \<Rightarrow> caller \<Rightarrow> 's ws_db \<Rightarrow> approval \<Rightarrow> bool" where
  "stored_subject_visible env ctx db row =
     (case ap_subject_ref row of
        None \<Rightarrow> True
      | Some txt \<Rightarrow>
          (case parse_ref txt of
             Inl _ \<Rightarrow> False
           | Inr ref \<Rightarrow> (case resolve_in env ref ctx db of Inl _ \<Rightarrow> False | Inr _ \<Rightarrow> True)))"

definition viewer_sees ::
  "('i, 'o, 's, 'w) env \<Rightarrow> caller \<Rightarrow> 's ws_db \<Rightarrow> approval \<Rightarrow> bool" where
  "viewer_sees env ctx db row =
     (case verify_snapshot env row db of
        Inl _ \<Rightarrow> stored_subject_visible env ctx db row
      | Inr v \<Rightarrow> subject_access_of env ctx db v \<noteq> Access_None)"

section \<open>The preview\<close>

datatype preview_status = Pv_Pending | Pv_Restored | Pv_Expired | Pv_Resolved | Pv_Invalid
  | Pv_Unavailable

definition display_status :: "approval \<Rightarrow> instant \<Rightarrow> preview_status" where
  "display_status row now =
     (case ap_state row of
        ApPending \<Rightarrow> if ap_window_start row \<le> now \<and> now \<le> ap_window_end row then Pv_Pending
                     else Pv_Expired
      | ApRequires_Reapproval \<Rightarrow> Pv_Restored
      | ApExpired \<Rightarrow> Pv_Expired
      | ApApproved \<Rightarrow> Pv_Resolved
      | ApExecuted \<Rightarrow> Pv_Resolved
      | ApRefused \<Rightarrow> Pv_Resolved
      | ApInvalidated \<Rightarrow> Pv_Invalid)"

definition actionable :: "preview_status \<Rightarrow> bool" where
  "actionable s \<longleftrightarrow> s = Pv_Pending \<or> s = Pv_Restored"

text \<open>The disclosed fields, and the three redacted answers.\<close>

record preview_content =
  pc_approval_id :: uuid
  pc_operation_id :: uuid
  pc_external_action_id :: "uuid option"
  pc_operation_name :: string
  pc_requester_kind :: string
  pc_requester_id :: "uuid option"
  pc_subject :: "string option"
  pc_destination :: "string option"
  pc_payload :: json
  pc_digest :: "nat list"
  pc_purpose :: "string option"
  pc_window_start :: instant
  pc_window_end :: instant
  pc_durable_state :: approval_state

datatype preview =
  Redacted | Redacted_Refusable | Invalid_Preview | Disclosed preview_status preview_content

definition preview_handler ::
  "('i, 'o, 's, 'w) env \<Rightarrow> caller \<Rightarrow> uuid \<Rightarrow> instant \<Rightarrow> 's ws_db \<Rightarrow> preview" where
  "preview_handler env ctx i now db =
     (if \<not> eligible env ctx then Redacted
      else case get_approval i (db_approvals db) of None \<Rightarrow> Redacted
      | Some row \<Rightarrow>
     (case verify_snapshot env row db of
        Inl c \<Rightarrow>
          if c = Snap_Staged_Absent \<and> ap_state row = ApRequires_Reapproval \<and>
             stored_subject_visible env ctx db row
          then Redacted_Refusable else Redacted
      | Inr v \<Rightarrow>
         (let access = subject_access_of env ctx db v; status = display_status row now
          in if access = Access_None \<or> status = Pv_Unavailable then Redacted
             else if actionable status \<and> access = Access_Erasure \<and>
                     \<not> held_caller_resolves env ctx db row v
             then Invalid_Preview
             else if status = Pv_Invalid then Invalid_Preview
             else Disclosed status
               \<lparr>pc_approval_id = ap_id row, pc_operation_id = ap_operation_id row,
                pc_external_action_id =
                  map_option x_id (get_for_approval (ap_id row) (db_actions db)),
                pc_operation_name = ap_operation_name row,
                pc_requester_kind = ap_actor_kind row, pc_requester_id = ap_actor_id row,
                pc_subject = map_option format_ref (vf_subject v),
                pc_destination = vf_destination v, pc_payload = vf_payload v,
                pc_digest = ap_payload_digest row, pc_purpose = ap_purpose row,
                pc_window_start = ap_window_start row, pc_window_end = ap_window_end row,
                pc_durable_state = ap_state row\<rparr>)))"

section \<open>The decisions\<close>

definition lock_for_decision ::
  "('i, 'o, 's, 'w) env \<Rightarrow> caller \<Rightarrow> uuid \<Rightarrow> 's ws_db \<Rightarrow>
   exc + approval \<times> (snapshot_cause + ('i, 'o, 's) verified)" where
  "lock_for_decision env ctx i db =
     (case get_approval i (db_approvals db) of
        None \<Rightarrow> Inl (Raise_Refused ''not_found'')
      | Some row \<Rightarrow>
          if \<not> eligible env ctx \<or> \<not> viewer_sees env ctx db row
          then Inl (Raise_Refused ''not_found'')
          else Inr (row, verify_snapshot env row db))"

definition decidable :: "approval \<Rightarrow> bool" where
  "decidable row \<longleftrightarrow> ap_state row = ApPending \<or> ap_state row = ApRequires_Reapproval"

definition approve_handler ::
  "('i, 'o, 's, 'w) env \<Rightarrow> caller \<Rightarrow> uuid \<Rightarrow> nat list option \<Rightarrow> uuid \<Rightarrow> instant \<Rightarrow> 's ws_db \<Rightarrow>
   exc + approval \<times> 's ws_db" where
  "approve_handler env ctx i displayed fresh now db =
     attempt (lock_for_decision env ctx i db) (\<lambda>(row, v).
     if \<not> decidable row then Inl (Raise_Refused ''approval_state'')
     else (case v of Inl c \<Rightarrow> Inl (Raise_Refused (snapshot_state c)) | Inr _ \<Rightarrow>
       if ap_state row = ApPending \<and> \<not> (ap_window_start row \<le> now \<and> now \<le> ap_window_end row)
       then Inl (Raise_Refused invalid_approval)
       else if (case displayed of None \<Rightarrow> False | Some d \<Rightarrow> d \<noteq> ap_payload_digest row)
       then Inl (Raise_Refused ''approval_digest_mismatch'')
       else attempt (demand (Raise_Refused ''approval_state'')
              (on_approvals (mark_approved i (actor_kind_text (cx_actor_kind ctx))
                 (cx_actor_id ctx) (cx_entry ctx) now
                 (if ap_state row = ApRequires_Reapproval
                  then Some (now + seconds (window_seconds env)) else None)) db)) (\<lambda>db1.
            (case get_approval i (db_approvals db1) of
               None \<Rightarrow> Inl (Raise_Refused ''not_found'')
             | Some approved \<Rightarrow>
                 attempt
                   (case get_for_approval i (db_actions db1) of
                      Some staged \<Rightarrow>
                        queue_approved_external env ctx approved staged fresh now db1
                    | None \<Rightarrow> attempt (execute_approved env ctx approved now db1) (\<lambda>(_, d). Inr d))
                   (\<lambda>db2. case get_approval i (db_approvals db2) of
                            None \<Rightarrow> Inl (Raise_Refused ''not_found'')
                          | Some r \<Rightarrow> Inr (r, db2))))))"

definition refuse_handler ::
  "('i, 'o, 's, 'w) env \<Rightarrow> caller \<Rightarrow> uuid \<Rightarrow> nat list option \<Rightarrow> instant \<Rightarrow> 's ws_db \<Rightarrow>
   exc + approval \<times> 's ws_db" where
  "refuse_handler env ctx i displayed now db =
     attempt (lock_for_decision env ctx i db) (\<lambda>(row, _).
     if \<not> decidable row then Inl (Raise_Refused ''approval_state'')
     else if (case displayed of None \<Rightarrow> False | Some d \<Rightarrow> d \<noteq> ap_payload_digest row)
     then Inl (Raise_Refused ''approval_digest_mismatch'')
     else attempt (demand (Raise_Refused ''approval_state'') (on_approvals (mark_refused i) db))
       (\<lambda>db1.
     attempt (demand (Raise_Refused ''approval_state'')
       (on_operations (finish_held_cancelled (ap_operation_id row) now) db1)) (\<lambda>db2.
     attempt
       (case get_for_approval i (db_actions db2) of
          None \<Rightarrow> Inr db2
        | Some staged \<Rightarrow> refuse_staged_external staged now db2) (\<lambda>db3.
     case get_approval i (db_approvals db3) of
       None \<Rightarrow> Inl (Raise_Refused ''not_found'')
     | Some r \<Rightarrow> Inr (r, db3)))))"

end
