(* ===== verification/Staging.thy ===== *)
theory Staging
  imports Held_Calls
begin

text \<open>
  \<^verbatim>\<open>operations/transaction.py\<close>: staging a keyed external request inside its caller's
  transaction, the replay of a repeat, and the synchronous call of a registered operation.

  Staging runs in a savepoint: \<open>Inl\<close> leaves the database as it was.
\<close>

section \<open>Staging\<close>

record ('o) staged =
  sg_action :: uuid
  sg_approval :: uuid
  sg_operation :: uuid
  sg_state :: action_state
  sg_created :: bool
  sg_retained :: "'o retained_replay option"

definition schema_incompatible :: string where
  "schema_incompatible = ''idempotency_schema_incompatible''"

text \<open>The audit outcome of a repeat: a hold while unsettled, then the retained outcome.\<close>

definition replay_audit :: "string \<Rightarrow> envelope_state \<Rightarrow> string" where
  "replay_audit state en =
     (if state = ''pending'' then audit_refused
      else if state = ''succeeded'' then audit_succeeded
      else if en = EnRefused \<or> en = EnCancelled then audit_refused
      else audit_failed)"

definition replay_staged ::
  "('i, 'o, 's, 'w) env \<Rightarrow> caller \<Rightarrow> ('i, 'o, 's) registered \<Rightarrow> envelope \<Rightarrow> canonical_request \<Rightarrow>
   'i \<Rightarrow> nat list \<Rightarrow> 's ws_db \<Rightarrow> exc + 'o staged \<times> 's ws_db" where
  "replay_staged env ctx oper row request inp digest db =
     (case replay (e_sha256 env) (e_adapters env) (rg_keyed oper) (rg_name oper)
             (rg_validate_output oper) row request of
        Inl _ \<Rightarrow> Inl (Raise_Refused schema_incompatible)
      | Inr retained \<Rightarrow>
          if rr_error_code retained = Some key_reused then Inl (Raise_Refused key_reused)
          else (case get_for_key (rg_name oper) (cr_key request) (db_actions db) of
            None \<Rightarrow> Inl (Raise_Refused schema_incompatible)
          | Some action \<Rightarrow>
              if Some (x_operation_id action) \<noteq> rr_operation_id retained
              then Inl (Raise_Refused schema_incompatible)
              else attempt (demand (Raise_Refused ''audit_sink_missing'')
                     (record_operation_audit env ctx oper digest inp
                        (replay_audit (rr_state retained) (en_state row))
                        (Some (x_operation_id action)) db)) (\<lambda>db1.
                   Inr (\<lparr>sg_action = x_id action, sg_approval = x_approval_id action,
                         sg_operation = x_operation_id action, sg_state = x_state action,
                         sg_created = False, sg_retained = Some retained\<rparr>, db1))))"

text \<open>What is refused before anything is written: the declaration, the input, the destination, the
  payload's size and the canonical request.\<close>

definition stage_request ::
  "('i, 'o, 's, 'w) env \<Rightarrow> caller \<Rightarrow> string \<Rightarrow> json \<Rightarrow>
   string + ('i, 'o, 's) registered \<times> 'i \<times> keyed_spec \<times> string \<times> canonical_request" where
  "stage_request env ctx name payload =
     (case authorize env ctx name of Inl state \<Rightarrow> Inl state
      | Inr oper \<Rightarrow>
        if rg_safety oper \<noteq> External \<and> rg_safety oper \<noteq> Financial
        then Inl ''external_staging_forbidden''
        else (case rg_keyed oper of None \<Rightarrow> Inl ''external_staging_forbidden''
        | Some spec \<Rightarrow>
       (case rg_external oper of None \<Rightarrow> Inl ''external_staging_forbidden''
        | Some ref \<Rightarrow>
       (case rg_validate oper payload of None \<Rightarrow> Inl ''input_invalid''
        | Some inp \<Rightarrow>
          if (case rg_destination oper inp of None \<Rightarrow> True | Some d \<Rightarrow> text_blank d)
          then Inl ''input_invalid''
          else if rg_destination oper inp \<noteq> Some ref then Inl ''input_invalid''
          else if int (payload_bytes (rg_dump oper inp)) > e_max_payload_bytes env
          then Inl ''approval_payload_too_large''
          else (case canonical_request (e_sha256 env) (rg_keyed oper) (rg_name oper)
                       (rg_key oper inp) (rg_project oper inp) of
                  Inl _ \<Rightarrow> Inl ''input_invalid''
                | Inr request \<Rightarrow> Inr (oper, inp, spec, ref, request))))))"

definition seconds_per_day :: int where "seconds_per_day = 86400"

text \<open>The create path: the record, the approval, the hold, the action and the audit row. \<open>source\<close> is
  the caller's source reference.\<close>

definition stage_new ::
  "('i, 'o, 's, 'w) env \<Rightarrow> caller \<Rightarrow> ('i, 'o, 's) registered \<Rightarrow> 'i \<Rightarrow> keyed_spec \<Rightarrow> string \<Rightarrow>
   utext \<Rightarrow> string option \<Rightarrow> uuid \<Rightarrow> uuid \<Rightarrow> uuid \<Rightarrow> instant \<Rightarrow> 's ws_db \<Rightarrow>
   exc + 'o staged \<times> 's ws_db" where
  "stage_new env ctx oper inp spec ref key source fresh_op fresh_ap fresh_act now db =
     (let subject = audit_subject oper inp;
          subject_text = map_option format_ref subject;
          digest = payload_digest env (rg_dump oper inp)
      in attempt (mint_for ctx oper fresh_op now db) (\<lambda>(operation_id, db1).
         attempt (create_for env ctx oper fresh_ap operation_id (Some ref) subject
                    (subject_revision env ctx db subject) (rg_dump oper inp) now db1)
           (\<lambda>(approval_id, db2).
         attempt (demand Raise_Error
           (on_operations (mark_approval_required operation_id approval_id) db2)) (\<lambda>db3.
         (case create_pending
                 (new_action fresh_act operation_id approval_id (rg_name oper) subject_text
                    (case source of None \<Rightarrow> subject_text | Some s \<Rightarrow> Some s) ref digest key
                    (ks_request_version spec) (ks_result_version spec) now) (db_actions db3) of
            Inl e \<Rightarrow> Inl Raise_Error
          | Inr t \<Rightarrow>
              attempt (demand (Raise_Refused ''audit_sink_missing'')
                (record_operation_audit env ctx oper digest inp audit_refused (Some operation_id)
                   (db3\<lparr>db_actions := t\<rparr>))) (\<lambda>db4.
              Inr (\<lparr>sg_action = fresh_act, sg_approval = approval_id,
                    sg_operation = operation_id, sg_state = XPending, sg_created = True,
                    sg_retained = None\<rparr>, db4)))))))"

definition stage_external_in_transaction ::
  "('i, 'o, 's, 'w) env \<Rightarrow> caller \<Rightarrow> string \<Rightarrow> json \<Rightarrow> string option \<Rightarrow> uuid \<Rightarrow> uuid \<Rightarrow> uuid \<Rightarrow>
   instant \<Rightarrow> 's ws_db \<Rightarrow> exc + 'o staged \<times> 's ws_db" where
  "stage_external_in_transaction env ctx name payload source fresh_op fresh_ap fresh_act now db =
     (case stage_request env ctx name payload of
        Inl state \<Rightarrow> Inl (Raise_Refused state)
      | Inr (oper, inp, spec, ref, request) \<Rightarrow>
          if \<not> e_ready env (rg_module oper) db then Inl Raise_Error
          else (case reserve (e_jsonb env) (rg_keyed oper) (rg_name oper) request (Some fresh_op)
                       now (now + seconds (e_retention_days env * seconds_per_day))
                       (db_envelopes db) of
                  Inl e \<Rightarrow> Inl Raise_Error
                | Inr (created, row, t) \<Rightarrow>
                    if \<not> created
                    then replay_staged env ctx oper row request inp
                           (payload_digest env (rg_dump oper inp)) (db\<lparr>db_envelopes := t\<rparr>)
                    else if has_action_for_key (rg_name oper) (cr_key request) (db_actions db)
                    then Inl (Raise_Refused key_reused)
                    else if availability_problem env ctx (db\<lparr>db_envelopes := t\<rparr>) ref
                              (rg_name oper) \<noteq> None
                    then Inl (Raise_Refused ''destination_guard_refused'')
                    else stage_new env ctx oper inp spec ref (cr_key request) source fresh_op
                           fresh_ap fresh_act now (db\<lparr>db_envelopes := t\<rparr>)))"

section \<open>A synchronous call\<close>

text \<open>\<open>long_running\<close> is a flag of the declaration. The audit row's digest is that of the raw
  payload.\<close>

definition callable_in_transaction :: "bool \<Rightarrow> ('i, 'o, 's) registered \<Rightarrow> bool" where
  "callable_in_transaction long_running oper \<longleftrightarrow>
     \<not> long_running \<and> rg_safety oper \<in> {Read_Class, Mutate_Class, Draft_Class}"

definition call_in_transaction ::
  "('i, 'o, 's, 'w) env \<Rightarrow> (string \<Rightarrow> bool) \<Rightarrow> caller \<Rightarrow> string \<Rightarrow> json \<Rightarrow> nat list \<Rightarrow> 's ws_db \<Rightarrow>
   exc + 'o \<times> 's ws_db" where
  "call_in_transaction env long_running ctx name payload request_digest db =
     (case authorize env ctx name of Inl state \<Rightarrow> Inl (Raise_Refused state)
      | Inr oper \<Rightarrow>
        if \<not> callable_in_transaction (long_running name) oper
        then Inl (Raise_Refused ''transaction_call_forbidden'')
        else if rg_safety oper \<noteq> Read_Class \<and> \<not> e_sinks env (rg_module oper)
        then Inl (Raise_Refused ''audit_sink_missing'')
        else (case rg_validate oper payload of None \<Rightarrow> Inl (Raise_Refused ''input_invalid'')
        | Some inp \<Rightarrow>
          if \<not> e_ready env (rg_module oper) db then Inl Raise_Error
          else (case rg_handler oper ctx None db inp of
                  Raises_Stale \<Rightarrow> Inl Raise_Error
                | Raises_Refused state \<Rightarrow> Inl (Raise_Refused state)
                | Raises_Other \<Rightarrow> Inl Raise_Error
                | Returns out data \<Rightarrow>
                    if \<not> rg_is_output oper out then Inl (Raise_Refused ''output_invalid'')
                    else Inr (out, snd (record_operation_audit env ctx oper request_digest inp
                                     audit_succeeded None (db\<lparr>db_data := data\<rparr>))))))"

end
