(* ===== verification/Continuation.thy ===== *)
theory Continuation
  imports Decisions Staging
begin

text \<open>
  \<^verbatim>\<open>operations/continuation.py\<close>: the grant under which a leased job may continue one external
  action, the proof of what an earlier lease did, the effect, and the manual resolution of an
  unresolved action.

  \<open>'w\<close> is the world outside the database. A destination's \<^verbatim>\<open>execute\<close> may change it and no rollback
  takes that back, so a continuation answers the new world beside its result even when it raises.
\<close>

section \<open>The grant\<close>

definition job_problems :: "external_action \<Rightarrow> string \<Rightarrow> json job option \<Rightarrow> bind_problem list" where
  "job_problems r owner job =
     (case job of None \<Rightarrow> [Job_Missing]
      | Some j \<Rightarrow>
          (if j_kind j = external_action_execute then [] else [Job_Kind_Differs]) @
          (if j_state j = JobLeased \<and> j_lease_owner j = Some owner then [] else [Job_Not_Ours]) @
          (if j_operation_id j = None then [] else [Job_Has_Operation]) @
          (if j_input j = external_job_input (x_id r) then []
           else [Job_Payload_Differs]))"

definition approval_problems :: "external_action \<Rightarrow> approval option \<Rightarrow> bind_problem list" where
  "approval_problems r approval =
     (case approval of None \<Rightarrow> [Approval_Missing]
      | Some p \<Rightarrow>
          (if ap_state p = ApApproved then [] else [Approval_Is (ap_state p)]) @
          (if ap_operation_id p = x_operation_id r \<and> ap_operation_name p = x_operation_name r
           then [] else [Approval_Other_Operation]) @
          (if ap_destination_ref p = Some (x_destination_ref r) then []
           else [Approval_Destination_Differs]) @
          (if ap_payload_digest p = x_payload_digest r then [] else [Approval_Digest_Differs]))"

definition operation_problems :: "external_action \<Rightarrow> operation option \<Rightarrow> bind_problem list" where
  "operation_problems r oper =
     (case oper of None \<Rightarrow> [Operation_Missing]
      | Some o' \<Rightarrow>
          (if o_name o' = x_operation_name r \<and> o_approval_id o' = Some (x_approval_id r) then []
           else [Operation_Other_Action]) @
          (if o_state o' = OpRunning then [] else [Operation_Is (o_state o')]))"

definition reservation_problems :: "external_action \<Rightarrow> envelope option \<Rightarrow> bind_problem list" where
  "reservation_problems r env =
     (case env of None \<Rightarrow> [Reservation_Missing]
      | Some e \<Rightarrow>
          (if en_state e = EnPending then [] else [Reservation_Is (en_state e)]) @
          (if en_operation_id e = Some (x_operation_id r) then []
           else [Reservation_Other_Operation]) @
          (if en_request_version e = x_request_version r then []
           else [Reservation_Version_Differs]))"

text \<open>The row locks are those of the transaction; the answer is the problems, or what is bound.\<close>

definition lock_and_bind ::
  "uuid \<Rightarrow> uuid \<Rightarrow> string \<Rightarrow> 's ws_db \<Rightarrow> bind_problem list + external_action \<times> approval" where
  "lock_and_bind action_id job_id owner db =
     (case get_action action_id (db_actions db) of
        None \<Rightarrow> Inl [Action_Missing]
      | Some r \<Rightarrow>
         (let approval = get_approval (x_approval_id r) (db_approvals db);
              problems =
                (if x_open_state (x_state r) then [] else [Action_Is (x_state r)]) @
                (if x_job_id r = Some job_id then [] else [Not_Its_Job]) @
                job_problems r owner (lookup_by j_id job_id (db_jobs db)) @
                approval_problems r approval @
                operation_problems r (lookup_by o_id (x_operation_id r) (db_operations db)) @
                reservation_problems r (lookup_by en_ref (x_ref r) (db_envelopes db))
          in case approval of
               None \<Rightarrow> Inl problems
             | Some p \<Rightarrow> if problems \<noteq> [] then Inl problems else Inr (r, p)))"

record grant =
  gr_workspace :: uuid
  gr_job :: uuid
  gr_owner :: string
  gr_action :: uuid
  gr_approval :: uuid
  gr_operation_id :: uuid
  gr_name :: string
  gr_key :: utext
  gr_destination :: string
  gr_digest :: "nat list"
  gr_request_version :: int
  gr_result_version :: int
  gr_attempts :: int
  gr_max_attempts :: int
  gr_mode :: continuation_mode

definition mint_continuation_grant ::
  "uuid \<Rightarrow> json leased_job \<Rightarrow> string \<Rightarrow> continuation_mode \<Rightarrow> uuid \<Rightarrow> 's ws_db \<Rightarrow>
   bind_problem list + grant" where
  "mint_continuation_grant workspace l owner mode action_id db =
     (case lock_and_bind action_id (l_id l) owner db of
        Inl ps \<Rightarrow> Inl ps
      | Inr (r, _) \<Rightarrow>
          Inr \<lparr>gr_workspace = workspace, gr_job = l_id l, gr_owner = owner, gr_action = x_id r,
               gr_approval = x_approval_id r, gr_operation_id = x_operation_id r,
               gr_name = x_operation_name r, gr_key = x_key r,
               gr_destination = x_destination_ref r, gr_digest = x_payload_digest r,
               gr_request_version = x_request_version r, gr_result_version = x_result_version r,
               gr_attempts = l_attempts l, gr_max_attempts = l_max_attempts l, gr_mode = mode\<rparr>)"

definition grant_matches :: "grant \<Rightarrow> external_action \<Rightarrow> bool" where
  "grant_matches g r \<longleftrightarrow>
     x_approval_id r = gr_approval g \<and> x_operation_id r = gr_operation_id g \<and>
     x_operation_name r = gr_name g \<and> x_key r = gr_key g \<and>
     x_destination_ref r = gr_destination g \<and> x_payload_digest r = gr_digest g \<and>
     x_request_version r = gr_request_version g \<and> x_result_version r = gr_result_version g"

section \<open>Asking a provider\<close>

definition provider_request_id :: "uuid \<Rightarrow> string" where
  "provider_request_id i = ''rheo-external-'' @ uuid_text i"

datatype 'o answer = Answer_Found 'o | Answer_Absent | Answer_Error failure_class string string

definition reconcile_external ::
  "('i, 'o, 's) settle \<Rightarrow> ('i, 'o, 's, 'w) destination \<Rightarrow> string option \<Rightarrow> 's ws_db \<Rightarrow> 'w \<Rightarrow>
   'o answer" where
  "reconcile_external s d request_id db w =
     (case (ds_reconcile d, st_held s) of
        (Some ask, Some held) \<Rightarrow>
          (case ask held db request_id w of
             Rec_Raises fclass code detail \<Rightarrow> Answer_Error fclass code detail
           | Rec_Crashes type \<Rightarrow> Answer_Error Outcome_Unknown outcome_unknown type
           | Rec_Absent \<Rightarrow> Answer_Absent
           | Rec_Found out \<Rightarrow>
               if (case st_operation s of None \<Rightarrow> False | Some oper \<Rightarrow> rg_is_output oper out)
               then Answer_Found out
               else Answer_Error Outcome_Unknown outcome_unknown
                      ''reconcile returned no valid declared output'')
      | _ \<Rightarrow> Answer_Error Outcome_Unknown outcome_unknown
               ''the destination cannot be reconciled'')"

text \<open>What an earlier lease did. \<open>Inl\<close> of the inner sum: settled here. \<open>Inr\<close>: absence is proven, with
  the typed error the provider answered, if any, and the database with the asked request id.\<close>

type_synonym typed_error = "failure_class \<times> string \<times> string"

definition asked_values :: "string \<Rightarrow> instant \<Rightarrow> external_action \<Rightarrow> external_action" where
  "asked_values request_id now r = r\<lparr>x_provider_request_id := Some request_id, x_updated_at := now\<rparr>"

definition prior_effect ::
  "('i, 'o, 's, 'w) env \<Rightarrow> ('i, 'o, 's) settle \<Rightarrow> ('i, 'o, 's, 'w) destination option \<Rightarrow>
   string option \<Rightarrow> 's ws_db \<Rightarrow> 'w \<Rightarrow> exc + 's settled + typed_error option \<times> 's ws_db" where
  "prior_effect env s destination stored_id db w =
     (case destination of
        None \<Rightarrow>
          attempt (settle_unresolved env s outcome_unknown
            ''the destination is no longer registered, so absence cannot be proven'' db)
            (\<lambda>r. Inr (Inl r))
      | Some d \<Rightarrow>
          if \<not> ds_provider d then Inr (Inr (None, db))
          else
         (let request_id = (case stored_id of
                              None \<Rightarrow> provider_request_id (st_action s)
                            | Some i \<Rightarrow> if i = [] then provider_request_id (st_action s) else i)
          in attempt (demand Raise_Error (on_actions (update_action (st_action s) x_open_state
               (asked_values request_id (st_now s))) db)) (\<lambda>db1.
             (case reconcile_external s d (Some request_id) db1 w of
                Answer_Found out \<Rightarrow>
                  attempt (settle_success env s out Provider_Status db1) (\<lambda>r. Inr (Inl r))
              | Answer_Error Outcome_Unknown code detail \<Rightarrow>
                  attempt (settle_unresolved env s code detail db1) (\<lambda>r. Inr (Inl r))
              | Answer_Error fclass code detail \<Rightarrow> Inr (Inr (Some (fclass, code, detail), db1))
              | Answer_Absent \<Rightarrow> Inr (Inr (None, db1))))))"

definition recover ::
  "('i, 'o, 's, 'w) env \<Rightarrow> ('i, 'o, 's) settle \<Rightarrow> grant \<Rightarrow> ('i, 'o, 's, 'w) destination option \<Rightarrow>
   string option \<Rightarrow> 's ws_db \<Rightarrow> 'w \<Rightarrow> exc + 's settled" where
  "recover env s g destination stored_id db w =
     (let cancelling = (gr_mode g = Mode_Cancel_Requested);
          code = (if cancelling then continuation_cancelled else budget_exhausted);
          absent = (if cancelling then ''cancelled before any effect''
                    else ''retry budget exhausted with no effect'')
      in if cancelling \<and> gr_attempts g = 0 then settle_cancelled env s code absent db
         else attempt (prior_effect env s destination stored_id db w) (\<lambda>prior.
           case prior of
             Inl r \<Rightarrow> Inr r
           | Inr (_, db1) \<Rightarrow>
               if cancelling then settle_cancelled env s code absent db1
               else settle_failed env s code absent db1))"

section \<open>The checks at effect time\<close>

definition not_ready :: string where "not_ready = ''module_not_ready''"

definition effect_refusal ::
  "('i, 'o, 's, 'w) env \<Rightarrow> ('i, 'o, 's) settle \<Rightarrow> string + caller \<Rightarrow> grant \<Rightarrow> approval \<Rightarrow>
   ('i, 'o, 's, 'w) destination option \<Rightarrow> 's ws_db \<Rightarrow>
   typed_error + ('i, 'o, 's) registered \<times> 'i \<times> caller \<times> ('i, 'o, 's, 'w) destination" where
  "effect_refusal env s held g approval destination db =
     (case st_operation s of
        None \<Rightarrow> Inl (Permanent_Refusal_No_Effect, ''operation_unknown'',
                      gr_name g @ '' is not registered'')
      | Some oper \<Rightarrow>
        if (case rg_keyed oper of None \<Rightarrow> True
            | Some k \<Rightarrow> (ks_request_version k, ks_result_version k) \<noteq>
                        (gr_request_version g, gr_result_version g))
        then Inl (Permanent_Refusal_No_Effect, schema_incompatible,
                  ''the declaration's keyed versions differ from the staged action's'')
        else
     (case st_input s of
        None \<Rightarrow> Inl (Permanent_Refusal_No_Effect, invalid_approval,
                     ''the approved payload no longer validates'')
      | Some inp \<Rightarrow>
        if payload_digest env (rg_dump oper inp) \<noteq> gr_digest g
        then Inl (Permanent_Refusal_No_Effect, invalid_approval,
                  ''the approved payload digest differs'')
        else
     (case held of
        Inl state \<Rightarrow> Inl (Permanent_Refusal_No_Effect, state, e_refusal_text env state)
      | Inr h \<Rightarrow>
     (case authorize env h (gr_name g) of
        Inl state \<Rightarrow> Inl (Permanent_Refusal_No_Effect, state, e_refusal_text env state)
      | Inr _ \<Rightarrow>
        if \<not> e_ready env (rg_module oper) db
        then Inl (Destination_Unavailable_No_Effect, not_ready, e_refusal_text env not_ready)
        else
     (case run_guards env oper h db approval inp (st_now s) (effective_guards_for env oper) of
        Some refusal \<Rightarrow>
          Inl (if fst refusal = ''DestinationGuard'' then Destination_Unavailable_No_Effect
               else Permanent_Refusal_No_Effect, guard_refused, e_wording env refusal)
      | None \<Rightarrow>
     (case destination of
        None \<Rightarrow> Inl (Destination_Unavailable_No_Effect, guard_refused,
                     ''DestinationGuard: destination unregistered'')
      | Some d \<Rightarrow> Inr (oper, inp, h, d)))))))"

section \<open>The effect\<close>

definition executing_values ::
  "int \<Rightarrow> string option \<Rightarrow> instant \<Rightarrow> external_action \<Rightarrow> external_action" where
  "executing_values attempts request_id now r =
     r\<lparr>x_state := XExecuting, x_attempts := attempts, x_provider_request_id := request_id,
       x_updated_at := now\<rparr>"

text \<open>The savepoint: what the destination wrote stays only with a valid output.\<close>

definition invoke ::
  "('i, 'o, 's, 'w) env \<Rightarrow> ('i, 'o, 's) settle \<Rightarrow> grant \<Rightarrow>
   ('i, 'o, 's) registered \<times> 'i \<times> caller \<times> ('i, 'o, 's, 'w) destination \<Rightarrow> 's ws_db \<Rightarrow> 'w \<Rightarrow>
   (exc + 's settled) \<times> 'w" where
  "invoke env s g = (\<lambda>(oper, inp, held, d) db w.
     (let (result, w') = ds_execute d held (gr_operation_id g) db inp w
      in (case result of
            Exec_Raises fclass code detail \<Rightarrow>
              classified env s (gr_attempts g) (gr_max_attempts g)
                (if \<not> ds_provider d \<and> fclass = Outcome_Unknown then Retryable_No_Effect
                 else fclass) code detail db
          | Exec_Crashes type \<Rightarrow>
              classified env s (gr_attempts g) (gr_max_attempts g)
                (if ds_provider d then Outcome_Unknown else Retryable_No_Effect)
                destination_failed type db
          | Exec_Returns out data \<Rightarrow>
              if \<not> rg_is_output oper out
              then if ds_provider d
                   then settle_unresolved env s outcome_unknown
                          ''the provider returned no valid declared output'' db
                   else settle_refused env s Permanent_Refusal_No_Effect ''output_invalid''
                          ''the destination returned invalid output'' db
              else settle_success env s out
                     (if ds_provider d then Provider_Status else Handler_Returned)
                     (db\<lparr>db_data := data\<rparr>), w')))"

text \<open>\<open>prior\<close>: what the provider already answered under this lease, \<open>None\<close> when it was not asked.\<close>

definition effect ::
  "('i, 'o, 's, 'w) env \<Rightarrow> ('i, 'o, 's) settle \<Rightarrow> grant \<Rightarrow> int \<Rightarrow> typed_error option option \<Rightarrow>
   ('i, 'o, 's) registered \<times> 'i \<times> caller \<times> ('i, 'o, 's, 'w) destination \<Rightarrow> 's ws_db \<Rightarrow> 'w \<Rightarrow>
   (exc + 's settled) \<times> 'w" where
  "effect env s g attempts prior target db w =
     (let d = snd (snd (snd target));
          request_id = (if ds_provider d then Some (provider_request_id (gr_action g)) else None)
      in case demand Raise_Error (on_actions (update_action (gr_action g) x_open_state
                (executing_values (attempts + 1) request_id (st_now s))) db) of
           Inl e \<Rightarrow> (Inl e, w)
         | Inr db1 \<Rightarrow>
             if \<not> ds_provider d then invoke env s g target db1 w
             else (case (case prior of
                           None \<Rightarrow> reconcile_external s d request_id db1 w
                         | Some None \<Rightarrow> Answer_Absent
                         | Some (Some (fclass, code, detail)) \<Rightarrow> Answer_Error fclass code detail) of
                     Answer_Found out \<Rightarrow> (settle_success env s out Provider_Status db1, w)
                   | Answer_Error fclass code detail \<Rightarrow>
                       (classified env s (gr_attempts g) (gr_max_attempts g) fclass code detail db1,
                        w)
                   | Answer_Absent \<Rightarrow> invoke env s g target db1 w))"

section \<open>The continuation\<close>

definition settle_for ::
  "('i, 'o, 's, 'w) env \<Rightarrow> grant \<Rightarrow> string + caller \<Rightarrow> instant \<Rightarrow> 's ws_db \<Rightarrow> ('i, 'o, 's) settle" where
  "settle_for env g held now db =
     \<lparr>st_action = gr_action g, st_approval = gr_approval g, st_operation_id = gr_operation_id g,
      st_name = gr_name g, st_key = gr_key g, st_digest = gr_digest g, st_now = now,
      st_held = (case held of Inl _ \<Rightarrow> None | Inr h \<Rightarrow> Some h),
      st_operation = e_registry env (gr_name g),
      st_input = (case (e_registry env (gr_name g), payload_body (gr_approval g) (db_payloads db)) of
                    (Some oper, Some body) \<Rightarrow> rg_validate oper body | _ \<Rightarrow> None)\<rparr>"

definition run_mode ::
  "('i, 'o, 's, 'w) env \<Rightarrow> ('i, 'o, 's) settle \<Rightarrow> string + caller \<Rightarrow> grant \<Rightarrow> external_action \<Rightarrow>
   approval \<Rightarrow> ('i, 'o, 's, 'w) destination option \<Rightarrow> 's ws_db \<Rightarrow> 'w \<Rightarrow> (exc + 's settled) \<times> 'w" where
  "run_mode env s held g action approval destination db w =
     (let go = (\<lambda>prior db1.
        case effect_refusal env s held g approval destination db1 of
          Inl (fclass, code, detail) \<Rightarrow> (settle_refused env s fclass code detail db1, w)
        | Inr target \<Rightarrow> effect env s g (x_attempts action) prior target db1 w)
      in if gr_attempts g > 1
         then (case prior_effect env s destination (x_provider_request_id action) db w of
                 Inl e \<Rightarrow> (Inl e, w)
               | Inr (Inl r) \<Rightarrow> (Inr r, w)
               | Inr (Inr (p, db1)) \<Rightarrow> go (Some p) db1)
         else go None db)"

definition grant_refused ::
  "('i, 'o, 's, 'w) env \<Rightarrow> bind_problem list \<Rightarrow> disposition \<times> string option" where
  "grant_refused env ps = (Disp_Failed, Some (''grant_refused: '' @ e_bind_text env ps))"

text \<open>The rows are locked and matched again: a grant does not outlive the binding it attests. An
  empty list of problems stands for a grant that does not match.\<close>

definition continue_approved_external_in_transaction ::
  "('i, 'o, 's, 'w) env \<Rightarrow> grant \<Rightarrow> instant \<Rightarrow> 's ws_db \<Rightarrow> 'w \<Rightarrow> (exc + 's settled) \<times> 'w" where
  "continue_approved_external_in_transaction env g now db w =
     (case lock_and_bind (gr_action g) (gr_job g) (gr_owner g) db of
        Inl ps \<Rightarrow> (Inr (grant_refused env ps, db), w)
      | Inr (action, approval) \<Rightarrow>
          if \<not> grant_matches g action then (Inr (grant_refused env [], db), w)
          else
         (let held = context_for_approved_execution (e_control env) db (gr_workspace g) approval;
              s = settle_for env g held now db;
              destination = e_destinations env (gr_destination g)
          in if gr_mode g \<noteq> Mode_Run
             then (recover env s g destination (x_provider_request_id action) db w, w)
             else run_mode env s held g action approval destination db w))"

text \<open>The registered continuation, as the loop calls it on a leased job.\<close>

definition run_external_continuation ::
  "('i, 'o, 's, 'w) env \<Rightarrow> uuid \<Rightarrow> json leased_job \<Rightarrow> string \<Rightarrow> continuation_mode \<Rightarrow> instant \<Rightarrow>
   's ws_db \<Rightarrow> 'w \<Rightarrow> (exc + 's settled) \<times> 'w" where
  "run_external_continuation env workspace l owner mode now db w =
     (case e_job_action env (l_payload l) of
        None \<Rightarrow>
          (Inr ((Disp_Failed,
                 Some ''grant_refused: the job payload is not one external action id''), db), w)
      | Some action_id \<Rightarrow>
          (case mint_continuation_grant workspace l owner mode action_id db of
             Inl ps \<Rightarrow> (Inr (grant_refused env ps, db), w)
           | Inr g \<Rightarrow> continue_approved_external_in_transaction env g now db w))"

section \<open>The manual resolution\<close>

definition resolution_unverified :: string where
  "resolution_unverified = ''external_resolution_unverified''"

text \<open>\<open>Inr v\<close>: what the destination says, when the outcome needs it.\<close>

definition verify_resolution ::
  "('i, 'o, 's, 'w) env \<Rightarrow> caller \<Rightarrow> external_action \<Rightarrow> op_state \<Rightarrow> 's ws_db \<Rightarrow> 'w \<Rightarrow>
   exc + 'o option" where
  "verify_resolution env ctx r outcome db w =
     (if outcome \<noteq> OpSucceeded \<and> outcome \<noteq> OpFailed then Inr None
      else (case (e_destinations env (x_destination_ref r), e_registry env (x_operation_name r)) of
              (Some d, Some oper) \<Rightarrow>
                (case ds_reconcile d of
                   None \<Rightarrow> Inl (Raise_Refused resolution_unverified)
                 | Some ask \<Rightarrow>
                     (case ask ctx db (x_provider_request_id r) w of
                        Rec_Found out \<Rightarrow> Inr (Some out)
                      | Rec_Absent \<Rightarrow> Inr None
                      | _ \<Rightarrow> Inl (Raise_Refused resolution_unverified)))
            | _ \<Rightarrow> Inl (Raise_Refused resolution_unverified)))"

definition en_unresolved_at :: "string \<times> utext \<Rightarrow> envelope \<Rightarrow> bool" where
  "en_unresolved_at k r \<longleftrightarrow> en_ref r = k \<and> en_state r = EnUnresolved"

text \<open>The new values of the action and of its reservation.\<close>

definition resolved_action ::
  "op_state \<Rightarrow> string \<Rightarrow> string option \<Rightarrow> json option \<Rightarrow> instant \<Rightarrow> external_action \<Rightarrow>
   external_action" where
  "resolved_action outcome note result_ref dump now r =
     (let r1 = r\<lparr>x_updated_at := now, x_terminal_at := Some now\<rparr>
      in if outcome = OpSucceeded
         then r1\<lparr>x_state := XSucceeded, x_result_ref := result_ref, x_result_detail := dump,
                 x_failure_class := None, x_error_code := None, x_error_detail := None\<rparr>
         else if outcome = OpFailed
         then r1\<lparr>x_state := XFailed, x_error_code := Some ''resolved_no_effect'',
                 x_error_detail := Some (short note)\<rparr>
         else r1\<lparr>x_state := XCancelled, x_error_code := Some ''resolved_cancelled'',
                 x_error_detail := Some (short note)\<rparr>)"

definition resolved_envelope ::
  "op_state \<Rightarrow> string \<Rightarrow> int \<Rightarrow> json option \<Rightarrow> instant \<Rightarrow> envelope \<Rightarrow> envelope" where
  "resolved_envelope outcome note version dump now r =
     (let r1 = r\<lparr>en_updated_at := now\<rparr>
      in if outcome = OpSucceeded
         then r1\<lparr>en_state := EnSucceeded, en_result := dump, en_result_version := Some version,
                 en_error_code := None, en_error_detail := None\<rparr>
         else if outcome = OpFailed
         then r1\<lparr>en_state := EnFailed, en_error_code := Some ''resolved_no_effect'',
                 en_error_detail := Some (short note)\<rparr>
         else r1\<lparr>en_state := EnCancelled, en_error_code := Some ''resolved_cancelled'',
                 en_error_detail := Some (short note)\<rparr>)"

text \<open>Whether the destination bears the outcome out, and the dump it is stored with.\<close>

definition resolution_confirmed ::
  "('i, 'o, 's, 'w) env \<Rightarrow> external_action \<Rightarrow> op_state \<Rightarrow> string option \<Rightarrow> 'o option \<Rightarrow>
   exc + json option" where
  "resolution_confirmed env r outcome result_ref verified =
     (if outcome = OpSucceeded
      then (case (e_registry env (x_operation_name r), result_ref, verified) of
              (Some oper, Some ref, Some out) \<Rightarrow>
                if \<not> text_blank ref \<and> rg_is_output oper out \<and> rg_result_ref oper out = ref
                then Inr (Some (e_jsonb env (rg_dump_output oper out)))
                else Inl (Raise_Refused resolution_unverified)
            | _ \<Rightarrow> Inl (Raise_Refused resolution_unverified))
      else if outcome = OpFailed \<and> verified \<noteq> None
      then Inl (Raise_Refused resolution_unverified)
      else Inr None)"

definition resolve_external ::
  "('i, 'o, 's, 'w) env \<Rightarrow> caller \<Rightarrow> uuid \<Rightarrow> op_state \<Rightarrow> string \<Rightarrow> string option \<Rightarrow>
   terminal_check option \<Rightarrow> instant \<Rightarrow> 's ws_db \<Rightarrow> 'w \<Rightarrow> exc + 's ws_db" where
  "resolve_external env ctx i outcome note result_ref check_kind now db w =
     (case get_action i (db_actions db) of
        None \<Rightarrow> Inl (Raise_Refused ''operation_state'')
      | Some r \<Rightarrow>
          if x_state r \<noteq> XUnresolved then Inl (Raise_Refused ''operation_state'')
          else
          attempt (verify_resolution env ctx r outcome db w) (\<lambda>verified.
          attempt (resolution_confirmed env r outcome result_ref verified) (\<lambda>dump.
          attempt (demand (Raise_Refused ''operation_state'')
            (on_envelopes (apply_where (en_unresolved_at (x_ref r))
               (resolved_envelope outcome note (x_result_version r) dump now)) db)) (\<lambda>db1.
          attempt (demand (Raise_Refused ''operation_state'')
            (on_actions (update_action i (\<lambda>st. st = XUnresolved)
               (resolved_action outcome note result_ref dump now)) db1)) (\<lambda>db2.
          (case resolve (x_operation_id r) outcome note now
                  (if outcome = OpSucceeded
                   then Some (case check_kind of None \<Rightarrow> Provider_Status | Some k \<Rightarrow> k) else None)
                  (if outcome = OpSucceeded then result_ref else None) (db_operations db2) of
             Inl e \<Rightarrow> Inl Raise_Error
           | Inr (applied, t) \<Rightarrow>
               if applied then Inr (db2\<lparr>db_operations := t\<rparr>)
               else Inl (Raise_Refused ''operation_state'')))))))"

end
