(* ===== verification/External_Rows.thy ===== *)
theory External_Rows
  imports Continuation
begin

text \<open>
  The rows that know of an external action, before and after each transaction of
  \<^verbatim>\<open>operations/continuation.py\<close>, \<^verbatim>\<open>approvals/operations.py\<close> and
  \<^verbatim>\<open>operations/transaction.py\<close>: what each settlement writes (\<open>settles\<close>), the phases of an
  action as the states of its four rows (\<open>phase_ok\<close>), and the invariant that they agree
  (\<open>rows_agree\<close>).
\<close>

section \<open>One write of one row\<close>

definition wrote :: "('r \<Rightarrow> 'k) \<Rightarrow> 'k \<Rightarrow> ('r \<Rightarrow> bool) \<Rightarrow> ('r \<Rightarrow> 'r) \<Rightarrow> 'r list \<Rightarrow> 'r list \<Rightarrow> bool" where
  "wrote key i P f t t' \<longleftrightarrow>
     unique_by key t' \<and>
     (\<exists>r. lookup_by key i t = Some r \<and> P r \<and> lookup_by key i t' = Some (f r)) \<and>
     (\<forall>j. j \<noteq> i \<longrightarrow> lookup_by key j t' = lookup_by key j t)"

lemma wroteI:
  assumes "unique_by key t" "fst (apply_where P f t)"
    and "\<And>r. P r \<Longrightarrow> key r = i \<and> key (f r) = key r"
  shows "wrote key i P f t (snd (apply_where P f t))"
proof -
  have "unique_by key (snd (apply_where P f t))"
    using assms(1,3) by (auto intro: unique_update_where)
  moreover obtain t' where "apply_where P f t = (True, t')"
    using assms(2) by (cases "apply_where P f t") simp
  ultimately show ?thesis
    using apply_where_row [OF assms(1) _ assms(3), where b = True and t' = t']
    unfolding wrote_def by auto
qed

lemma wrote_action:
  assumes "unique_by x_id t" "fst (update_action i P f t)" "\<And>r. x_id (f r) = x_id r"
  shows "wrote x_id i (x_in_states i P) f t (snd (update_action i P f t))"
  using assms unfolding update_action_def by (intro wroteI) (simp_all add: x_in_states_def)

section \<open>What a settlement writes\<close>

definition unique_tables :: "'s ws_db \<Rightarrow> bool" where
  "unique_tables db \<longleftrightarrow>
     unique_by x_id (db_actions db) \<and> unique_by ap_id (db_approvals db) \<and>
     unique_by o_id (db_operations db) \<and> unique_by en_ref (db_envelopes db)"

definition settles ::
  "('i, 'o, 's) settle \<Rightarrow> (external_action \<Rightarrow> external_action) \<Rightarrow> (approval \<Rightarrow> bool) \<Rightarrow>
   (approval \<Rightarrow> approval) \<Rightarrow> (operation \<Rightarrow> bool) \<Rightarrow> (operation \<Rightarrow> operation) \<Rightarrow>
   (envelope \<Rightarrow> envelope) \<Rightarrow> 's ws_db \<Rightarrow> 's ws_db \<Rightarrow> bool" where
  "settles s fa PP fp PO fo fe db db' \<longleftrightarrow>
     wrote x_id (st_action s) (x_in_states (st_action s) x_open_state) fa
       (db_actions db) (db_actions db') \<and>
     wrote ap_id (st_approval s) PP fp (db_approvals db) (db_approvals db') \<and>
     wrote o_id (st_operation_id s) PO fo (db_operations db) (db_operations db') \<and>
     wrote en_ref (st_name s, st_key s) (en_pending_at (st_name s, st_key s)) fe
       (db_envelopes db) (db_envelopes db') \<and>
     db_jobs db' = db_jobs db \<and> db_payloads db' = db_payloads db \<and>
     db_modules db' = db_modules db \<and> db_data db' = db_data db"

lemma record_operation_audit_rows [simp]:
  "db_actions (snd (record_operation_audit env ctx oper d inp oc oi db)) = db_actions db"
  "db_approvals (snd (record_operation_audit env ctx oper d inp oc oi db)) = db_approvals db"
  "db_operations (snd (record_operation_audit env ctx oper d inp oc oi db)) = db_operations db"
  "db_envelopes (snd (record_operation_audit env ctx oper d inp oc oi db)) = db_envelopes db"
  "db_jobs (snd (record_operation_audit env ctx oper d inp oc oi db)) = db_jobs db"
  "db_payloads (snd (record_operation_audit env ctx oper d inp oc oi db)) = db_payloads db"
  "db_modules (snd (record_operation_audit env ctx oper d inp oc oi db)) = db_modules db"
  "db_data (snd (record_operation_audit env ctx oper d inp oc oi db)) = db_data db"
  by (simp_all add: record_operation_audit_def)

lemma settle_audit_rows:
  assumes "settle_audit env s oc req db = Inr db'"
  shows "db_actions db' = db_actions db" "db_approvals db' = db_approvals db"
    "db_operations db' = db_operations db" "db_envelopes db' = db_envelopes db"
    "db_jobs db' = db_jobs db" "db_payloads db' = db_payloads db"
    "db_modules db' = db_modules db" "db_data db' = db_data db"
  using assms record_operation_audit_rows
  by (auto simp: settle_audit_def Let_def split_beta split: option.splits if_splits)

lemma envelope_error_rows:
  assumes "envelope_error s st c d db = Inr db'" "unique_by en_ref (db_envelopes db)"
  shows "wrote en_ref (st_name s, st_key s) (en_pending_at (st_name s, st_key s))
    (en_error_values st c (short d) (st_now s)) (db_envelopes db) (db_envelopes db')"
    "db' = db\<lparr>db_envelopes := db_envelopes db'\<rparr>"
proof -
  from assms(1) have a: "fst (apply_where (en_pending_at (st_name s, st_key s))
      (en_error_values st c (short d) (st_now s)) (db_envelopes db))"
    and db': "db' = db\<lparr>db_envelopes := snd (apply_where (en_pending_at (st_name s, st_key s))
      (en_error_values st c (short d) (st_now s)) (db_envelopes db))\<rparr>"
    by (auto simp: envelope_error_def returned simp del: snd_apply_where)
  show "wrote en_ref (st_name s, st_key s) (en_pending_at (st_name s, st_key s))
    (en_error_values st c (short d) (st_now s)) (db_envelopes db) (db_envelopes db')"
    unfolding db' using wroteI [OF assms(2) a, of "(st_name s, st_key s)"]
    by (simp add: en_pending_at_def en_error_values_def en_ref_def)
  show "db' = db\<lparr>db_envelopes := db_envelopes db'\<rparr>"
    by (simp add: db')
qed

lemma terminal_values_simps [simp]:
  "x_id (terminal_values st fc c d now r) = x_id r"
  "x_state (terminal_values st fc c d now r) = st"
  "same_action r (terminal_values st fc c d now r)"
  "x_failure_class (terminal_values st fc c d now r) = Some fc"
  "x_job_id (terminal_values st fc c d now r) = x_job_id r"
  by (simp_all add: terminal_values_def same_action_def)

lemma wrote_action_terminal:
  assumes "action_terminal s st fc c d db = Inr db'" "unique_by x_id (db_actions db)"
  shows "wrote x_id (st_action s) (x_in_states (st_action s) x_open_state)
    (terminal_values st fc c d (st_now s)) (db_actions db) (db_actions db')"
    "db' = db\<lparr>db_actions := db_actions db'\<rparr>"
  using assms wrote_action [OF assms(2)]
  by (auto simp: action_terminal_def returned)

lemma wrote_approval:
  assumes "demand e (on_approvals (apply_where (ap_in_state i st) f) db) = Inr db'"
    and "unique_by ap_id (db_approvals db)" "\<And>r. ap_id (f r) = ap_id r"
  shows "wrote ap_id i (ap_in_state i st) f (db_approvals db) (db_approvals db')"
    "db' = db\<lparr>db_approvals := db_approvals db'\<rparr>"
  using assms wroteI [OF assms(2), of "ap_in_state i st" f i]
  by (auto simp: returned ap_in_state_def)

lemma wrote_operation:
  assumes "demand e (on_operations (apply_where P f) db) = Inr db'"
    and "unique_by o_id (db_operations db)" "\<And>r. P r \<Longrightarrow> o_id r = i" "\<And>r. o_id (f r) = o_id r"
  shows "wrote o_id i P f (db_operations db) (db_operations db')"
    "db' = db\<lparr>db_operations := db_operations db'\<rparr>"
  using assms wroteI [OF assms(2), of P f i]
  by (auto simp: returned)

text \<open>The chain of the five statements every terminal settlement but the success is.\<close>

lemma terminal_chain:
  assumes "action_terminal s st fc c d db = Inr db1"
    and "demand Raise_Error (on_approvals (apply_where (ap_in_state (st_approval s) ps) fp) db1) = Inr db2"
    and "demand Raise_Error (on_operations (apply_where PO fo) db2) = Inr db3"
    and "envelope_error s es c' d' db3 = Inr db4" "settle_audit env s oc req db4 = Inr db5"
    and "unique_tables db" "\<And>r. ap_id (fp r) = ap_id r"
    and "\<And>r. PO r \<Longrightarrow> o_id r = st_operation_id s" "\<And>r. o_id (fo r) = o_id r"
  shows "settles s (terminal_values st fc c d (st_now s)) (ap_in_state (st_approval s) ps) fp PO fo
    (en_error_values es c' (short d') (st_now s)) db db5"
proof -
  have u: "unique_by x_id (db_actions db)" "unique_by ap_id (db_approvals db)"
    "unique_by o_id (db_operations db)" "unique_by en_ref (db_envelopes db)"
    using assms(6) by (simp_all add: unique_tables_def)
  note w1 = wrote_action_terminal [OF assms(1) u(1)]
  obtain A where d1: "db1 = db\<lparr>db_actions := A\<rparr>" using w1(2) by blast
  have "unique_by ap_id (db_approvals db1)" by (simp add: d1 u)
  note w2 = wrote_approval [OF assms(2) this assms(7)]
  obtain P where d2: "db2 = db\<lparr>db_actions := A, db_approvals := P\<rparr>" using w2(2) d1 by blast
  have "unique_by o_id (db_operations db2)" by (simp add: d2 u)
  note w3 = wrote_operation [OF assms(3) this assms(8,9)]
  obtain Q where d3: "db3 = db\<lparr>db_actions := A, db_approvals := P, db_operations := Q\<rparr>"
    using w3(2) d2 by blast
  have "unique_by en_ref (db_envelopes db3)" by (simp add: d3 u)
  note w4 = envelope_error_rows [OF assms(4) this]
  obtain E where d4: "db4 = db\<lparr>db_actions := A, db_approvals := P, db_operations := Q,
      db_envelopes := E\<rparr>"
    using w4(2) d3 by blast
  from w1(1) w2(1) w3(1) w4(1) show ?thesis
    unfolding settles_def settle_audit_rows [OF assms(5)] by (simp add: d1 d2 d3 d4)
qed

section \<open>The settlements\<close>

definition ap_to_executed :: "instant \<Rightarrow> approval \<Rightarrow> approval" where
  "ap_to_executed now r = r\<lparr>ap_state := ApExecuted, ap_executed_at := Some now\<rparr>"

definition ap_to_refused :: "approval \<Rightarrow> approval" where
  "ap_to_refused r = r\<lparr>ap_state := ApRefused\<rparr>"

definition op_to :: "op_state \<Rightarrow> instant \<Rightarrow> operation \<Rightarrow> operation" where
  "op_to st now r = r\<lparr>o_state := st, o_terminal_at := Some now\<rparr>"

definition op_to_failed :: "instant \<Rightarrow> string \<Rightarrow> string \<Rightarrow> operation \<Rightarrow> operation" where
  "op_to_failed now c e r =
     r\<lparr>o_state := OpFailed, o_error_code := Some c, o_error_text := Some e, o_terminal_at := Some now\<rparr>"

definition op_to_succeeded ::
  "instant \<Rightarrow> terminal_check \<Rightarrow> string option \<Rightarrow> operation \<Rightarrow> operation" where
  "op_to_succeeded now k ref r =
     r\<lparr>o_state := OpSucceeded, o_result_ref := ref, o_terminal_check_kind := Some k,
       o_terminal_check_at := Some now, o_terminal_at := Some now\<rparr>"

lemmas row_changes = ap_to_executed_def ap_to_refused_def op_to_def op_to_failed_def op_to_succeeded_def

lemma row_writes:
  "mark_executed i now = apply_where (ap_in_state i ApApproved) (ap_to_executed now)"
  "mark_guard_refused i = apply_where (ap_in_state i ApApproved) ap_to_refused"
  "op_finish_failed j now c e = apply_where (op_open j) (op_to_failed now c e)"
  "finish_held_failed j now c e = apply_where (op_held j) (op_to_failed now c e)"
  "op_finish_cancelled j now = apply_where (op_open j) (op_to OpCancelled now)"
  "mark_unresolved j now = apply_where (op_open j) (op_to OpUnresolved now)"
  "op_finish_succeeded j now k now ref = apply_where (op_open j) (op_to_succeeded now k ref)"
  by (simp_all add: writes row_changes [abs_def])

lemma row_change_keys [simp]:
  "ap_id (ap_to_executed now r) = ap_id r" "ap_id (ap_to_refused r) = ap_id r"
  "o_id (op_to st now q) = o_id q" "o_id (op_to_failed now c e q) = o_id q"
  "o_id (op_to_succeeded now k ref q) = o_id q"
  "op_open i q \<Longrightarrow> o_id q = i" "op_held i q \<Longrightarrow> o_id q = i"
  by (simp_all add: row_changes op_open_def op_held_def)

lemma settle_refused_settles:
  assumes "settle_refused env s fc c d db = Inr (dd, db')" "unique_tables db"
  shows "settles s (terminal_values XRefused fc c d (st_now s)) (ap_in_state (st_approval s) ApApproved)
      ap_to_refused (op_open (st_operation_id s)) (op_to_failed (st_now s) c (short d))
      (en_error_values EnRefused c (short d) (st_now s)) db db'"
    and "fst dd = Disp_Handled_Terminal"
  using assms unfolding settle_refused_def row_writes
  by (auto simp: returned [of "action_terminal _ _ _ _ _ _"] attempt_Inr intro!: terminal_chain)

lemma settle_failed_settles:
  assumes "settle_failed env s c d db = Inr (dd, db')" "unique_tables db"
  shows "settles s (terminal_values XFailed Retryable_No_Effect c d (st_now s))
      (ap_in_state (st_approval s) ApApproved) (ap_to_executed (st_now s))
      (op_open (st_operation_id s)) (op_to_failed (st_now s) c (short d))
      (en_error_values EnFailed c (short d) (st_now s)) db db'"
    and "fst dd = Disp_Failed"
  using assms unfolding settle_failed_def row_writes
  by (auto simp: attempt_Inr intro!: terminal_chain)

lemma settle_cancelled_settles:
  assumes "settle_cancelled env s c d db = Inr (dd, db')" "unique_tables db"
  shows "settles s (terminal_values XCancelled Cancelled_No_Effect c d (st_now s))
      (ap_in_state (st_approval s) ApApproved) ap_to_refused
      (op_open (st_operation_id s)) (op_to OpCancelled (st_now s))
      (en_error_values EnCancelled c (short d) (st_now s)) db db'"
    and "fst dd = Disp_Cancelled"
  using assms unfolding settle_cancelled_def row_writes
  by (auto simp: attempt_Inr intro!: terminal_chain)

lemma settle_unresolved_settles:
  assumes "settle_unresolved env s c d db = Inr (dd, db')" "unique_tables db"
  shows "settles s (terminal_values XUnresolved Outcome_Unknown c d (st_now s))
      (ap_in_state (st_approval s) ApApproved) (ap_to_executed (st_now s))
      (op_open (st_operation_id s)) (op_to OpUnresolved (st_now s))
      (en_error_values EnUnresolved c (short d) (st_now s)) db db'"
    and "fst dd = Disp_Handled_Terminal"
  using assms unfolding settle_unresolved_def row_writes
  by (auto simp: attempt_Inr intro!: terminal_chain)

lemma queue_refused_settles:
  assumes "queue_refused env s refusal db = Inr db'" "unique_tables db"
  obtains fc where "settles s
      (terminal_values XRefused fc guard_refused (e_wording env refusal) (st_now s))
      (ap_in_state (st_approval s) ApApproved) ap_to_refused
      (op_held (st_operation_id s)) (op_to_failed (st_now s) guard_refused (short (e_wording env refusal)))
      (en_error_values EnRefused guard_refused (short (e_wording env refusal)) (st_now s)) db db'"
    "fc = Destination_Unavailable_No_Effect \<or> fc = Permanent_Refusal_No_Effect"
proof -
  from assms show thesis
    unfolding queue_refused_def row_writes
    by (intro that [of "if fst refusal = ''DestinationGuard'' then Destination_Unavailable_No_Effect
        else Permanent_Refusal_No_Effect"]) (auto simp: attempt_Inr intro!: terminal_chain)
qed

lemma finish_success_wrote:
  assumes "finish_success jsonb spec name key body now t = Inr t'" "unique_by en_ref t"
  obtains sp where "spec = Some sp"
    "wrote en_ref (name, key) (en_pending_at (name, key))
       (en_succeeded_values (jsonb body) (ks_result_version sp) now) t t'"
proof -
  from assms(1) obtain sp where sp: "spec = Some sp"
    and a: "apply_where (en_pending_at (name, key))
      (en_succeeded_values (jsonb body) (ks_result_version sp) now) t = (True, t')"
    by (auto simp: finish_success_def split: option.splits if_splits prod.splits bool.splits)
  have "wrote en_ref (name, key) (en_pending_at (name, key))
      (en_succeeded_values (jsonb body) (ks_result_version sp) now) t
      (snd (apply_where (en_pending_at (name, key))
        (en_succeeded_values (jsonb body) (ks_result_version sp) now) t))"
    using a by (intro wroteI [OF assms(2)])
      (auto simp: en_pending_at_def en_succeeded_values_def en_ref_def)
  with that [OF sp] a show thesis by simp
qed

lemma settle_success_settles:
  assumes "settle_success env s out k db = Inr (dd, db')" "unique_tables db"
    and "\<And>oper. st_operation s = Some oper \<Longrightarrow> rg_name oper = st_name s"
  obtains oper sp where "st_operation s = Some oper" "rg_keyed oper = Some sp"
    "settles s (succeeded_values (rg_result_ref oper out) (e_jsonb env (rg_dump_output oper out)) (st_now s))
      (ap_in_state (st_approval s) ApApproved) (ap_to_executed (st_now s))
      (op_open (st_operation_id s)) (op_to_succeeded (st_now s) k (Some (rg_result_ref oper out)))
      (en_succeeded_values (e_jsonb env (rg_dump_output oper out)) (ks_result_version sp) (st_now s))
      db db'"
    "fst dd = Disp_Succeeded" "\<not> text_blank (rg_result_ref oper out)"
    "\<exists>held inp. st_held s = Some held \<and> st_input s = Some inp \<and> e_sinks env (rg_module oper)"
proof -
  from assms(2) have u: "unique_by x_id (db_actions db)" "unique_by ap_id (db_approvals db)"
    "unique_by o_id (db_operations db)" "unique_by en_ref (db_envelopes db)"
    by (simp_all add: unique_tables_def)
  from assms(1) obtain oper t db1 db2 db3 where o: "st_operation s = Some oper"
    and t: "finish_success (e_jsonb env) (rg_keyed oper) (rg_name oper) (st_key s)
      (rg_dump_output oper out) (st_now s) (db_envelopes db) = Inr t"
    and d1: "demand Raise_Error (on_actions (update_action (st_action s) x_open_state
      (succeeded_values (rg_result_ref oper out) (e_jsonb env (rg_dump_output oper out)) (st_now s)))
      (db\<lparr>db_envelopes := t\<rparr>)) = Inr db1"
    and d2: "demand Raise_Error (on_approvals (mark_executed (st_approval s) (st_now s)) db1) = Inr db2"
    and d3: "demand Raise_Error (on_operations (op_finish_succeeded (st_operation_id s) (st_now s) k
      (st_now s) (Some (rg_result_ref oper out))) db2) = Inr db3"
    and d4: "settle_audit env s audit_succeeded True db3 = Inr db'"
    and dd: "dd = (Disp_Succeeded, None)" and ref: "\<not> text_blank (rg_result_ref oper out)"
    by (auto simp: settle_success_def attempt_Inr split: option.splits if_splits sum.splits)
  from finish_success_wrote [OF t u(4)] assms(3) [OF o] obtain sp where sp: "rg_keyed oper = Some sp"
    and we: "wrote en_ref (st_name s, st_key s) (en_pending_at (st_name s, st_key s))
      (en_succeeded_values (e_jsonb env (rg_dump_output oper out)) (ks_result_version sp) (st_now s))
      (db_envelopes db) t"
    by metis
  have wa: "wrote x_id (st_action s) (x_in_states (st_action s) x_open_state)
      (succeeded_values (rg_result_ref oper out) (e_jsonb env (rg_dump_output oper out)) (st_now s))
      (db_actions db) (db_actions db1)"
    and e1: "db1 = db\<lparr>db_envelopes := t, db_actions := db_actions db1\<rparr>"
    using d1 wrote_action [OF u(1)] by (auto simp: returned succeeded_values_def)
  obtain A where db1: "db1 = db\<lparr>db_envelopes := t, db_actions := A\<rparr>" using e1 by blast
  have "unique_by ap_id (db_approvals db1)" by (simp add: db1 u)
  note w2 = wrote_approval [OF d2 [unfolded row_writes] this row_change_keys(1)]
  obtain P where db2: "db2 = db\<lparr>db_envelopes := t, db_actions := A, db_approvals := P\<rparr>"
    using w2(2) db1 by blast
  have "unique_by o_id (db_operations db2)" by (simp add: db2 u)
  note w3 = wrote_operation [OF d3 [unfolded row_writes] this row_change_keys(6) row_change_keys(5)]
  obtain Q where db3: "db3 = db\<lparr>db_envelopes := t, db_actions := A, db_approvals := P, db_operations := Q\<rparr>"
    using w3(2) db2 by blast
  have "settles s (succeeded_values (rg_result_ref oper out) (e_jsonb env (rg_dump_output oper out)) (st_now s))
      (ap_in_state (st_approval s) ApApproved) (ap_to_executed (st_now s))
      (op_open (st_operation_id s)) (op_to_succeeded (st_now s) k (Some (rg_result_ref oper out)))
      (en_succeeded_values (e_jsonb env (rg_dump_output oper out)) (ks_result_version sp) (st_now s))
      db db'"
    using we wa w2(1) w3(1) unfolding settles_def settle_audit_rows [OF d4]
    by (simp add: db1 db2 db3)
  moreover have "\<exists>held inp. st_held s = Some held \<and> st_input s = Some inp \<and> e_sinks env (rg_module oper)"
    using d4 o by (auto simp: settle_audit_def record_operation_audit_def split: option.splits if_splits)
  ultimately show thesis
    using that o sp dd ref by simp
qed

section \<open>The phases of an action\<close>

text \<open>The states of the action, of its job column, of its approval, of its operation record and of
  its reservation (\<open>None\<close> once purged) that go together. The last line of an open action is what an
  erasure of its source leaves.\<close>

definition stranded :: "approval_state \<Rightarrow> op_state \<Rightarrow> envelope_state option \<Rightarrow> bool" where
  "stranded a oper e \<longleftrightarrow> a = ApInvalidated \<and> oper = OpCancelled \<and> e = Some EnPending"

fun phase_ok ::
  "action_state \<Rightarrow> bool \<Rightarrow> approval_state \<Rightarrow> op_state \<Rightarrow> envelope_state option \<Rightarrow> bool" where
  "phase_ok XPending queued a oper e \<longleftrightarrow>
     (if queued then a = ApApproved \<and> oper = OpRunning \<and> e = Some EnPending
      else (a = ApPending \<or> a = ApRequires_Reapproval) \<and> oper = OpApprovalRequired \<and>
           e = Some EnPending) \<or> stranded a oper e"
| "phase_ok XExecuting queued a oper e \<longleftrightarrow>
     queued \<and> (a = ApApproved \<and> oper = OpRunning \<and> e = Some EnPending \<or> stranded a oper e)"
| "phase_ok XSucceeded queued a oper e \<longleftrightarrow>
     a = ApExecuted \<and> oper = OpSucceeded \<and> e \<in> {None, Some EnSucceeded}"
| "phase_ok XFailed queued a oper e \<longleftrightarrow>
     a = ApExecuted \<and> oper = OpFailed \<and> e \<in> {None, Some EnFailed}"
| "phase_ok XRefused queued a oper e \<longleftrightarrow>
     a = ApRefused \<and> (oper = OpFailed \<or> oper = OpCancelled) \<and> e \<in> {None, Some EnRefused}"
| "phase_ok XUnresolved queued a oper e \<longleftrightarrow>
     a = ApExecuted \<and> oper = OpUnresolved \<and> e = Some EnUnresolved"
| "phase_ok XCancelled queued a oper e \<longleftrightarrow>
     (a = ApRefused \<or> a = ApExecuted) \<and> oper = OpCancelled \<and> e \<in> {None, Some EnCancelled}"

definition approval_of_action :: "external_action \<Rightarrow> approval \<Rightarrow> bool" where
  "approval_of_action r p \<longleftrightarrow>
     ap_operation_id p = x_operation_id r \<and> ap_operation_name p = x_operation_name r \<and>
     ap_destination_ref p = Some (x_destination_ref r) \<and> ap_payload_digest p = x_payload_digest r"

definition operation_of_action :: "external_action \<Rightarrow> operation \<Rightarrow> bool" where
  "operation_of_action r q \<longleftrightarrow>
     o_name q = x_operation_name r \<and> o_approval_id q = Some (x_approval_id r)"

definition reservation_of_action :: "external_action \<Rightarrow> envelope \<Rightarrow> bool" where
  "reservation_of_action r e \<longleftrightarrow>
     en_operation_id e = Some (x_operation_id r) \<and> en_request_version e = x_request_version r"

definition rows_ok :: "'s ws_db \<Rightarrow> external_action \<Rightarrow> bool" where
  "rows_ok db r \<longleftrightarrow>
     (\<exists>p q. lookup_by ap_id (x_approval_id r) (db_approvals db) = Some p \<and> approval_of_action r p \<and>
        lookup_by o_id (x_operation_id r) (db_operations db) = Some q \<and> operation_of_action r q \<and>
        (\<forall>e. lookup_by en_ref (x_ref r) (db_envelopes db) = Some e \<longrightarrow> reservation_of_action r e) \<and>
        phase_ok (x_state r) (x_job_id r \<noteq> None) (ap_state p) (o_state q)
          (map_option en_state (lookup_by en_ref (x_ref r) (db_envelopes db))))"

text \<open>No two actions share an approval, an operation record or a key.\<close>

definition actions_distinct :: "actions \<Rightarrow> bool" where
  "actions_distinct t \<longleftrightarrow>
     (\<forall>r \<in> set t. \<forall>q \<in> set t. x_approval_id r = x_approval_id q \<or>
        x_operation_id r = x_operation_id q \<or> x_ref r = x_ref q \<longrightarrow> x_id r = x_id q)"

definition rows_agree :: "'s ws_db \<Rightarrow> bool" where
  "rows_agree db \<longleftrightarrow>
     unique_tables db \<and> actions_distinct (db_actions db) \<and> (\<forall>r \<in> set (db_actions db). rows_ok db r)"

lemma rows_ok_cong:
  assumes "lookup_by ap_id (x_approval_id r) (db_approvals db') =
      lookup_by ap_id (x_approval_id r) (db_approvals db)"
    and "lookup_by o_id (x_operation_id r) (db_operations db') =
      lookup_by o_id (x_operation_id r) (db_operations db)"
    and "lookup_by en_ref (x_ref r) (db_envelopes db') = lookup_by en_ref (x_ref r) (db_envelopes db)"
  shows "rows_ok db' r = rows_ok db r"
  using assms by (simp add: rows_ok_def)

lemma actions_distinctD:
  assumes "actions_distinct t" "lookup_by x_id i t = Some r" "lookup_by x_id j t = Some q" "i \<noteq> j"
  shows "x_approval_id r \<noteq> x_approval_id q" "x_operation_id r \<noteq> x_operation_id q" "x_ref r \<noteq> x_ref q"
  using assms lookup_by_SomeD [OF assms(2)] lookup_by_SomeD [OF assms(3)]
  unfolding actions_distinct_def by metis+

lemma same_action_ref: "same_action r r' \<Longrightarrow> x_ref r' = x_ref r"
  by (simp add: same_action_def x_ref_def)

text \<open>Writing one row of the action table, its keys kept.\<close>

lemma distinct_wrote:
  assumes "actions_distinct t" "unique_by x_id t" "wrote x_id i P f t t'"
    and "\<And>r. P r \<Longrightarrow> same_action r (f r)"
  shows "actions_distinct t'"
proof -
  from assms(3) obtain r0 where r0: "lookup_by x_id i t = Some r0" "P r0" "lookup_by x_id i t' = Some (f r0)"
    and u: "unique_by x_id t'" and other: "\<And>j. j \<noteq> i \<Longrightarrow> lookup_by x_id j t' = lookup_by x_id j t"
    unfolding wrote_def by auto
  have old: "\<exists>r0. r0 \<in> set t \<and> same_action r0 r" if "r \<in> set t'" for r
  proof (cases "x_id r = i")
    case True
    with that u r0(3) have "r = f r0" using lookup_by_unique [OF u, of i r] by simp
    with r0 assms(4) lookup_by_in show ?thesis by metis
  next
    case False
    with that u other have "lookup_by x_id (x_id r) t = Some r"
      using lookup_by_unique [OF u, of "x_id r" r] by simp
    with lookup_by_in same_action_refl show ?thesis by metis
  qed
  show ?thesis
    unfolding actions_distinct_def
  proof (intro ballI impI)
    fix r q
    assume r: "r \<in> set t'" and q: "q \<in> set t'" and eq: "x_approval_id r = x_approval_id q \<or>
        x_operation_id r = x_operation_id q \<or> x_ref r = x_ref q"
    obtain r1 where r1: "r1 \<in> set t" "same_action r1 r" using old [OF r] by blast
    obtain q1 where q1: "q1 \<in> set t" "same_action q1 q" using old [OF q] by blast
    from eq r1(2) q1(2) have "x_approval_id r1 = x_approval_id q1 \<or>
        x_operation_id r1 = x_operation_id q1 \<or> x_ref r1 = x_ref q1"
      by (auto simp: same_action_def x_ref_def)
    with assms(1) r1(1) q1(1) have "x_id r1 = x_id q1" unfolding actions_distinct_def by blast
    with r1(2) q1(2) show "x_id r = x_id q" by (simp add: same_action_def)
  qed
qed

definition about :: "('i, 'o, 's) settle \<Rightarrow> external_action \<Rightarrow> bool" where
  "about s r \<longleftrightarrow>
     st_action s = x_id r \<and> st_approval s = x_approval_id r \<and>
     st_operation_id s = x_operation_id r \<and> (st_name s, st_key s) = x_ref r"

lemma wrote_unique: "wrote key i P f t t' \<Longrightarrow> unique_by key t'"
  by (simp add: wrote_def)

lemma wrote_row:
  "wrote key i P f t t' \<Longrightarrow> lookup_by key i t = Some r \<Longrightarrow> P r \<and> lookup_by key i t' = Some (f r)"
  by (auto simp: wrote_def)

lemma wrote_other: "wrote key i P f t t' \<Longrightarrow> j \<noteq> i \<Longrightarrow> lookup_by key j t' = lookup_by key j t"
  by (simp add: wrote_def)

lemma wrote_found: "wrote key i P f t t' \<Longrightarrow> \<exists>r. lookup_by key i t = Some r \<and> P r"
  by (auto simp: wrote_def)

text \<open>The rows of an action in a database whose rows agree.\<close>

lemma rows_agreeD:
  assumes "rows_agree db" "lookup_by x_id i (db_actions db) = Some r"
  shows "rows_ok db r" "unique_tables db" "actions_distinct (db_actions db)"
  using assms lookup_by_in [OF assms(2)] by (simp_all add: rows_agree_def)

text \<open>Writing the rows of one action, each in its table.\<close>

lemma row_writes_agree:
  assumes ok: "rows_agree db" and r': "lookup_by x_id (x_id r) (db_actions db) = Some r"
    and wa: "wrote x_id (x_id r) PA fa (db_actions db) (db_actions db')"
    and wp: "wrote ap_id (x_approval_id r) PP fp (db_approvals db) (db_approvals db')"
    and wo: "wrote o_id (x_operation_id r) PO fo (db_operations db) (db_operations db')"
    and we: "wrote en_ref (x_ref r) PE fe (db_envelopes db) (db_envelopes db')"
    and fa: "\<And>r. same_action r (fa r)" and fp: "\<And>p. same_binding p (fp p)"
    and fo: "\<And>q. o_name (fo q) = o_name q \<and> o_approval_id (fo q) = o_approval_id q"
    and fe: "\<And>e. en_operation_id (fe e) = en_operation_id e \<and>
      en_request_version (fe e) = en_request_version e"
    and phase: "\<And>p q e. PA r \<Longrightarrow> PP p \<Longrightarrow> PO q \<Longrightarrow> PE e \<Longrightarrow>
      phase_ok (x_state (fa r)) (x_job_id (fa r) \<noteq> None)
        (ap_state (fp p)) (o_state (fo q)) (Some (en_state (fe e)))"
  shows "rows_agree db'"
proof -
  note D = rows_agreeD [OF ok r']
  have u': "unique_tables db'"
    using wrote_unique [OF wa] wrote_unique [OF wp] wrote_unique [OF wo] wrote_unique [OF we]
    by (simp add: unique_tables_def)
  have dist: "actions_distinct (db_actions db')"
    using distinct_wrote [OF D(3) _ wa] D(2) fa by (simp add: unique_tables_def)
  have "rows_ok db' q" if q: "q \<in> set (db_actions db')" for q
  proof (cases "x_id q = x_id r")
    case True
    have "lookup_by x_id (x_id r) (db_actions db') = Some q"
      using q u' True lookup_by_unique [of x_id "db_actions db'" "x_id r" q]
      by (simp add: unique_tables_def)
    with wrote_row [OF wa r'] have q': "q = fa r" by simp
    from D(1) obtain p o0 where p: "lookup_by ap_id (x_approval_id r) (db_approvals db) = Some p"
        "approval_of_action r p"
      and o0: "lookup_by o_id (x_operation_id r) (db_operations db) = Some o0" "operation_of_action r o0"
      and e: "\<And>e. lookup_by en_ref (x_ref r) (db_envelopes db) = Some e \<Longrightarrow> reservation_of_action r e"
      unfolding rows_ok_def by auto
    from wrote_found [OF we] obtain e where e0: "lookup_by en_ref (x_ref r) (db_envelopes db) = Some e"
      by blast
    note pr = wrote_row [OF wa r'] wrote_row [OF wp p(1)] wrote_row [OF wo o0(1)] wrote_row [OF we e0]
    have keys: "x_approval_id (fa r) = x_approval_id r" "x_operation_id (fa r) = x_operation_id r"
      "x_ref (fa r) = x_ref r"
      using fa [of r] by (simp_all add: same_action_def x_ref_def)
    have names: "approval_of_action (fa r) (fp p)" "operation_of_action (fa r) (fo o0)"
      "reservation_of_action (fa r) (fe e)"
      using p(2) o0(2) e [OF e0] fa [of r] fp [of p] fo [of o0] fe [of e]
      by (simp_all add: approval_of_action_def operation_of_action_def reservation_of_action_def
          same_action_def same_binding_def)
    show ?thesis
      unfolding rows_ok_def q' keys using pr names phase [of p o0 e] by simp
  next
    case False
    have q0: "lookup_by x_id (x_id q) (db_actions db) = Some q"
      using q u' wrote_other [OF wa False] lookup_by_unique [of x_id "db_actions db'" "x_id q" q]
      by (simp add: unique_tables_def)
    note ne = actions_distinctD [OF D(3) q0 r' False]
    have "rows_ok db q" using rows_agreeD [OF ok q0] by simp
    then show ?thesis
      using rows_ok_cong [of q db' db] wrote_other [OF wp ne(1)] wrote_other [OF wo ne(2)]
        wrote_other [OF we ne(3)] by simp
  qed
  with u' dist show ?thesis by (simp add: rows_agree_def)
qed

lemma settles_agree:
  assumes ok: "rows_agree db" and st: "settles s fa PP fp PO fo fe db db'"
    and r: "lookup_by x_id (st_action s) (db_actions db) = Some r" and ab: "about s r"
    and fa: "\<And>r. same_action r (fa r)" and fp: "\<And>p. same_binding p (fp p)"
    and fo: "\<And>q. o_name (fo q) = o_name q \<and> o_approval_id (fo q) = o_approval_id q"
    and fe: "\<And>e. en_operation_id (fe e) = en_operation_id e \<and>
      en_request_version (fe e) = en_request_version e"
    and phase: "\<And>p q e. PP p \<Longrightarrow> PO q \<Longrightarrow> phase_ok (x_state (fa r)) (x_job_id (fa r) \<noteq> None)
      (ap_state (fp p)) (o_state (fo q)) (Some (en_state (fe e)))"
  shows "rows_agree db'"
proof (rule row_writes_agree [OF ok _ _ _ _ _ fa fp fo fe])
  show "lookup_by x_id (x_id r) (db_actions db) = Some r" using r ab by (simp add: about_def)
  show "wrote x_id (x_id r) (x_in_states (x_id r) x_open_state) fa (db_actions db) (db_actions db')"
    "wrote ap_id (x_approval_id r) PP fp (db_approvals db) (db_approvals db')"
    "wrote o_id (x_operation_id r) PO fo (db_operations db) (db_operations db')"
    "wrote en_ref (x_ref r) (en_pending_at (x_ref r)) fe (db_envelopes db) (db_envelopes db')"
    using st ab unfolding settles_def about_def by metis+
qed (rule phase)


end
