(* ===== verification/External_Outcome.thy ===== *)
theory External_Outcome
  imports External_Rows
begin

text \<open>
  What a continuation leaves behind, whatever branch it takes: rows that agree, every other action
  untouched, and a settlement that tells the truth about the world (\<open>carried\<close>), under the
  hypothesis that providers answer truthfully about their own effects (\<open>honest\<close>).

  \<open>eff w k\<close> is the number of effects of request \<open>k\<close> in the world \<open>w\<close>.
\<close>

section \<open>What is asked of a provider\<close>

text \<open>It acts for the request id that the row of the action holds, at most once per call; a typed
  no-effect error leaves nothing behind, a return does not come without the effect; and asked for a
  request id it answers as the world is.\<close>

definition honest_execute ::
  "('w \<Rightarrow> string \<Rightarrow> nat) \<Rightarrow> ('i, 'o, 's, 'w) destination \<Rightarrow> bool" where
  "honest_execute eff d \<longleftrightarrow>
     (\<forall>held i db inp w row rid result w'.
        get_for_operation i (db_actions db) = Some row \<and> x_provider_request_id row = Some rid \<and>
        ds_execute d held i db inp w = (result, w') \<longrightarrow>
        (\<forall>k. k \<noteq> rid \<longrightarrow> eff w' k = eff w k) \<and> eff w rid \<le> eff w' rid \<and> eff w' rid \<le> eff w rid + 1 \<and>
        (case result of
           Exec_Returns out data \<Rightarrow> 1 \<le> eff w' rid
         | Exec_Raises fclass code detail \<Rightarrow> fclass \<noteq> Outcome_Unknown \<longrightarrow> eff w' rid = eff w rid
         | Exec_Crashes type \<Rightarrow> True))"

definition honest_reconcile ::
  "('w \<Rightarrow> string \<Rightarrow> nat) \<Rightarrow> ('i, 'o, 's, 'w) destination \<Rightarrow> bool" where
  "honest_reconcile eff d \<longleftrightarrow>
     (\<forall>ask held db rid w. ds_reconcile d = Some ask \<longrightarrow>
        (case ask held db (Some rid) w of
           Rec_Found out \<Rightarrow> 1 \<le> eff w rid
         | Rec_Absent \<Rightarrow> eff w rid = 0
         | Rec_Raises fclass code detail \<Rightarrow> fclass \<noteq> Outcome_Unknown \<longrightarrow> eff w rid = 0
         | Rec_Crashes type \<Rightarrow> True))"

text \<open>An in-process destination leaves the world alone. The registry files each declaration under
  its own name.\<close>

definition honest :: "('w \<Rightarrow> string \<Rightarrow> nat) \<Rightarrow> ('i, 'o, 's, 'w) env \<Rightarrow> bool" where
  "honest eff env \<longleftrightarrow>
     (\<forall>ref d. e_destinations env ref = Some d \<longrightarrow>
        (if ds_provider d then honest_execute eff d \<and> honest_reconcile eff d
         else \<forall>held i db inp w. snd (ds_execute d held i db inp w) = w)) \<and>
     (\<forall>name oper. e_registry env name = Some oper \<longrightarrow> rg_name oper = name)"

definition to_provider :: "('i, 'o, 's, 'w) env \<Rightarrow> external_action \<Rightarrow> bool" where
  "to_provider env r \<longleftrightarrow>
     (case e_destinations env (x_destination_ref r) of None \<Rightarrow> False | Some d \<Rightarrow> ds_provider d)"

definition effects_at :: "('w \<Rightarrow> string \<Rightarrow> nat) \<Rightarrow> 'w \<Rightarrow> external_action \<Rightarrow> nat" where
  "effects_at eff w r = eff w (provider_request_id (x_id r))"

section \<open>A continuation's outcome\<close>

text \<open>A settlement without effect is one, and a success is one. A person who resolves an unresolved
  action has the destination's word for it, and it answers for the recorded request id, if any.\<close>

definition claims_no_effect :: "external_action \<Rightarrow> bool" where
  "claims_no_effect r \<longleftrightarrow>
     x_state r = XRefused \<or>
     x_state r = XFailed \<and>
       (x_failure_class r = Some Outcome_Unknown \<longrightarrow> x_provider_request_id r \<noteq> None) \<or>
     x_state r = XCancelled \<and> x_failure_class r = Some Cancelled_No_Effect"

definition claims_effect :: "('i, 'o, 's, 'w) env \<Rightarrow> external_action \<Rightarrow> bool" where
  "claims_effect env r \<longleftrightarrow>
     x_state r = XSucceeded \<and> to_provider env r \<and> x_provider_request_id r \<noteq> None"

definition truthful ::
  "('w \<Rightarrow> string \<Rightarrow> nat) \<Rightarrow> ('i, 'o, 's, 'w) env \<Rightarrow> 'w \<Rightarrow> external_action \<Rightarrow> bool" where
  "truthful eff env w r \<longleftrightarrow>
     (claims_no_effect r \<longrightarrow> effects_at eff w r = 0) \<and>
     (claims_effect env r \<longrightarrow> 1 \<le> effects_at eff w r) \<and>
     (x_state r = XUnresolved \<longrightarrow> x_failure_class r = Some Outcome_Unknown)"

text \<open>The approvals keep the record they are bound to and the time of their approval, and the records
  keep the approval they are bound to. None is approved here.\<close>

definition bindings_kept :: "'s ws_db \<Rightarrow> 's ws_db \<Rightarrow> bool" where
  "bindings_kept db db' \<longleftrightarrow>
     (\<forall>k p'. lookup_by ap_id k (db_approvals db') = Some p' \<longrightarrow>
        (\<exists>p. lookup_by ap_id k (db_approvals db) = Some p \<and> ap_operation_id p' = ap_operation_id p \<and>
           ap_approved_at p' = ap_approved_at p \<and> (ap_state p' = ApApproved \<longrightarrow> ap_state p = ApApproved))) \<and>
     (\<forall>k p. lookup_by ap_id k (db_approvals db) = Some p \<longrightarrow>
        (\<exists>p'. lookup_by ap_id k (db_approvals db') = Some p')) \<and>
     (\<forall>k q. lookup_by o_id k (db_operations db) = Some q \<longrightarrow>
        (\<exists>q'. lookup_by o_id k (db_operations db') = Some q' \<and> o_approval_id q' = o_approval_id q))"

lemma bindings_kept_same:
  "db_approvals db' = db_approvals db \<Longrightarrow> db_operations db' = db_operations db \<Longrightarrow> bindings_kept db db'"
  by (simp add: bindings_kept_def)

lemma bindings_kept_refl [simp]: "bindings_kept db db"
  by (simp add: bindings_kept_same)

lemma bindings_kept_data [simp]: "bindings_kept (db\<lparr>db_data := x\<rparr>) db' = bindings_kept db db'"
  by (simp add: bindings_kept_def)

lemma bindings_kept_trans:
  assumes a: "bindings_kept db db1" and b: "bindings_kept db1 db2"
  shows "bindings_kept db db2"
  unfolding bindings_kept_def
proof (intro conjI allI impI)
  fix k p2 assume "lookup_by ap_id k (db_approvals db2) = Some p2"
  with b obtain p1 where p1: "lookup_by ap_id k (db_approvals db1) = Some p1"
    "ap_operation_id p2 = ap_operation_id p1" "ap_approved_at p2 = ap_approved_at p1"
    "ap_state p2 = ApApproved \<longrightarrow> ap_state p1 = ApApproved"
    unfolding bindings_kept_def by blast
  with a obtain p where "lookup_by ap_id k (db_approvals db) = Some p"
    "ap_operation_id p1 = ap_operation_id p" "ap_approved_at p1 = ap_approved_at p"
    "ap_state p1 = ApApproved \<longrightarrow> ap_state p = ApApproved"
    unfolding bindings_kept_def by blast
  with p1 show "\<exists>p. lookup_by ap_id k (db_approvals db) = Some p \<and> ap_operation_id p2 = ap_operation_id p \<and>
      ap_approved_at p2 = ap_approved_at p \<and> (ap_state p2 = ApApproved \<longrightarrow> ap_state p = ApApproved)"
    by simp
next
  fix k p assume "lookup_by ap_id k (db_approvals db) = Some p"
  with a obtain p1 where "lookup_by ap_id k (db_approvals db1) = Some p1"
    unfolding bindings_kept_def by blast
  with b show "\<exists>p'. lookup_by ap_id k (db_approvals db2) = Some p'"
    unfolding bindings_kept_def by blast
next
  fix k q assume "lookup_by o_id k (db_operations db) = Some q"
  with a obtain q1 where q1: "lookup_by o_id k (db_operations db1) = Some q1" "o_approval_id q1 = o_approval_id q"
    unfolding bindings_kept_def by blast
  with b obtain q2 where "lookup_by o_id k (db_operations db2) = Some q2" "o_approval_id q2 = o_approval_id q1"
    unfolding bindings_kept_def by blast
  with q1 show "\<exists>q'. lookup_by o_id k (db_operations db2) = Some q' \<and> o_approval_id q' = o_approval_id q"
    by simp
qed

lemma bindings_kept_wrote:
  assumes p: "wrote ap_id i PP fp (db_approvals db) (db_approvals db')"
    and o: "wrote o_id j PO fo (db_operations db) (db_operations db')"
    and fp: "\<And>p. same_binding p (fp p)" "\<And>p. ap_approved_at (fp p) = ap_approved_at p"
      "\<And>p. ap_state (fp p) \<noteq> ApApproved"
    and fo: "\<And>q. o_approval_id (fo q) = o_approval_id q"
  shows "bindings_kept db db'"
proof -
  have keys: "ap_operation_id (fp p) = ap_operation_id p" for p
    using fp(1) [of p] by (simp add: same_binding_def)
  note W = wrote_row [OF o] wrote_other [OF o]
  from wrote_found [OF p] obtain p0 where p0: "lookup_by ap_id i (db_approvals db) = Some p0" by blast
  note P = wrote_row [OF p p0]
  have "\<exists>q'. lookup_by o_id k (db_operations db') = Some q' \<and> o_approval_id q' = o_approval_id q"
    if q: "lookup_by o_id k (db_operations db) = Some q" for k q
  proof (cases "k = j")
    case True
    with W(1) [of q] q fo show ?thesis by blast
  next
    case False
    with W(2) [of k] q show ?thesis by simp
  qed
  moreover have "\<exists>p. lookup_by ap_id k (db_approvals db) = Some p \<and> ap_operation_id p' = ap_operation_id p \<and>
           ap_approved_at p' = ap_approved_at p \<and> (ap_state p' = ApApproved \<longrightarrow> ap_state p = ApApproved)"
    if q: "lookup_by ap_id k (db_approvals db') = Some p'" for k p'
  proof (cases "k = i")
    case True
    with q P have "p' = fp p0" by simp
    with True p0 fp(2,3) keys show ?thesis by blast
  next
    case False
    with wrote_other [OF p, of k] q have "lookup_by ap_id k (db_approvals db) = Some p'" by metis
    then show ?thesis by blast
  qed
  moreover have "\<exists>p'. lookup_by ap_id k (db_approvals db') = Some p'"
    if q: "lookup_by ap_id k (db_approvals db) = Some q" for k q
    using q P wrote_other [OF p, of k] by (cases "k = i") (simp_all del: lookup_by_None)
  ultimately show ?thesis unfolding bindings_kept_def by blast
qed

definition kept_but :: "uuid \<Rightarrow> 's ws_db \<Rightarrow> 's ws_db \<Rightarrow> bool" where
  "kept_but i db db' \<longleftrightarrow>
     (\<forall>j. j \<noteq> i \<longrightarrow> lookup_by x_id j (db_actions db') = lookup_by x_id j (db_actions db)) \<and>
     db_jobs db' = db_jobs db \<and> db_payloads db' = db_payloads db \<and> bindings_kept db db'"

text \<open>A recorded request id is the one that can be recomputed.\<close>

definition request_id_ok :: "external_action \<Rightarrow> bool" where
  "request_id_ok r \<longleftrightarrow>
     x_provider_request_id r = None \<or> x_provider_request_id r = Some (provider_request_id (x_id r))"

definition continued_row :: "external_action \<Rightarrow> external_action \<Rightarrow> bool" where
  "continued_row r r' \<longleftrightarrow>
     same_action r r' \<and> x_job_id r' = x_job_id r \<and> (request_id_ok r \<longrightarrow> request_id_ok r')"

definition carried ::
  "('w \<Rightarrow> string \<Rightarrow> nat) \<Rightarrow> ('i, 'o, 's, 'w) env \<Rightarrow> external_action \<Rightarrow> 's ws_db \<Rightarrow> 's ws_db \<Rightarrow>
   'w \<Rightarrow> disposition \<Rightarrow> bool" where
  "carried eff env r db db' w disp \<longleftrightarrow>
     rows_agree db' \<and> kept_but (x_id r) db db' \<and>
     (\<exists>r'. lookup_by x_id (x_id r) (db_actions db') = Some r' \<and> continued_row r r' \<and>
        truthful eff env w r' \<and> (x_open_state (x_state r') \<longleftrightarrow> disp = Disp_Retry))"

lemma continued_row_trans: "continued_row r r1 \<Longrightarrow> continued_row r1 r2 \<Longrightarrow> continued_row r r2"
  by (simp add: continued_row_def same_action_def)

lemma kept_but_trans: "kept_but i db db1 \<Longrightarrow> kept_but i db1 db2 \<Longrightarrow> kept_but i db db2"
  using bindings_kept_trans by (auto simp: kept_but_def)

lemma carried_trans:
  assumes "continued_row r r1" "kept_but (x_id r) db db1" "carried eff env r1 db1 db' w disp"
  shows "carried eff env r db db' w disp"
proof -
  have i: "x_id r1 = x_id r" using assms(1) by (simp add: continued_row_def same_action_def)
  with assms show ?thesis
    unfolding carried_def i by (blast intro: continued_row_trans kept_but_trans)
qed

lemma settles_kept:
  assumes "settles s fa PP fp PO fo fe db db'"
    and fp: "\<And>p. same_binding p (fp p)" "\<And>p. ap_approved_at (fp p) = ap_approved_at p"
      "\<And>p. ap_state (fp p) \<noteq> ApApproved"
    and fo: "\<And>q. o_approval_id (fo q) = o_approval_id q"
  shows "kept_but (st_action s) db db'"
  using assms(1) bindings_kept_wrote [OF _ _ fp fo] by (auto simp: settles_def kept_but_def wrote_other)

lemma settles_carried:
  assumes ok: "rows_agree db" and st: "settles s fa (ap_in_state (st_approval s) ApApproved) fp PO fo fe db db'"
    and r: "lookup_by x_id (x_id r) (db_actions db) = Some r" and ab: "about s r"
    and fa: "\<And>r. same_action r (fa r)" "x_job_id (fa r) = x_job_id r"
      "\<not> x_open_state (x_state (fa r))" "x_provider_request_id (fa r) = x_provider_request_id r"
    and fp: "\<And>p. same_binding p (fp p)"
    and fo: "\<And>q. o_name (fo q) = o_name q \<and> o_approval_id (fo q) = o_approval_id q"
    and fe: "\<And>e. en_operation_id (fe e) = en_operation_id e \<and>
      en_request_version (fe e) = en_request_version e"
    and phase: "\<And>p q e. phase_ok (x_state (fa r)) (x_job_id (fa r) \<noteq> None)
      (ap_state (fp p)) (o_state (fo q)) (Some (en_state (fe e)))"
    and "truthful eff env w (fa r)" "disp \<noteq> Disp_Retry"
    and end_fp: "\<And>p. ap_approved_at (fp p) = ap_approved_at p" "\<And>p. ap_state (fp p) \<noteq> ApApproved"
  shows "carried eff env r db db' w disp"
proof -
  have i: "st_action s = x_id r" using ab by (simp add: about_def)
  have "rows_agree db'"
    by (rule settles_agree [OF ok st _ ab fa(1) fp fo fe phase]) (simp add: i r)
  moreover have "lookup_by x_id (x_id r) (db_actions db') = Some (fa r)"
    using st r unfolding settles_def i by (blast dest: wrote_row)
  moreover have "kept_but (x_id r) db db'"
    using settles_kept [OF st fp end_fp] fo by (simp add: i)
  ultimately show ?thesis
    using fa(1) [of r] fa(2-4) assms(13,14)
    unfolding carried_def continued_row_def request_id_ok_def same_action_def by auto
qed

lemma row_change_binding [simp]:
  "same_binding p (ap_to_executed now p)" "same_binding p (ap_to_refused p)"
  "o_name (op_to st now q) = o_name q" "o_approval_id (op_to st now q) = o_approval_id q"
  "o_name (op_to_failed now c d q) = o_name q" "o_approval_id (op_to_failed now c d q) = o_approval_id q"
  "o_name (op_to_succeeded now k ref q) = o_name q"
  "o_approval_id (op_to_succeeded now k ref q) = o_approval_id q"
  "en_operation_id (en_error_values es c d now e) = en_operation_id e"
  "en_request_version (en_error_values es c d now e) = en_request_version e"
  "en_operation_id (en_succeeded_values b v now e) = en_operation_id e"
  "en_request_version (en_succeeded_values b v now e) = en_request_version e"
  "ap_approved_at (ap_to_executed now p) = ap_approved_at p" "ap_approved_at (ap_to_refused p) = ap_approved_at p"
  "ap_state (ap_to_executed now p) = ApExecuted" "ap_state (ap_to_refused p) = ApRefused"
  "o_state (op_to st now q) = st" "o_state (op_to_failed now c d q) = OpFailed"
  "o_state (op_to_succeeded now k ref q) = OpSucceeded"
  "en_state (en_error_values es c d now e) = es"
  "en_state (en_succeeded_values b v now e) = EnSucceeded"
  by (simp_all add: row_changes same_binding_def en_error_values_def en_succeeded_values_def)

lemma succeeded_values_simps [simp]:
  "x_id (succeeded_values ref dump now r) = x_id r"
  "x_state (succeeded_values ref dump now r) = XSucceeded"
  "same_action r (succeeded_values ref dump now r)"
  "x_job_id (succeeded_values ref dump now r) = x_job_id r"
  "x_destination_ref (succeeded_values ref dump now r) = x_destination_ref r"
  "x_provider_request_id (succeeded_values ref dump now r) = x_provider_request_id r"
  "x_provider_request_id (terminal_values st fc c d now r) = x_provider_request_id r"
  by (simp_all add: succeeded_values_def terminal_values_def same_action_def)

lemma settled_carried:
  assumes ok: "rows_agree db" and r: "lookup_by x_id (x_id r) (db_actions db) = Some r" and ab: "about s r"
  shows "settle_refused env s fc c d db = Inr (dd, db') \<Longrightarrow> effects_at eff w r = 0 \<Longrightarrow>
      carried eff env r db db' w (fst dd)"
    and "settle_failed env s c d db = Inr (dd, db') \<Longrightarrow> effects_at eff w r = 0 \<Longrightarrow>
      carried eff env r db db' w (fst dd)"
    and "settle_cancelled env s c d db = Inr (dd, db') \<Longrightarrow> effects_at eff w r = 0 \<Longrightarrow>
      carried eff env r db db' w (fst dd)"
    and "settle_unresolved env s c d db = Inr (dd, db') \<Longrightarrow> carried eff env r db db' w (fst dd)"
    and "settle_success env s out k db = Inr (dd, db') \<Longrightarrow>
      (to_provider env r \<Longrightarrow> 1 \<le> effects_at eff w r) \<Longrightarrow>
      (\<And>oper. st_operation s = Some oper \<Longrightarrow> rg_name oper = st_name s) \<Longrightarrow>
      carried eff env r db db' w (fst dd)"
proof -
  have u: "unique_tables db" using ok by (simp add: rows_agree_def)
  show "carried eff env r db db' w (fst dd)"
    if "settle_refused env s fc c d db = Inr (dd, db')" "effects_at eff w r = 0"
    by (rule settles_carried [OF ok settle_refused_settles(1) [OF that(1) u] r ab])
       (use settle_refused_settles(2) [OF that(1) u] that(2) in
         \<open>simp_all add: x_open_state_def truthful_def effects_at_def claims_effect_def\<close>)
  show "carried eff env r db db' w (fst dd)"
    if "settle_failed env s c d db = Inr (dd, db')" "effects_at eff w r = 0"
    by (rule settles_carried [OF ok settle_failed_settles(1) [OF that(1) u] r ab])
       (use settle_failed_settles(2) [OF that(1) u] that(2) in
         \<open>simp_all add: x_open_state_def truthful_def effects_at_def claims_effect_def\<close>)
  show "carried eff env r db db' w (fst dd)"
    if "settle_cancelled env s c d db = Inr (dd, db')" "effects_at eff w r = 0"
    by (rule settles_carried [OF ok settle_cancelled_settles(1) [OF that(1) u] r ab])
       (use settle_cancelled_settles(2) [OF that(1) u] that(2) in
         \<open>simp_all add: x_open_state_def truthful_def effects_at_def claims_effect_def\<close>)
  show "carried eff env r db db' w (fst dd)"
    if "settle_unresolved env s c d db = Inr (dd, db')"
    by (rule settles_carried [OF ok settle_unresolved_settles(1) [OF that(1) u] r ab])
       (use settle_unresolved_settles(2) [OF that(1) u] in
         \<open>simp_all add: x_open_state_def truthful_def claims_no_effect_def claims_effect_def\<close>)
  show "carried eff env r db db' w (fst dd)"
    if "settle_success env s out k db = Inr (dd, db')"
      "to_provider env r \<Longrightarrow> 1 \<le> effects_at eff w r"
      "\<And>oper. st_operation s = Some oper \<Longrightarrow> rg_name oper = st_name s"
    using that(1) u that(3)
  proof (rule settle_success_settles)
    fix oper sp
    assume st: "settles s (succeeded_values (rg_result_ref oper out)
        (e_jsonb env (rg_dump_output oper out)) (st_now s))
      (ap_in_state (st_approval s) ApApproved) (ap_to_executed (st_now s))
      (op_open (st_operation_id s)) (op_to_succeeded (st_now s) k (Some (rg_result_ref oper out)))
      (en_succeeded_values (e_jsonb env (rg_dump_output oper out)) (ks_result_version sp) (st_now s))
      db db'" and dd: "fst dd = Disp_Succeeded"
    show "carried eff env r db db' w (fst dd)"
      by (rule settles_carried [OF ok st r ab])
         (use dd that(2) in \<open>simp_all add: x_open_state_def truthful_def effects_at_def
            claims_no_effect_def claims_effect_def to_provider_def\<close>)
  qed
qed

section \<open>Writes that leave the action open\<close>

lemma open_update:
  assumes ok: "rows_agree db" and r: "lookup_by x_id (x_id r) (db_actions db) = Some r"
    and up: "demand e (on_actions (update_action (x_id r) x_open_state f) db) = Inr db1"
    and f: "\<And>q. same_action q (f q)" "x_job_id (f r) = x_job_id r"
      "request_id_ok r \<longrightarrow> request_id_ok (f r)"
    and phase: "\<forall>a q e. x_open_state (x_state r) \<and> phase_ok (x_state r) (x_job_id r \<noteq> None) a q e \<longrightarrow>
      phase_ok (x_state (f r)) (x_job_id r \<noteq> None) a q e"
  shows "rows_agree db1" "lookup_by x_id (x_id r) (db_actions db1) = Some (f r)"
    "kept_but (x_id r) db db1" "x_open_state (x_state r)" "continued_row r (f r)"
    "db1 = db\<lparr>db_actions := db_actions db1\<rparr>"
proof -
  have u: "unique_tables db" and d: "actions_distinct (db_actions db)"
    using ok by (simp_all add: rows_agree_def)
  have fid: "x_id (f q) = x_id q" for q using f(1) [of q] by (simp add: same_action_def)
  from up have app: "fst (update_action (x_id r) x_open_state f (db_actions db))"
    and db1: "db1 = db\<lparr>db_actions := snd (update_action (x_id r) x_open_state f (db_actions db))\<rparr>"
    by (auto simp: returned)
  have w: "wrote x_id (x_id r) (x_in_states (x_id r) x_open_state) f (db_actions db) (db_actions db1)"
    using wrote_action [OF _ app fid] u by (simp add: db1 unique_tables_def)
  from wrote_row [OF w r] show o: "x_open_state (x_state r)"
    and r1: "lookup_by x_id (x_id r) (db_actions db1) = Some (f r)"
    by (simp_all add: x_in_states_def)
  show "kept_but (x_id r) db db1"
    using wrote_other [OF w] by (simp add: kept_but_def db1 bindings_kept_same)
  show "continued_row r (f r)" using f by (simp add: continued_row_def)
  show "db1 = db\<lparr>db_actions := db_actions db1\<rparr>" by (simp add: db1)
  have u1: "unique_tables db1" using u wrote_unique [OF w] by (simp add: unique_tables_def db1)
  have "rows_ok db1 q" if q: "q \<in> set (db_actions db1)" for q
  proof -
    have same: "rows_ok db1 p = rows_ok db p" for p by (simp add: db1 rows_ok_def)
    have lq: "lookup_by x_id (x_id q) (db_actions db1) = Some q"
      using q u1 lookup_by_unique [of x_id "db_actions db1" "x_id q" q]
      by (simp add: unique_tables_def)
    show ?thesis
    proof (cases "x_id q = x_id r")
      case True
      with lq r1 have q': "q = f r" by simp
      have "rows_ok db r" using rows_agreeD(1) [OF ok r] .
      then show ?thesis
        unfolding same q' using f(1) [of r] f(2) phase o
        by (auto simp: rows_ok_def same_action_def x_ref_def approval_of_action_def
            operation_of_action_def reservation_of_action_def)
    next
      case False
      with lq wrote_other [OF w False] have "lookup_by x_id (x_id q) (db_actions db) = Some q" by simp
      with rows_agreeD(1) [OF ok] same show ?thesis by blast
    qed
  qed
  with u1 distinct_wrote [OF d _ w f(1)] u show "rows_agree db1"
    by (simp add: rows_agree_def unique_tables_def)
qed

lemma open_values_simps [simp]:
  "same_action q (asked_values i now q)" "x_job_id (asked_values i now q) = x_job_id q"
  "x_state (asked_values i now q) = x_state q" "x_id (asked_values i now q) = x_id q"
  "x_provider_request_id (asked_values i now q) = Some i"
  "x_failure_class (asked_values i now q) = x_failure_class q"
  "same_action q (retryable_values c d now q)" "x_job_id (retryable_values c d now q) = x_job_id q"
  "x_state (retryable_values c d now q) = x_state q" "x_id (retryable_values c d now q) = x_id q"
  "same_action q (executing_values n ri now q)" "x_job_id (executing_values n ri now q) = x_job_id q"
  "x_state (executing_values n ri now q) = XExecuting" "x_id (executing_values n ri now q) = x_id q"
  "x_provider_request_id (executing_values n ri now q) = ri"
  "x_operation_id (executing_values n ri now q) = x_operation_id q"
  "x_provider_request_id (retryable_values c d now q) = x_provider_request_id q"
  by (simp_all add: asked_values_def retryable_values_def executing_values_def same_action_def)

lemma about_continued: "about s r \<Longrightarrow> continued_row r r1 \<Longrightarrow> about s r1"
  by (auto simp: about_def continued_row_def same_action_def x_ref_def)

lemma continued_keys:
  assumes "continued_row r r1"
  shows "x_id r1 = x_id r" "effects_at eff w r1 = effects_at eff w r"
    "to_provider env r1 = to_provider env r" "x_operation_id r1 = x_operation_id r"
  using assms by (simp_all add: continued_row_def same_action_def effects_at_def to_provider_def)

lemma open_truthful: "x_open_state (x_state r) \<Longrightarrow> truthful eff env w r"
  by (auto simp: truthful_def claims_no_effect_def claims_effect_def x_open_state_def)

lemma classified_carried:
  assumes ok: "rows_agree db" and r: "lookup_by x_id (x_id r) (db_actions db) = Some r" and ab: "about s r"
    and cl: "classified env s n m fc c d db = Inr (dd, db')"
    and none: "fc \<noteq> Outcome_Unknown \<Longrightarrow> effects_at eff w r = 0"
  shows "carried eff env r db db' w (fst dd)"
proof (cases "fc = Retryable_No_Effect \<and> n < m")
  case True
  from ab have i: "st_action s = x_id r" by (simp add: about_def)
  from cl True obtain up: "demand Raise_Error (on_actions (update_action (x_id r) x_open_state
      (retryable_values c d (st_now s))) db) = Inr db'" and dd: "fst dd = Disp_Retry"
    by (auto simp: classified_def attempt_Inr i)
  have "request_id_ok r \<longrightarrow> request_id_ok (retryable_values c d (st_now s) r)"
    by (simp add: request_id_ok_def)
  from open_update [OF ok r up open_values_simps(7) open_values_simps(8) this]
  have O: "rows_agree db'" "lookup_by x_id (x_id r) (db_actions db') =
      Some (retryable_values c d (st_now s) r)" "kept_but (x_id r) db db'" "x_open_state (x_state r)"
      "continued_row r (retryable_values c d (st_now s) r)" by simp_all
  show ?thesis
    unfolding carried_def using O(1-5) dd open_truthful [of "retryable_values c d (st_now s) r" eff env w]
    by simp
next
  case False
  from cl have "settle_refused env s fc c d db = Inr (dd, db') \<and> fc \<noteq> Outcome_Unknown \<or>
      settle_cancelled env s c d db = Inr (dd, db') \<and> fc = Cancelled_No_Effect \<or>
      settle_unresolved env s c d db = Inr (dd, db') \<or>
      settle_failed env s budget_exhausted (c @ '': '' @ d) db = Inr (dd, db') \<and> fc = Retryable_No_Effect"
    using False by (cases fc) (auto simp: classified_def)
  then show ?thesis
    using none
    by (elim disjE conjE)
      (simp_all add: settled_carried(1) [OF ok r ab, of env fc c d dd db']
        settled_carried(3) [OF ok r ab, of env c d dd db'] settled_carried(4) [OF ok r ab, of env c d dd db']
        settled_carried(2) [OF ok r ab, of env budget_exhausted "c @ '': '' @ d" dd db'])
qed

section \<open>Asking, and what an earlier lease did\<close>

lemma reconcile_honest:
  assumes "honest eff env" "e_destinations env ref = Some d" "ds_provider d"
  shows "reconcile_external s d (Some rid) db w = Answer_Found out \<Longrightarrow> 1 \<le> eff w rid"
    and "reconcile_external s d (Some rid) db w = Answer_Absent \<Longrightarrow> eff w rid = 0"
    and "reconcile_external s d (Some rid) db w = Answer_Error fc c det \<Longrightarrow> fc \<noteq> Outcome_Unknown \<Longrightarrow>
      eff w rid = 0"
proof -
  have h: "honest_reconcile eff d" using assms by (auto simp: honest_def)
  have "case ask held db (Some rid) w of Rec_Found out \<Rightarrow> 1 \<le> eff w rid | Rec_Absent \<Rightarrow> eff w rid = 0
      | Rec_Raises fclass code detail \<Rightarrow> fclass \<noteq> Outcome_Unknown \<longrightarrow> eff w rid = 0
      | Rec_Crashes type \<Rightarrow> True" if "ds_reconcile d = Some ask" for ask held
    using h that unfolding honest_reconcile_def by blast
  then show "reconcile_external s d (Some rid) db w = Answer_Found out \<Longrightarrow> 1 \<le> eff w rid"
    and "reconcile_external s d (Some rid) db w = Answer_Absent \<Longrightarrow> eff w rid = 0"
    and "reconcile_external s d (Some rid) db w = Answer_Error fc c det \<Longrightarrow> fc \<noteq> Outcome_Unknown \<Longrightarrow>
      eff w rid = 0"
    unfolding reconcile_external_def
    by (fastforce split: option.splits reconcile_result.splits if_splits)+
qed

lemma provider_request_id_nonempty [simp]: "provider_request_id i \<noteq> []"
  by (simp add: provider_request_id_def)

text \<open>\<open>destination\<close> is the registered one; \<open>named s\<close>: the declaration goes by the action's name.\<close>

definition named :: "('i, 'o, 's) settle \<Rightarrow> bool" where
  "named s \<longleftrightarrow> (\<forall>oper. st_operation s = Some oper \<longrightarrow> rg_name oper = st_name s)"

lemma prior_effect_carried:
  assumes hon: "honest eff env" and ok: "rows_agree db"
    and r: "lookup_by x_id (x_id r) (db_actions db) = Some r" and ab: "about s r" and nm: "named s"
    and rid: "request_id_ok r" and inproc: "to_provider env r \<or> effects_at eff w r = 0"
    and pe: "prior_effect env s (e_destinations env (x_destination_ref r)) (x_provider_request_id r) db w
      = Inr res"
  shows "(\<exists>dd db'. res = Inl (dd, db') \<and> carried eff env r db db' w (fst dd)) \<or>
    (\<exists>p db1 r1. res = Inr (p, db1) \<and> rows_agree db1 \<and>
       lookup_by x_id (x_id r) (db_actions db1) = Some r1 \<and> continued_row r r1 \<and>
       kept_but (x_id r) db db1 \<and> x_state r1 = x_state r \<and> effects_at eff w r = 0 \<and>
       db1 = db\<lparr>db_actions := db_actions db1\<rparr> \<and>
       (\<forall>fc c det. p = Some (fc, c, det) \<longrightarrow> fc \<noteq> Outcome_Unknown))"
proof (cases "e_destinations env (x_destination_ref r)")
  case None
  with pe show ?thesis
    using settled_carried(4) [OF ok r ab]
    by (auto simp: prior_effect_def attempt_Inr)
next
  case (Some d)
  show ?thesis
  proof (cases "ds_provider d")
    case False
    with Some inproc have "effects_at eff w r = 0" by (simp add: to_provider_def)
    moreover from pe Some False have "res = Inr (None, db)" by (simp add: prior_effect_def)
    moreover have "kept_but (x_id r) db db" "continued_row r r"
      by (simp_all add: kept_but_def continued_row_def)
    ultimately show ?thesis using ok r by simp
  next
    case True
    let ?rid = "provider_request_id (x_id r)"
    from ab have i: "st_action s = x_id r" by (simp add: about_def)
    from pe Some True rid obtain db1 where
      up: "demand Raise_Error (on_actions (update_action (x_id r) x_open_state
        (asked_values ?rid (st_now s))) db) = Inr db1"
      and res: "(case reconcile_external s d (Some ?rid) db1 w of
          Answer_Found out \<Rightarrow> attempt (settle_success env s out Provider_Status db1) (\<lambda>r. Inr (Inl r))
        | Answer_Error Outcome_Unknown code detail \<Rightarrow>
            attempt (settle_unresolved env s code detail db1) (\<lambda>r. Inr (Inl r))
        | Answer_Error fclass code detail \<Rightarrow> Inr (Inr (Some (fclass, code, detail), db1))
        | Answer_Absent \<Rightarrow> Inr (Inr (None, db1))) = Inr res"
      by (auto simp: prior_effect_def Let_def i request_id_ok_def attempt_Inr)
    let ?r1 = "asked_values ?rid (st_now s) r"
    have "request_id_ok r \<longrightarrow> request_id_ok ?r1" by (simp add: request_id_ok_def)
    from open_update [OF ok r up _ _ this] have O: "rows_agree db1"
      "lookup_by x_id (x_id ?r1) (db_actions db1) = Some ?r1" "kept_but (x_id r) db db1"
      "continued_row r ?r1" "db1 = db\<lparr>db_actions := db_actions db1\<rparr>" by simp_all
    have ab1: "about s ?r1" using about_continued [OF ab O(4)] .
    note K = continued_keys [OF O(4)]
    note H = reconcile_honest [OF hon Some True]
    note C = settled_carried [OF O(1,2) ab1]
    have T: "carried eff env ?r1 db1 db' w disp \<Longrightarrow> carried eff env r db db' w disp" for db' disp
      by (rule carried_trans [OF O(4,3)])
    show ?thesis
    proof (cases "reconcile_external s d (Some ?rid) db1 w")
      case (Answer_Found out)
      from H(1) [OF Answer_Found] have "1 \<le> effects_at eff w ?r1"
        using K(2) [of eff w] by (simp add: effects_at_def)
      then have "carried eff env ?r1 db1 db' w (fst dd)"
        if "settle_success env s out Provider_Status db1 = Inr (dd, db')" for dd db'
        using C(5) [OF that] nm by (simp add: named_def)
      with res Answer_Found T show ?thesis by (auto simp: attempt_Inr)
    next
      case Answer_Absent
      from H(2) [OF this] have "effects_at eff w r = 0" by (simp add: effects_at_def)
      moreover from res Answer_Absent have "res = Inr (None, db1)" by simp
      ultimately show ?thesis
        using O by (intro disjI2 exI [of _ None] exI [of _ db1] exI [of _ ?r1] conjI) (assumption | simp)+
    next
      case (Answer_Error fc c det)
      show ?thesis
      proof (cases "fc = Outcome_Unknown")
        case True
        with res Answer_Error obtain dd db' where
          "settle_unresolved env s c det db1 = Inr (dd, db')" "res = Inl (dd, db')"
          by (auto simp: attempt_Inr)
        with T [OF C(4)] show ?thesis by blast
      next
        case False
        from H(3) [OF Answer_Error False] have "effects_at eff w r = 0" by (simp add: effects_at_def)
        moreover from res Answer_Error False have "res = Inr (Some (fc, c, det), db1)"
          by (cases fc) simp_all
        ultimately show ?thesis
          using O False
          by (intro disjI2 exI [of _ "Some (fc, c, det)"] exI [of _ db1] exI [of _ ?r1] conjI)
            (assumption | simp)+
      qed
    qed
  qed
qed

lemma recover_carried:
  assumes hon: "honest eff env" and ok: "rows_agree db"
    and r: "lookup_by x_id (x_id r) (db_actions db) = Some r" and ab: "about s r" and nm: "named s"
    and rid: "request_id_ok r" and inproc: "to_provider env r \<or> effects_at eff w r = 0"
    and fresh: "gr_mode g = Mode_Cancel_Requested \<and> gr_attempts g = 0 \<longrightarrow> effects_at eff w r = 0"
    and re: "recover env s g (e_destinations env (x_destination_ref r)) (x_provider_request_id r) db w
      = Inr (dd, db')"
  shows "carried eff env r db db' w (fst dd)"
proof (cases "gr_mode g = Mode_Cancel_Requested \<and> gr_attempts g = 0")
  case True
  with re have "settle_cancelled env s continuation_cancelled ''cancelled before any effect'' db = Inr (dd, db')"
    by (simp add: recover_def)
  from settled_carried(3) [OF ok r ab this] True fresh show ?thesis by blast
next
  case False
  let ?c = "gr_mode g = Mode_Cancel_Requested"
  from re False obtain res code det where
    pe: "prior_effect env s (e_destinations env (x_destination_ref r)) (x_provider_request_id r) db w = Inr res"
    and k: "(case res of Inl x \<Rightarrow> Inr x
       | Inr (_, db1) \<Rightarrow> if ?c then settle_cancelled env s code det db1
                        else settle_failed env s code det db1) = Inr (dd, db')"
    unfolding recover_def Let_def by (simp only: attempt_Inr if_False) blast
  from prior_effect_carried [OF hon ok r ab nm rid inproc pe] show ?thesis
  proof (elim disjE exE conjE)
    fix dd1 db1 assume "res = Inl (dd1, db1)" "carried eff env r db db1 w (fst dd1)"
    with k show ?thesis by simp
  next
    fix p db1 r1
    assume res: "res = Inr (p, db1)" and O: "rows_agree db1"
      "lookup_by x_id (x_id r) (db_actions db1) = Some r1" "continued_row r r1" "kept_but (x_id r) db db1"
      and none: "effects_at eff w r = 0"
    note K = continued_keys [OF O(3)]
    have r1: "lookup_by x_id (x_id r1) (db_actions db1) = Some r1" using O(2) K(1) by simp
    note C = settled_carried [OF O(1) r1 about_continued [OF ab O(3)]]
    have none1: "effects_at eff w r1 = 0" using none K(2) [of eff w] by simp
    have "carried eff env r1 db1 db' w (fst dd)"
    proof (cases ?c)
      case True
      with k res have "settle_cancelled env s code det db1 = Inr (dd, db')" by simp
      from C(3) [OF this none1] show ?thesis .
    next
      case False
      with k res have "settle_failed env s code det db1 = Inr (dd, db')" by simp
      from C(2) [OF this none1] show ?thesis .
    qed
    then show ?thesis by (rule carried_trans [OF O(3,4)])
  qed
qed

section \<open>The effect\<close>

lemma lookup_by_other_key:
  assumes "lookup_by x_id i t = Some r" "\<And>q. q \<in> set t \<Longrightarrow> key q = key r \<Longrightarrow> x_id q = x_id r"
    and "unique_by x_id t"
  shows "lookup_by key (key r) t = Some r"
proof -
  have r: "r \<in> set t" using assms(1) by (rule lookup_by_in)
  then obtain q where q: "lookup_by key (key r) t = Some q"
    by (cases "lookup_by key (key r) t") auto
  from lookup_by_SomeD [OF q] have "q \<in> set t" "x_id q = x_id r" using assms(2) by auto
  with r assms(3) have "q = r" by (blast intro: unique_by_eqD)
  with q show ?thesis by simp
qed

lemma get_for_agree:
  assumes "rows_agree db" "lookup_by x_id i (db_actions db) = Some r"
  shows "get_for_operation (x_operation_id r) (db_actions db) = Some r"
    "get_for_approval (x_approval_id r) (db_actions db) = Some r"
    "get_for_key (x_operation_name r) (x_key r) (db_actions db) = Some r"
proof -
  have d: "actions_distinct (db_actions db)" and u: "unique_by x_id (db_actions db)"
    using assms(1) by (simp_all add: rows_agree_def unique_tables_def)
  have r: "r \<in> set (db_actions db)" using assms(2) by (rule lookup_by_in)
  have k: "x_id q = x_id r" if "q \<in> set (db_actions db)" "x_approval_id q = x_approval_id r \<or>
      x_operation_id q = x_operation_id r \<or> x_ref q = x_ref r" for q
    using d r that unfolding actions_distinct_def by blast
  show "get_for_operation (x_operation_id r) (db_actions db) = Some r"
    unfolding get_for_operation_def by (rule lookup_by_other_key [OF assms(2) _ u]) (rule k; simp)
  show "get_for_approval (x_approval_id r) (db_actions db) = Some r"
    unfolding get_for_approval_def by (rule lookup_by_other_key [OF assms(2) _ u]) (rule k; simp)
  have "lookup_by x_ref (x_ref r) (db_actions db) = Some r"
    by (rule lookup_by_other_key [OF assms(2) _ u]) (rule k; simp)
  then show "get_for_key (x_operation_name r) (x_key r) (db_actions db) = Some r"
    by (simp add: get_for_key_def x_ref_def)
qed

lemma rows_agree_data [simp]: "rows_agree (db\<lparr>db_data := d\<rparr>) = rows_agree db"
  by (simp add: rows_agree_def unique_tables_def rows_ok_def)

lemma carried_data: "carried eff env r (db\<lparr>db_data := x\<rparr>) db' w d \<Longrightarrow> carried eff env r db db' w d"
  by (simp add: carried_def kept_but_def)

text \<open>What one call may have done to the world: nothing but the effect of its own request.\<close>

definition only_effect ::
  "('w \<Rightarrow> string \<Rightarrow> nat) \<Rightarrow> string \<Rightarrow> 'w \<Rightarrow> 'w \<Rightarrow> bool" where
  "only_effect eff rid w w' \<longleftrightarrow>
     (\<forall>k. k \<noteq> rid \<longrightarrow> eff w' k = eff w k) \<and> eff w rid \<le> eff w' rid \<and>
     (eff w' rid = eff w rid \<or> eff w rid = 0 \<and> eff w' rid = 1)"

lemma only_effect_refl [simp]: "only_effect eff rid w w"
  by (simp add: only_effect_def)

lemma execute_honest:
  assumes hon: "honest eff env" and d: "e_destinations env (x_destination_ref r) = Some d"
    and ok: "rows_agree db" and r: "lookup_by x_id (x_id r) (db_actions db) = Some r"
    and rid: "ds_provider d \<longrightarrow> x_provider_request_id r = Some (provider_request_id (x_id r))"
    and none: "effects_at eff w r = 0"
    and ex: "ds_execute d held (x_operation_id r) db inp w = (result, w')"
  shows "only_effect eff (provider_request_id (x_id r)) w w'"
    and "\<not> ds_provider d \<Longrightarrow> w' = w"
    and "result = Exec_Returns out data \<Longrightarrow> ds_provider d \<Longrightarrow> 1 \<le> effects_at eff w' r"
    and "result = Exec_Raises fc c det \<Longrightarrow> fc \<noteq> Outcome_Unknown \<Longrightarrow> effects_at eff w' r = 0"
proof -
  have in_process: "w' = w" if "\<not> ds_provider d"
  proof -
    from hon d that have "snd (ds_execute d held (x_operation_id r) db inp w) = w"
      by (auto simp: honest_def)
    with ex show ?thesis by simp
  qed
  have p: "(\<forall>k. k \<noteq> provider_request_id (x_id r) \<longrightarrow> eff w' k = eff w k) \<and>
      eff w (provider_request_id (x_id r)) \<le> eff w' (provider_request_id (x_id r)) \<and>
      eff w' (provider_request_id (x_id r)) \<le> eff w (provider_request_id (x_id r)) + 1 \<and>
      (case result of Exec_Returns out data \<Rightarrow> 1 \<le> eff w' (provider_request_id (x_id r))
       | Exec_Raises fclass code detail \<Rightarrow> fclass \<noteq> Outcome_Unknown \<longrightarrow>
           eff w' (provider_request_id (x_id r)) = eff w (provider_request_id (x_id r))
       | Exec_Crashes type \<Rightarrow> True)" if "ds_provider d"
  proof -
    from hon d that have "honest_execute eff d" by (auto simp: honest_def)
    then show ?thesis
      using get_for_agree(1) [OF ok r] rid that ex unfolding honest_execute_def by blast
  qed
  show "only_effect eff (provider_request_id (x_id r)) w w'"
  proof (cases "ds_provider d")
    case True
    from p [OF True] none show ?thesis
      by (auto simp: only_effect_def effects_at_def)
  qed (use in_process in simp)
  show "\<not> ds_provider d \<Longrightarrow> w' = w" by (rule in_process)
  show "result = Exec_Returns out data \<Longrightarrow> ds_provider d \<Longrightarrow> 1 \<le> effects_at eff w' r"
    using p by (simp add: effects_at_def)
  show "result = Exec_Raises fc c det \<Longrightarrow> fc \<noteq> Outcome_Unknown \<Longrightarrow> effects_at eff w' r = 0"
    using p in_process none by (cases "ds_provider d") (auto simp: effects_at_def)
qed

lemma invoke_carried:
  assumes hon: "honest eff env" and d: "e_destinations env (x_destination_ref r) = Some d"
    and ok: "rows_agree db" and r: "lookup_by x_id (x_id r) (db_actions db) = Some r"
    and ab: "about s r" and nm: "named s" and g: "gr_operation_id g = x_operation_id r"
    and rid: "ds_provider d \<longrightarrow> x_provider_request_id r = Some (provider_request_id (x_id r))"
    and none: "effects_at eff w r = 0"
    and inv: "invoke env s g (oper, inp, held, d) db w = (res, w')"
  shows "only_effect eff (provider_request_id (x_id r)) w w' \<and> (\<not> ds_provider d \<longrightarrow> w' = w) \<and>
    (\<forall>dd db'. res = Inr (dd, db') \<longrightarrow> carried eff env r db db' w' (fst dd))"
proof -
  obtain result where ex: "ds_execute d held (x_operation_id r) db inp w = (result, w')"
    and res: "res = (case result of
            Exec_Raises fclass code detail \<Rightarrow>
              classified env s (gr_attempts g) (gr_max_attempts g)
                (if \<not> ds_provider d \<and> fclass = Outcome_Unknown then Retryable_No_Effect
                 else fclass) code detail db
          | Exec_Crashes type \<Rightarrow>
              classified env s (gr_attempts g) (gr_max_attempts g)
                (if ds_provider d then Outcome_Unknown else Retryable_No_Effect)
                destination_failed type db
          | Exec_Returns out data \<Rightarrow>
              if \<not> rg_is_output oper out
              then if ds_provider d
                   then settle_unresolved env s outcome_unknown
                          ''the provider returned no valid declared output'' db
                   else settle_refused env s Permanent_Refusal_No_Effect ''output_invalid''
                          ''the destination returned invalid output'' db
              else settle_success env s out
                     (if ds_provider d then Provider_Status else Handler_Returned)
                     (db\<lparr>db_data := data\<rparr>))"
    using inv by (auto simp: invoke_def g split: prod.splits)
  note X = execute_honest [OF hon d ok r rid none ex]
  have prov: "to_provider env r = ds_provider d" using d by (simp add: to_provider_def)
  have still: "effects_at eff w' r = 0" if "\<not> ds_provider d" using X(2) [OF that] none by simp
  have "carried eff env r db db' w' (fst dd)" if dd: "res = Inr (dd, db')" for dd db'
  proof (cases result)
    case (Exec_Raises fc c det)
    let ?fc = "if \<not> ds_provider d \<and> fc = Outcome_Unknown then Retryable_No_Effect else fc"
    from Exec_Raises res dd have "classified env s (gr_attempts g) (gr_max_attempts g) ?fc c det db = Inr (dd, db')"
      by simp
    then show ?thesis
      by (rule classified_carried [OF ok r ab]) (use X(4) [OF Exec_Raises] still in \<open>auto split: if_splits\<close>)
  next
    case (Exec_Crashes type)
    let ?fc = "if ds_provider d then Outcome_Unknown else Retryable_No_Effect"
    from Exec_Crashes res dd have
      "classified env s (gr_attempts g) (gr_max_attempts g) ?fc destination_failed type db = Inr (dd, db')"
      by simp
    then show ?thesis
      by (rule classified_carried [OF ok r ab]) (use still in \<open>auto split: if_splits\<close>)
  next
    case (Exec_Returns out data)
    show ?thesis
    proof (cases "rg_is_output oper out")
      case False
      show ?thesis
      proof (cases "ds_provider d")
        case True
        with False Exec_Returns res dd have "settle_unresolved env s outcome_unknown
            ''the provider returned no valid declared output'' db = Inr (dd, db')" by simp
        then show ?thesis by (rule settled_carried(4) [OF ok r ab])
      next
        case np: False
        with False Exec_Returns res dd have "settle_refused env s Permanent_Refusal_No_Effect
            ''output_invalid'' ''the destination returned invalid output'' db = Inr (dd, db')" by simp
        then show ?thesis by (rule settled_carried(1) [OF ok r ab]) (use still np in simp)
      qed
    next
      case True
      let ?k = "if ds_provider d then Provider_Status else Handler_Returned"
      from True Exec_Returns res dd have
        sc: "settle_success env s out ?k (db\<lparr>db_data := data\<rparr>) = Inr (dd, db')" by simp
      have "carried eff env r (db\<lparr>db_data := data\<rparr>) db' w' (fst dd)"
        by (rule settled_carried(5) [OF _ _ ab sc])
           (use ok r X(3) [OF Exec_Returns] prov nm in \<open>simp_all add: named_def\<close>)
      then show ?thesis by (rule carried_data)
    qed
  qed
  with X(1,2) show ?thesis by blast
qed

lemma effect_carried:
  assumes hon: "honest eff env" and d: "e_destinations env (x_destination_ref r) = Some d"
    and ok: "rows_agree db" and r: "lookup_by x_id (x_id r) (db_actions db) = Some r"
    and ab: "about s r" and nm: "named s" and g: "gr_operation_id g = x_operation_id r" "gr_action g = x_id r"
    and queued: "x_job_id r \<noteq> None"
    and inproc: "ds_provider d \<or> effects_at eff w r = 0"
    and prior: "prior \<noteq> None \<longrightarrow> effects_at eff w r = 0"
      "\<forall>fc c det. prior = Some (Some (fc, c, det)) \<longrightarrow> fc \<noteq> Outcome_Unknown"
    and ef: "effect env s g n prior (oper, inp, held, d) db w = (res, w')"
  shows "only_effect eff (provider_request_id (x_id r)) w w' \<and> (\<not> ds_provider d \<longrightarrow> w' = w) \<and>
    (\<forall>dd db'. res = Inr (dd, db') \<longrightarrow> carried eff env r db db' w' (fst dd))"
proof -
  let ?rid = "if ds_provider d then Some (provider_request_id (x_id r)) else None"
  let ?f = "executing_values (n + 1) ?rid (st_now s)"
  note ef = ef [unfolded effect_def Let_def g fst_conv snd_conv]
  show ?thesis
  proof (cases "demand Raise_Error (on_actions (update_action (x_id r) x_open_state ?f) db)")
    case (Inl e)
    with ef show ?thesis by auto
  next
    case (Inr db1)
    have rq: "request_id_ok r \<longrightarrow> request_id_ok (?f r)" by (simp add: request_id_ok_def)
    have "\<forall>a q e. x_open_state (x_state r) \<and> phase_ok (x_state r) (x_job_id r \<noteq> None) a q e \<longrightarrow>
        phase_ok (x_state (?f r)) (x_job_id r \<noteq> None) a q e"
      using queued by (cases "x_state r") (auto simp: x_open_state_def)
    note O = open_update [OF ok r Inr open_values_simps(11) open_values_simps(12) rq this]
    have r1: "lookup_by x_id (x_id (?f r)) (db_actions db1) = Some (?f r)" using O(2) by simp
    note ab1 = about_continued [OF ab O(5)]
    note K = continued_keys [OF O(5)]
    have d1: "e_destinations env (x_destination_ref (?f r)) = Some d"
      using O(5) d by (simp add: continued_row_def same_action_def)
    have T: "carried eff env (?f r) db1 db' w0 disp \<Longrightarrow> carried eff env r db db' w0 disp" for db' disp w0
      by (rule carried_trans [OF O(5,3)])
    have I: "only_effect eff (provider_request_id (x_id r)) w w' \<and> (\<not> ds_provider d \<longrightarrow> w' = w) \<and>
        (\<forall>dd db'. res = Inr (dd, db') \<longrightarrow> carried eff env r db db' w' (fst dd))"
      if "effects_at eff w r = 0" "invoke env s g (oper, inp, held, d) db1 w = (res, w')"
    proof -
      have a: "gr_operation_id g = x_operation_id (?f r)" using g by simp
      have b: "ds_provider d \<longrightarrow> x_provider_request_id (?f r) = Some (provider_request_id (x_id (?f r)))"
        by simp
      have c: "effects_at eff w (?f r) = 0" using that(1) K(2) [of eff w] by simp
      from invoke_carried [OF hon d1 O(1) r1 ab1 nm a b c that(2)] T show ?thesis
        unfolding K(1) by blast
    qed
    show ?thesis
    proof (cases "ds_provider d")
      case False
      with ef Inr have "invoke env s g (oper, inp, held, d) db1 w = (res, w')"
        by simp
      moreover have "effects_at eff w r = 0" using inproc False by simp
      ultimately show ?thesis using I by simp
    next
      case True
      let ?a = "case prior of None \<Rightarrow> reconcile_external s d ?rid db1 w
                         | Some None \<Rightarrow> Answer_Absent
                         | Some (Some (fclass, code, detail)) \<Rightarrow> Answer_Error fclass code detail"
      from ef Inr True have res: "(res, w') = (case ?a of
            Answer_Found out \<Rightarrow> (settle_success env s out Provider_Status db1, w)
          | Answer_Error fclass code detail \<Rightarrow>
              (classified env s (gr_attempts g) (gr_max_attempts g) fclass code detail db1, w)
          | Answer_Absent \<Rightarrow> invoke env s g (oper, inp, held, d) db1 w)"
        by simp
      note H = reconcile_honest [OF hon d True, of s "provider_request_id (x_id r)" db1 w]
      have A: "?a = Answer_Found out \<Longrightarrow> 1 \<le> effects_at eff w r"
        "?a = Answer_Absent \<Longrightarrow> effects_at eff w r = 0"
        "?a = Answer_Error fc c det \<Longrightarrow> fc \<noteq> Outcome_Unknown \<Longrightarrow> effects_at eff w r = 0" for out fc c det
        using H prior True by (auto simp: effects_at_def split: option.splits)
      show ?thesis
      proof (cases ?a)
        case (Answer_Found out)
        with res have w': "w' = w" and sc: "res = settle_success env s out Provider_Status db1" by simp_all
        have "carried eff env (?f r) db1 db' w (fst dd)" if "res = Inr (dd, db')" for dd db'
          by (rule settled_carried(5) [OF O(1) r1 ab1 that [unfolded sc]])
             (use A(1) [OF Answer_Found] K(2) [of eff w] nm in \<open>simp_all add: named_def\<close>)
        with T w' show ?thesis by simp
      next
        case Answer_Absent
        with res have "invoke env s g (oper, inp, held, d) db1 w = (res, w')" by simp
        from I [OF A(2) [OF Answer_Absent] this] show ?thesis .
      next
        case (Answer_Error fc c det)
        with res have w': "w' = w"
          and cl: "res = classified env s (gr_attempts g) (gr_max_attempts g) fc c det db1" by simp_all
        have "carried eff env (?f r) db1 db' w (fst dd)" if "res = Inr (dd, db')" for dd db'
          by (rule classified_carried [OF O(1) r1 ab1 that [unfolded cl]])
             (use A(3) [OF Answer_Error] K(2) [of eff w] in simp)
        with T w' show ?thesis by simp
      qed
    qed
  qed
qed

lemma effect_refusal_destination:
  "effect_refusal env s held g approval dest db = Inr (oper, inp, h, d) \<Longrightarrow> dest = Some d"
  by (auto simp: effect_refusal_def split: option.splits sum.splits if_splits)

lemma run_mode_carried:
  assumes hon: "honest eff env" and ok: "rows_agree db"
    and r: "lookup_by x_id (x_id r) (db_actions db) = Some r"
    and ab: "about s r" and nm: "named s" and g: "gr_operation_id g = x_operation_id r" "gr_action g = x_id r"
    and queued: "x_job_id r \<noteq> None" and rid: "request_id_ok r"
    and inproc: "to_provider env r \<or> effects_at eff w r = 0"
    and fresh: "gr_attempts g \<le> 1 \<longrightarrow> effects_at eff w r = 0"
    and run: "run_mode env s held g r approval (e_destinations env (x_destination_ref r)) db w = (res, w')"
  shows "only_effect eff (provider_request_id (x_id r)) w w' \<and> (\<not> to_provider env r \<longrightarrow> w' = w) \<and>
    (\<forall>dd db'. res = Inr (dd, db') \<longrightarrow> carried eff env r db db' w' (fst dd))"
proof -
  let ?dest = "e_destinations env (x_destination_ref r)"
  let ?go = "\<lambda>prior db1. case effect_refusal env s held g approval ?dest db1 of
          Inl (fclass, code, detail) \<Rightarrow> (settle_refused env s fclass code detail db1, w)
        | Inr target \<Rightarrow> effect env s g (x_attempts r) prior target db1 w"
  have go: "only_effect eff (provider_request_id (x_id r)) w w' \<and> (\<not> to_provider env r \<longrightarrow> w' = w) \<and>
      (\<forall>dd db'. res = Inr (dd, db') \<longrightarrow> carried eff env r db db' w' (fst dd))"
    if step: "?go prior db1 = (res, w')" and none: "effects_at eff w r = 0"
      and O: "rows_agree db1" "lookup_by x_id (x_id r) (db_actions db1) = Some r1"
        "continued_row r r1" "kept_but (x_id r) db db1"
      and pr: "\<forall>fc c det. prior = Some (Some (fc, c, det)) \<longrightarrow> fc \<noteq> Outcome_Unknown"
    for prior db1 r1
  proof -
    note K = continued_keys [OF O(3)]
    have r1: "lookup_by x_id (x_id r1) (db_actions db1) = Some r1" using O(2) K(1) by simp
    note ab1 = about_continued [OF ab O(3)]
    have T: "carried eff env r1 db1 db' w0 disp \<Longrightarrow> carried eff env r db db' w0 disp" for db' disp w0
      by (rule carried_trans [OF O(3,4)])
    have none1: "effects_at eff w r1 = 0" using none K(2) [of eff w] by simp
    show ?thesis
    proof (cases "effect_refusal env s held g approval ?dest db1")
      case (Inl t)
      obtain fc c det where "t = (fc, c, det)" by (cases t) auto
      with step Inl have w': "w' = w" and rf: "res = settle_refused env s fc c det db1" by simp_all
      have "carried eff env r1 db1 db' w (fst dd)" if "res = Inr (dd, db')" for dd db'
        using that unfolding rf by (rule settled_carried(1) [OF O(1) r1 ab1 _ none1])
      with T w' show ?thesis by simp
    next
      case (Inr target)
      obtain oper inp h d where t: "target = (oper, inp, h, d)" by (cases target) auto
      from effect_refusal_destination [OF Inr [unfolded t]] have d: "?dest = Some d" .
      then have d1: "e_destinations env (x_destination_ref r1) = Some d"
        using O(3) by (simp add: continued_row_def same_action_def)
      from step Inr t have ef: "effect env s g (x_attempts r) prior (oper, inp, h, d) db1 w = (res, w')"
        by simp
      have q1: "x_job_id r1 \<noteq> None" using queued O(3) by (simp add: continued_row_def)
      have "gr_operation_id g = x_operation_id r1" "gr_action g = x_id r1" using g K by simp_all
      moreover have "ds_provider d \<or> effects_at eff w r1 = 0"
        "prior \<noteq> None \<longrightarrow> effects_at eff w r1 = 0" using none1 by simp_all
      ultimately have "only_effect eff (provider_request_id (x_id r1)) w w' \<and>
          (\<not> ds_provider d \<longrightarrow> w' = w) \<and>
          (\<forall>dd db'. res = Inr (dd, db') \<longrightarrow> carried eff env r1 db1 db' w' (fst dd))"
        by (intro effect_carried [OF hon d1 O(1) r1 ab1 nm _ _ q1 _ _ pr ef])
      moreover have "to_provider env r = ds_provider d" using d by (simp add: to_provider_def)
      ultimately show ?thesis using T unfolding K(1) by blast
    qed
  qed
  show ?thesis
  proof (cases "gr_attempts g > 1")
    case False
    have "continued_row r r" "kept_but (x_id r) db db"
      by (simp_all add: continued_row_def kept_but_def)
    with False run fresh go [where prior = None and ?db1.0 = db and ?r1.0 = r] ok r show ?thesis
      by (simp add: run_mode_def)
  next
    case True
    show ?thesis
    proof (cases "prior_effect env s ?dest (x_provider_request_id r) db w")
      case (Inl e)
      with run True show ?thesis by (auto simp: run_mode_def)
    next
      case (Inr res1)
      from prior_effect_carried [OF hon ok r ab nm rid inproc Inr] show ?thesis
      proof (elim disjE exE conjE)
        fix dd db1 assume "res1 = Inl (dd, db1)" "carried eff env r db db1 w (fst dd)"
        with run True Inr show ?thesis by (auto simp: run_mode_def)
      next
        fix p db1 r1
        assume res1: "res1 = Inr (p, db1)" and O: "rows_agree db1"
          "lookup_by x_id (x_id r) (db_actions db1) = Some r1" "continued_row r r1"
          "kept_but (x_id r) db db1" "effects_at eff w r = 0"
          "\<forall>fc c det. p = Some (fc, c, det) \<longrightarrow> fc \<noteq> Outcome_Unknown"
        from run True Inr res1 have "?go (Some p) db1 = (res, w')" by (simp add: run_mode_def)
        from go [OF this O(5,1-4)] O(6) show ?thesis by simp
      qed
    qed
  qed
qed

section \<open>The whole continuation\<close>

lemma if_Nil: "(if b then [] else [x]) = [] \<longleftrightarrow> b"
  by simp

lemma job_problems_Nil: "job_problems r owner job = [] \<longleftrightarrow>
    (\<exists>jr. job = Some jr \<and> j_kind jr = external_action_execute \<and> j_state jr = JobLeased \<and>
       j_lease_owner jr = Some owner \<and> j_operation_id jr = None \<and>
       j_input jr = external_job_input (x_id r))"
  by (cases job) (simp_all add: job_problems_def if_Nil)

lemma approval_problems_Nil: "approval_problems r ap = [] \<longleftrightarrow>
    (\<exists>p. ap = Some p \<and> ap_state p = ApApproved \<and> approval_of_action r p)"
  by (cases ap) (auto simp: approval_problems_def approval_of_action_def if_Nil)

lemma operation_problems_Nil: "operation_problems r op = [] \<longleftrightarrow>
    (\<exists>q. op = Some q \<and> o_state q = OpRunning \<and> operation_of_action r q)"
  by (cases op) (auto simp: operation_problems_def operation_of_action_def if_Nil)

lemma reservation_problems_Nil: "reservation_problems r en = [] \<longleftrightarrow>
    (\<exists>e. en = Some e \<and> en_state e = EnPending \<and> reservation_of_action r e)"
  by (cases en) (auto simp: reservation_problems_def reservation_of_action_def if_Nil)

lemmas problems_Nil =
  job_problems_Nil approval_problems_Nil operation_problems_Nil reservation_problems_Nil

text \<open>When a job may continue an action.\<close>

lemma lock_and_bind_iff:
  "lock_and_bind i j owner db = Inr (r, p) \<longleftrightarrow>
     lookup_by x_id i (db_actions db) = Some r \<and> x_open_state (x_state r) \<and> x_job_id r = Some j \<and>
     job_problems r owner (lookup_by j_id j (db_jobs db)) = [] \<and>
     lookup_by ap_id (x_approval_id r) (db_approvals db) = Some p \<and>
     approval_problems r (Some p) = [] \<and>
     operation_problems r (lookup_by o_id (x_operation_id r) (db_operations db)) = [] \<and>
     reservation_problems r (lookup_by en_ref (x_ref r) (db_envelopes db)) = []"
proof (cases "lookup_by x_id i (db_actions db)")
  case None
  then show ?thesis by (simp add: lock_and_bind_def get_action_def)
next
  case (Some q)
  show ?thesis
  proof (cases "lookup_by ap_id (x_approval_id q) (db_approvals db)")
    case None
    with Some show ?thesis by (auto simp: lock_and_bind_def get_action_def get_approval_def Let_def)
  next
    case s2: (Some p')
    with Some show ?thesis
      by (auto simp: lock_and_bind_def get_action_def get_approval_def Let_def if_Nil)
  qed
qed

lemma lock_and_bindD:
  assumes "lock_and_bind i j owner db = Inr (r, p)"
  shows "lookup_by x_id i (db_actions db) = Some r" "x_id r = i" "x_open_state (x_state r)"
    "x_job_id r = Some j" "lookup_by ap_id (x_approval_id r) (db_approvals db) = Some p"
    "ap_state p = ApApproved" "approval_of_action r p"
    "\<exists>jr. lookup_by j_id j (db_jobs db) = Some jr \<and> j_kind jr = external_action_execute \<and>
       job_held j owner jr \<and> j_operation_id jr = None \<and> j_input jr = external_job_input i"
proof -
  from assms [unfolded lock_and_bind_iff] show r: "lookup_by x_id i (db_actions db) = Some r"
    and "x_open_state (x_state r)" "x_job_id r = Some j"
    "lookup_by ap_id (x_approval_id r) (db_approvals db) = Some p"
    "ap_state p = ApApproved" "approval_of_action r p"
    by (simp_all only: problems_Nil option.inject) blast+
  show i: "x_id r = i" using r by (rule lookup_by_key)
  from assms [unfolded lock_and_bind_iff] i
  show "\<exists>jr. lookup_by j_id j (db_jobs db) = Some jr \<and> j_kind jr = external_action_execute \<and>
       job_held j owner jr \<and> j_operation_id jr = None \<and> j_input jr = external_job_input i"
    by (auto simp: problems_Nil job_held_def dest: lookup_by_key)
qed

lemma settle_for_about:
  fixes env :: "('i, 'o, 's, 'w) env"
  assumes "mint_continuation_grant ws l owner mode i db = Inr g"
  obtains r p where "lock_and_bind i (l_id l) owner db = Inr (r, p)" "gr_action g = x_id r" "x_id r = i"
    "gr_job g = l_id l" "gr_owner g = owner" "grant_matches g r" "gr_attempts g = l_attempts l"
    "gr_mode g = mode" "gr_max_attempts g = l_max_attempts l" "gr_workspace g = ws"
    "\<And>held now. about (settle_for env g held now db) r"
proof -
  from assms obtain r p where b: "lock_and_bind i (l_id l) owner db = Inr (r, p)"
    and g: "g = \<lparr>gr_workspace = ws, gr_job = l_id l, gr_owner = owner, gr_action = x_id r,
               gr_approval = x_approval_id r, gr_operation_id = x_operation_id r,
               gr_name = x_operation_name r, gr_key = x_key r,
               gr_destination = x_destination_ref r, gr_digest = x_payload_digest r,
               gr_request_version = x_request_version r, gr_result_version = x_result_version r,
               gr_attempts = l_attempts l, gr_max_attempts = l_max_attempts l, gr_mode = mode\<rparr>"
    by (auto simp: mint_continuation_grant_def split: sum.splits)
  show thesis
    by (rule that [OF b]) (use lock_and_bindD(2) [OF b] in
      \<open>simp_all add: g grant_matches_def about_def settle_for_def x_ref_def\<close>)
qed

text \<open>What the continuation of a bound action relies on, beyond rows that agree: in-process actions
  have no effect outside, and a lease that is the first to run found none.\<close>

definition may_continue ::
  "('w \<Rightarrow> string \<Rightarrow> nat) \<Rightarrow> ('i, 'o, 's, 'w) env \<Rightarrow> json leased_job \<Rightarrow> continuation_mode \<Rightarrow> 'w \<Rightarrow>
   external_action \<Rightarrow> bool" where
  "may_continue eff env l mode w r \<longleftrightarrow>
     request_id_ok r \<and> (to_provider env r \<or> effects_at eff w r = 0) \<and>
     (mode = Mode_Run \<and> l_attempts l \<le> 1 \<or> mode = Mode_Cancel_Requested \<and> l_attempts l = 0 \<longrightarrow>
        effects_at eff w r = 0)"

lemma continuation_carried:
  assumes hon: "honest eff env" and ok: "rows_agree db"
    and run: "run_external_continuation env ws l owner mode now db w = (res, w')"
    and may: "\<And>i r p. e_job_action env (l_payload l) = Some i \<Longrightarrow>
      lock_and_bind i (l_id l) owner db = Inr (r, p) \<Longrightarrow> may_continue eff env l mode w r"
  shows "(\<exists>detail. res = Inr ((Disp_Failed, detail), db) \<and> w' = w \<and>
      (\<forall>i. e_job_action env (l_payload l) = Some i \<longrightarrow>
         (\<exists>ps. lock_and_bind i (l_id l) owner db = Inl ps))) \<or>
    (\<exists>i r p. e_job_action env (l_payload l) = Some i \<and> lock_and_bind i (l_id l) owner db = Inr (r, p) \<and>
      only_effect eff (provider_request_id i) w w' \<and> (\<not> to_provider env r \<longrightarrow> w' = w) \<and>
      (mode \<noteq> Mode_Run \<longrightarrow> w' = w) \<and>
      (\<forall>dd db'. res = Inr (dd, db') \<longrightarrow> carried eff env r db db' w' (fst dd)))"
proof (cases "e_job_action env (l_payload l)")
  case None
  with run show ?thesis by (auto simp: run_external_continuation_def)
next
  case (Some i)
  show ?thesis
  proof (cases "mint_continuation_grant ws l owner mode i db")
    case (Inl ps)
    then have "lock_and_bind i (l_id l) owner db = Inl ps"
      by (auto simp: mint_continuation_grant_def split: sum.splits)
    with run Some Inl show ?thesis
      by (auto simp: run_external_continuation_def grant_refused_def)
  next
    case (Inr g)
    then show ?thesis
    proof (rule settle_for_about [where env = env])
      fix r p
      assume b: "lock_and_bind i (l_id l) owner db = Inr (r, p)" and g: "gr_action g = x_id r" "x_id r = i"
        "gr_job g = l_id l" "gr_owner g = owner" "grant_matches g r" "gr_attempts g = l_attempts l"
        "gr_mode g = mode" and ab: "\<And>held now. about (settle_for env g held now db) r"
      let ?held = "context_for_approved_execution (e_control env) db (gr_workspace g) p"
      let ?s = "settle_for env g ?held now db"
      let ?dest = "e_destinations env (x_destination_ref r)"
      have dest: "gr_destination g = x_destination_ref r" "gr_operation_id g = x_operation_id r"
        "gr_name g = x_operation_name r"
        using g(5) by (simp_all add: grant_matches_def)
      have nm: "named ?s"
        using hon by (simp add: named_def settle_for_def honest_def)
      from may [OF Some b] have m: "request_id_ok r" "to_provider env r \<or> effects_at eff w r = 0"
        "mode = Mode_Cancel_Requested \<and> l_attempts l = 0 \<longrightarrow> effects_at eff w r = 0"
        "mode = Mode_Run \<and> l_attempts l \<le> 1 \<longrightarrow> effects_at eff w r = 0"
        by (simp_all add: may_continue_def)
      have r: "lookup_by x_id (x_id r) (db_actions db) = Some r" using lock_and_bindD(1,2) [OF b] by simp
      have res: "(res, w') = (if mode \<noteq> Mode_Run
          then (recover env ?s g ?dest (x_provider_request_id r) db w, w)
          else run_mode env ?s ?held g r p ?dest db w)"
        using run Some Inr b g dest
        by (simp add: run_external_continuation_def continue_approved_external_in_transaction_def Let_def)
      have "only_effect eff (provider_request_id i) w w' \<and> (\<not> to_provider env r \<longrightarrow> w' = w) \<and>
          (mode \<noteq> Mode_Run \<longrightarrow> w' = w) \<and>
          (\<forall>dd db'. res = Inr (dd, db') \<longrightarrow> carried eff env r db db' w' (fst dd))"
      proof (cases "mode = Mode_Run")
        case False
        with res have w': "w' = w" and re: "res = recover env ?s g ?dest (x_provider_request_id r) db w"
          by simp_all
        have fr: "gr_mode g = Mode_Cancel_Requested \<and> gr_attempts g = 0 \<longrightarrow> effects_at eff w r = 0"
          using m(3) g by simp
        have "carried eff env r db db' w (fst dd)" if "res = Inr (dd, db')" for dd db'
          by (rule recover_carried [OF hon ok r ab nm m(1,2) fr that [unfolded re]])
        with w' show ?thesis by simp
      next
        case True
        with res have run: "run_mode env ?s ?held g r p ?dest db w = (res, w')" by simp
        have fr: "gr_attempts g \<le> 1 \<longrightarrow> effects_at eff w r = 0" using m(4) g True by simp
        have q: "x_job_id r \<noteq> None" using lock_and_bindD(4) [OF b] by simp
        from run_mode_carried [OF hon ok r ab nm dest(2) g(1) q m(1,2) fr run] True g(2)
        show ?thesis by simp
      qed
      with Some b show ?thesis by blast
    qed
  qed
qed

end
