(* ===== verification/External_Transactions.thy ===== *)
theory External_Transactions
  imports External_Outcome
begin

text \<open>
  The transactions that stage, decide, resolve, purge and erase: each keeps the agreement of the
  rows (\<open>db_inv\<close>), and what each does to the actions (\<open>actions_move\<close>). The erasure is
  \<^verbatim>\<open>deletion/dependents.py\<close>.
\<close>

declare row_change_keys(6,7) [simp del]

section \<open>Erasure\<close>

text \<open>\<^verbatim>\<open>erase_dependents\<close> over these tables; the transcripts and exports it also removes are not
  among them. \<open>own\<close> is the approval of the erasure itself.\<close>

definition erased_job :: "string \<Rightarrow> 'p job \<Rightarrow> bool" where
  "erased_job ref j \<longleftrightarrow>
     j_depends_on_ref j = Some ref \<and> (j_state j = JobQueued \<or> j_state j = JobLeased)"

definition erased_job_values :: "instant \<Rightarrow> json job \<Rightarrow> json job" where
  "erased_job_values now j =
     j\<lparr>j_state := JobCancelled, j_cancel_requested := True, j_finished_at := Some now,
       j_lease_owner := None, j_lease_until := None, j_input := JObject [],
       j_last_error := Some ''source_deleted''\<rparr>"

definition erased_approval :: "string \<Rightarrow> uuid \<Rightarrow> approval \<Rightarrow> bool" where
  "erased_approval ref own p \<longleftrightarrow>
     (ap_subject_ref p = Some ref \<or> ap_destination_ref p = Some ref) \<and> ap_id p \<noteq> own \<and>
     (ap_state p = ApPending \<or> ap_state p = ApApproved \<or> ap_state p = ApRequires_Reapproval)"

definition erased_approval_values :: "approval \<Rightarrow> approval" where
  "erased_approval_values p =
     p\<lparr>ap_state := ApInvalidated, ap_invalidated_reason := Some ''source_deleted'',
       ap_payload_ref := None\<rparr>"

definition erased_operation :: "uuid list \<Rightarrow> operation \<Rightarrow> bool" where
  "erased_operation ids q \<longleftrightarrow>
     o_id q \<in> set ids \<and>
     (o_state q = OpPending \<or> o_state q = OpRunning \<or> o_state q = OpApprovalRequired)"

definition erased_operation_values :: "instant \<Rightarrow> operation \<Rightarrow> operation" where
  "erased_operation_values now q =
     q\<lparr>o_state := OpCancelled, o_terminal_at := Some now, o_error_code := Some ''source_deleted'',
       o_error_text := Some ''Source record erased''\<rparr>"

definition erase_dependents :: "string \<Rightarrow> uuid \<Rightarrow> instant \<Rightarrow> 's ws_db \<Rightarrow> nat \<times> nat \<times> 's ws_db" where
  "erase_dependents ref own now db =
     (let cancelled = filter (erased_job ref) (db_jobs db);
          held = filter (erased_approval ref own) (db_approvals db);
          operations = List.map_filter j_operation_id cancelled @ map ap_operation_id held
      in (length cancelled, length held,
          db\<lparr>db_jobs := update_where (erased_job ref) (erased_job_values now) (db_jobs db),
             db_payloads := filter (\<lambda>p. py_approval_id p \<notin> ap_id ` set held) (db_payloads db),
             db_approvals := update_where (erased_approval ref own) erased_approval_values
               (db_approvals db),
             db_operations := update_where (erased_operation operations)
               (erased_operation_values now) (db_operations db)\<rparr>))"

section \<open>The invariant of the rows\<close>

text \<open>An approval and its operation record name each other, and an approved one says when.\<close>

definition approval_linked :: "operations \<Rightarrow> approval \<Rightarrow> bool" where
  "approval_linked ops p \<longleftrightarrow>
     (\<exists>q. lookup_by o_id (ap_operation_id p) ops = Some q \<and> o_approval_id q = Some (ap_id p)) \<and>
     (ap_state p = ApApproved \<longrightarrow> ap_approved_at p \<noteq> None)"

definition approvals_linked :: "'s ws_db \<Rightarrow> bool" where
  "approvals_linked db \<longleftrightarrow> (\<forall>p \<in> set (db_approvals db). approval_linked (db_operations db) p)"

text \<open>The job of an action is bound to it for ever; no other job is bound to its record.\<close>

definition external_job :: "json job \<Rightarrow> bool" where
  "external_job j \<longleftrightarrow>
     j_kind j = external_action_execute \<and> j_operation_id j = None \<and> j_depends_on_ref j = None"

definition job_of_action :: "json jobs \<Rightarrow> external_action \<Rightarrow> bool" where
  "job_of_action t r \<longleftrightarrow>
     (\<forall>i. x_job_id r = Some i \<longrightarrow>
        (\<exists>j. lookup_by j_id i t = Some j \<and> external_job j \<and> j_input j = external_job_input (x_id r)))"

definition jobs_linked :: "'s ws_db \<Rightarrow> bool" where
  "jobs_linked db \<longleftrightarrow>
     unique_by j_id (db_jobs db) \<and>
     (\<forall>r \<in> set (db_actions db). job_of_action (db_jobs db) r) \<and>
     (\<forall>j \<in> set (db_jobs db). \<forall>i. j_operation_id j = Some i \<longrightarrow>
        i \<in> o_id ` set (db_operations db) \<and> (\<forall>r \<in> set (db_actions db). x_operation_id r \<noteq> i))"

definition db_inv :: "'s ws_db \<Rightarrow> bool" where
  "db_inv db \<longleftrightarrow> rows_agree db \<and> approvals_linked db \<and> jobs_linked db"

section \<open>What a transaction of this kind leaves alone\<close>

text \<open>The row of an action before and after: bound to the same call, no sooner open, its request id
  and its job kept, and no claim about the world that was not there or is not so.\<close>

definition evolved ::
  "('w \<Rightarrow> string \<Rightarrow> nat) \<Rightarrow> ('i, 'o, 's, 'w) env \<Rightarrow> 'w \<Rightarrow> external_action \<Rightarrow> external_action \<Rightarrow> bool"
where
  "evolved eff env w r r' \<longleftrightarrow>
     same_action r r' \<and> x_provider_request_id r' = x_provider_request_id r \<and>
     (x_open_state (x_state r') \<longrightarrow> x_open_state (x_state r)) \<and>
     (x_job_id r' = x_job_id r \<or> x_job_id r = None) \<and>
     (request_id_ok r \<and> truthful eff env w r \<and>
      (x_job_id r = None \<or> \<not> to_provider env r \<longrightarrow> effects_at eff w r = 0) \<longrightarrow>
        truthful eff env w r')"

definition staged_row :: "external_action \<Rightarrow> bool" where
  "staged_row r \<longleftrightarrow> x_state r = XPending \<and> x_job_id r = None \<and> x_provider_request_id r = None"

text \<open>The relation of every such transaction; what the workers rely on.\<close>

definition advances ::
  "('w \<Rightarrow> string \<Rightarrow> nat) \<Rightarrow> ('i, 'o, 's, 'w) env \<Rightarrow> 'w \<Rightarrow> 's ws_db \<Rightarrow> 's ws_db \<Rightarrow> bool" where
  "advances eff env w db db' \<longleftrightarrow>
     (\<forall>r \<in> set (db_actions db). \<exists>r' \<in> set (db_actions db'). evolved eff env w r r') \<and>
     (\<forall>r' \<in> set (db_actions db'). (\<exists>r \<in> set (db_actions db). evolved eff env w r r') \<or>
        staged_row r' \<and> x_id r' \<notin> x_id ` set (db_actions db)) \<and>
     (\<forall>i j. lookup_by j_id i (db_jobs db) = Some j \<and> external_job j \<longrightarrow>
        lookup_by j_id i (db_jobs db') = Some j) \<and>
     (\<forall>i j. lookup_by j_id i (db_jobs db') = Some j \<and> j_kind j = external_action_execute \<longrightarrow>
        lookup_by j_id i (db_jobs db) = Some j \<or>
        j_state j \<noteq> JobLeased \<and>
        (case lookup_by j_id i (db_jobs db) of None \<Rightarrow> 0 \<le> j_attempts j
         | Some j0 \<Rightarrow> j_attempts j = j_attempts j0 \<and> j_kind j = j_kind j0)) \<and>
     (\<forall>p \<in> set (db_approvals db). \<exists>p' \<in> set (db_approvals db'). ap_id p' = ap_id p \<and>
        (ap_approved_at p \<noteq> None \<longrightarrow> ap_approved_at p' \<noteq> None))"

lemma evolved_refl [simp]: "evolved eff env w r r"
  by (simp add: evolved_def)

text \<open>Where neither the actions nor the jobs change.\<close>

lemma db_inv_frame:
  assumes inv: "db_inv db" and u: "unique_tables db'"
    and acts: "db_actions db' = db_actions db" and jobs: "db_jobs db' = db_jobs db"
    and ops: "o_id ` set (db_operations db) \<subseteq> o_id ` set (db_operations db')"
    and link: "approvals_linked db'"
    and rows: "\<And>r. r \<in> set (db_actions db) \<Longrightarrow>
      lookup_by ap_id (x_approval_id r) (db_approvals db') =
        lookup_by ap_id (x_approval_id r) (db_approvals db) \<and>
      lookup_by o_id (x_operation_id r) (db_operations db') =
        lookup_by o_id (x_operation_id r) (db_operations db) \<and>
      lookup_by en_ref (x_ref r) (db_envelopes db') = lookup_by en_ref (x_ref r) (db_envelopes db)"
  shows "db_inv db'"
proof -
  have "rows_ok db' r" if "r \<in> set (db_actions db')" for r
    using rows [of r] rows_ok_cong [of r db' db] that inv acts by (simp add: db_inv_def rows_agree_def)
  with inv u acts have "rows_agree db'" by (simp add: db_inv_def rows_agree_def)
  moreover have "jobs_linked db'"
    using inv ops acts jobs by (auto simp: db_inv_def jobs_linked_def)
  ultimately show ?thesis using link by (simp add: db_inv_def)
qed

lemma advances_frame:
  assumes "db_actions db' = db_actions db" "db_jobs db' = db_jobs db"
    and "\<And>p. p \<in> set (db_approvals db) \<Longrightarrow> \<exists>p' \<in> set (db_approvals db'). ap_id p' = ap_id p \<and>
      (ap_approved_at p \<noteq> None \<longrightarrow> ap_approved_at p' \<noteq> None)"
  shows "advances eff env w db db'"
  using assms unfolding advances_def by (auto intro: evolved_refl)

lemma advances_refl: "advances eff env w db db"
  by (rule advances_frame) auto

text \<open>What the rows of an action are, spelled out.\<close>

lemma rows_okE:
  assumes "rows_ok db r"
  obtains p q where "lookup_by ap_id (x_approval_id r) (db_approvals db) = Some p" "approval_of_action r p"
    "lookup_by o_id (x_operation_id r) (db_operations db) = Some q" "operation_of_action r q"
    "\<And>e. lookup_by en_ref (x_ref r) (db_envelopes db) = Some e \<Longrightarrow> reservation_of_action r e"
    "phase_ok (x_state r) (x_job_id r \<noteq> None) (ap_state p) (o_state q)
       (map_option en_state (lookup_by en_ref (x_ref r) (db_envelopes db)))"
  using assms unfolding rows_ok_def by blast

lemma db_invD:
  assumes "db_inv db"
  shows "unique_tables db" "rows_agree db" "approvals_linked db" "jobs_linked db"
    "unique_by x_id (db_actions db)" "unique_by ap_id (db_approvals db)"
    "unique_by o_id (db_operations db)" "unique_by en_ref (db_envelopes db)"
    "unique_by j_id (db_jobs db)"
    "\<And>r. r \<in> set (db_actions db) \<Longrightarrow> rows_ok db r"
  using assms by (auto simp: db_inv_def rows_agree_def unique_tables_def jobs_linked_def)

text \<open>Two approvals do not share an operation record.\<close>

lemma approval_of_operation:
  assumes "db_inv db" "r \<in> set (db_actions db)" "p \<in> set (db_approvals db)"
    and "ap_operation_id p = x_operation_id r"
  shows "ap_id p = x_approval_id r"
proof -
  obtain q where "lookup_by o_id (x_operation_id r) (db_operations db) = Some q" "operation_of_action r q"
    using db_invD(10) [OF assms(1,2)] by (rule rows_okE)
  moreover obtain q' where "lookup_by o_id (ap_operation_id p) (db_operations db) = Some q'"
    "o_approval_id q' = Some (ap_id p)"
    using db_invD(3) [OF assms(1)] assms(3) unfolding approvals_linked_def approval_linked_def by blast
  ultimately show ?thesis using assms(4) by (simp add: operation_of_action_def)
qed

section \<open>A held call\<close>

lemma fresh_update:
  assumes "i \<notin> key ` set t" "\<And>r. P r \<Longrightarrow> key r = i"
  shows "update_where P f t = t"
  using assms by (intro update_where_no_match) auto

text \<open>The three writes of a hold, as what they add.\<close>

definition held_op :: "('i, 'o, 's) registered \<Rightarrow> uuid \<Rightarrow> uuid \<Rightarrow> operation \<Rightarrow> bool" where
  "held_op oper i a q \<longleftrightarrow>
     o_id q = i \<and> o_state q = OpApprovalRequired \<and> o_approval_id q = Some a \<and> o_name q = rg_name oper"

definition held_approval ::
  "('i, 'o, 's, 'w) env \<Rightarrow> ('i, 'o, 's) registered \<Rightarrow> uuid \<Rightarrow> uuid \<Rightarrow> string option \<Rightarrow> json \<Rightarrow>
   approval \<Rightarrow> bool" where
  "held_approval env oper i a destination body p \<longleftrightarrow>
     ap_id p = a \<and> ap_operation_id p = i \<and> ap_state p = ApPending \<and> ap_operation_name p = rg_name oper \<and>
     ap_destination_ref p = destination \<and> ap_payload_digest p = payload_digest env body"

lemma held_writes:
  assumes "mint_for ctx oper i0 now db = Inr (i, db1)"
    and "create_for env ctx oper a0 i destination subject revision body now db1 = Inr (a, db2)"
    and "demand e (on_operations (mark_approval_required i a) db2) = Inr db3"
  obtains p q ps where "i = i0" "a = a0" "held_op oper i a q" "held_approval env oper i a destination body p"
    "i \<notin> o_id ` set (db_operations db)" "a \<notin> ap_id ` set (db_approvals db)"
    "db3 = db\<lparr>db_operations := db_operations db @ [q], db_approvals := db_approvals db @ [p],
        db_payloads := ps\<rparr>"
proof -
  obtain q0 where q0: "db1 = db\<lparr>db_operations := db_operations db @ [q0]\<rparr>" "i = i0"
    "o_id q0 = i" "o_state q0 = OpPending" "o_name q0 = rg_name oper" "i \<notin> o_id ` set (db_operations db)"
    using assms(1) by (auto simp: mint_for_def mint_def Let_def dest!: insert_row_InrD split: sum.splits)
  obtain p ps where p: "db2 = db1\<lparr>db_approvals := db_approvals db1 @ [p], db_payloads := ps\<rparr>" "a = a0"
    "held_approval env oper i a destination body p" "a \<notin> ap_id ` set (db_approvals db1)"
  proof -
    from assms(2) obtain t where
      c: "create_approval (new_approval a0 (actor_kind_text (cx_actor_kind ctx)) (cx_actor_id ctx)
          (rg_name oper) i destination (map_option format_ref subject) revision
          (payload_digest env body) (cx_purpose ctx) now (now + seconds (window_seconds env)))
          (e_jsonb env body) (payload_bytes body) (db_approvals db1, db_payloads db1) = Inr (a, t)"
      and d: "db2 = db1\<lparr>db_approvals := fst t, db_payloads := snd t\<rparr>"
      unfolding create_for_def by (cases rule: sum.exhaust) (auto split: sum.splits)
    note C = create_approval_InrD [OF c]
    from C(1) have a: "a = a0" by simp
    show thesis
    proof (rule that [OF _ a])
      show "db2 = db1\<lparr>db_approvals := db_approvals db1 @ [new_approval a0
          (actor_kind_text (cx_actor_kind ctx)) (cx_actor_id ctx) (rg_name oper) i destination
          (map_option format_ref subject) revision (payload_digest env body) (cx_purpose ctx) now
          (now + seconds (window_seconds env))], db_payloads := snd t\<rparr>"
        using C(2) by (simp add: d)
      show "a \<notin> ap_id ` set (db_approvals db1)" using C(3) a by simp
      show "held_approval env oper i a destination body (new_approval a0
          (actor_kind_text (cx_actor_kind ctx)) (cx_actor_id ctx) (rg_name oper) i destination
          (map_option format_ref subject) revision (payload_digest env body) (cx_purpose ctx) now
          (now + seconds (window_seconds env)))"
        using a by (simp add: held_approval_def)
    qed
  qed
  have "snd (mark_approval_required i a (db_operations db @ [q0])) =
      db_operations db @ [q0\<lparr>o_state := OpApprovalRequired, o_approval_id := Some a\<rparr>]"
  proof -
    have "update_where (op_open i) f (db_operations db) = db_operations db" for f
      using q0(6) by (rule fresh_update) (simp add: op_open_def)
    moreover have "op_open i q0" using q0(3,4) by (simp add: op_open_def)
    ultimately show ?thesis by (simp add: mark_approval_required_def)
  qed
  then have db3: "db3 = db\<lparr>db_operations := db_operations db @
      [q0\<lparr>o_state := OpApprovalRequired, o_approval_id := Some a\<rparr>],
      db_approvals := db_approvals db @ [p], db_payloads := ps\<rparr>"
    using assms(3) unfolding demand_Inr on_tables_snd p(1) q0(1) by auto
  show thesis
    by (rule that [OF q0(2) p(2) _ p(3) q0(6) _ db3]) (use q0 p(4) in \<open>simp_all add: held_op_def\<close>)
qed

lemma lookup_append_other:
  "key r \<noteq> k \<Longrightarrow> lookup_by key k (t @ [r]) = lookup_by key k t"
  by (simp add: lookup_by_append split: option.splits)

lemma lookup_append_old:
  "lookup_by key k t = Some r \<Longrightarrow> lookup_by key k (t @ u) = Some r"
  by (simp add: lookup_by_append)

lemma held_linked:
  assumes inv: "db_inv db" and q: "held_op oper i a q" and p: "held_approval env oper i a destination body p"
    and new: "i \<notin> o_id ` set (db_operations db)"
  shows "\<forall>x \<in> set (db_approvals db @ [p]). approval_linked (db_operations db @ [q]) x"
proof -
  have "approval_linked (db_operations db @ [q]) x" if "x \<in> set (db_approvals db)" for x
    using db_invD(3) [OF inv] that lookup_append_old
    unfolding approvals_linked_def approval_linked_def by metis
  moreover have "approval_linked (db_operations db @ [q]) p"
    using q p new by (auto simp: approval_linked_def held_op_def held_approval_def lookup_by_append)
  ultimately show ?thesis by simp
qed

lemma held_keeps:
  assumes inv: "db_inv db" and q: "held_op oper i a q" and p: "held_approval env oper i a destination body p"
    and new: "i \<notin> o_id ` set (db_operations db)" "a \<notin> ap_id ` set (db_approvals db)"
    and db': "db' = db\<lparr>db_operations := db_operations db @ [q], db_approvals := db_approvals db @ [p],
        db_payloads := ps\<rparr>"
  shows "db_inv db'" "advances eff env w db db'"
proof -
  have u: "unique_tables db'"
    using db_invD(1) [OF inv] q p new
    by (simp add: unique_tables_def unique_by_def db' held_op_def held_approval_def)
  show "db_inv db'"
  proof (rule db_inv_frame [OF inv u])
    show "approvals_linked db'"
      using held_linked [OF inv q p new(1)] by (simp add: approvals_linked_def db')
    fix r assume "r \<in> set (db_actions db)"
    from db_invD(10) [OF inv this] show "lookup_by ap_id (x_approval_id r) (db_approvals db') =
        lookup_by ap_id (x_approval_id r) (db_approvals db) \<and>
      lookup_by o_id (x_operation_id r) (db_operations db') =
        lookup_by o_id (x_operation_id r) (db_operations db) \<and>
      lookup_by en_ref (x_ref r) (db_envelopes db') = lookup_by en_ref (x_ref r) (db_envelopes db)"
      by (auto elim!: rows_okE simp: db' lookup_append_old)
  qed (auto simp: db')
  show "advances eff env w db db'"
    by (rule advances_frame) (auto simp: db')
qed

lemma audit_keeps:
  "db_inv (snd (record_operation_audit env ctx oper d inp oc oi db)) = db_inv db"
  "advances eff env w db0 (snd (record_operation_audit env ctx oper d inp oc oi db)) = advances eff env w db0 db"
  by (simp_all add: db_inv_def rows_agree_def unique_tables_def rows_ok_def approvals_linked_def
      jobs_linked_def advances_def)

lemma hold_keeps:
  assumes "db_inv db" "hold_for_approval env ctx oper inp digest i a now db = Inr (res, db')"
  shows "db_inv db' \<and> advances eff env w db db'"
proof -
  from assms(2) consider "db' = db"
    | i' db1 a' db2 db3 dest subj rev where "mint_for ctx oper i now db = Inr (i', db1)"
      "create_for env ctx oper a i' dest subj rev (rg_dump oper inp) now db1 = Inr (a', db2)"
      "demand Raise_Error (on_operations (mark_approval_required i' a') db2) = Inr db3"
      "db' = snd (record_operation_audit env ctx oper digest inp audit_refused (Some i') db3)"
    unfolding hold_for_approval_def Let_def
    by (auto simp: attempt_Inr split: if_splits option.splits)
  then show ?thesis
  proof cases
    case 1
    with assms(1) show ?thesis by (simp add: advances_refl)
  next
    case 2
    from 2(1-3) show ?thesis
      by (rule held_writes) (use assms(1) held_keeps [where db = db] 2(4) in \<open>metis audit_keeps\<close>)
  qed
qed

section \<open>Staging\<close>

lemma new_action_simps [simp]:
  "x_id (new_action i o' a n sr so d dg k rv sv now) = i"
  "x_operation_id (new_action i o' a n sr so d dg k rv sv now) = o'"
  "x_approval_id (new_action i o' a n sr so d dg k rv sv now) = a"
  "x_ref (new_action i o' a n sr so d dg k rv sv now) = (n, k)"
  "x_state (new_action i o' a n sr so d dg k rv sv now) = XPending"
  "x_job_id (new_action i o' a n sr so d dg k rv sv now) = None"
  "staged_row (new_action i o' a n sr so d dg k rv sv now)"
  by (simp_all add: new_action_def x_ref_def staged_row_def)

lemma actions_distinct_append:
  assumes "actions_distinct t" and new: "\<forall>q \<in> set t. x_operation_id q \<noteq> x_operation_id r \<and>
    x_approval_id q \<noteq> x_approval_id r \<and> x_ref q \<noteq> x_ref r"
  shows "actions_distinct (t @ [r])"
  unfolding actions_distinct_def
proof (intro ballI impI)
  fix a b
  assume ab: "a \<in> set (t @ [r])" "b \<in> set (t @ [r])" and eq: "x_approval_id a = x_approval_id b \<or>
    x_operation_id a = x_operation_id b \<or> x_ref a = x_ref b"
  show "x_id a = x_id b"
  proof (cases "a \<in> set t \<and> b \<in> set t")
    case True
    with assms(1) eq show ?thesis unfolding actions_distinct_def by blast
  next
    case False
    with ab consider "a = r" "b = r" | "a \<in> set t" "b = r" | "a = r" "b \<in> set t" by auto
    then show ?thesis
      by cases (use new eq in \<open>metis+\<close>)
  qed
qed

text \<open>The rows a staging adds.\<close>

lemma staged_keeps:
  assumes inv: "db_inv db" and q: "held_op oper i a q"
    and p: "held_approval env oper i a (Some ref) body p"
    and new: "i \<notin> o_id ` set (db_operations db)" "a \<notin> ap_id ` set (db_approvals db)"
      "x_id r \<notin> x_id ` set (db_actions db)" "i \<notin> x_operation_id ` set (db_actions db)"
      "a \<notin> x_approval_id ` set (db_actions db)" "x_ref r \<notin> x_ref ` set (db_actions db)"
      "x_ref r \<notin> en_ref ` set (db_envelopes db)"
    and e: "en_ref e = x_ref r" "en_state e = EnPending" "reservation_of_action r e"
    and r: "staged_row r" "x_operation_id r = i" "x_approval_id r = a" "approval_of_action r p"
      "operation_of_action r q"
    and db': "db' = db\<lparr>db_operations := db_operations db @ [q], db_approvals := db_approvals db @ [p],
        db_payloads := ps, db_actions := db_actions db @ [r], db_envelopes := db_envelopes db @ [e]\<rparr>"
  shows "db_inv db'" "advances eff env w db db'"
proof -
  have q': "o_id q = i" "o_state q = OpApprovalRequired" using q by (simp_all add: held_op_def)
  have p': "ap_id p = a" "ap_state p = ApPending" using p by (simp_all add: held_approval_def)
  have u: "unique_tables db'"
    using db_invD(1) [OF inv] q' p' new e(1)
    by (simp add: unique_tables_def unique_by_def db')
  have dist: "actions_distinct (db_actions db')"
  proof -
    have "actions_distinct (db_actions db)" using db_invD(2) [OF inv] by (simp add: rows_agree_def)
    moreover have "x_operation_id o' \<noteq> i \<and> x_approval_id o' \<noteq> a \<and> x_ref o' \<noteq> x_ref r"
      if "o' \<in> set (db_actions db)" for o'
      using that new(4-6) by (metis image_eqI)
    ultimately show ?thesis
      using r(2,3) by (simp add: db' actions_distinct_append)
  qed
  have "rows_ok db' o'" if o': "o' \<in> set (db_actions db)" for o'
  proof -
    have "lookup_by en_ref (x_ref o') (db_envelopes db') = lookup_by en_ref (x_ref o') (db_envelopes db)"
      using o' new(6) e(1) by (simp add: db', intro lookup_append_other) auto
    moreover have "lookup_by ap_id (x_approval_id o') (db_approvals db') =
        lookup_by ap_id (x_approval_id o') (db_approvals db)"
      "lookup_by o_id (x_operation_id o') (db_operations db') =
        lookup_by o_id (x_operation_id o') (db_operations db)"
      using db_invD(10) [OF inv o'] by (auto elim!: rows_okE simp: db' lookup_append_old)
    ultimately show ?thesis using db_invD(10) [OF inv o'] rows_ok_cong [of o' db' db] by simp
  qed
  moreover have "rows_ok db' r"
    unfolding rows_ok_def
    using q' p' new e r by (auto simp: db' lookup_by_append staged_row_def)
  ultimately have agree: "rows_agree db'"
    using u dist by (simp add: rows_agree_def) (simp add: db')
  have "approvals_linked db'"
    using held_linked [OF inv q p new(1)] by (simp add: approvals_linked_def db')
  moreover have "jobs_linked db'"
    using db_invD(4) [OF inv] r(1,2) new(1)
    by (auto simp: jobs_linked_def db' job_of_action_def staged_row_def)
  ultimately show "db_inv db'" using agree by (simp add: db_inv_def)
  show "advances eff env w db db'"
    unfolding advances_def using r(1) new(3) by (auto simp: db' intro: evolved_refl)
qed

lemma has_action_for_key_iff: "has_action_for_key n k t \<longleftrightarrow> (n, k) \<in> x_ref ` set t"
  unfolding has_action_for_key_def image_iff by metis

lemma stage_new_keeps:
  assumes inv: "db_inv db" and res: "reserve jsonb (Some spec) (rg_name oper) request (Some i) now until
      (db_envelopes db) = Inr (True, e, t)"
    and key: "\<not> has_action_for_key (rg_name oper) (cr_key request) (db_actions db)"
    and st: "stage_new env ctx oper inp spec ref (cr_key request) source i a x now
      (db\<lparr>db_envelopes := t\<rparr>) = Inr (sg, db')"
  shows "db_inv db' \<and> advances eff env w db db'"
proof -
  let ?db = "db\<lparr>db_envelopes := t\<rparr>"
  have e: "en_ref e = (rg_name oper, cr_key request)" "en_state e = EnPending"
    "en_operation_id e = Some i" "en_request_version e = ks_request_version spec"
    "(rg_name oper, cr_key request) \<notin> en_ref ` set (db_envelopes db)" "t = db_envelopes db @ [e]"
    using reserve_created [OF res] by auto
  obtain sr so where src: "sr = map_option format_ref (audit_subject oper inp)"
    "so = (case source of None \<Rightarrow> map_option format_ref (audit_subject oper inp) | Some s \<Rightarrow> Some s)"
    by blast
  note st' = st [unfolded stage_new_def Let_def, folded src, unfolded attempt_Inr split_paired_Ex prod.case]
  from st' obtain subj rev i' db1 a' db2 db3 where
      m: "mint_for ctx oper i now ?db = Inr (i', db1)"
    and c: "create_for env ctx oper a i' (Some ref) subj rev (rg_dump oper inp) now db1 = Inr (a', db2)"
    and d: "demand Raise_Error (on_operations (mark_approval_required i' a') db2) = Inr db3"
    and rest: "(case create_pending (new_action x i' a' (rg_name oper) sr so ref
        (payload_digest env (rg_dump oper inp)) (cr_key request) (ks_request_version spec)
        (ks_result_version spec) now) (db_actions db3) of Inl e \<Rightarrow> Inl Raise_Error
      | Inr t \<Rightarrow> attempt (demand (Raise_Refused ''audit_sink_missing'')
          (record_operation_audit env ctx oper (payload_digest env (rg_dump oper inp)) inp audit_refused
             (Some i') (db3\<lparr>db_actions := t\<rparr>))) (\<lambda>db4.
          Inr (\<lparr>sg_action = x, sg_approval = a', sg_operation = i', sg_state = XPending,
                sg_created = True, sg_retained = None\<rparr>, db4))) = Inr (sg, db')"
    by blast
  from rest obtain t' digest where k: "create_pending (new_action x i' a' (rg_name oper) sr so ref
        (payload_digest env (rg_dump oper inp)) (cr_key request) (ks_request_version spec)
        (ks_result_version spec) now) (db_actions db3) = Inr t'"
    and db': "db' = snd (record_operation_audit env ctx oper digest inp audit_refused (Some i')
        (db3\<lparr>db_actions := t'\<rparr>))"
    by (auto simp: attempt_Inr demand_Inr split: sum.splits)
  let ?r = "new_action x i' a' (rg_name oper) sr so ref
        (payload_digest env (rg_dump oper inp)) (cr_key request) (ks_request_version spec)
        (ks_result_version spec) now"
  from m c d show ?thesis
  proof (rule held_writes)
    fix q p ps
    assume ids: "i' = i" "a' = a" and q: "held_op oper i' a' q"
      and p: "held_approval env oper i' a' (Some ref) (rg_dump oper inp) p"
      and new: "i' \<notin> o_id ` set (db_operations ?db)" "a' \<notin> ap_id ` set (db_approvals ?db)"
      and db3: "db3 = ?db\<lparr>db_operations := db_operations ?db @ [q],
        db_approvals := db_approvals ?db @ [p], db_payloads := ps\<rparr>"
    note K = create_pending_InrD [OF k, unfolded db3 new_action_simps, simplified]
    have bound: "approval_of_action ?r p" "operation_of_action ?r q" "reservation_of_action ?r e"
      using p q e(3,4) ids
      by (simp_all add: approval_of_action_def operation_of_action_def reservation_of_action_def
          held_approval_def held_op_def new_action_def)
    have "db3\<lparr>db_actions := t'\<rparr> = db\<lparr>db_operations := db_operations db @ [q],
        db_approvals := db_approvals db @ [p], db_payloads := ps, db_actions := db_actions db @ [?r],
        db_envelopes := db_envelopes db @ [e]\<rparr>"
      using K by (simp add: db3 e(6))
    from staged_keeps [OF inv q p _ _ _ _ _ _ _ _ e(2) bound(3) _ _ _ bound(1,2) this]
    show ?thesis
      unfolding db' audit_keeps using new K e(1,5) key by (simp add: has_action_for_key_iff)
  qed
qed

lemma stage_keeps:
  assumes inv: "db_inv db"
    and st: "stage_external_in_transaction env ctx name payload source i a x now db = Inr (sg, db')"
  shows "db_inv db' \<and> advances eff env w db db'"
proof -
  from st obtain oper inp spec ref request where
    rq: "stage_request env ctx name payload = Inr (oper, inp, spec, ref, request)"
    by (auto simp: stage_external_in_transaction_def split: sum.splits)
  have spec: "rg_keyed oper = Some spec"
    using rq by (auto simp: stage_request_def Let_def split: sum.splits option.splits if_splits)
  from st rq obtain created row t where
    res: "reserve (e_jsonb env) (rg_keyed oper) (rg_name oper) request (Some i) now
      (now + seconds (e_retention_days env * seconds_per_day)) (db_envelopes db) = Inr (created, row, t)"
    by (auto simp: stage_external_in_transaction_def split: sum.splits if_splits)
  show ?thesis
  proof (cases created)
    case True
    with st rq res have "\<not> has_action_for_key (rg_name oper) (cr_key request) (db_actions db)"
      and "stage_new env ctx oper inp spec ref (cr_key request) source i a x now
        (db\<lparr>db_envelopes := t\<rparr>) = Inr (sg, db')"
      by (auto simp: stage_external_in_transaction_def split: if_splits)
    with res True show ?thesis
      unfolding spec by (intro stage_new_keeps [OF inv]) simp_all
  next
    case False
    with res have t: "t = db_envelopes db" by (auto dest: reserve_existing)
    with st rq res False have "replay_staged env ctx oper row request inp
        (payload_digest env (rg_dump oper inp)) db = Inr (sg, db')"
      by (auto simp: stage_external_in_transaction_def split: if_splits)
    then obtain oc oi where "db' = snd (record_operation_audit env ctx oper
        (payload_digest env (rg_dump oper inp)) inp oc oi db)"
      by (auto simp: replay_staged_def returned split: sum.splits if_splits option.splits)
    then show ?thesis using inv by (simp add: audit_keeps advances_refl)
  qed
qed

section \<open>The execution of an approved call that is not staged\<close>

lemma lookup_update_other:
  assumes "\<And>r. P r \<Longrightarrow> key r = i \<and> key (f r) = key r" "j \<noteq> i"
  shows "lookup_by key j (update_where P f t) = lookup_by key j t"
proof -
  have "predicated_write key P f i" using assms(1) by (rule predicated_writeI)
  from predicated_write.other_rows [OF this assms(2), of t] show ?thesis by simp
qed

text \<open>A write of an approval and of an operation record that no action has.\<close>

lemma unrelated_keeps:
  assumes inv: "db_inv db"
    and none: "\<And>r. r \<in> set (db_actions db) \<Longrightarrow> x_approval_id r \<noteq> i \<and> x_operation_id r \<noteq> k"
    and P: "\<And>p. P p \<Longrightarrow> ap_id p = i" "\<And>p. ap_id (f p) = ap_id p \<and> ap_operation_id (f p) = ap_operation_id p \<and>
      (ap_approved_at p \<noteq> None \<longrightarrow> ap_approved_at (f p) \<noteq> None) \<and>
      (ap_state (f p) = ApApproved \<longrightarrow> ap_approved_at (f p) \<noteq> None)"
    and Q: "\<And>q. Q q \<Longrightarrow> o_id q = k" "\<And>q. o_id (g q) = o_id q \<and> o_approval_id (g q) = o_approval_id q"
    and db': "db_approvals db' = update_where P f (db_approvals db)"
      "db_operations db' = update_where Q g (db_operations db)"
      "db_actions db' = db_actions db" "db_envelopes db' = db_envelopes db" "db_jobs db' = db_jobs db"
  shows "db_inv db' \<and> advances eff env w db db'"
proof
  have ops: "lookup_by o_id j (db_operations db') =
      map_option (\<lambda>q. if Q q then g q else q) (lookup_by o_id j (db_operations db))" for j
    unfolding db' using Q(2) by (intro lookup_by_update_where) simp
  show "db_inv db'"
  proof (rule db_inv_frame [OF inv _ db'(3,5)])
    show "unique_tables db'"
      using db_invD(1) [OF inv] P(2) Q(2) by (simp add: unique_tables_def db' unique_update_where)
    show "o_id ` set (db_operations db) \<subseteq> o_id ` set (db_operations db')"
    proof -
      have "map o_id (db_operations db') = map o_id (db_operations db)"
        unfolding db' using Q(2) by (intro map_update_where) simp
      then show ?thesis by (metis list.set_map order_refl)
    qed
    show "approvals_linked db'"
      unfolding approvals_linked_def db'(1) ball_update_where
    proof
      fix p assume "p \<in> set (db_approvals db)"
      with db_invD(3) [OF inv] have p: "approval_linked (db_operations db) p"
        by (simp add: approvals_linked_def)
      then obtain q where "lookup_by o_id (ap_operation_id p) (db_operations db) = Some q"
        "o_approval_id q = Some (ap_id p)" unfolding approval_linked_def by blast
      with p P(2) Q(2) ops [of "ap_operation_id p"]
      show "approval_linked (db_operations db') (if P p then f p else p)"
        by (simp add: approval_linked_def)
    qed
    fix r assume "r \<in> set (db_actions db)"
    with none P Q show "lookup_by ap_id (x_approval_id r) (db_approvals db') =
        lookup_by ap_id (x_approval_id r) (db_approvals db) \<and>
      lookup_by o_id (x_operation_id r) (db_operations db') =
        lookup_by o_id (x_operation_id r) (db_operations db) \<and>
      lookup_by en_ref (x_ref r) (db_envelopes db') = lookup_by en_ref (x_ref r) (db_envelopes db)"
      unfolding db' by (intro conjI lookup_update_other [where i = i] lookup_update_other [where i = k]) auto
  qed
  show "advances eff env w db db'"
  proof (rule advances_frame [OF db'(3,5)])
    fix p assume "p \<in> set (db_approvals db)"
    then have "(if P p then f p else p) \<in> set (db_approvals db')"
      unfolding db' update_where_def by auto
    with P(2) show "\<exists>p' \<in> set (db_approvals db'). ap_id p' = ap_id p \<and>
      (ap_approved_at p \<noteq> None \<longrightarrow> ap_approved_at p' \<noteq> None)"
      by (intro bexI [of _ "if P p then f p else p"]) auto
  qed
qed

lemma execute_keeps:
  assumes inv: "db_inv db" and p: "p \<in> set (db_approvals db)"
    and none: "get_for_approval (ap_id p) (db_actions db) = None"
    and ex: "execute_approved env ctx p now db = Inr (did, db')"
  shows "db_inv db' \<and> advances eff env w db db'"
proof -
  have un: "x_approval_id r \<noteq> ap_id p \<and> x_operation_id r \<noteq> ap_operation_id p"
    if r: "r \<in> set (db_actions db)" for r
  proof -
    have "x_approval_id r \<noteq> ap_id p" using none r unfolding get_for_approval_def by (auto simp: image_iff)
    then show ?thesis using approval_of_operation [OF inv r p] by metis
  qed
  consider (refused) refusal where "db' = record_guard_refusal env p refusal now db"
    | (ran) data db2 db3 h oper d inp oc oi where
      "demand (Raise_Refused invalid_approval) (on_approvals (mark_executed (ap_id p) now)
        (db\<lparr>db_data := data\<rparr>)) = Inr db2"
      "demand (Raise_Refused invalid_approval) (on_operations (finish_held_succeeded
        (ap_operation_id p) now Handler_Returned now) db2) = Inr db3"
      "db' = snd (record_operation_audit env h oper d inp oc oi db3)"
    using ex unfolding execute_approved_def Let_def
    by (auto simp: attempt_Inr demand_Inr run_held_handler_def
        split: sum.splits if_splits option.splits handler_result.splits)
  then show ?thesis
  proof cases
    case refused
    show ?thesis
      by (rule unrelated_keeps [where i = "ap_id p" and k = "ap_operation_id p" and
          P = "ap_in_state (ap_id p) ApApproved" and f = ap_to_refused and
          Q = "op_held (ap_operation_id p)" and g = "op_to_failed now guard_refused (e_wording env refusal)",
          OF inv un])
         (auto simp: refused record_guard_refusal_def row_writes [abs_def] ap_in_state_def op_held_def row_changes)
  next
    case ran
    have "db_inv db3 \<and> advances eff env w db db3"
      by (rule unrelated_keeps [where i = "ap_id p" and k = "ap_operation_id p" and
          P = "ap_in_state (ap_id p) ApApproved" and f = "\<lambda>r. r\<lparr>ap_state := ApExecuted, ap_executed_at := Some now\<rparr>" and
          Q = "op_held (ap_operation_id p)" and g = "\<lambda>r. r\<lparr>o_state := OpSucceeded,
            o_terminal_check_kind := Some Handler_Returned, o_terminal_check_at := Some now,
            o_terminal_at := Some now\<rparr>", OF inv un])
         (use ran(1,2) in \<open>auto simp: demand_Inr writes ap_in_state_def op_held_def\<close>)
    then show ?thesis unfolding ran(3) audit_keeps .
  qed
qed

section \<open>Writes of the four rows of one action\<close>

lemma wrote_trans:
  "wrote key i P f t t1 \<Longrightarrow> wrote key i P2 f2 t1 t2 \<Longrightarrow>
     wrote key i (\<lambda>r. P r \<and> P2 (f r)) (\<lambda>r. f2 (f r)) t t2"
  by (auto simp: wrote_def)

lemma wrote_same:
  "unique_by key t \<Longrightarrow> lookup_by key i t = Some r \<Longrightarrow> P r \<Longrightarrow> wrote key i P (\<lambda>r. r) t t"
  by (auto simp: wrote_def)

lemma wrote_in:
  assumes "unique_by key t" "wrote key i P f t t'"
  shows "r' \<in> set t' \<longleftrightarrow>
    (if key r' = i then \<exists>r. lookup_by key i t = Some r \<and> r' = f r else r' \<in> set t)"
proof -
  note u = wrote_unique [OF assms(2)]
  from wrote_found [OF assms(2)] obtain r where r: "lookup_by key i t = Some r" by blast
  from wrote_row [OF assms(2) r] have fr: "lookup_by key i t' = Some (f r)" by simp
  show ?thesis
  proof (cases "key r' = i")
    case True
    then show ?thesis using lookup_by_unique [OF u, of i r'] fr r by auto
  next
    case False
    then show ?thesis
      using lookup_by_unique [OF u, of "key r'" r'] lookup_by_unique [OF assms(1), of "key r'" r']
        wrote_other [OF assms(2) False] by simp
  qed
qed

lemma in_keys: "k \<in> key ` set t \<longleftrightarrow> lookup_by key k t \<noteq> None"
  by simp

text \<open>Jobs only added, and only as the job of an external action.\<close>

definition jobs_added :: "json jobs \<Rightarrow> json jobs \<Rightarrow> bool" where
  "jobs_added t t' \<longleftrightarrow>
     unique_by j_id t' \<and> (\<forall>i j. lookup_by j_id i t = Some j \<longrightarrow> lookup_by j_id i t' = Some j) \<and>
     (\<forall>j \<in> set t'. j \<in> set t \<or> external_job j \<and> j_state j = JobQueued \<and> j_attempts j = 0)"

lemma jobs_added_refl: "unique_by j_id t \<Longrightarrow> jobs_added t t"
  by (simp add: jobs_added_def)

lemma job_of_action_added: "jobs_added t t' \<Longrightarrow> job_of_action t r \<Longrightarrow> job_of_action t' r"
  unfolding jobs_added_def job_of_action_def by meson

lemma action_writes_keep:
  assumes inv: "db_inv db" and r: "lookup_by x_id (x_id r) (db_actions db) = Some r"
    and wa: "wrote x_id (x_id r) PA fa (db_actions db) (db_actions db')"
    and wp: "wrote ap_id (x_approval_id r) PP fp (db_approvals db) (db_approvals db')"
    and wo: "wrote o_id (x_operation_id r) PO fo (db_operations db) (db_operations db')"
    and we: "wrote en_ref (x_ref r) PE fe (db_envelopes db) (db_envelopes db')"
    and fa: "\<And>r. same_action r (fa r)" and fp: "\<And>p. same_binding p (fp p)"
    and fo: "\<And>q. o_name (fo q) = o_name q \<and> o_approval_id (fo q) = o_approval_id q"
    and fe: "\<And>e. en_operation_id (fe e) = en_operation_id e \<and>
      en_request_version (fe e) = en_request_version e"
    and phase: "\<And>p q e. PA r \<Longrightarrow> PP p \<Longrightarrow> PO q \<Longrightarrow> PE e \<Longrightarrow>
      phase_ok (x_state (fa r)) (x_job_id (fa r) \<noteq> None)
        (ap_state (fp p)) (o_state (fo q)) (Some (en_state (fe e)))"
    and jobs: "jobs_added (db_jobs db) (db_jobs db')" "job_of_action (db_jobs db') (fa r)"
    and ev: "PA r \<longrightarrow> evolved eff env w r (fa r)"
    and dated: "\<And>p. PP p \<longrightarrow> (ap_approved_at p \<noteq> None \<longrightarrow> ap_approved_at (fp p) \<noteq> None) \<and>
      (ap_state (fp p) = ApApproved \<longrightarrow> ap_approved_at (fp p) \<noteq> None)"
  shows "db_inv db' \<and> advances eff env w db db'"
proof
  note U = db_invD(5-8) [OF inv]
  have agree: "rows_agree db'"
    by (rule row_writes_agree [OF db_invD(2) [OF inv] r wa wp wo we fa fp fo fe phase])
  have rin: "r \<in> set (db_actions db)" using r by (rule lookup_by_in)
  obtain p q where p: "lookup_by ap_id (x_approval_id r) (db_approvals db) = Some p" "approval_of_action r p"
    and q: "lookup_by o_id (x_operation_id r) (db_operations db) = Some q" "operation_of_action r q"
    using db_invD(10) [OF inv rin] by (rule rows_okE)
  note q' = wrote_row [OF wo q(1)] and p' = wrote_row [OF wp p(1)] and r' = wrote_row [OF wa r]
  have keys: "ap_id (fp p) = ap_id p" "ap_operation_id (fp p) = ap_operation_id p" for p
    using fp [of p] by (simp_all add: same_binding_def)
  have acts: "x \<in> set (db_actions db') \<longleftrightarrow>
      (if x_id x = x_id r then x = fa r else x \<in> set (db_actions db))" for x
    using wrote_in [OF U(1) wa, of x] r by auto
  have aps: "x \<in> set (db_approvals db') \<longleftrightarrow>
      (if ap_id x = x_approval_id r then x = fp p else x \<in> set (db_approvals db))" for x
    using wrote_in [OF U(2) wp, of x] p(1) by auto
  have apid: "ap_id p = x_approval_id r" using p(1) by (rule lookup_by_key)
  have link: "approvals_linked db'"
    unfolding approvals_linked_def
  proof
    fix x assume x: "x \<in> set (db_approvals db')"
    show "approval_linked (db_operations db') x"
    proof (cases "ap_id x = x_approval_id r")
      case True
      with x aps have "x = fp p" by simp
      then show ?thesis
        using p(2) q(2) q' p' fo [of q] dated [of p] keys [of p] apid
        by (simp add: approval_linked_def approval_of_action_def operation_of_action_def)
    next
      case False
      with x aps have old: "x \<in> set (db_approvals db)" by simp
      with approval_of_operation [OF inv rin] False have "ap_operation_id x \<noteq> x_operation_id r" by metis
      with old db_invD(3) [OF inv] show ?thesis
        using wrote_other [OF wo] unfolding approvals_linked_def approval_linked_def by metis
    qed
  qed
  have ops: "o_id ` set (db_operations db) \<subseteq> o_id ` set (db_operations db')"
  proof
    fix k assume "k \<in> o_id ` set (db_operations db)"
    then show "k \<in> o_id ` set (db_operations db')"
      unfolding in_keys using wrote_other [OF wo, of k] q' by (cases "k = x_operation_id r") simp_all
  qed
  have same: "x_id (fa r) = x_id r" "x_operation_id (fa r) = x_operation_id r"
    using fa [of r] by (simp_all add: same_action_def)
  note J = db_invD(4) [OF inv, unfolded jobs_linked_def]
  have jo: "\<forall>x \<in> set (db_actions db'). x_operation_id x \<noteq> k"
    if "\<forall>x \<in> set (db_actions db). x_operation_id x \<noteq> k" for k
    using that rin same(2) by (auto simp: acts split: if_splits)
  have "jobs_linked db'"
    unfolding jobs_linked_def
  proof (intro conjI ballI)
    show "unique_by j_id (db_jobs db')" using jobs(1) by (simp add: jobs_added_def)
    fix x assume x: "x \<in> set (db_actions db')"
    show "job_of_action (db_jobs db') x"
    proof (cases "x_id x = x_id r")
      case True
      with x acts have "x = fa r" by simp
      with jobs(2) show ?thesis by simp
    next
      case False
      with x acts have "x \<in> set (db_actions db)" by simp
      with J job_of_action_added [OF jobs(1)] show ?thesis by blast
    qed
  next
    fix j assume "j \<in> set (db_jobs db')"
    then have "j \<in> set (db_jobs db) \<or> j_operation_id j = None"
      using jobs(1) by (auto simp: jobs_added_def external_job_def)
    then show "\<forall>i. j_operation_id j = Some i \<longrightarrow> i \<in> o_id ` set (db_operations db') \<and>
        (\<forall>r \<in> set (db_actions db'). x_operation_id r \<noteq> i)"
    proof
      assume "j \<in> set (db_jobs db)"
      with J have "j_operation_id j = Some i \<Longrightarrow> i \<in> o_id ` set (db_operations db) \<and>
          (\<forall>r \<in> set (db_actions db). x_operation_id r \<noteq> i)" for i by blast
      with subsetD [OF ops] jo show ?thesis by simp
    qed simp
  qed
  with agree link show "db_inv db'" by (simp add: db_inv_def)
  show "advances eff env w db db'"
    unfolding advances_def
  proof (intro conjI ballI allI impI)
    fix x assume x: "x \<in> set (db_actions db)"
    show "\<exists>x' \<in> set (db_actions db'). evolved eff env w x x'"
    proof (cases "x_id x = x_id r")
      case True
      with x r lookup_by_unique [OF U(1), of "x_id r" x] have "x = r" by (metis option.inject)
      moreover have "fa r \<in> set (db_actions db')" using acts [of "fa r"] same(1) by simp
      ultimately show ?thesis using r' ev by blast
    next
      case False
      with x acts [of x] show ?thesis by (auto intro: bexI [of _ x])
    qed
  next
    fix x assume "x \<in> set (db_actions db')"
    then show "(\<exists>y \<in> set (db_actions db). evolved eff env w y x) \<or>
        staged_row x \<and> x_id x \<notin> x_id ` set (db_actions db)"
      using acts [of x] rin conjunct1 [OF r'] ev evolved_refl by (metis (no_types))
  next
    fix i j assume "lookup_by j_id i (db_jobs db) = Some j \<and> external_job j"
    then show "lookup_by j_id i (db_jobs db') = Some j" using jobs(1) by (simp add: jobs_added_def)
  next
    fix i j assume "lookup_by j_id i (db_jobs db') = Some j \<and> j_kind j = external_action_execute"
    then have j: "lookup_by j_id i (db_jobs db') = Some j" ..
    then have new: "j \<in> set (db_jobs db) \<or> j_state j = JobQueued \<and> j_attempts j = 0"
      using jobs(1) lookup_by_in [OF j] unfolding jobs_added_def by blast
    show "lookup_by j_id i (db_jobs db) = Some j \<or> j_state j \<noteq> JobLeased \<and>
        (case lookup_by j_id i (db_jobs db) of None \<Rightarrow> 0 \<le> j_attempts j
         | Some j0 \<Rightarrow> j_attempts j = j_attempts j0 \<and> j_kind j = j_kind j0)"
    proof (cases "lookup_by j_id i (db_jobs db)")
      case None
      with lookup_by_key [OF j] have "j \<notin> set (db_jobs db)" by auto
      with new None show ?thesis by simp
    next
      case (Some j0)
      with jobs(1) have "lookup_by j_id i (db_jobs db') = Some j0" by (simp add: jobs_added_def)
      with j Some show ?thesis by simp
    qed
  next
    fix x assume x: "x \<in> set (db_approvals db)"
    show "\<exists>x' \<in> set (db_approvals db'). ap_id x' = ap_id x \<and>
      (ap_approved_at x \<noteq> None \<longrightarrow> ap_approved_at x' \<noteq> None)"
    proof (cases "ap_id x = x_approval_id r")
      case True
      with x p(1) lookup_by_unique [OF U(2), of "x_approval_id r" x] have "x = p"
        by (metis option.inject)
      moreover have "fp p \<in> set (db_approvals db')" using aps [of "fp p"] keys(1) apid by simp
      ultimately show ?thesis using dated [of p] p' keys(1) by metis
    next
      case False
      with x aps [of x] show ?thesis by (auto intro: bexI [of _ x])
    qed
  qed
qed

section \<open>Decisions\<close>

lemma get_for_approvalD:
  assumes "get_for_approval i t = Some r" "unique_by x_id t"
  shows "x_approval_id r = i" "lookup_by x_id (x_id r) t = Some r" "r \<in> set t"
  using assms lookup_by_SomeD [of x_approval_id i t r] lookup_by_unique [OF assms(2), of "x_id r" r]
  by (simp_all add: get_for_approval_def)

text \<open>The rows of an action nobody has decided on.\<close>

lemma undecided_rows:
  assumes inv: "db_inv db" and r: "r \<in> set (db_actions db)"
    and p: "lookup_by ap_id (x_approval_id r) (db_approvals db) = Some p" "decidable p"
  obtains q e where "x_state r = XPending" "x_job_id r = None" "approval_of_action r p"
    "lookup_by o_id (x_operation_id r) (db_operations db) = Some q" "o_state q = OpApprovalRequired"
    "operation_of_action r q"
    "lookup_by en_ref (x_ref r) (db_envelopes db) = Some e" "en_state e = EnPending"
proof -
  from db_invD(10) [OF inv r] p obtain q where
    q: "lookup_by o_id (x_operation_id r) (db_operations db) = Some q" "operation_of_action r q"
      "approval_of_action r p"
    and ph: "phase_ok (x_state r) (x_job_id r \<noteq> None) (ap_state p) (o_state q)
       (map_option en_state (lookup_by en_ref (x_ref r) (db_envelopes db)))"
    by (auto elim!: rows_okE)
  from p(2) ph have "x_state r = XPending \<and> x_job_id r = None \<and> o_state q = OpApprovalRequired \<and>
      map_option en_state (lookup_by en_ref (x_ref r) (db_envelopes db)) = Some EnPending"
    by (cases "x_state r") (auto simp: decidable_def stranded_def split: if_splits)
  with q show thesis by (auto intro: that)
qed

lemma mark_approved_wrote:
  assumes "demand e (on_approvals (mark_approved i k b en now u) db) = Inr db1"
    and "unique_by ap_id (db_approvals db)"
  shows "wrote ap_id i decidable (approved_values k b en now u) (db_approvals db) (db_approvals db1)"
    "db1 = db\<lparr>db_approvals := db_approvals db1\<rparr>"
proof -
  let ?P = "ap_in_state i (case u of None \<Rightarrow> ApPending | Some _ \<Rightarrow> ApRequires_Reapproval)"
  from assms have "wrote ap_id i ?P (approved_values k b en now u) (db_approvals db) (db_approvals db1)"
    and "db1 = db\<lparr>db_approvals := db_approvals db1\<rparr>"
    unfolding mark_approved_def by (rule wrote_approval; simp)+
  then show "wrote ap_id i decidable (approved_values k b en now u) (db_approvals db) (db_approvals db1)"
    "db1 = db\<lparr>db_approvals := db_approvals db1\<rparr>"
    by (auto simp: wrote_def ap_in_state_def decidable_def split: option.splits)
qed

lemma binding_ids: "same_binding p p' \<Longrightarrow> ap_id p' = ap_id p \<and> ap_operation_id p' = ap_operation_id p"
  by (simp add: same_binding_def)

lemma queue_keeps:
  assumes inv: "db_inv db" and r: "get_for_approval i (db_actions db) = Some r"
    and p: "lookup_by ap_id i (db_approvals db) = Some p" "decidable p"
    and wp: "wrote ap_id i decidable fp (db_approvals db) A" and fp: "\<And>p. same_binding p (fp p)"
      "\<And>p. ap_state (fp p) = ApApproved" "\<And>p. ap_approved_at (fp p) \<noteq> None"
    and st: "queue_approved_external env ctx (fp p) r fresh now (db\<lparr>db_approvals := A\<rparr>) = Inr db'"
  shows "db_inv db' \<and> advances eff env w db db'"
proof -
  let ?db = "db\<lparr>db_approvals := A\<rparr>"
  note U = db_invD(5-9) [OF inv]
  note R = get_for_approvalD [OF r U(1)]
  note p' = p(1) [folded R(1)] and wp' = wp [folded R(1)]
  from inv R(3) p' p(2) show ?thesis
  proof (rule undecided_rows)
    fix q e
    assume x: "x_state r = XPending" "x_job_id r = None" "approval_of_action r p"
      and q: "lookup_by o_id (x_operation_id r) (db_operations db) = Some q" "o_state q = OpApprovalRequired"
        "operation_of_action r q"
      and e: "lookup_by en_ref (x_ref r) (db_envelopes db) = Some e" "en_state e = EnPending"
    have ids: "ap_id (fp p) = x_approval_id r" "ap_operation_id (fp p) = x_operation_id r"
      using binding_ids [OF fp(1) [of p]] lookup_by_key [OF p'] x(3) by (simp_all add: approval_of_action_def)
    have open_r: "x_open_state (x_state r)" using x(1) by (simp add: x_open_state_def)
    from st consider (refused) s refusal where "queue_refused env s refusal ?db = Inr db'" "about s r"
      | (queued) "queue_job env r (fp p) fresh now ?db = Inr db'"
      unfolding queue_approved_external_def Let_def
      by (auto simp: about_def settle_of_def ids x_ref_def split: sum.splits option.splits)
    then show ?thesis
    proof cases
      case refused
      have "unique_tables ?db" using db_invD(1) [OF inv] wrote_unique [OF wp] by (simp add: unique_tables_def)
      from refused(1) this obtain fc where s: "settles s
          (terminal_values XRefused fc guard_refused (e_wording env refusal) (st_now s))
          (ap_in_state (st_approval s) ApApproved) ap_to_refused
          (op_held (st_operation_id s)) (op_to_failed (st_now s) guard_refused (short (e_wording env refusal)))
          (en_error_values EnRefused guard_refused (short (e_wording env refusal)) (st_now s)) ?db db'"
        by (rule queue_refused_settles)
      from s refused(2) have w: "wrote x_id (x_id r) (x_in_states (x_id r) x_open_state)
          (terminal_values XRefused fc guard_refused (e_wording env refusal) (st_now s))
          (db_actions db) (db_actions db')"
        and wp2: "wrote ap_id (x_approval_id r) (ap_in_state (x_approval_id r) ApApproved) ap_to_refused
          A (db_approvals db')"
        and wo: "wrote o_id (x_operation_id r) (op_held (x_operation_id r))
          (op_to_failed (st_now s) guard_refused (short (e_wording env refusal))) (db_operations db) (db_operations db')"
        and we: "wrote en_ref (x_ref r) (en_pending_at (x_ref r))
          (en_error_values EnRefused guard_refused (short (e_wording env refusal)) (st_now s))
          (db_envelopes db) (db_envelopes db')"
        and jb: "db_jobs db' = db_jobs db"
        unfolding settles_def about_def by simp_all
      show ?thesis
      proof (rule action_writes_keep [OF inv R(2) w wrote_trans [OF wp' wp2] wo we])
        show "jobs_added (db_jobs db) (db_jobs db')" unfolding jb by (rule jobs_added_refl [OF U(5)])
        show "job_of_action (db_jobs db') (terminal_values XRefused fc guard_refused (e_wording env refusal) (st_now s) r)"
          by (simp add: job_of_action_def x(2))
        show "x_in_states (x_id r) x_open_state r \<longrightarrow> evolved eff env w r
            (terminal_values XRefused fc guard_refused (e_wording env refusal) (st_now s) r)"
          by (simp add: evolved_def x(2) x_open_state_def truthful_def claims_effect_def effects_at_def)
        show "same_binding p (ap_to_refused (fp p))" for p
          using same_binding_trans [OF fp(1)] row_change_binding(2) by blast
        show "decidable p \<and> ap_in_state (x_approval_id r) ApApproved (fp p) \<longrightarrow>
          (ap_approved_at p \<noteq> None \<longrightarrow> ap_approved_at (ap_to_refused (fp p)) \<noteq> None) \<and>
          (ap_state (ap_to_refused (fp p)) = ApApproved \<longrightarrow> ap_approved_at (ap_to_refused (fp p)) \<noteq> None)" for p
          using fp(3) by (simp add: ap_to_refused_def)
      qed simp_all
    next
      case queued
      then obtain t where en: "enqueue_job fresh (\<lambda>i. i \<in> o_id ` set (db_operations db)) external_action_execute
            (external_job_input (x_id r)) now (e_max_attempts env) None None False (db_jobs db) = Inr t"
        and at: "fst (attach_job (x_id r) fresh now (db_actions db))"
        and sh: "fst (start_held (x_operation_id r) now (db_operations db))"
        and db': "db' = ?db\<lparr>db_jobs := snd t, db_actions := snd (attach_job (x_id r) fresh now (db_actions db)),
          db_operations := snd (start_held (x_operation_id r) now (db_operations db))\<rparr>"
        unfolding queue_job_def by (auto simp: attempt_Inr demand_Inr ids split: sum.splits)
      let ?j = "new_job fresh external_action_execute (external_job_input (x_id r)) now (e_max_attempts env) now None"
      have t: "snd t = db_jobs db @ [?j]" "fresh \<notin> j_id ` set (db_jobs db)"
        using en by (auto simp: enqueue_job_def Let_def new_job_def dest!: insert_row_InrD split: if_splits sum.splits)
      have j: "external_job ?j" "j_id ?j = fresh" "j_input ?j = external_job_input (x_id r)"
        "j_state ?j = JobQueued" "j_attempts ?j = 0"
        by (simp_all add: external_job_def new_job_def)
      let ?fa = "\<lambda>r. r\<lparr>x_job_id := Some fresh, x_updated_at := now\<rparr>"
      let ?PA = "\<lambda>q. x_id q = x_id r \<and> x_state q = XPending \<and> x_job_id q = None"
      have wa: "wrote x_id (x_id r) ?PA ?fa (db_actions db) (db_actions db')"
        using wroteI [OF U(1), of ?PA ?fa "x_id r"] at by (simp add: db' attach_job_def)
      have wo: "wrote o_id (x_operation_id r) (op_held (x_operation_id r))
          (\<lambda>q. q\<lparr>o_state := OpRunning, o_started_at := Some now\<rparr>) (db_operations db) (db_operations db')"
        using wroteI [OF U(3), of "op_held (x_operation_id r)" "\<lambda>q. q\<lparr>o_state := OpRunning, o_started_at := Some now\<rparr>"
          "x_operation_id r"] sh by (simp add: db' start_held_def op_held_def)
      have we: "wrote en_ref (x_ref r) (\<lambda>e. en_state e = EnPending) (\<lambda>e. e) (db_envelopes db) (db_envelopes db')"
        using wrote_same [OF U(4) e(1), of "\<lambda>e. en_state e = EnPending"] e(2) by (simp add: db')
      have wp3: "wrote ap_id (x_approval_id r) decidable fp (db_approvals db) (db_approvals db')"
        using wp' by (simp add: db')
      show ?thesis
      proof (rule action_writes_keep [OF inv R(2) wa wp3 wo we])
        show added: "jobs_added (db_jobs db) (db_jobs db')"
          using U(5) t j by (auto simp: jobs_added_def db' unique_by_def lookup_append_old)
        show "job_of_action (db_jobs db') (?fa r)"
          using t j by (simp add: job_of_action_def db' lookup_by_append)
        show "?PA r \<longrightarrow> evolved eff env w r (?fa r)"
          using x by (auto simp: evolved_def same_action_def truthful_def claims_no_effect_def
              claims_effect_def)
      qed (use fp in \<open>auto simp: same_action_def\<close>)
    qed
  qed
qed

lemma advances_after_frame:
  assumes "db_actions db1 = db_actions db" "db_jobs db1 = db_jobs db" "advances eff env w db db1"
    and "advances eff env w db1 db2"
  shows "advances eff env w db db2"
proof -
  have step: "\<forall>p \<in> set (db_approvals d). \<exists>p' \<in> set (db_approvals d'). ap_id p' = ap_id p \<and>
      (ap_approved_at p \<noteq> None \<longrightarrow> ap_approved_at p' \<noteq> None)" if "advances eff env w d d'" for d d'
    using that unfolding advances_def by (elim conjE)
  have "\<forall>p \<in> set (db_approvals db). \<exists>p' \<in> set (db_approvals db2). ap_id p' = ap_id p \<and>
      (ap_approved_at p \<noteq> None \<longrightarrow> ap_approved_at p' \<noteq> None)"
    using step [OF assms(3)] step [OF assms(4)] by metis
  with assms(4) show ?thesis unfolding advances_def assms(1,2) by (elim conjE, intro conjI)
qed

lemma approve_keeps:
  assumes inv: "db_inv db" and ap: "approve_handler env ctx i displayed fresh now db = Inr (row', db')"
  shows "db_inv db' \<and> advances eff env w db db'"
proof -
  note U = db_invD(5-9) [OF inv]
  from ap obtain p v where l: "lock_for_decision env ctx i db = Inr (p, v)"
    by (auto simp: approve_handler_def attempt_Inr)
  have p: "lookup_by ap_id i (db_approvals db) = Some p"
    using l by (auto simp: lock_for_decision_def get_approval_def split: option.splits if_splits)
  from ap l obtain u db1 q db2 where dec: "decidable p"
    and m: "demand (Raise_Refused ''approval_state'') (on_approvals (mark_approved i
      (actor_kind_text (cx_actor_kind ctx)) (cx_actor_id ctx) (cx_entry ctx) now u) db) = Inr db1"
    and q: "get_approval i (db_approvals db1) = Some q"
    and run: "(case get_for_approval i (db_actions db1) of
        Some staged \<Rightarrow> queue_approved_external env ctx q staged fresh now db1
      | None \<Rightarrow> attempt (execute_approved env ctx q now db1) (\<lambda>(_, d). Inr d)) = Inr db2"
    and db2: "db' = db2"
    unfolding approve_handler_def
    by (auto simp: attempt_Inr split: if_splits sum.splits option.splits)
  let ?f = "approved_values (actor_kind_text (cx_actor_kind ctx)) (cx_actor_id ctx) (cx_entry ctx) now u"
  note W = mark_approved_wrote [OF m U(2)]
  have q': "q = ?f p"
    using wrote_row [OF W(1) p] q by (simp add: get_approval_def)
  obtain A where A: "db1 = db\<lparr>db_approvals := A\<rparr>" using W(2) by blast
  show ?thesis
  proof (cases "get_for_approval i (db_actions db)")
    case (Some r)
    with run A have "queue_approved_external env ctx (?f p) r fresh now (db\<lparr>db_approvals := A\<rparr>) = Inr db'"
      by (simp add: q' db2)
    with W(1) show ?thesis
      by (intro queue_keeps [OF inv Some p dec, where A = A and fp = ?f]) (simp_all add: A)
  next
    case None
    have un: "x_approval_id r \<noteq> i \<and> x_operation_id r \<noteq> ap_operation_id p" if r: "r \<in> set (db_actions db)" for r
    proof -
      have "x_approval_id r \<noteq> i" using None r unfolding get_for_approval_def by (auto simp: image_iff)
      then show ?thesis
        using approval_of_operation [OF inv r lookup_by_in [OF p]] lookup_by_key [OF p] by metis
    qed
    have A': "A = update_where (ap_in_state i (case u of None \<Rightarrow> ApPending | Some _ \<Rightarrow> ApRequires_Reapproval))
        ?f (db_approvals db)"
    proof -
      from m have "db1 = db\<lparr>db_approvals := snd (mark_approved i
          (actor_kind_text (cx_actor_kind ctx)) (cx_actor_id ctx) (cx_entry ctx) now u (db_approvals db))\<rparr>"
        by (simp add: demand_Inr)
      from arg_cong [OF this, of db_approvals] show ?thesis
        by (simp add: A mark_approved_def)
    qed
    have one: "db_inv db1 \<and> advances eff env w db db1"
      by (rule unrelated_keeps [OF inv un, where
          P = "ap_in_state i (case u of None \<Rightarrow> ApPending | Some _ \<Rightarrow> ApRequires_Reapproval)" and f = ?f and
          Q = "\<lambda>_. False" and g = "\<lambda>q. q"])
         (simp_all add: A A' ap_in_state_def update_where_no_match)
    from run None A obtain ran where "execute_approved env ctx q now db1 = Inr (ran, db')"
      by (auto simp: attempt_Inr db2)
    moreover have "q \<in> set (db_approvals db1)" "ap_id q = i"
      using q lookup_by_SomeD unfolding get_approval_def by fast+
    moreover have "get_for_approval (ap_id q) (db_actions db1) = None"
      using None A \<open>ap_id q = i\<close> by simp
    ultimately have "db_inv db' \<and> advances eff env w db1 db'"
      using one by (intro execute_keeps [where p = q]) auto
    with one show ?thesis
      using advances_after_frame [of db1 db eff env w db'] by (simp add: A)
  qed
qed

text \<open>A refusal. The action keeps its reservation's key: both are settled together.\<close>

lemma refuse_keeps:
  fixes db :: "'s ws_db"
  assumes inv: "db_inv db" and rf: "refuse_handler env ctx i displayed now db = Inr (row', db')"
  shows "db_inv db' \<and> advances eff env w db db'"
proof -
  note U = db_invD(5-9) [OF inv]
  from rf obtain p v where l: "lock_for_decision env ctx i db = Inr (p, v)"
    by (auto simp: refuse_handler_def attempt_Inr)
  have p: "lookup_by ap_id i (db_approvals db) = Some p"
    using l by (auto simp: lock_for_decision_def get_approval_def split: option.splits if_splits)
  from rf l obtain db1 db2 where dec: "decidable p"
    and m1: "demand (Raise_Refused ''approval_state'') (on_approvals (mark_refused i) db) = Inr db1"
    and m2: "demand (Raise_Refused ''approval_state'')
       (on_operations (finish_held_cancelled (ap_operation_id p) now) db1) = Inr db2"
    and m3: "(case get_for_approval i (db_actions db2) of
          None \<Rightarrow> Inr db2 | Some staged \<Rightarrow> refuse_staged_external staged now db2) = Inr db'"
    unfolding refuse_handler_def
    by (auto simp: attempt_Inr split: if_splits option.splits)
  let ?fp = "\<lambda>r. r\<lparr>ap_state := ApRefused\<rparr>" and ?fo = "op_to OpCancelled now"
  have w1: "wrote ap_id i (ap_decidable_row i) ?fp (db_approvals db) (db_approvals db1)"
    using m1 wroteI [OF U(2), of "ap_decidable_row i" ?fp i]
    by (auto simp: demand_Inr mark_refused_def ap_decidable_row_def)
  have d1: "db1 = db\<lparr>db_approvals := update_where (ap_decidable_row i) ?fp (db_approvals db)\<rparr>"
    using m1 by (auto simp: demand_Inr mark_refused_def)
  have d2: "db2 = db1\<lparr>db_operations := update_where (op_held (ap_operation_id p)) ?fo (db_operations db)\<rparr>"
    using m2 by (auto simp: demand_Inr finish_held_cancelled_def d1 op_to_def [abs_def])
  have w2: "wrote o_id (ap_operation_id p) (op_held (ap_operation_id p)) ?fo (db_operations db) (db_operations db2)"
    using m2 wroteI [OF U(3), of "op_held (ap_operation_id p)" ?fo "ap_operation_id p"]
    by (auto simp: demand_Inr finish_held_cancelled_def d1 op_held_def op_to_def [abs_def])
  show ?thesis
  proof (cases "get_for_approval i (db_actions db)")
    case None
    have un: "x_approval_id r \<noteq> i \<and> x_operation_id r \<noteq> ap_operation_id p" if r: "r \<in> set (db_actions db)" for r
    proof -
      have "x_approval_id r \<noteq> i" using None r unfolding get_for_approval_def by (auto simp: image_iff)
      then show ?thesis
        using approval_of_operation [OF inv r lookup_by_in [OF p]] lookup_by_key [OF p] by metis
    qed
    from m3 None have "db' = db2" by (simp add: d2 d1)
    then show ?thesis
      by (intro unrelated_keeps [OF inv un, where P = "ap_decidable_row i" and f = ?fp and
          Q = "op_held (ap_operation_id p)" and g = ?fo])
         (simp_all add: d1 d2 ap_decidable_row_def op_held_def op_to_def)
  next
    case (Some r)
    note R = get_for_approvalD [OF Some U(1)]
    from inv R(3) p [folded R(1)] dec show ?thesis
    proof (rule undecided_rows)
      fix q e
      assume x: "x_state r = XPending" "x_job_id r = None" "approval_of_action r p"
      let ?d = "''the approval was refused before any effect''"
      let ?s = "settle_of r (x_payload_digest r) now :: (unit, unit, 's) settle"
      have op: "ap_operation_id p = x_operation_id r" using x(3) by (simp add: approval_of_action_def)
      from m3 Some obtain db3 where
        t: "action_terminal ?s XRefused Cancelled_No_Effect approval_refused ?d db2 = Inr db3"
        and e: "envelope_error ?s EnRefused approval_refused ?d db3 = Inr db'"
        by (auto simp: refuse_staged_external_def Let_def attempt_Inr d1 d2)
      have "unique_by x_id (db_actions db2)" using U(1) by (simp add: d1 d2)
      note T = wrote_action_terminal [OF t this]
      obtain A where d3: "db3 = db2\<lparr>db_actions := A\<rparr>" using T(2) by blast
      have "unique_by en_ref (db_envelopes db3)" using U(4) by (simp add: d1 d2 d3)
      note E = envelope_error_rows [OF e this]
      obtain N where d4: "db' = db3\<lparr>db_envelopes := N\<rparr>" using E(2) by blast
      have wa: "wrote x_id (x_id r) (x_in_states (x_id r) x_open_state)
          (terminal_values XRefused Cancelled_No_Effect approval_refused ?d now) (db_actions db) (db_actions db')"
        using T(1) by (simp add: settle_of_def d1 d2 d4)
      have we: "wrote en_ref (x_ref r) (en_pending_at (x_ref r))
          (en_error_values EnRefused approval_refused (short ?d) now) (db_envelopes db) (db_envelopes db')"
        using E(1) by (simp add: settle_of_def d1 d2 d3 x_ref_def)
      have wp: "wrote ap_id (x_approval_id r) (ap_decidable_row i) ?fp (db_approvals db) (db_approvals db')"
        using w1 R(1) by (simp add: d2 d3 d4)
      have wo: "wrote o_id (x_operation_id r) (op_held (x_operation_id r)) ?fo (db_operations db) (db_operations db')"
        using w2 by (simp add: op d3 d4)
      show ?thesis
      proof (rule action_writes_keep [OF inv R(2) wa wp wo we])
        show "jobs_added (db_jobs db) (db_jobs db')"
          using jobs_added_refl [OF U(5)] by (simp add: d1 d2 d3 d4)
        show "job_of_action (db_jobs db') (terminal_values XRefused Cancelled_No_Effect approval_refused ?d now r)"
          by (simp add: job_of_action_def x(2))
        show "x_in_states (x_id r) x_open_state r \<longrightarrow> evolved eff env w r
            (terminal_values XRefused Cancelled_No_Effect approval_refused ?d now r)"
          by (simp add: evolved_def x(2) x_open_state_def truthful_def claims_effect_def effects_at_def)
      qed simp_all
    qed
  qed
qed

section \<open>The purge of the reservations\<close>

text \<open>The keys \<^verbatim>\<open>purge_expired\<close> protects.\<close>

definition protected_key :: "actions \<Rightarrow> string \<times> utext \<Rightarrow> bool" where
  "protected_key t k \<longleftrightarrow>
     (\<exists>r \<in> set t. x_ref r = k \<and> (x_open_state (x_state r) \<or> x_state r = XUnresolved))"

definition purge_envelopes :: "instant \<Rightarrow> 's ws_db \<Rightarrow> 's ws_db" where
  "purge_envelopes now db =
     db\<lparr>db_envelopes := snd (purge_expired (protected_key (db_actions db)) now (db_envelopes db))\<rparr>"

lemma lookup_by_filter:
  assumes "unique_by key t"
  shows "lookup_by key k (filter P t) =
    (case lookup_by key k t of None \<Rightarrow> None | Some r \<Rightarrow> if P r then Some r else None)"
  using assms
proof (induction t)
  case (Cons r t)
  show ?case
  proof (cases "key r = k")
    case True
    with Cons.prems have "k \<notin> key ` set (filter P t)" by (auto simp: unique_by_def)
    with True show ?thesis by simp
  next
    case False
    with Cons show ?thesis by (simp add: unique_by_def)
  qed
qed simp

lemma purge_keeps:
  assumes inv: "db_inv db"
  shows "db_inv (purge_envelopes now db) \<and> advances eff env w db (purge_envelopes now db)"
proof -
  let ?db = "purge_envelopes now db"
  have same: "db_actions ?db = db_actions db" "db_jobs ?db = db_jobs db" "db_approvals ?db = db_approvals db"
    "db_operations ?db = db_operations db"
    by (simp_all add: purge_envelopes_def)
  note U = db_invD(5-9) [OF inv]
  have look: "lookup_by en_ref k (db_envelopes ?db) = lookup_by en_ref k (db_envelopes db) \<or>
      lookup_by en_ref k (db_envelopes ?db) = None \<and> \<not> protected_key (db_actions db) k" for k
  proof (cases "lookup_by en_ref k (db_envelopes db)")
    case None
    then show ?thesis by (auto simp: purge_envelopes_def purge_expired_def Let_def)
  next
    case (Some e)
    then have "lookup_by en_ref k (db_envelopes ?db) =
        (if \<not> (en_retained_until e < now \<and> \<not> protected_key (db_actions db) (en_ref e)) then Some e else None)"
      by (simp add: purge_envelopes_def purge_expired_def Let_def lookup_by_filter [OF U(4)] del: lookup_by_None)
    with Some lookup_by_key [OF Some] show ?thesis by (auto simp del: lookup_by_None)
  qed
  have "unique_tables ?db"
    using db_invD(1) [OF inv]
    by (simp add: unique_tables_def purge_envelopes_def purge_expired_def Let_def unique_by_def distinct_map_filter)
  moreover have "rows_ok ?db r" if r: "r \<in> set (db_actions db)" for r
  proof (cases "lookup_by en_ref (x_ref r) (db_envelopes ?db) = lookup_by en_ref (x_ref r) (db_envelopes db)")
    case True
    with db_invD(10) [OF inv r] rows_ok_cong [of r ?db db] show ?thesis by (simp add: same)
  next
    case False
    with look [of "x_ref r"] r have gone: "lookup_by en_ref (x_ref r) (db_envelopes ?db) = None"
      and st: "\<not> x_open_state (x_state r)" "x_state r \<noteq> XUnresolved"
      by (auto simp: protected_key_def)
    from db_invD(10) [OF inv r] obtain p q where
      "lookup_by ap_id (x_approval_id r) (db_approvals db) = Some p" "approval_of_action r p"
      "lookup_by o_id (x_operation_id r) (db_operations db) = Some q" "operation_of_action r q"
      "phase_ok (x_state r) (x_job_id r \<noteq> None) (ap_state p) (o_state q)
       (map_option en_state (lookup_by en_ref (x_ref r) (db_envelopes db)))"
      by (rule rows_okE)
    moreover from this(5) st have "phase_ok (x_state r) (x_job_id r \<noteq> None) (ap_state p) (o_state q) None"
      by (cases "x_state r") (auto simp: x_open_state_def)
    ultimately show ?thesis
      unfolding rows_ok_def same gone by simp
  qed
  ultimately have "rows_agree ?db"
    using db_invD(2) [OF inv] by (simp add: rows_agree_def same)
  moreover have "approvals_linked ?db" "jobs_linked ?db"
    using db_invD(3,4) [OF inv] by (simp_all add: approvals_linked_def jobs_linked_def same)
  moreover have "advances eff env w db ?db"
    by (rule advances_frame) (auto simp: same)
  ultimately show ?thesis by (simp add: db_inv_def)
qed

section \<open>The resolution by an operator\<close>

lemma resolved_action_simps [simp]:
  "same_action r (resolved_action oc nt ref dump now r)"
  "x_job_id (resolved_action oc nt ref dump now r) = x_job_id r"
  "x_provider_request_id (resolved_action oc nt ref dump now r) = x_provider_request_id r"
  "x_id (resolved_action oc nt ref dump now r) = x_id r"
  by (simp_all add: resolved_action_def same_action_def Let_def)

lemma resolved_action_state:
  "resolvable_outcome oc \<Longrightarrow> x_state (resolved_action oc nt ref dump now r) =
     (if oc = OpSucceeded then XSucceeded else if oc = OpFailed then XFailed else XCancelled)"
  "oc \<noteq> OpSucceeded \<Longrightarrow> x_failure_class (resolved_action oc nt ref dump now r) = x_failure_class r"
  by (simp_all add: resolved_action_def Let_def)

lemma resolved_envelope_simps [simp]:
  "en_operation_id (resolved_envelope oc nt v dump now e) = en_operation_id e"
  "en_request_version (resolved_envelope oc nt v dump now e) = en_request_version e"
  "en_ref (resolved_envelope oc nt v dump now e) = en_ref e"
  "en_state (resolved_envelope oc nt v dump now e) =
     (if oc = OpSucceeded then EnSucceeded else if oc = OpFailed then EnFailed else EnCancelled)"
  by (simp_all add: resolved_envelope_def Let_def en_ref_def)

text \<open>What the destination answered for the recorded request id.\<close>

lemma verified_truth:
  assumes hon: "honest eff env" and st: "x_state r = XUnresolved"
    and v: "verify_resolution env ctx r oc db w = Inr verified"
    and c: "resolution_confirmed env r oc ref verified = Inr dump"
    and oc: "resolvable_outcome oc"
    and pre: "request_id_ok r" "truthful eff env w r" "\<not> to_provider env r \<longrightarrow> effects_at eff w r = 0"
  shows "truthful eff env w (resolved_action oc nt ref' dump' now r)" (is "truthful _ _ _ ?r")
proof -
  have at: "effects_at eff w ?r = effects_at eff w r" "to_provider env ?r = to_provider env r"
    by (simp_all add: effects_at_def to_provider_def resolved_action_def Let_def)
  note S = resolved_action_state(1) [OF oc, of nt ref' dump' now r]
    resolved_action_state(2) [of oc nt ref' dump' now r]
  have cl: "x_failure_class r = Some Outcome_Unknown" using pre(2) st by (simp add: truthful_def)
  have asked: "(if verified = None then eff w rid = 0 else 1 \<le> eff w rid)"
    if d: "oc = OpSucceeded \<or> oc = OpFailed" "to_provider env r" and rid: "x_provider_request_id r = Some rid" for rid
  proof -
    from v d(1) obtain d ask where D: "e_destinations env (x_destination_ref r) = Some d" "ds_reconcile d = Some ask"
      and a: "(case ask ctx db (x_provider_request_id r) w of
                        Rec_Found out \<Rightarrow> Inr (Some out)
                      | Rec_Absent \<Rightarrow> Inr None
                      | _ \<Rightarrow> Inl (Raise_Refused resolution_unverified)) = Inr verified"
      by (auto simp: verify_resolution_def split: option.splits)
    have "honest_reconcile eff d" using hon D(1) d(2) by (auto simp: honest_def to_provider_def split: if_splits)
    from this [unfolded honest_reconcile_def, rule_format, OF D(2), where held = ctx and db = db and rid = rid and w = w] a
    show ?thesis by (auto simp: rid split: reconcile_result.splits)
  qed
  have told: "(if verified = None then effects_at eff w r = 0 else 1 \<le> effects_at eff w r)"
    if "oc = OpSucceeded \<or> oc = OpFailed" "to_provider env r" "x_provider_request_id r \<noteq> None"
    using pre(1) asked [OF that(1,2)] that(3) by (auto simp: request_id_ok_def effects_at_def)
  consider "oc = OpSucceeded" | "oc = OpFailed" | "oc = OpCancelled"
    using oc by (auto simp: resolvable_outcome_def)
  then show ?thesis
  proof cases
    case 1
    with c have "verified \<noteq> None" by (auto simp: resolution_confirmed_def split: option.splits)
    then have "claims_effect env ?r \<longrightarrow> 1 \<le> effects_at eff w r"
      using told 1 at(2) by (auto simp: claims_effect_def)
    then show ?thesis using 1 S at by (simp add: truthful_def claims_no_effect_def)
  next
    case 2
    with c have "verified = None" by (auto simp: resolution_confirmed_def split: if_splits)
    then have "claims_no_effect ?r \<longrightarrow> effects_at eff w r = 0"
      using told 2 pre(3) S cl by (cases "to_provider env r") (auto simp: claims_no_effect_def)
    then show ?thesis using 2 S at by (simp add: truthful_def claims_effect_def)
  next
    case 3
    then show ?thesis using S cl by (simp add: truthful_def claims_effect_def claims_no_effect_def)
  qed
qed

lemma resolve_keeps:
  assumes inv: "db_inv db" and hon: "honest eff env" and oc: "resolvable_outcome oc"
    and rs: "resolve_external env ctx i oc nt ref ck now db w = Inr db'"
  shows "db_inv db' \<and> advances eff env w db db'"
proof -
  note U = db_invD(5-9) [OF inv]
  from rs obtain r where r: "lookup_by x_id i (db_actions db) = Some r" and st: "x_state r = XUnresolved"
    by (auto simp: resolve_external_def get_action_def split: option.splits if_splits)
  from rs r st obtain verified dump db1 db2 where
    v: "verify_resolution env ctx r oc db w = Inr verified"
    and c: "resolution_confirmed env r oc ref verified = Inr dump"
    and m1: "demand (Raise_Refused ''operation_state'')
      (on_envelopes (apply_where (en_unresolved_at (x_ref r))
         (resolved_envelope oc nt (x_result_version r) dump now)) db) = Inr db1"
    and m2: "demand (Raise_Refused ''operation_state'')
      (on_actions (update_action i (\<lambda>st. st = XUnresolved) (resolved_action oc nt ref dump now)) db1) = Inr db2"
    and m3: "(case resolve (x_operation_id r) oc nt now
          (if oc = OpSucceeded then Some (case ck of None \<Rightarrow> Provider_Status | Some k \<Rightarrow> k) else None)
          (if oc = OpSucceeded then ref else None) (db_operations db2) of
        Inl e \<Rightarrow> Inl Raise_Error
      | Inr (applied, t) \<Rightarrow> if applied then Inr (db2\<lparr>db_operations := t\<rparr>)
          else Inl (Raise_Refused ''operation_state'')) = Inr db'"
    by (auto simp: resolve_external_def get_action_def attempt_Inr)
  let ?fe = "resolved_envelope oc nt (x_result_version r) dump now"
    and ?fa = "resolved_action oc nt ref dump now"
    and ?k = "if oc = OpSucceeded then Some (case ck of None \<Rightarrow> Provider_Status | Some k \<Rightarrow> k) else None"
    and ?rr = "if oc = OpSucceeded then ref else None"
  let ?fo = "resolve_values oc nt now ?k ?rr"
  have i: "x_id r = i" using r by (rule lookup_by_key)
  have e1: "wrote en_ref (x_ref r) (en_unresolved_at (x_ref r)) ?fe (db_envelopes db) (db_envelopes db1)"
    using m1 wroteI [OF U(4), of "en_unresolved_at (x_ref r)" ?fe "x_ref r"]
    by (auto simp: demand_Inr en_unresolved_at_def)
  obtain N where d1: "db1 = db\<lparr>db_envelopes := N\<rparr>" using m1 by (auto simp: demand_Inr)
  have a1: "wrote x_id i (x_in_states i (\<lambda>st. st = XUnresolved)) ?fa (db_actions db) (db_actions db2)"
    using m2 wrote_action [OF U(1), of i "\<lambda>st. st = XUnresolved" ?fa] by (auto simp: demand_Inr d1)
  obtain A where d2: "db2 = db1\<lparr>db_actions := A\<rparr>" using m2 by (auto simp: demand_Inr)
  from m3 obtain t where rv: "resolve (x_operation_id r) oc nt now ?k ?rr (db_operations db2) = Inr (True, t)"
    and d3: "db' = db2\<lparr>db_operations := t\<rparr>"
    by (auto split: sum.splits if_splits)
  have o1: "wrote o_id (x_operation_id r) (op_unresolved (x_operation_id r)) ?fo (db_operations db) t"
    using wroteI [OF U(3), of "op_unresolved (x_operation_id r)" ?fo "x_operation_id r"] resolve_InrD(1) [OF rv]
    by (simp add: d1 d2 op_unresolved_def apply_where_def)
  from db_invD(10) [OF inv lookup_by_in [OF r]] obtain p and q :: operation where
    p: "lookup_by ap_id (x_approval_id r) (db_approvals db) = Some p" and
    ph: "phase_ok (x_state r) (x_job_id r \<noteq> None) (ap_state p) (o_state q)
       (map_option en_state (lookup_by en_ref (x_ref r) (db_envelopes db)))"
    by (rule rows_okE) blast
  from ph st have ps: "ap_state p = ApExecuted" by simp
  have p1: "wrote ap_id (x_approval_id r) (\<lambda>p. ap_state p = ApExecuted) (\<lambda>p. p) (db_approvals db) (db_approvals db')"
    using wrote_same [OF U(2) p, of "\<lambda>p. ap_state p = ApExecuted"] ps by (simp add: d1 d2 d3)
  have jb: "db_jobs db' = db_jobs db" by (simp add: d1 d2 d3)
  have "db_inv (db'\<lparr>db_jobs := db_jobs db'\<rparr>) \<and> advances eff env w db (db'\<lparr>db_jobs := db_jobs db'\<rparr>)"
  proof (rule action_writes_keep [OF inv r [folded i] _ _ _ _, where
        PA = "x_in_states i (\<lambda>st. st = XUnresolved)" and fa = ?fa and
        PP = "\<lambda>p. ap_state p = ApExecuted" and fp = "\<lambda>p. p" and
        PO = "op_unresolved (x_operation_id r)" and fo = ?fo and
        PE = "en_unresolved_at (x_ref r)" and fe = ?fe])
    show "wrote x_id (x_id r) (x_in_states i (\<lambda>st. st = XUnresolved)) ?fa (db_actions db)
        (db_actions (db'\<lparr>db_jobs := db_jobs db'\<rparr>))"
      using a1 by (simp add: i d3)
    show "job_of_action (db_jobs (db'\<lparr>db_jobs := db_jobs db'\<rparr>)) (?fa r)"
      using db_invD(4) [OF inv] lookup_by_in [OF r] by (simp add: jobs_linked_def job_of_action_def jb)
    show "x_in_states i (\<lambda>st. st = XUnresolved) r \<longrightarrow> evolved eff env w r (?fa r)"
      using verified_truth [OF hon st v c oc] resolved_action_state(1) [OF oc, of nt ref dump now r]
      by (auto simp: evolved_def x_open_state_def split: if_splits)
  qed (use p1 o1 e1 jb jobs_added_refl [OF U(5)] oc resolved_action_state(1) [OF oc] in
      \<open>auto simp: d1 d2 d3 i resolve_values_def Let_def resolvable_outcome_def x_in_states_def\<close>)
  then show ?thesis by simp
qed

section \<open>What an erasure does to the actions\<close>

lemma erased_values_simps [simp]:
  "ap_id (erased_approval_values p) = ap_id p"
  "ap_operation_id (erased_approval_values p) = ap_operation_id p"
  "ap_approved_at (erased_approval_values p) = ap_approved_at p"
  "ap_state (erased_approval_values p) = ApInvalidated"
  "approval_of_action r (erased_approval_values p) = approval_of_action r p"
  "o_id (erased_operation_values now q) = o_id q"
  "o_approval_id (erased_operation_values now q) = o_approval_id q"
  "o_state (erased_operation_values now q) = OpCancelled"
  "operation_of_action r (erased_operation_values now q) = operation_of_action r q"
  "j_id (erased_job_values now j) = j_id j"
  "j_operation_id (erased_job_values now j) = j_operation_id j"
  "j_state (erased_job_values now j) = JobCancelled"
  "j_attempts (erased_job_values now j) = j_attempts j"
  "j_kind (erased_job_values now j) = j_kind j"
  by (simp_all add: erased_approval_values_def erased_operation_values_def erased_job_values_def
      approval_of_action_def operation_of_action_def)

text \<open>The operation records an erasure cancels.\<close>

definition erased_ids :: "string \<Rightarrow> uuid \<Rightarrow> 's ws_db \<Rightarrow> uuid list" where
  "erased_ids ref own db =
     List.map_filter j_operation_id (filter (erased_job ref) (db_jobs db)) @
     map ap_operation_id (filter (erased_approval ref own) (db_approvals db))"

lemma erased_tables:
  assumes "erase_dependents ref own now db = (a, b, db')"
  shows "db_jobs db' = update_where (erased_job ref) (erased_job_values now) (db_jobs db)"
    "db_approvals db' = update_where (erased_approval ref own) erased_approval_values (db_approvals db)"
    "db_operations db' = update_where (erased_operation (erased_ids ref own db))
       (erased_operation_values now) (db_operations db)"
    "db_actions db' = db_actions db" "db_envelopes db' = db_envelopes db"
  using assms by (auto simp: erase_dependents_def Let_def erased_ids_def)

lemma erased_record_of_action:
  assumes inv: "db_inv db" and r: "r \<in> set (db_actions db)"
    and p: "lookup_by ap_id (x_approval_id r) (db_approvals db) = Some p"
  shows "x_operation_id r \<in> set (erased_ids ref own db) \<longleftrightarrow> erased_approval ref own p"
proof -
  have "x_operation_id r \<notin> set (List.map_filter j_operation_id (filter (erased_job ref) (db_jobs db)))"
    using db_invD(4) [OF inv] r by (auto simp: List.map_filter_def jobs_linked_def)
  moreover have "x_operation_id r \<in> ap_operation_id ` {q \<in> set (db_approvals db). erased_approval ref own q}
      \<longleftrightarrow> erased_approval ref own p"
  proof
    assume "x_operation_id r \<in> ap_operation_id ` {q \<in> set (db_approvals db). erased_approval ref own q}"
    then obtain q where q: "q \<in> set (db_approvals db)" "erased_approval ref own q"
      "ap_operation_id q = x_operation_id r" by auto
    from approval_of_operation [OF inv r q(1,3)] q(1) p have "q = p"
      using lookup_by_unique [OF db_invD(6) [OF inv], of "x_approval_id r" q] by simp
    with q(2) show "erased_approval ref own p" by simp
  next
    assume e: "erased_approval ref own p"
    obtain p' where "lookup_by ap_id (x_approval_id r) (db_approvals db) = Some p'" "approval_of_action r p'"
      using db_invD(10) [OF inv r] by (rule rows_okE)
    with p have "ap_operation_id p = x_operation_id r" by (simp add: approval_of_action_def)
    with e lookup_by_in [OF p] show "x_operation_id r \<in>
        ap_operation_id ` {q \<in> set (db_approvals db). erased_approval ref own q}"
      by (metis (mono_tags, lifting) image_eqI mem_Collect_eq)
  qed
  ultimately show ?thesis by (simp add: erased_ids_def)
qed

lemma erase_keeps:
  assumes inv: "db_inv db" and er: "erase_dependents ref own now db = (a, b, db')"
  shows "db_inv db' \<and> advances eff env w db db'"
proof
  note T = erased_tables [OF er] and U = db_invD(5-9) [OF inv]
  have ap: "lookup_by ap_id k (db_approvals db') = map_option (\<lambda>p. if erased_approval ref own p
      then erased_approval_values p else p) (lookup_by ap_id k (db_approvals db))" for k
    unfolding T by (rule lookup_by_update_where) simp
  have op: "lookup_by o_id k (db_operations db') = map_option (\<lambda>q. if erased_operation (erased_ids ref own db) q
      then erased_operation_values now q else q) (lookup_by o_id k (db_operations db))" for k
    unfolding T by (rule lookup_by_update_where) simp
  have jb: "lookup_by j_id k (db_jobs db') = map_option (\<lambda>j. if erased_job ref j
      then erased_job_values now j else j) (lookup_by j_id k (db_jobs db))" for k
    unfolding T by (rule lookup_by_update_where) simp
  have ext: "\<not> erased_job ref j" if "external_job j" for j
    using that by (simp add: external_job_def erased_job_def)
  have "rows_ok db' r" if r: "r \<in> set (db_actions db)" for r
  proof -
    from db_invD(10) [OF inv r] obtain p :: approval and q :: operation where
      p: "lookup_by ap_id (x_approval_id r) (db_approvals db) = Some p" "approval_of_action r p"
      and q: "lookup_by o_id (x_operation_id r) (db_operations db) = Some q" "operation_of_action r q"
      and e: "\<And>e :: envelope. lookup_by en_ref (x_ref r) (db_envelopes db) = Some e \<Longrightarrow> reservation_of_action r e"
      and ph: "phase_ok (x_state r) (x_job_id r \<noteq> None) (ap_state p) (o_state q)
       (map_option en_state (lookup_by en_ref (x_ref r) (db_envelopes db)))"
      by (rule rows_okE) blast
    note id = erased_record_of_action [OF inv r p(1), of ref own] lookup_by_key [OF q(1)]
    show ?thesis
    proof (cases "erased_approval ref own p")
      case True
      then have st: "ap_state p = ApPending \<or> ap_state p = ApApproved \<or> ap_state p = ApRequires_Reapproval"
        by (simp add: erased_approval_def)
      with ph have "stranded ApInvalidated OpCancelled
          (map_option en_state (lookup_by en_ref (x_ref r) (db_envelopes db))) \<and>
        (o_state q = OpRunning \<or> o_state q = OpApprovalRequired) \<and>
        (x_state r = XPending \<or> x_state r = XExecuting \<and> x_job_id r \<noteq> None)"
        by (cases "x_state r") (auto simp: stranded_def split: if_splits)
      with True p q e id show ?thesis
        unfolding rows_ok_def ap op T(4,5) by (auto simp: erased_operation_def)
    next
      case False
      with p q e ph id show ?thesis
        unfolding rows_ok_def ap op T(4,5) by (auto simp: erased_operation_def)
    qed
  qed
  moreover have "unique_tables db'"
    using db_invD(1) [OF inv] by (simp add: unique_tables_def T unique_update_where)
  ultimately have "rows_agree db'"
    using db_invD(2) [OF inv] by (simp add: rows_agree_def T)
  moreover have "approvals_linked db'"
    unfolding approvals_linked_def
  proof
    fix x assume "x \<in> set (db_approvals db')"
    then obtain p where p: "p \<in> set (db_approvals db)"
      "x = (if erased_approval ref own p then erased_approval_values p else p)"
      unfolding T by (rule in_update_whereE)
    with db_invD(3) [OF inv] obtain q where "lookup_by o_id (ap_operation_id p) (db_operations db) = Some q"
      "o_approval_id q = Some (ap_id p)" "ap_state p = ApApproved \<longrightarrow> ap_approved_at p \<noteq> None"
      unfolding approvals_linked_def approval_linked_def by blast
    with p(2) op [of "ap_operation_id p"] show "approval_linked (db_operations db') x"
      by (simp add: approval_linked_def)
  qed
  moreover have "jobs_linked db'"
    unfolding jobs_linked_def
  proof (intro conjI ballI)
    show "unique_by j_id (db_jobs db')" using U(5) by (simp add: T unique_update_where)
    fix r assume "r \<in> set (db_actions db')"
    with db_invD(4) [OF inv] have "job_of_action (db_jobs db) r" by (simp add: jobs_linked_def T)
    then show "job_of_action (db_jobs db') r"
      unfolding job_of_action_def jb using ext by fastforce
  next
    fix j assume "j \<in> set (db_jobs db')"
    then obtain j0 where "j0 \<in> set (db_jobs db)" "j_operation_id j = j_operation_id j0"
      unfolding T by (auto elim!: in_update_whereE split: if_splits)
    moreover have "o_id ` set (db_operations db') = o_id ` set (db_operations db)"
    proof -
      have "map o_id (db_operations db') = map o_id (db_operations db)"
        unfolding T by (rule map_update_where) simp
      then show ?thesis by (metis list.set_map)
    qed
    ultimately show "\<forall>i. j_operation_id j = Some i \<longrightarrow> i \<in> o_id ` set (db_operations db') \<and>
        (\<forall>r \<in> set (db_actions db'). x_operation_id r \<noteq> i)"
      using db_invD(4) [OF inv] by (simp add: jobs_linked_def T)
  qed
  ultimately show "db_inv db'" by (simp add: db_inv_def)
  show "advances eff env w db db'"
    unfolding advances_def
  proof (intro conjI allI impI)
    show "\<forall>r \<in> set (db_actions db). \<exists>r' \<in> set (db_actions db'). evolved eff env w r r'"
      "\<forall>r' \<in> set (db_actions db'). (\<exists>r \<in> set (db_actions db). evolved eff env w r r') \<or>
        staged_row r' \<and> x_id r' \<notin> x_id ` set (db_actions db)"
      unfolding T by (auto intro: evolved_refl)
    show "lookup_by j_id i (db_jobs db') = Some j"
      if "lookup_by j_id i (db_jobs db) = Some j \<and> external_job j" for i j
      using that ext by (simp add: jb)
    show "lookup_by j_id i (db_jobs db) = Some j \<or> j_state j \<noteq> JobLeased \<and>
        (case lookup_by j_id i (db_jobs db) of None \<Rightarrow> 0 \<le> j_attempts j
         | Some j0 \<Rightarrow> j_attempts j = j_attempts j0 \<and> j_kind j = j_kind j0)"
      if "lookup_by j_id i (db_jobs db') = Some j \<and> j_kind j = external_action_execute" for i j
      using that by (cases "lookup_by j_id i (db_jobs db)") (auto simp: jb split: if_splits)
    show "\<forall>p \<in> set (db_approvals db). \<exists>p' \<in> set (db_approvals db'). ap_id p' = ap_id p \<and>
        (ap_approved_at p \<noteq> None \<longrightarrow> ap_approved_at p' \<noteq> None)"
    proof
      fix p assume "p \<in> set (db_approvals db)"
      then have "(if erased_approval ref own p then erased_approval_values p else p) \<in> set (db_approvals db')"
        unfolding T update_where_def by auto
      then show "\<exists>p' \<in> set (db_approvals db'). ap_id p' = ap_id p \<and>
          (ap_approved_at p \<noteq> None \<longrightarrow> ap_approved_at p' \<noteq> None)"
        by (rule rev_bexI) simp
    qed
  qed
qed

end
