(* ===== verification/External_System.thy ===== *)
theory External_System
  imports External_Transactions Job_System
begin

text \<open>
  External actions as a system: the transactions that stage, decide, resolve, purge and erase, any
  number of workers that lease the jobs of \<^verbatim>\<open>core.external_action.execute\<close> and run their
  continuations (\<^verbatim>\<open>work/loop.py\<close> over \<^verbatim>\<open>operations/continuation.py\<close>), crashes at any
  point, and the world outside the database, which no rollback takes back.

  \<open>xs_inv\<close> is the invariant. Its core is \<open>place_ok\<close>: a worker that may still call a provider holds a
  lease counted as the second or a later one whenever an effect of the action is out there, so that it
  asks the provider first.
\<close>

section \<open>The system\<close>

record ('s, 'w) xs =
  xs_db :: "'s ws_db"
  xs_world :: 'w
  xs_pc :: "string \<Rightarrow> json pc"

text \<open>The tables a worker's own writes touch.\<close>

definition view :: "'s ws_db \<Rightarrow> (json, unit) work_db" where
  "view db = \<lparr>wd_jobs = db_jobs db, wd_ops = db_operations db, wd_effects = [], wd_settlements = []\<rparr>"

text \<open>The transaction of \<^verbatim>\<open>_run_continuation\<close>: the continuation, then the finish of its job; both
  commit or neither does. \<open>err\<close> is the type of the exception, when it raises one.\<close>

definition continue_in ::
  "('i, 'o, 's, 'w) env \<Rightarrow> uuid \<Rightarrow> instant \<Rightarrow> instant \<Rightarrow> (rat \<Rightarrow> rat \<Rightarrow> rat) option \<Rightarrow> string \<Rightarrow>
   json leased_job \<Rightarrow> continuation_mode \<Rightarrow> nat \<Rightarrow> string \<Rightarrow> 's ws_db \<Rightarrow> 'w \<Rightarrow>
   json pc \<times> 's ws_db \<times> 'w" where
  "continue_in env ws now fin jitter err l mode n w db world =
     (case run_external_continuation env ws l w mode now db world of
        (Inl e, world') \<Rightarrow>
          (fst (run_continuation (Inl err) fin jitter l mode n w (view db)), db, world')
      | (Inr ((disp, detail), db1), world') \<Rightarrow>
          (let (pc', wd) = run_continuation (Inr (disp, detail, (), view db1)) fin jitter l mode n w (view db)
           in (pc', if pc' = P_Idle then db1\<lparr>db_jobs := wd_jobs wd\<rparr> else db, world')))"

text \<open>Any other transaction of the program: it leaves these actions, their rows and their jobs alone
  and keeps what links the rows.\<close>

definition others :: "'s ws_db \<Rightarrow> 's ws_db \<Rightarrow> bool" where
  "others db db' \<longleftrightarrow>
     unique_tables db' \<and> approvals_linked db' \<and> jobs_linked db' \<and>
     db_actions db' = db_actions db \<and>
     (\<forall>r \<in> set (db_actions db).
        lookup_by ap_id (x_approval_id r) (db_approvals db') =
          lookup_by ap_id (x_approval_id r) (db_approvals db) \<and>
        lookup_by o_id (x_operation_id r) (db_operations db') =
          lookup_by o_id (x_operation_id r) (db_operations db) \<and>
        lookup_by en_ref (x_ref r) (db_envelopes db') = lookup_by en_ref (x_ref r) (db_envelopes db)) \<and>
     (\<forall>p \<in> set (db_approvals db). \<exists>p' \<in> set (db_approvals db'). ap_id p' = ap_id p \<and>
        (ap_approved_at p \<noteq> None \<longrightarrow> ap_approved_at p' \<noteq> None)) \<and>
     (\<forall>i j. j_kind j = external_action_execute \<longrightarrow>
        (lookup_by j_id i (db_jobs db') = Some j \<longleftrightarrow> lookup_by j_id i (db_jobs db) = Some j))"

inductive decision_tx ::
  "('i, 'o, 's, 'w) env \<Rightarrow> 'w \<Rightarrow> 's ws_db \<Rightarrow> 's ws_db \<Rightarrow> bool" for env world db where
  d_stage: "stage_external_in_transaction env ctx name payload source i a x now db = Inr (sg, db') \<Longrightarrow>
    decision_tx env world db db'"
| d_hold: "hold_for_approval env ctx oper inp digest i a now db = Inr (res, db') \<Longrightarrow>
    decision_tx env world db db'"
| d_approve: "approve_handler env ctx i displayed fresh now db = Inr (row, db') \<Longrightarrow>
    decision_tx env world db db'"
| d_refuse: "refuse_handler env ctx i displayed now db = Inr (row, db') \<Longrightarrow> decision_tx env world db db'"
| d_resolve: "resolve_external env ctx i oc nt ref ck now db world = Inr db' \<Longrightarrow>
    resolvable_outcome oc \<Longrightarrow> decision_tx env world db db'"
| d_purge: "decision_tx env world db (purge_envelopes now db)"
| d_erase: "erase_dependents ref own now db = (a, b, db') \<Longrightarrow> decision_tx env world db db'"
| d_others: "others db db' \<Longrightarrow> decision_tx env world db db'"

inductive xs_step ::
  "('i, 'o, 's, 'w) env \<Rightarrow> uuid \<Rightarrow> json kind_registry \<Rightarrow> ('s, 'w) xs \<Rightarrow> ('s, 'w) xs \<Rightarrow> bool"
  for env ws kinds where
  x_decision: "decision_tx env (xs_world s) (xs_db s) db' \<Longrightarrow> xs_step env ws kinds s (s\<lparr>xs_db := db'\<rparr>)"
| x_acquire: "xs_pc s w = P_Idle \<Longrightarrow>
    acquire_lease locked w now lease_seconds (db_jobs (xs_db s)) = (Some l, t) \<Longrightarrow>
    l_kind l = external_action_execute \<Longrightarrow>
    xs_step env ws kinds s
      (s\<lparr>xs_db := (xs_db s)\<lparr>db_jobs := t\<rparr>, xs_pc := (xs_pc s)(w := P_Leased l now)\<rparr>)"
| x_gates: "xs_pc s w = P_Leased l now \<Longrightarrow>
    run_leased_job kinds ready clock l w now (view (xs_db s)) = (pc', wd) \<Longrightarrow>
    xs_step env ws kinds s
      (s\<lparr>xs_db := (xs_db s)\<lparr>db_jobs := wd_jobs wd, db_operations := wd_ops wd\<rparr>,
         xs_pc := (xs_pc s)(w := pc')\<rparr>)"
| x_continue: "xs_pc s w = P_Cont l mode n \<Longrightarrow>
    continue_in env ws now fin jitter err l mode n w (xs_db s) (xs_world s) = (pc', db', world') \<Longrightarrow>
    xs_step env ws kinds s (s\<lparr>xs_db := db', xs_world := world', xs_pc := (xs_pc s)(w := pc')\<rparr>)"
| x_continue_crash: "xs_pc s w = P_Cont l mode n \<Longrightarrow>
    run_external_continuation env ws l w mode now (xs_db s) (xs_world s) = (res, world') \<Longrightarrow>
    xs_step env ws kinds s (s\<lparr>xs_world := world', xs_pc := (xs_pc s)(w := P_Idle)\<rparr>)"
| x_failed: "xs_pc s w = P_Cont_Failed l mode n e \<Longrightarrow>
    continuation_failed retry_at jitter l mode n e w (view (xs_db s)) = (pc', wd) \<Longrightarrow>
    xs_step env ws kinds s
      (s\<lparr>xs_db := (xs_db s)\<lparr>db_jobs := wd_jobs wd\<rparr>, xs_pc := (xs_pc s)(w := pc')\<rparr>)"
| x_check: "xs_pc s w = P_Cont_Check l mode n \<Longrightarrow>
    xs_step env ws kinds s
      (s\<lparr>xs_pc := (xs_pc s)(w := continuation_check l mode n w (view (xs_db s)))\<rparr>)"
| x_crash: "xs_step env ws kinds s (s\<lparr>xs_pc := (xs_pc s)(w := P_Idle)\<rparr>)"
| x_cancel: "request_cancellation i now (db_jobs (xs_db s)) (db_operations (xs_db s)) = (st, t, ops) \<Longrightarrow>
    xs_step env ws kinds s (s\<lparr>xs_db := (xs_db s)\<lparr>db_jobs := t, db_operations := ops\<rparr>\<rparr>)"

definition empty_ws :: "'s \<Rightarrow> 's ws_db" where
  "empty_ws data =
     \<lparr>db_operations = [], db_approvals = [], db_payloads = [], db_actions = [], db_envelopes = [],
      db_jobs = [], db_modules = [], db_audits = [], db_data = data\<rparr>"

definition xs_start :: "'s \<Rightarrow> 'w \<Rightarrow> ('s, 'w) xs" where
  "xs_start data world = \<lparr>xs_db = empty_ws data, xs_world = world, xs_pc = (\<lambda>_. P_Idle)\<rparr>"

text \<open>From an empty workspace and a world in which no request of ours had an effect.\<close>

definition xs_reach ::
  "('w \<Rightarrow> string \<Rightarrow> nat) \<Rightarrow> ('i, 'o, 's, 'w) env \<Rightarrow> uuid \<Rightarrow> json kind_registry \<Rightarrow> ('s, 'w) xs \<Rightarrow> bool"
where
  "xs_reach eff env ws kinds s \<longleftrightarrow>
     (\<exists>data world. (\<forall>i. eff world (provider_request_id i) = 0) \<and>
        (xs_step env ws kinds)\<^sup>*\<^sup>* (xs_start data world) s)"

section \<open>The invariant\<close>

definition row_inv ::
  "('w \<Rightarrow> string \<Rightarrow> nat) \<Rightarrow> ('i, 'o, 's, 'w) env \<Rightarrow> 's ws_db \<Rightarrow> 'w \<Rightarrow> external_action \<Rightarrow> bool" where
  "row_inv eff env db world r \<longleftrightarrow>
     request_id_ok r \<and> truthful eff env world r \<and>
     (x_job_id r = None \<or> \<not> to_provider env r \<longrightarrow> effects_at eff world r = 0) \<and>
     (effects_at eff world r \<noteq> 0 \<longrightarrow>
        (\<exists>p. lookup_by ap_id (x_approval_id r) (db_approvals db) = Some p \<and> ap_approved_at p \<noteq> None)) \<and>
     (x_open_state (x_state r) \<and> effects_at eff world r \<noteq> 0 \<longrightarrow>
        (\<exists>i j. x_job_id r = Some i \<and> lookup_by j_id i (db_jobs db) = Some j \<and> 1 \<le> j_attempts j))"

definition effects_inv ::
  "('w \<Rightarrow> string \<Rightarrow> nat) \<Rightarrow> ('i, 'o, 's, 'w) env \<Rightarrow> 's ws_db \<Rightarrow> 'w \<Rightarrow> bool" where
  "effects_inv eff env db world \<longleftrightarrow>
     (\<forall>i. eff world (provider_request_id i) \<le> 1) \<and>
     (\<forall>i. i \<notin> x_id ` set (db_actions db) \<longrightarrow> eff world (provider_request_id i) = 0) \<and>
     (\<forall>r \<in> set (db_actions db). row_inv eff env db world r) \<and>
     (\<forall>i j. lookup_by j_id i (db_jobs db) = Some j \<and> j_kind j = external_action_execute \<longrightarrow> 0 \<le> j_attempts j)"

text \<open>The places of a worker with an external job, and those from which it may yet act.\<close>

fun external_place :: "json pc \<Rightarrow> bool" where
  "external_place P_Idle \<longleftrightarrow> True"
| "external_place (P_Leased l _) \<longleftrightarrow> l_kind l = external_action_execute"
| "external_place (P_Cont l _ _) \<longleftrightarrow> l_kind l = external_action_execute"
| "external_place (P_Cont_Failed l _ _ _) \<longleftrightarrow> l_kind l = external_action_execute"
| "external_place (P_Cont_Check l _ _) \<longleftrightarrow> l_kind l = external_action_execute"
| "external_place _ \<longleftrightarrow> False"

fun may_run :: "json pc \<Rightarrow> bool" where
  "may_run (P_Leased l _) \<longleftrightarrow> continuation_mode_of l = Mode_Run"
| "may_run (P_Cont _ mode _) \<longleftrightarrow> mode = Mode_Run"
| "may_run _ \<longleftrightarrow> False"

definition place_ok ::
  "('w \<Rightarrow> string \<Rightarrow> nat) \<Rightarrow> 's ws_db \<Rightarrow> 'w \<Rightarrow> string \<Rightarrow> json pc \<Rightarrow> bool" where
  "place_ok eff db world w pc \<longleftrightarrow>
     external_place pc \<and>
     (\<forall>l j. pc_lease pc = Some l \<and> lookup_by j_id (l_id l) (db_jobs db) = Some j \<and>
        job_held (l_id l) w j \<and> j_kind j = external_action_execute \<longrightarrow>
        j_attempts j = l_attempts l \<and>
        (may_run pc \<longrightarrow> 1 \<le> l_attempts l \<and>
           (\<forall>r \<in> set (db_actions db). x_open_state (x_state r) \<and> x_job_id r = Some (l_id l) \<and>
              effects_at eff world r \<noteq> 0 \<longrightarrow> 2 \<le> l_attempts l)))"

definition xs_inv :: "('w \<Rightarrow> string \<Rightarrow> nat) \<Rightarrow> ('i, 'o, 's, 'w) env \<Rightarrow> ('s, 'w) xs \<Rightarrow> bool" where
  "xs_inv eff env s \<longleftrightarrow>
     db_inv (xs_db s) \<and> effects_inv eff env (xs_db s) (xs_world s) \<and>
     (\<forall>w. place_ok eff (xs_db s) (xs_world s) w (xs_pc s w))"

section \<open>Decisions keep it\<close>

lemma provider_request_id_inj [simp]:
  "provider_request_id i = provider_request_id j \<longleftrightarrow> i = j"
proof
  assume "provider_request_id i = provider_request_id j"
  then have "uuid_text i = uuid_text j" by (simp add: provider_request_id_def)
  then show "i = j" using read_uuid_text by (metis option.inject)
qed simp

lemma others_keeps:
  assumes inv: "db_inv db" and ot: "others db db'"
  shows "db_inv db' \<and> advances eff env w db db'"
proof
  have acts: "db_actions db' = db_actions db" using ot by (simp add: others_def)
  have "rows_ok db' r" if "r \<in> set (db_actions db')" for r
    using ot that rows_ok_cong [of r db' db] db_invD(10) [OF inv, of r] by (simp add: others_def)
  then have "rows_agree db'"
    using ot db_invD(2) [OF inv] by (simp add: rows_agree_def others_def)
  with ot show "db_inv db'" by (simp add: db_inv_def others_def)
  from ot show "advances eff env w db db'"
    unfolding advances_def others_def external_job_def by (auto intro: evolved_refl)
qed

lemma decision_keeps:
  assumes "decision_tx env world db db'" "honest eff env" "db_inv db"
  shows "db_inv db' \<and> advances eff env world db db'"
  using assms(1)
proof cases
  case (d_stage ctx name payload source i a x now sg)
  show ?thesis by (rule stage_keeps [OF assms(3) d_stage])
next
  case (d_hold ctx oper inp digest i a now res)
  show ?thesis by (rule hold_keeps [OF assms(3) d_hold])
next
  case (d_approve ctx i displayed fresh now row)
  show ?thesis by (rule approve_keeps [OF assms(3) d_approve])
next
  case (d_refuse ctx i displayed now row)
  show ?thesis by (rule refuse_keeps [OF assms(3) d_refuse])
next
  case (d_resolve ctx i oc nt ref ck now)
  show ?thesis by (rule resolve_keeps [OF assms(3,2) d_resolve(2,1)])
next
  case (d_purge now)
  show ?thesis unfolding d_purge by (rule purge_keeps [OF assms(3)])
next
  case (d_erase ref own now a b)
  show ?thesis by (rule erase_keeps [OF assms(3) d_erase])
next
  case d_others
  show ?thesis by (rule others_keeps [OF assms(3) d_others])
qed

text \<open>What the workers know is stable under them.\<close>

lemma evolvedD:
  assumes "evolved eff env w r r'"
  shows "same_action r r'" "x_provider_request_id r' = x_provider_request_id r"
    "x_open_state (x_state r') \<Longrightarrow> x_open_state (x_state r)"
    "x_job_id r' = x_job_id r \<or> x_job_id r = None"
    "effects_at eff v r' = effects_at eff v r" "to_provider env r' = to_provider env r"
    "request_id_ok r' = request_id_ok r" "x_approval_id r' = x_approval_id r" "x_id r' = x_id r"
    "request_id_ok r \<Longrightarrow> truthful eff env w r \<Longrightarrow>
      (x_job_id r = None \<or> \<not> to_provider env r \<longrightarrow> effects_at eff w r = 0) \<Longrightarrow> truthful eff env w r'"
  using assms
  by (auto simp: evolved_def same_action_def effects_at_def to_provider_def request_id_ok_def)

lemma advances_row_inv:
  assumes inv: "db_inv db" "db_inv db'" and adv: "advances eff env world db db'"
    and r: "r \<in> set (db_actions db)" "row_inv eff env db world r" and ev: "evolved eff env world r r'"
  shows "row_inv eff env db' world r'"
proof -
  note E = evolvedD [OF ev]
  have ok: "request_id_ok r" "truthful eff env world r"
    "x_job_id r = None \<or> \<not> to_provider env r \<longrightarrow> effects_at eff world r = 0"
    using r(2) by (simp_all add: row_inv_def)
  have "\<exists>p. lookup_by ap_id (x_approval_id r') (db_approvals db') = Some p \<and> ap_approved_at p \<noteq> None"
    if eff: "effects_at eff world r \<noteq> 0"
  proof -
    obtain p where p: "lookup_by ap_id (x_approval_id r) (db_approvals db) = Some p" "ap_approved_at p \<noteq> None"
      using r(2) eff by (auto simp: row_inv_def)
    obtain p' where "p' \<in> set (db_approvals db')" "ap_id p' = ap_id p" "ap_approved_at p' \<noteq> None"
      using adv lookup_by_in [OF p(1)] p(2) unfolding advances_def by blast
    with lookup_by_key [OF p(1)] show ?thesis
      using lookup_by_unique [OF db_invD(6) [OF inv(2)], of "x_approval_id r'" p'] E(8) by auto
  qed
  moreover have "\<exists>i j. x_job_id r' = Some i \<and> lookup_by j_id i (db_jobs db') = Some j \<and> 1 \<le> j_attempts j"
    if op: "x_open_state (x_state r')" and eff: "effects_at eff world r \<noteq> 0"
  proof -
    obtain i j where j: "x_job_id r = Some i" "lookup_by j_id i (db_jobs db) = Some j" "1 \<le> j_attempts j"
      using r(2) eff E(3) [OF op] by (auto simp: row_inv_def)
    have "job_of_action (db_jobs db) r" using db_invD(4) [OF inv(1)] r(1) by (simp add: jobs_linked_def)
    with j have "external_job j" by (auto simp: job_of_action_def)
    with j(2) adv have "lookup_by j_id i (db_jobs db') = Some j" by (simp add: advances_def)
    with j E(4) show ?thesis by auto
  qed
  moreover have "x_job_id r' = None \<or> \<not> to_provider env r' \<longrightarrow> effects_at eff world r' = 0"
    using ok(3) E(4-6) by auto
  ultimately show ?thesis
    using E(5,7,10) ok unfolding row_inv_def by simp
qed

lemma staged_row_inv:
  "staged_row r \<Longrightarrow> eff world (provider_request_id (x_id r)) = 0 \<Longrightarrow> row_inv eff env db world r"
  by (simp add: row_inv_def staged_row_def request_id_ok_def effects_at_def truthful_def
      claims_effect_def)

lemma advances_effects_inv:
  assumes inv: "db_inv db" "db_inv db'" and adv: "advances eff env world db db'"
    and ok: "effects_inv eff env db world"
  shows "effects_inv eff env db' world"
  unfolding effects_inv_def
proof (intro conjI allI ballI impI)
  fix i
  show "eff world (provider_request_id i) \<le> 1" using ok by (simp add: effects_inv_def)
next
  fix i assume i: "i \<notin> x_id ` set (db_actions db')"
  have "i \<notin> x_id ` set (db_actions db)"
  proof
    assume "i \<in> x_id ` set (db_actions db)"
    then obtain r where r: "r \<in> set (db_actions db)" "x_id r = i" by blast
    from adv r(1) obtain r' where "r' \<in> set (db_actions db')" "evolved eff env world r r'"
      unfolding advances_def by blast
    with evolvedD(9) [of eff env world r r'] r(2) i show False by (metis image_eqI)
  qed
  with ok show "eff world (provider_request_id i) = 0" by (simp add: effects_inv_def)
next
  fix r' assume "r' \<in> set (db_actions db')"
  with adv consider r where "r \<in> set (db_actions db)" "evolved eff env world r r'"
    | "staged_row r'" "x_id r' \<notin> x_id ` set (db_actions db)"
    unfolding advances_def by blast
  then show "row_inv eff env db' world r'"
  proof cases
    case 1
    with ok show ?thesis using advances_row_inv [OF inv adv] by (auto simp: effects_inv_def)
  next
    case 2
    with ok show ?thesis by (intro staged_row_inv) (simp_all add: effects_inv_def)
  qed
next
  fix i j assume j: "lookup_by j_id i (db_jobs db') = Some j \<and> j_kind j = external_action_execute"
  with adv have "lookup_by j_id i (db_jobs db) = Some j \<or>
      (case lookup_by j_id i (db_jobs db) of None \<Rightarrow> 0 \<le> j_attempts j
       | Some j0 \<Rightarrow> j_attempts j = j_attempts j0 \<and> j_kind j = j_kind j0)"
    unfolding advances_def by blast
  with ok j show "0 \<le> j_attempts j"
    by (cases "lookup_by j_id i (db_jobs db)") (auto simp: effects_inv_def simp del: lookup_by_None)
qed

lemma advances_place_ok:
  assumes adv: "advances eff env world db db'" and ok: "effects_inv eff env db world"
    and pl: "place_ok eff db world w pc"
  shows "place_ok eff db' world w pc"
  unfolding place_ok_def
proof (intro conjI allI impI)
  show "external_place pc" using pl by (simp add: place_ok_def)
  fix l j assume j: "pc_lease pc = Some l \<and> lookup_by j_id (l_id l) (db_jobs db') = Some j \<and>
      job_held (l_id l) w j \<and> j_kind j = external_action_execute"
  then have "j_state j = JobLeased" by (simp add: job_held_def)
  with j adv have old: "lookup_by j_id (l_id l) (db_jobs db) = Some j"
    unfolding advances_def by blast
  with pl j have P: "j_attempts j = l_attempts l"
    "may_run pc \<Longrightarrow> 1 \<le> l_attempts l"
    "\<And>r. may_run pc \<Longrightarrow> r \<in> set (db_actions db) \<Longrightarrow> x_open_state (x_state r) \<Longrightarrow>
      x_job_id r = Some (l_id l) \<Longrightarrow> effects_at eff world r \<noteq> 0 \<Longrightarrow> 2 \<le> l_attempts l"
    unfolding place_ok_def by blast+
  show "j_attempts j = l_attempts l" by (rule P)
  show "1 \<le> l_attempts l" if "may_run pc" using that by (rule P)
  show "\<forall>r \<in> set (db_actions db'). x_open_state (x_state r) \<and> x_job_id r = Some (l_id l) \<and>
      effects_at eff world r \<noteq> 0 \<longrightarrow> 2 \<le> l_attempts l" if run: "may_run pc"
  proof (intro ballI impI)
    fix r' assume r': "r' \<in> set (db_actions db')" "x_open_state (x_state r') \<and>
      x_job_id r' = Some (l_id l) \<and> effects_at eff world r' \<noteq> 0"
    have "x_id r' \<in> x_id ` set (db_actions db)"
    proof (rule ccontr)
      assume "x_id r' \<notin> x_id ` set (db_actions db)"
      with ok have "eff world (provider_request_id (x_id r')) = 0" unfolding effects_inv_def by blast
      with r'(2) show False by (simp add: effects_at_def)
    qed
    with adv r' obtain r where r: "r \<in> set (db_actions db)" "evolved eff env world r r'"
      unfolding advances_def by (metis staged_row_def option.distinct(1))
    note E = evolvedD [OF r(2)]
    have "row_inv eff env db world r" using ok r(1) by (simp add: effects_inv_def)
    then have "x_job_id r \<noteq> None" using r'(2) E(5) by (auto simp: row_inv_def)
    with P(3) [OF run r(1)] r'(2) E(3,4,5) show "2 \<le> l_attempts l" by auto
  qed
qed

section \<open>Workers' writes of jobs keep it\<close>

text \<open>\<open>r'\<close> is \<open>r\<close> after a write of one of \<open>me\<close>: bound to the same action, no attempt forgotten, and not
  newly held by anyone else.\<close>

definition job_moved :: "string set \<Rightarrow> json job \<Rightarrow> json job \<Rightarrow> bool" where
  "job_moved me r r' \<longleftrightarrow>
     j_id r' = j_id r \<and> j_kind r' = j_kind r \<and> j_input r' = j_input r \<and>
     j_operation_id r' = j_operation_id r \<and> j_depends_on_ref r' = j_depends_on_ref r \<and>
     j_attempts r \<le> j_attempts r' \<and>
     (\<forall>w. w \<notin> me \<and> job_held (j_id r) w r' \<longrightarrow>
        job_held (j_id r) w r \<and> j_attempts r' = j_attempts r)"

lemma job_moved_refl [simp]: "job_moved me r r"
  by (simp add: job_moved_def)

definition jobs_moved :: "string set \<Rightarrow> json jobs \<Rightarrow> json jobs \<Rightarrow> bool" where
  "jobs_moved me t t' \<longleftrightarrow> (\<exists>P f. t' = update_where P f t \<and> (\<forall>r \<in> set t. P r \<longrightarrow> job_moved me r (f r)))"

lemma jobs_moved_refl: "jobs_moved me t t"
  unfolding jobs_moved_def by (rule exI [of _ "\<lambda>_. False"]) (simp add: update_where_no_match)

lemma jobs_movedD:
  assumes "jobs_moved me t t'" "unique_by j_id t"
  shows "unique_by j_id t'"
    "lookup_by j_id i t' = Some r' \<Longrightarrow> \<exists>r. lookup_by j_id i t = Some r \<and> job_moved me r r'"
    "lookup_by j_id i t = Some r \<Longrightarrow> \<exists>r'. lookup_by j_id i t' = Some r' \<and> job_moved me r r'"
proof -
  from assms(1) obtain P f where t': "t' = update_where P f t"
    and P: "\<And>r. r \<in> set t \<Longrightarrow> P r \<Longrightarrow> job_moved me r (f r)"
    unfolding jobs_moved_def by blast
  define g where "g = (\<lambda>r. if P r then f r else r)"
  have g: "job_moved me r (g r)" if "r \<in> set t" for r
    using P [OF that] by (simp add: g_def)
  have t2: "t' = map g t" by (simp add: t' update_where_def g_def)
  have ids: "map j_id t' = map j_id t"
    unfolding t2 using g by (simp add: job_moved_def)
  then show u: "unique_by j_id t'" using assms(2) by (simp add: unique_by_def)
  show "\<exists>r. lookup_by j_id i t = Some r \<and> job_moved me r r'" if "lookup_by j_id i t' = Some r'"
  proof -
    from lookup_by_SomeD [OF that] obtain r where r: "r \<in> set t" "r' = g r" "j_id r' = i"
      unfolding t2 by auto
    with g [OF r(1)] have "j_id r = i" by (simp add: job_moved_def)
    with r g assms(2) show ?thesis by (auto simp: lookup_by_unique)
  qed
  show "\<exists>r'. lookup_by j_id i t' = Some r' \<and> job_moved me r r'" if r: "lookup_by j_id i t = Some r"
  proof -
    have "g r \<in> set t'" using lookup_by_in [OF r] by (simp add: t2)
    moreover have "job_moved me r (g r)" using g lookup_by_in [OF r] .
    moreover from this have "j_id (g r) = i" using lookup_by_key [OF r] by (simp add: job_moved_def)
    ultimately show ?thesis using lookup_by_unique [OF u, of i "g r"] by auto
  qed
qed

lemma moved_db_inv:
  assumes inv: "db_inv db" and mv: "jobs_moved me (db_jobs db) t"
  shows "db_inv (db\<lparr>db_jobs := t\<rparr>)"
proof -
  note M = jobs_movedD [OF mv db_invD(9) [OF inv]]
  have "job_of_action t r" if r: "r \<in> set (db_actions db)" for r
    unfolding job_of_action_def
  proof (intro allI impI)
    fix i assume i: "x_job_id r = Some i"
    have "job_of_action (db_jobs db) r" using db_invD(4) [OF inv] r by (simp add: jobs_linked_def)
    with i obtain j where j: "lookup_by j_id i (db_jobs db) = Some j" "external_job j"
      "j_input j = external_job_input (x_id r)" by (auto simp: job_of_action_def)
    from M(3) [OF j(1)] j(2,3) show "\<exists>j. lookup_by j_id i t = Some j \<and> external_job j \<and>
        j_input j = external_job_input (x_id r)"
      by (auto simp: job_moved_def external_job_def)
  qed
  moreover have "i \<in> o_id ` set (db_operations db) \<and> (\<forall>r \<in> set (db_actions db). x_operation_id r \<noteq> i)"
    if j: "j \<in> set t" "j_operation_id j = Some i" for i j
  proof -
    have "lookup_by j_id (j_id j) t = Some j" using j(1) M(1) by (simp add: lookup_by_unique)
    from M(2) [OF this] obtain j0 where "lookup_by j_id (j_id j) (db_jobs db) = Some j0" "job_moved me j0 j"
      by blast
    with lookup_by_in j(2) have "j0 \<in> set (db_jobs db)" "j_operation_id j0 = Some i"
      by (auto simp: job_moved_def)
    with db_invD(4) [OF inv] show ?thesis by (simp add: jobs_linked_def)
  qed
  ultimately have "jobs_linked (db\<lparr>db_jobs := t\<rparr>)"
    using M(1) by (simp add: jobs_linked_def)
  with inv show ?thesis
    by (simp add: db_inv_def rows_agree_def unique_tables_def rows_ok_def approvals_linked_def)
qed

lemma moved_effects_inv:
  assumes inv: "db_inv db" and mv: "jobs_moved me (db_jobs db) t" and ok: "effects_inv eff env db world"
  shows "effects_inv eff env (db\<lparr>db_jobs := t\<rparr>) world"
proof -
  note M = jobs_movedD [OF mv db_invD(9) [OF inv]]
  have "row_inv eff env (db\<lparr>db_jobs := t\<rparr>) world r" if "row_inv eff env db world r" for r
  proof -
    have "\<exists>j. lookup_by j_id i t = Some j \<and> 1 \<le> j_attempts j"
      if "lookup_by j_id i (db_jobs db) = Some j" "1 \<le> j_attempts j" for i j
      using M(3) [OF that(1)] that(2) by (auto simp: job_moved_def)
    with that show ?thesis unfolding row_inv_def by fastforce
  qed
  moreover have "0 \<le> j_attempts j"
    if "lookup_by j_id i t = Some j" "j_kind j = external_action_execute" for i j
  proof -
    from M(2) [OF that(1)] obtain r where r: "lookup_by j_id i (db_jobs db) = Some r" "job_moved me r j" by blast
    with that(2) ok have "0 \<le> j_attempts r" by (auto simp: effects_inv_def job_moved_def)
    with r(2) show ?thesis by (simp add: job_moved_def)
  qed
  then have "\<forall>i j. lookup_by j_id i t = Some j \<and> j_kind j = external_action_execute \<longrightarrow> 0 \<le> j_attempts j"
    by blast
  ultimately show ?thesis using ok by (simp add: effects_inv_def)
qed

lemma moved_place_ok:
  assumes inv: "db_inv db" and mv: "jobs_moved me (db_jobs db) t" and "w \<notin> me"
    and pl: "place_ok eff db world w pc"
  shows "place_ok eff (db\<lparr>db_jobs := t\<rparr>) world w pc"
  unfolding place_ok_def
proof (intro conjI allI impI)
  note M = jobs_movedD [OF mv db_invD(9) [OF inv]]
  show "external_place pc" using pl by (simp add: place_ok_def)
  fix l j assume "pc_lease pc = Some l \<and> lookup_by j_id (l_id l) (db_jobs (db\<lparr>db_jobs := t\<rparr>)) = Some j \<and>
      job_held (l_id l) w j \<and> j_kind j = external_action_execute"
  then have j: "pc_lease pc = Some l" "lookup_by j_id (l_id l) t = Some j" "job_held (l_id l) w j"
    "j_kind j = external_action_execute" by simp_all
  from M(2) [OF j(2)] obtain j0 where j0: "lookup_by j_id (l_id l) (db_jobs db) = Some j0" "job_moved me j0 j"
    by blast
  with j(3,4) \<open>w \<notin> me\<close> have "job_held (l_id l) w j0" "j_kind j0 = external_action_execute"
    "j_attempts j = j_attempts j0"
    using lookup_by_key [OF j0(1)] by (auto simp: job_moved_def)
  with pl j(1) j0(1) show "j_attempts j = l_attempts l" "may_run pc \<Longrightarrow> 1 \<le> l_attempts l"
    "may_run pc \<Longrightarrow> \<forall>r \<in> set (db_actions (db\<lparr>db_jobs := t\<rparr>)). x_open_state (x_state r) \<and>
        x_job_id r = Some (l_id l) \<and> effects_at eff world r \<noteq> 0 \<longrightarrow> 2 \<le> l_attempts l"
    by (auto simp: place_ok_def)
qed

text \<open>The writes of the workers and of a cancellation are such.\<close>

lemma jobs_movedI:
  "t' = update_where P f t \<Longrightarrow> (\<And>r. r \<in> set t \<Longrightarrow> P r \<Longrightarrow> job_moved me r (f r)) \<Longrightarrow> jobs_moved me t t'"
  unfolding jobs_moved_def by blast

lemma take_moved:
  assumes "acquire_lease locked w now secs t = (Some l, t')"
  shows "jobs_moved {w} t t'"
proof -
  from assms obtain d :: "json job" where "t' = update_where (\<lambda>r. j_id r = j_id d) (take_job w now secs) t"
    by (rule acquire_lease_SomeD)
  then show ?thesis
    by (rule jobs_movedI) (auto simp: job_moved_def job_held_def take_job_def)
qed

lemma requeue_moved: "jobs_moved {w} t (snd (requeue_for_retry i w now nx e t))"
  unfolding requeue_for_retry_def snd_apply_where
  by (rule jobs_movedI [OF refl]) (simp add: job_moved_def job_held_def)

lemma finish_moved:
  "finish_continuation_job l w mode disp detail now jitter t = (True, t') \<Longrightarrow> jobs_moved {w} t t'"
  unfolding finish_continuation_job_def
  by (auto simp: writes job_finish_owned_def apply_where_def job_moved_def job_held_def
      intro!: jobs_movedI [OF sym] split: if_splits)

lemma cancel_moved:
  assumes "request_cancellation i now t ops = (st, t', ops')"
  shows "jobs_moved {} t t'"
proof -
  have "t' = update_where (cancellable i) (cancel_values now) t"
    using request_cancellation_jobs [of i now t ops] assms by simp
  then show ?thesis
    by (rule jobs_movedI) (auto simp: job_moved_def job_held_def cancel_values_def Let_def split: if_splits)
qed

section \<open>A continuation keeps it\<close>

lemma lookup_iff:
  "unique_by key t \<Longrightarrow> r \<in> set t \<longleftrightarrow> lookup_by key (key r) t = Some r"
  by (simp add: lookup_by_unique)

text \<open>The database after a continuation of \<open>r\<close>, committed or rolled back.\<close>

definition continued ::
  "('w \<Rightarrow> string \<Rightarrow> nat) \<Rightarrow> ('i, 'o, 's, 'w) env \<Rightarrow> external_action \<Rightarrow> external_action \<Rightarrow> 's ws_db \<Rightarrow>
   's ws_db \<Rightarrow> 'w \<Rightarrow> bool" where
  "continued eff env r r1 db db1 world' \<longleftrightarrow>
     unique_by x_id (db_actions db1) \<and> kept_but (x_id r) db db1 \<and>
     lookup_by x_id (x_id r) (db_actions db1) = Some r1 \<and> continued_row r r1 \<and>
     truthful eff env world' r1"

lemma continued_actions:
  assumes "continued eff env r r1 db db1 world'" "unique_by x_id (db_actions db)"
  shows "x \<in> set (db_actions db1) \<longleftrightarrow> (if x_id x = x_id r then x = r1 else x \<in> set (db_actions db))"
  using assms lookup_iff [of x_id "db_actions db1" x] lookup_iff [OF assms(2), of x]
  by (auto simp: continued_def kept_but_def)

lemma continued_approval:
  assumes "continued eff env r r1 db db1 world'"
    and "\<exists>p. lookup_by ap_id k (db_approvals db) = Some p \<and> ap_approved_at p \<noteq> None"
  shows "\<exists>p. lookup_by ap_id k (db_approvals db1) = Some p \<and> ap_approved_at p \<noteq> None"
proof -
  have b: "bindings_kept db db1" using assms(1) by (simp add: continued_def kept_but_def)
  from assms(2) obtain p where p: "lookup_by ap_id k (db_approvals db) = Some p" "ap_approved_at p \<noteq> None"
    by blast
  with b obtain p1 where p1: "lookup_by ap_id k (db_approvals db1) = Some p1"
    unfolding bindings_kept_def by blast
  with b obtain p0 where "lookup_by ap_id k (db_approvals db) = Some p0" "ap_approved_at p1 = ap_approved_at p0"
    unfolding bindings_kept_def by blast
  with p p1 show ?thesis by simp
qed

lemma continued_db_inv:
  assumes inv: "db_inv db" and c: "continued eff env r r1 db db1 world'"
    and r: "lookup_by x_id (x_id r) (db_actions db) = Some r" and agree: "rows_agree db1"
  shows "db_inv db1"
proof -
  have b: "bindings_kept db db1" and jobs: "db_jobs db1 = db_jobs db"
    using c by (simp_all add: continued_def kept_but_def)
  note acts = continued_actions [OF c db_invD(5) [OF inv]]
  have ops: "\<exists>q'. lookup_by o_id k (db_operations db1) = Some q' \<and> o_approval_id q' = o_approval_id q"
    if "lookup_by o_id k (db_operations db) = Some q" for k q
    using b that unfolding bindings_kept_def by blast
  have "approval_linked (db_operations db1) p1" if p1: "p1 \<in> set (db_approvals db1)" for p1
  proof -
    have u: "unique_by ap_id (db_approvals db1)" using agree by (simp add: rows_agree_def unique_tables_def)
    have "lookup_by ap_id (ap_id p1) (db_approvals db1) = Some p1" using p1 lookup_iff [OF u] by blast
    with b obtain p where p: "lookup_by ap_id (ap_id p1) (db_approvals db) = Some p"
      "ap_operation_id p1 = ap_operation_id p" "ap_approved_at p1 = ap_approved_at p"
      "ap_state p1 = ApApproved \<longrightarrow> ap_state p = ApApproved"
      unfolding bindings_kept_def by blast
    have "approval_linked (db_operations db) p"
      using db_invD(3) [OF inv] lookup_by_in [OF p(1)] by (simp add: approvals_linked_def)
    then obtain q where q: "lookup_by o_id (ap_operation_id p) (db_operations db) = Some q"
      "o_approval_id q = Some (ap_id p)" "ap_state p = ApApproved \<longrightarrow> ap_approved_at p \<noteq> None"
      unfolding approval_linked_def by blast
    from ops [OF q(1)] q(2,3) p lookup_by_key [OF p(1)] show ?thesis
      by (auto simp: approval_linked_def)
  qed
  moreover have "jobs_linked db1"
    unfolding jobs_linked_def jobs
  proof (intro conjI ballI allI impI)
    show "unique_by j_id (db_jobs db)" using inv by (rule db_invD)
    fix x assume x: "x \<in> set (db_actions db1)"
    have r1: "x_id r1 = x_id r \<and> x_job_id r1 = x_job_id r"
      using c by (simp add: continued_def continued_row_def same_action_def)
    have J: "\<forall>x \<in> set (db_actions db). job_of_action (db_jobs db) x"
      using db_invD(4) [OF inv] by (simp add: jobs_linked_def)
    show "job_of_action (db_jobs db) x"
    proof (cases "x_id x = x_id r")
      case True
      with x acts have "x = r1" by simp
      with r1 J lookup_by_in [OF r] show ?thesis by (simp add: job_of_action_def)
    next
      case False
      with x acts J show ?thesis by simp
    qed
  next
    fix j i assume j: "j \<in> set (db_jobs db)" "j_operation_id j = Some i"
    with db_invD(4) [OF inv] have l: "i \<in> o_id ` set (db_operations db)"
      "\<forall>r \<in> set (db_actions db). x_operation_id r \<noteq> i" by (auto simp: jobs_linked_def)
    show "i \<in> o_id ` set (db_operations db1)"
      using l(1) ops unfolding in_keys by blast
    fix x assume x: "x \<in> set (db_actions db1)"
    have "x_operation_id r1 = x_operation_id r"
      using c by (simp add: continued_def continued_row_def same_action_def)
    with x acts l(2) lookup_by_in [OF r] show "x_operation_id x \<noteq> i" by (auto split: if_splits)
  qed
  ultimately show ?thesis using agree by (simp add: db_inv_def approvals_linked_def)
qed

lemma continued_effects_inv:
  assumes inv: "db_inv db" and c: "continued eff env r r1 db db1 world'"
    and r: "lookup_by x_id (x_id r) (db_actions db) = Some r"
    and ok: "effects_inv eff env db world"
    and only: "only_effect eff (provider_request_id (x_id r)) world world'"
      "\<not> to_provider env r \<longrightarrow> world' = world"
    and bound: "x_job_id r = Some i" "lookup_by j_id i (db_jobs db) = Some j" "x_open_state (x_state r)"
      "\<exists>p. lookup_by ap_id (x_approval_id r) (db_approvals db) = Some p \<and> ap_approved_at p \<noteq> None"
    and acted: "world' \<noteq> world \<longrightarrow> 1 \<le> j_attempts j"
  shows "effects_inv eff env db1 world'"
  unfolding effects_inv_def
proof (intro conjI allI ballI impI)
  note acts = continued_actions [OF c db_invD(5) [OF inv]]
  have jobs: "db_jobs db1 = db_jobs db" using c by (simp add: continued_def kept_but_def)
  have r1: "x_id r1 = x_id r" "x_job_id r1 = x_job_id r" "x_approval_id r1 = x_approval_id r"
    "to_provider env r1 = to_provider env r" "request_id_ok r \<longrightarrow> request_id_ok r1"
    "truthful eff env world' r1"
    using c by (auto simp: continued_def continued_row_def same_action_def to_provider_def)
  have R: "row_inv eff env db world r" using ok lookup_by_in [OF r] by (simp add: effects_inv_def)
  {
    fix k
    have "eff world (provider_request_id k) \<le> 1" using ok by (simp add: effects_inv_def)
    with only(1) show "eff world' (provider_request_id k) \<le> 1"
      by (cases "k = x_id r") (auto simp: only_effect_def)
  next
    fix k assume k: "k \<notin> x_id ` set (db_actions db1)"
    have "r1 \<in> set (db_actions db1)" using acts r1(1) by simp
    with k r1(1) have ne: "k \<noteq> x_id r" by (metis image_eqI)
    have "k \<notin> x_id ` set (db_actions db)"
    proof
      assume "k \<in> x_id ` set (db_actions db)"
      then obtain x where "x \<in> set (db_actions db)" "x_id x = k" by blast
      with ne acts [of x] k show False by (metis image_eqI)
    qed
    with ok ne only(1) show "eff world' (provider_request_id k) = 0"
      by (simp add: effects_inv_def only_effect_def)
  next
    fix x assume x: "x \<in> set (db_actions db1)"
    show "row_inv eff env db1 world' x"
    proof (cases "x_id x = x_id r")
      case True
      with x acts have x: "x = r1" by simp
      have "effects_at eff world' r1 = 0" if "\<not> to_provider env r"
        using that only(2) R r1(1) by (simp add: row_inv_def effects_at_def)
      moreover have "1 \<le> j_attempts j" if "effects_at eff world' r1 \<noteq> 0"
      proof (cases "world' = world")
        case True
        with that r1(1) R bound show ?thesis by (auto simp: row_inv_def effects_at_def)
      qed (use acted in simp)
      ultimately show ?thesis
        using R r1 bound(1,2) continued_approval [OF c bound(4)]
        by (auto simp: row_inv_def x jobs)
    next
      case False
      with x acts have old: "x \<in> set (db_actions db)" by simp
      then have X: "row_inv eff env db world x" using ok by (simp add: effects_inv_def)
      have "effects_at eff world' x = effects_at eff world x"
        using only(1) False by (simp add: effects_at_def only_effect_def)
      with X continued_approval [OF c, of "x_approval_id x"] show ?thesis
        by (simp add: row_inv_def jobs truthful_def)
    qed
  next
    fix k jj assume "lookup_by j_id k (db_jobs db1) = Some jj \<and> j_kind jj = external_action_execute"
    with ok show "0 \<le> j_attempts jj" unfolding effects_inv_def jobs by blast
  }
qed

lemma continued_place_ok:
  assumes inv: "db_inv db" and c: "continued eff env r r1 db db1 world'"
    and r: "lookup_by x_id (x_id r) (db_actions db) = Some r" "x_open_state (x_state r)"
    and only: "only_effect eff (provider_request_id (x_id r)) world world'"
    and held: "x_job_id r = Some i" "lookup_by j_id i (db_jobs db) = Some j" "job_held i w j"
    and v: "v \<noteq> w \<or> \<not> may_run pc" and pl: "place_ok eff db world v pc"
  shows "place_ok eff db1 world' v pc"
  unfolding place_ok_def
proof (intro conjI allI impI)
  note acts = continued_actions [OF c db_invD(5) [OF inv]]
  have jobs: "db_jobs db1 = db_jobs db" using c by (simp add: continued_def kept_but_def)
  show "external_place pc" using pl by (simp add: place_ok_def)
  fix l jj assume "pc_lease pc = Some l \<and> lookup_by j_id (l_id l) (db_jobs db1) = Some jj \<and>
      job_held (l_id l) v jj \<and> j_kind jj = external_action_execute"
  then have jj: "pc_lease pc = Some l" "lookup_by j_id (l_id l) (db_jobs db) = Some jj"
    "job_held (l_id l) v jj" "j_kind jj = external_action_execute" by (simp_all add: jobs)
  with pl have P: "j_attempts jj = l_attempts l" "may_run pc \<Longrightarrow> 1 \<le> l_attempts l"
    "\<And>x. may_run pc \<Longrightarrow> x \<in> set (db_actions db) \<Longrightarrow> x_open_state (x_state x) \<Longrightarrow>
      x_job_id x = Some (l_id l) \<Longrightarrow> effects_at eff world x \<noteq> 0 \<Longrightarrow> 2 \<le> l_attempts l"
    unfolding place_ok_def by blast+
  show "j_attempts jj = l_attempts l" "may_run pc \<Longrightarrow> 1 \<le> l_attempts l" by (rule P | assumption)+
  show "\<forall>x \<in> set (db_actions db1). x_open_state (x_state x) \<and> x_job_id x = Some (l_id l) \<and>
      effects_at eff world' x \<noteq> 0 \<longrightarrow> 2 \<le> l_attempts l" if run: "may_run pc"
  proof (intro ballI impI)
    fix x assume x: "x \<in> set (db_actions db1)" "x_open_state (x_state x) \<and> x_job_id x = Some (l_id l) \<and>
      effects_at eff world' x \<noteq> 0"
    show "2 \<le> l_attempts l"
    proof (cases "x_id x = x_id r")
      case True
      with x(1) acts have "x = r1" by simp
      then have "x_job_id x = x_job_id r" using c by (simp add: continued_def continued_row_def)
      with x(2) held jj v run show ?thesis by (auto simp: job_held_def)
    next
      case False
      with x(1) acts have "x \<in> set (db_actions db)" by simp
      moreover have "effects_at eff world' x = effects_at eff world x"
        using only False by (simp add: effects_at_def only_effect_def)
      ultimately show ?thesis using P(3) [OF run] x(2) by simp
    qed
  qed
qed

text \<open>What a continuation leaves, whether its transaction commits (\<open>db1\<close>) or not.\<close>

definition places_stay ::
  "('w \<Rightarrow> string \<Rightarrow> nat) \<Rightarrow> string \<Rightarrow> 's ws_db \<Rightarrow> 'w \<Rightarrow> 's ws_db \<Rightarrow> 'w \<Rightarrow> bool" where
  "places_stay eff w db world db1 world1 \<longleftrightarrow>
     (\<forall>v pc. (v \<noteq> w \<or> \<not> may_run pc) \<and> place_ok eff db world v pc \<longrightarrow> place_ok eff db1 world1 v pc)"

definition left_ok ::
  "('w \<Rightarrow> string \<Rightarrow> nat) \<Rightarrow> ('i, 'o, 's, 'w) env \<Rightarrow> string \<Rightarrow> 's ws_db \<Rightarrow> 'w \<Rightarrow>
   (exc + 's settled) \<Rightarrow> 'w \<Rightarrow> bool" where
  "left_ok eff env w db world res world1 \<longleftrightarrow>
     effects_inv eff env db world1 \<and> places_stay eff w db world db world1 \<and>
     (\<forall>dd db1. res = Inr (dd, db1) \<longrightarrow> db_inv db1 \<and> effects_inv eff env db1 world1 \<and>
        db_jobs db1 = db_jobs db \<and> places_stay eff w db world db1 world1)"

text \<open>The lease of the worker that runs it.\<close>

definition lease_counts ::
  "('w \<Rightarrow> string \<Rightarrow> nat) \<Rightarrow> 's ws_db \<Rightarrow> 'w \<Rightarrow> json leased_job \<Rightarrow> continuation_mode \<Rightarrow> json job \<Rightarrow> bool"
where
  "lease_counts eff db world l mode j \<longleftrightarrow>
     j_attempts j = l_attempts l \<and> (mode = Mode_Run \<longrightarrow> 1 \<le> l_attempts l \<and>
      (\<forall>r \<in> set (db_actions db). x_open_state (x_state r) \<and> x_job_id r = Some (l_id l) \<and>
         effects_at eff world r \<noteq> 0 \<longrightarrow> 2 \<le> l_attempts l))"

lemma bound_lease:
  assumes pl: "place_ok eff db world w pc" "pc_lease pc = Some l" "mode = Mode_Run \<Longrightarrow> may_run pc"
    and b: "lock_and_bind i (l_id l) w db = Inr (r, p)"
  obtains j where "lookup_by j_id (l_id l) (db_jobs db) = Some j" "job_held (l_id l) w j"
    "lease_counts eff db world l mode j"
proof -
  from lock_and_bindD(8) [OF b] obtain j where
    "lookup_by j_id (l_id l) (db_jobs db) = Some j" "j_kind j = external_action_execute" "job_held (l_id l) w j"
    by blast
  with pl that show thesis unfolding place_ok_def lease_counts_def by blast
qed

lemma bound_may_continue:
  assumes ok: "effects_inv eff env db world"
    and pl: "place_ok eff db world w pc" "pc_lease pc = Some l" "mode = Mode_Run \<Longrightarrow> may_run pc"
    and b: "lock_and_bind i (l_id l) w db = Inr (r, p)"
  shows "may_continue eff env l mode world r"
proof -
  note B = lock_and_bindD [OF b]
  from pl b obtain j where j: "lookup_by j_id (l_id l) (db_jobs db) = Some j"
    "lease_counts eff db world l mode j" by (rule bound_lease)
  have R: "row_inv eff env db world r" using ok lookup_by_in [OF B(1)] by (simp add: effects_inv_def)
  have "mode = Mode_Run \<and> l_attempts l \<le> 1 \<longrightarrow> effects_at eff world r = 0"
    using j(2) B(3,4) lookup_by_in [OF B(1)] unfolding lease_counts_def by force
  moreover have "l_attempts l = 0 \<longrightarrow> effects_at eff world r = 0"
    using j R B(3,4) by (auto simp: row_inv_def lease_counts_def)
  ultimately show ?thesis using R B(4) by (auto simp: may_continue_def row_inv_def)
qed

lemma bound_left_ok:
  assumes inv: "db_inv db" and ok: "effects_inv eff env db world"
    and pl: "place_ok eff db world w pc" "pc_lease pc = Some l" "mode = Mode_Run \<Longrightarrow> may_run pc"
    and b: "lock_and_bind i (l_id l) w db = Inr (r, p)"
    and only: "only_effect eff (provider_request_id i) world world'"
      "\<not> to_provider env r \<longrightarrow> world' = world" "mode \<noteq> Mode_Run \<longrightarrow> world' = world"
    and car: "\<forall>dd db'. res = Inr (dd, db') \<longrightarrow> carried eff env r db db' world' (fst dd)"
  shows "left_ok eff env w db world res world'"
proof -
  note B = lock_and_bindD [OF b]
  have r: "lookup_by x_id (x_id r) (db_actions db) = Some r" using B(1,2) by simp
  from pl b obtain j where j: "lookup_by j_id (l_id l) (db_jobs db) = Some j" "job_held (l_id l) w j"
    "lease_counts eff db world l mode j" by (rule bound_lease)
  have act: "world' \<noteq> world \<longrightarrow> 1 \<le> j_attempts j" using j(3) only(3) by (auto simp: lease_counts_def)
  have appr: "\<exists>p. lookup_by ap_id (x_approval_id r) (db_approvals db) = Some p \<and> ap_approved_at p \<noteq> None"
    using db_invD(3) [OF inv] B(5,6) lookup_by_in [OF B(5)]
    by (auto simp: approvals_linked_def approval_linked_def)
  note only' = only(1) [folded B(2)]
  have all: "effects_inv eff env d world' \<and> places_stay eff w db world d world'"
    if c: "continued eff env r r1 db d world'" for r1 d
    using continued_effects_inv [OF inv c r ok only' only(2) B(4) j(1) B(3) appr act]
      continued_place_ok [OF inv c r B(3) only' B(4) j(1,2)] unfolding places_stay_def by blast
  have "continued eff env r r db db world'"
    using db_invD(5) [OF inv] r open_truthful [OF B(3)]
    by (simp add: continued_def kept_but_def continued_row_def)
  moreover have "db_inv db1 \<and> effects_inv eff env db1 world' \<and>
        db_jobs db1 = db_jobs db \<and> places_stay eff w db world db1 world'" if "res = Inr (dd, db1)" for dd db1
  proof -
    from car that have k: "carried eff env r db db1 world' (fst dd)" by blast
    then obtain r1 where "continued eff env r r1 db db1 world'"
      by (auto simp: carried_def continued_def rows_agree_def unique_tables_def)
    with k continued_db_inv [OF inv this r] all show ?thesis
      by (simp add: carried_def kept_but_def)
  qed
  ultimately show ?thesis using all unfolding left_ok_def by blast
qed

lemma continuation_left_ok:
  assumes hon: "honest eff env" and inv: "db_inv db" and ok: "effects_inv eff env db world"
    and pl: "place_ok eff db world w pc" "pc_lease pc = Some l" "mode = Mode_Run \<Longrightarrow> may_run pc"
    and run: "run_external_continuation env ws l w mode now db world = (res, world')"
  shows "left_ok eff env w db world res world'"
proof -
  have "(\<exists>detail. res = Inr ((Disp_Failed, detail), db) \<and> world' = world \<and>
      (\<forall>i. e_job_action env (l_payload l) = Some i \<longrightarrow>
         (\<exists>ps. lock_and_bind i (l_id l) w db = Inl ps))) \<or>
    (\<exists>i r p. e_job_action env (l_payload l) = Some i \<and> lock_and_bind i (l_id l) w db = Inr (r, p) \<and>
      only_effect eff (provider_request_id i) world world' \<and> (\<not> to_provider env r \<longrightarrow> world' = world) \<and>
      (mode \<noteq> Mode_Run \<longrightarrow> world' = world) \<and>
      (\<forall>dd db'. res = Inr (dd, db') \<longrightarrow> carried eff env r db db' world' (fst dd)))"
    by (rule continuation_carried [OF hon db_invD(2) [OF inv] run])
       (rule bound_may_continue [OF ok pl])
  then show ?thesis
  proof (elim disjE exE conjE)
    fix detail assume "res = Inr ((Disp_Failed, detail), db)" "world' = world"
    with inv ok show ?thesis by (auto simp: left_ok_def places_stay_def)
  next
    fix i r p
    assume b: "lock_and_bind i (l_id l) w db = Inr (r, p)"
      and o1: "only_effect eff (provider_request_id i) world world'"
      and o2: "\<not> to_provider env r \<longrightarrow> world' = world" and o3: "mode \<noteq> Mode_Run \<longrightarrow> world' = world"
      and car: "\<forall>dd db'. res = Inr (dd, db') \<longrightarrow> carried eff env r db db' world' (fst dd)"
    show ?thesis by (rule bound_left_ok [OF inv ok pl b o1 o2 o3 car])
  qed
qed

section \<open>Every step keeps it\<close>

lemma idle_ok [simp]: "place_ok eff db world w P_Idle"
  by (simp add: place_ok_def)

lemma xs_invD:
  assumes "xs_inv eff env s"
  shows "db_inv (xs_db s)" "effects_inv eff env (xs_db s) (xs_world s)"
    "place_ok eff (xs_db s) (xs_world s) w (xs_pc s w)"
  using assms by (simp_all add: xs_inv_def)

text \<open>A worker moves its own jobs and its place, and nothing else.\<close>

lemma moved_step_ok:
  assumes inv: "xs_inv eff env s" and mv: "jobs_moved {w} (db_jobs (xs_db s)) t"
    and pl: "place_ok eff ((xs_db s)\<lparr>db_jobs := t\<rparr>) (xs_world s) w pc"
  shows "xs_inv eff env (s\<lparr>xs_db := (xs_db s)\<lparr>db_jobs := t\<rparr>, xs_pc := (xs_pc s)(w := pc)\<rparr>)"
proof -
  note I = xs_invD [OF inv]
  have "place_ok eff ((xs_db s)\<lparr>db_jobs := t\<rparr>) (xs_world s) v (((xs_pc s)(w := pc)) v)" for v
    using pl moved_place_ok [OF I(1) mv _ I(3), of v] by (cases "v = w") simp_all
  then show ?thesis
    using moved_db_inv [OF I(1) mv] moved_effects_inv [OF I(1) mv I(2)] by (simp add: xs_inv_def)
qed

lemma place_step_ok:
  assumes "xs_inv eff env s" "place_ok eff (xs_db s) (xs_world s) w pc"
  shows "xs_inv eff env (s\<lparr>xs_pc := (xs_pc s)(w := pc)\<rparr>)"
  using assms by (simp add: xs_inv_def)

text \<open>A later place of the same lease from which no effect is possible.\<close>

lemma place_after:
  assumes "place_ok eff db world w pc" "pc_lease pc = Some l"
    and "external_place pc'" "pc_lease pc' = Some l \<or> pc_lease pc' = None" "may_run pc' \<longrightarrow> may_run pc"
  shows "place_ok eff db world w pc'"
  using assms by (auto simp: place_ok_def)

lemma acquired_place:
  assumes inv: "xs_inv eff env s" and k: "l_kind l = external_action_execute"
    and acq: "acquire_lease locked w now secs (db_jobs (xs_db s)) = (Some l, t)"
  shows "place_ok eff ((xs_db s)\<lparr>db_jobs := t\<rparr>) (xs_world s) w (P_Leased l now)"
proof -
  note I = xs_invD(1,2) [OF inv] and u = db_invD(9) [OF xs_invD(1) [OF inv]]
  let ?t = "db_jobs (xs_db s)"
  from acq obtain d where d: "d \<in> set ?t" "l = leased_of (take_job w now secs d)"
    and t: "t = update_where (\<lambda>r. j_id r = j_id d) (take_job w now secs) ?t"
    by (rule acquire_lease_SomeD) blast
  have old: "lookup_by j_id (j_id d) ?t = Some d" using d(1) u by (simp add: lookup_by_unique)
  have "lookup_by j_id (j_id d) t =
      map_option (\<lambda>r. if j_id r = j_id d then take_job w now secs r else r) (lookup_by j_id (j_id d) ?t)"
    unfolding t by (rule lookup_by_update_where) simp
  then have new: "lookup_by j_id (j_id d) t = Some (take_job w now secs d)" by (simp add: old)
  have l: "l_id l = j_id d" "l_attempts l = j_attempts (take_job w now secs d)"
    "l_cancel_requested l = j_cancel_requested d" "l_kind l = j_kind d"
    by (simp_all add: d(2) leased_of_def)
  have pos: "0 \<le> j_attempts d"
    using I(2) old k l(4) by (auto simp: effects_inv_def)
  have "1 \<le> j_attempts d"
    if "r \<in> set (db_actions (xs_db s))" "x_open_state (x_state r)" "x_job_id r = Some (j_id d)"
      "effects_at eff (xs_world s) r \<noteq> 0" for r
    using I(2) that old by (auto simp: effects_inv_def row_inv_def)
  then show ?thesis
    using k pos by (auto simp: place_ok_def l new continuation_mode_of_def split: if_splits)
qed

lemma gates_open:
  assumes "continuation_for external_action_execute kinds" "l_kind l = external_action_execute"
  shows "run_leased_job kinds ready clock l w now db = (P_Cont l (continuation_mode_of l) 2, db)"
  using assms by (simp add: run_leased_job_def)

lemma failed_place:
  assumes inv: "xs_inv eff env s" and pc: "xs_pc s w = P_Cont_Failed l mode n e"
    and cf: "continuation_failed retry_at jitter l mode n e w (view (xs_db s)) = (pc', wd)"
  shows "jobs_moved {w} (db_jobs (xs_db s)) (wd_jobs wd) \<and>
    place_ok eff ((xs_db s)\<lparr>db_jobs := wd_jobs wd\<rparr>) (xs_world s) w pc'"
proof -
  let ?rq = "requeue_for_retry (l_id l) w retry_at (retry_at + backoff_for (l_attempts l) jitter) e (db_jobs (xs_db s))"
  have t: "wd_jobs wd = snd ?rq" and pc': "pc' = (if fst ?rq then P_Idle else P_Cont_Check l mode n)"
    using cf by (auto simp: continuation_failed_def on_jobs_def view_def Let_def split_beta)
  have same: "snd ?rq = db_jobs (xs_db s)" if "\<not> fst ?rq"
    using finish_ends(4) [OF db_invD(9) [OF xs_invD(1) [OF inv]],
      of "l_id l" w retry_at "retry_at + backoff_for (l_attempts l) jitter" e "fst ?rq" "snd ?rq"] that
    by (metis prod.collapse)
  have "place_ok eff (xs_db s) (xs_world s) w (P_Cont_Check l mode n)"
    using place_after [OF xs_invD(3) [OF inv], of w l] pc xs_invD(3) [OF inv, of w]
    by (simp add: place_ok_def)
  with requeue_moved same show ?thesis by (auto simp: t pc')
qed

lemma cancel_step_ok:
  assumes inv: "xs_inv eff env s"
    and rc: "request_cancellation i now (db_jobs (xs_db s)) (db_operations (xs_db s)) = (st, t, ops)"
  shows "xs_inv eff env (s\<lparr>xs_db := (xs_db s)\<lparr>db_jobs := t, db_operations := ops\<rparr>\<rparr>)"
proof -
  let ?db = "xs_db s"
  let ?op = "?db\<lparr>db_operations := ops\<rparr>"
  note I = xs_invD(1,2) [OF inv]
  have "ops = db_operations ?db \<or> (\<exists>k j. j \<in> set (db_jobs ?db) \<and> j_operation_id j = Some k \<and>
      ops = snd (op_finish_cancelled k now (db_operations ?db)))"
    using rc by (auto simp: request_cancellation_def Let_def find_Some_iff split: option.splits if_splits
        dest: nth_mem) 
  then have "db_inv ?op \<and> advances eff env (xs_world s) ?db ?op"
  proof (elim disjE exE conjE)
    assume "ops = db_operations ?db"
    with I(1) show ?thesis by (simp add: advances_refl)
  next
    fix k j assume j: "j \<in> set (db_jobs ?db)" "j_operation_id j = Some k"
      and o': "ops = snd (op_finish_cancelled k now (db_operations ?db))"
    with db_invD(4) [OF I(1)] have un: "\<forall>r \<in> set (db_actions ?db). x_operation_id r \<noteq> k"
      by (simp add: jobs_linked_def)
    have look: "lookup_by o_id i ops = map_option (\<lambda>q. if op_open k q then op_to OpCancelled now q else q)
        (lookup_by o_id i (db_operations ?db))" for i
      unfolding o' row_writes snd_apply_where by (rule lookup_by_update_where) simp
    show ?thesis
    proof
      show "db_inv ?op"
      proof (rule db_inv_frame [OF I(1)])
        show "unique_tables ?op"
          using db_invD(1) [OF I(1)] by (simp add: unique_tables_def o' row_writes unique_update_where)
        show "o_id ` set (db_operations ?db) \<subseteq> o_id ` set (db_operations ?op)"
          unfolding in_keys subset_iff using look by (simp del: lookup_by_None)
        show "approvals_linked ?op"
          unfolding approvals_linked_def
        proof
          fix p assume "p \<in> set (db_approvals ?op)"
          then have "p \<in> set (db_approvals ?db)" by simp
          with db_invD(3) [OF I(1)] obtain q :: operation
            where "lookup_by o_id (ap_operation_id p) (db_operations ?db) = Some q"
              "o_approval_id q = Some (ap_id p)" "ap_state p = ApApproved \<longrightarrow> ap_approved_at p \<noteq> None"
            unfolding approvals_linked_def approval_linked_def by blast
          with look [of "ap_operation_id p"] show "approval_linked (db_operations ?op) p"
            by (simp add: approval_linked_def op_to_def)
        qed
        fix r assume "r \<in> set (db_actions ?db)"
        with un have ne: "x_operation_id r \<noteq> k" by simp
        then have "\<not> op_open k q" if "lookup_by o_id (x_operation_id r) (db_operations ?db) = Some q" for q
          using lookup_by_key [OF that] by (auto simp: op_open_def)
        then show "lookup_by ap_id (x_approval_id r) (db_approvals ?op) =
            lookup_by ap_id (x_approval_id r) (db_approvals ?db) \<and>
          lookup_by o_id (x_operation_id r) (db_operations ?op) =
            lookup_by o_id (x_operation_id r) (db_operations ?db) \<and>
          lookup_by en_ref (x_ref r) (db_envelopes ?op) = lookup_by en_ref (x_ref r) (db_envelopes ?db)"
          by (cases "lookup_by o_id (x_operation_id r) (db_operations ?db)")
             (simp_all add: look del: lookup_by_None)
      qed simp_all
      show "advances eff env (xs_world s) ?db ?op" by (rule advances_frame) auto
    qed
  qed
  then have op: "db_inv ?op" and adv: "advances eff env (xs_world s) ?db ?op" by simp_all
  have mv: "jobs_moved {} (db_jobs ?op) t" using cancel_moved [OF rc] by simp
  have upd: "?db\<lparr>db_jobs := t, db_operations := ops\<rparr> = ?op\<lparr>db_jobs := t\<rparr>" by simp
  have e: "effects_inv eff env ?op (xs_world s)" by (rule advances_effects_inv [OF I(1) op adv I(2)])
  have "place_ok eff (?op\<lparr>db_jobs := t\<rparr>) (xs_world s) v (xs_pc s v)" for v
    by (rule moved_place_ok [OF op mv _ advances_place_ok [OF adv I(2) xs_invD(3) [OF inv]]]) simp
  then show ?thesis
    unfolding upd using moved_db_inv [OF op mv] moved_effects_inv [OF op mv e] by (simp add: xs_inv_def)
qed

lemma decision_step_ok:
  assumes hon: "honest eff env" and inv: "xs_inv eff env s"
    and tx: "decision_tx env (xs_world s) (xs_db s) db'"
  shows "xs_inv eff env (s\<lparr>xs_db := db'\<rparr>)"
proof -
  note I = xs_invD [OF inv]
  from decision_keeps [OF tx hon I(1)] have D: "db_inv db'" "advances eff env (xs_world s) (xs_db s) db'"
    by simp_all
  show ?thesis
    using D(1) advances_effects_inv [OF I(1) D I(2)] advances_place_ok [OF D(2) I(2) I(3)]
    by (simp add: xs_inv_def)
qed

lemma continue_step_ok:
  assumes hon: "honest eff env" and inv: "xs_inv eff env s" and pc: "xs_pc s w = P_Cont l mode n"
    and run: "continue_in env ws now fin jitter err l mode n w (xs_db s) (xs_world s) = (pc', db', world')"
  shows "xs_inv eff env (s\<lparr>xs_db := db', xs_world := world', xs_pc := (xs_pc s)(w := pc')\<rparr>)"
proof -
  note I = xs_invD [OF inv]
  have place: "place_ok eff (xs_db s) (xs_world s) w (P_Cont l mode n)" using I(3) [of w] pc by simp
  obtain res where r: "run_external_continuation env ws l w mode now (xs_db s) (xs_world s) = (res, world')"
    using run by (auto simp: continue_in_def Let_def split: sum.splits prod.splits)
  have left: "left_ok eff env w (xs_db s) (xs_world s) res world'"
    by (rule continuation_left_ok [OF hon I(1,2) place _ _ r]) simp_all
  have kept: "place_ok eff db1 world' v (((xs_pc s)(w := pc1)) v)"
    if st: "places_stay eff w (xs_db s) (xs_world s) db1 world'"
      and p1: "external_place pc1" "\<not> may_run pc1" "place_ok eff (xs_db s) (xs_world s) w pc1" for db1 v pc1
    using st p1 I(3) [of v] unfolding places_stay_def by (cases "v = w") auto
  have rolled: "xs_inv eff env (s\<lparr>xs_world := world', xs_pc := (xs_pc s)(w := pc1)\<rparr>)"
    if "external_place pc1" "\<not> may_run pc1" "pc_lease pc1 = Some l \<or> pc_lease pc1 = None" for pc1
    using left I(1) kept [OF _ that(1,2) place_after [OF place _ that(1,3)]] that
    by (simp add: xs_inv_def left_ok_def)
  have ek: "l_kind l = external_action_execute" using place by (simp add: place_ok_def)
  show ?thesis
  proof (cases res)
    case (Inl e)
    with run r have "pc' = P_Cont_Failed l mode n err" "db' = xs_db s"
      by (simp_all add: continue_in_def run_continuation_def)
    with rolled [of "P_Cont_Failed l mode n err"] ek show ?thesis by simp
  next
    case (Inr out)
    obtain disp detail db1 where out: "out = ((disp, detail), db1)" by (metis prod.collapse)
    obtain ap t where fin: "finish_continuation_job l w mode disp detail fin jitter (db_jobs (xs_db s)) = (ap, t)"
      by fastforce
    from left Inr out have L: "db_inv db1" "effects_inv eff env db1 world'" "db_jobs db1 = db_jobs (xs_db s)"
      "places_stay eff w (xs_db s) (xs_world s) db1 world'"
      by (auto simp: left_ok_def)
    show ?thesis
    proof (cases ap)
      case False
      with run r Inr out fin L(3) have "pc' = P_Cont_Check l mode n" "db' = xs_db s"
        by (simp_all add: continue_in_def run_continuation_def view_def)
      with rolled [of "P_Cont_Check l mode n"] ek show ?thesis by simp
    next
      case True
      with run r Inr out fin L(3) have d: "pc' = P_Idle" "db' = db1\<lparr>db_jobs := t\<rparr>"
        by (simp_all add: continue_in_def run_continuation_def view_def)
      have mv: "jobs_moved {w} (db_jobs db1) t" using finish_moved fin True L(3) by metis
      have pl: "place_ok eff (db1\<lparr>db_jobs := t\<rparr>) world' v (((xs_pc s)(w := P_Idle)) v)" for v
        using moved_place_ok [OF L(1) mv, of v] kept [OF L(4), of P_Idle v] by (cases "v = w") simp_all
      show ?thesis
        using moved_db_inv [OF L(1) mv] moved_effects_inv [OF L(1) mv L(2)] pl
        unfolding d xs_inv_def by simp
    qed
  qed
qed

lemma crash_step_ok:
  assumes hon: "honest eff env" and inv: "xs_inv eff env s" and pc: "xs_pc s w = P_Cont l mode n"
    and r: "run_external_continuation env ws l w mode now (xs_db s) (xs_world s) = (res, world')"
  shows "xs_inv eff env (s\<lparr>xs_world := world', xs_pc := (xs_pc s)(w := P_Idle)\<rparr>)"
proof -
  note I = xs_invD [OF inv]
  have left: "left_ok eff env w (xs_db s) (xs_world s) res world'"
    by (rule continuation_left_ok [OF hon I(1,2) I(3) [of w, unfolded pc] _ _ r]) simp_all
  have "place_ok eff (xs_db s) world' v (((xs_pc s)(w := P_Idle)) v)" for v
    using left I(3) [of v] unfolding left_ok_def places_stay_def by (cases "v = w") simp_all
  with left I(1) show ?thesis by (simp add: xs_inv_def left_ok_def)
qed

text \<open>The one invariant that every transaction, worker, crash and cancellation keeps.\<close>

lemma xs_step_inv:
  assumes step: "xs_step env ws kinds s s'" and hon: "honest eff env"
    and reg: "continuation_for external_action_execute kinds" and inv: "xs_inv eff env s"
  shows "xs_inv eff env s'"
  using step
proof cases
  case (x_decision db')
  show ?thesis unfolding x_decision by (rule decision_step_ok [OF hon inv x_decision(2)])
next
  case x_acquire
  show ?thesis
    unfolding x_acquire
    by (rule moved_step_ok [OF inv take_moved [OF x_acquire(3)] acquired_place [OF inv x_acquire(4,3)]])
next
  case (x_gates w l now ready clock pc' wd)
  have pl: "place_ok eff (xs_db s) (xs_world s) w (P_Leased l now)"
    using xs_invD(3) [OF inv, of w] x_gates(2) by simp
  then have k: "l_kind l = external_action_execute" by (simp add: place_ok_def)
  have out: "pc' = P_Cont l (continuation_mode_of l) 2" "wd = view (xs_db s)"
    using x_gates(3) by (simp_all add: gates_open [OF reg k])
  have "place_ok eff (xs_db s) (xs_world s) w pc'"
    by (rule place_after [OF pl, of l]) (simp_all add: out k)
  moreover have "(xs_db s)\<lparr>db_jobs := wd_jobs wd, db_operations := wd_ops wd\<rparr> = xs_db s"
    by (simp add: out view_def)
  ultimately show ?thesis unfolding x_gates(1) using place_step_ok [OF inv] by simp
next
  case (x_continue w l mode n now fin jitter err pc' db' world')
  show ?thesis unfolding x_continue(1) by (rule continue_step_ok [OF hon inv x_continue(2,3)])
next
  case (x_continue_crash w l mode n now res world')
  show ?thesis unfolding x_continue_crash(1) by (rule crash_step_ok [OF hon inv x_continue_crash(2,3)])
next
  case (x_failed w l mode n e retry_at jitter pc' wd)
  from failed_place [OF inv x_failed(2,3)] show ?thesis
    unfolding x_failed(1) using moved_step_ok [OF inv] by blast
next
  case (x_check w l mode n)
  have pl: "place_ok eff (xs_db s) (xs_world s) w (P_Cont_Check l mode n)"
    using xs_invD(3) [OF inv, of w] x_check(2) by simp
  then have "l_kind l = external_action_execute" by (simp add: place_ok_def)
  then have "place_ok eff (xs_db s) (xs_world s) w (continuation_check l mode n w (view (xs_db s)))"
    by (intro place_after [OF pl, of l]) (simp_all add: continuation_check_def)
  then show ?thesis unfolding x_check(1) by (rule place_step_ok [OF inv])
next
  case (x_crash w)
  show ?thesis unfolding x_crash by (rule place_step_ok [OF inv]) simp
next
  case (x_cancel i now st t ops)
  show ?thesis unfolding x_cancel(1) by (rule cancel_step_ok [OF inv x_cancel(2)])
qed

lemma xs_start_inv:
  assumes "\<forall>i. eff world (provider_request_id i) = 0"
  shows "xs_inv eff env (xs_start data world)"
  using assms
  by (simp add: xs_inv_def xs_start_def empty_ws_def db_inv_def rows_agree_def approvals_linked_def
      jobs_linked_def unique_tables_def actions_distinct_def effects_inv_def unique_by_def)

lemma xs_reach_inv:
  assumes "xs_reach eff env ws kinds s" "honest eff env" "continuation_for external_action_execute kinds"
  shows "xs_inv eff env s"
proof -
  from assms(1) obtain data world where w: "\<forall>i. eff world (provider_request_id i) = 0"
    and "(xs_step env ws kinds)\<^sup>*\<^sup>* (xs_start data world) s"
    unfolding xs_reach_def by blast
  from this(2) show ?thesis
  proof (induction rule: rtranclp_induct)
    case base
    show ?case by (rule xs_start_inv) (rule w)
  next
    case (step t t')
    show ?case by (rule xs_step_inv [OF step(2) assms(2,3) step(3)])
  qed
qed

end
