(* ===== verification/External_Guarantees.thy ===== *)
theory External_Guarantees
  imports External_System "HOL-Library.Code_Target_Nat"
begin

text \<open>
  What the system of external actions guarantees: at most one effect per action, only of an approved
  one, settlements that say what happened, and rows that agree; and a complete run of it on a sample
  process with one provider.
\<close>

section \<open>A sample process\<close>

text \<open>The world is the list of the request ids the provider has acted on.\<close>

definition sample_destination :: "(unit, unit, unit, string list) destination" where
  "sample_destination =
     \<lparr>ds_operation_name = ''m'', ds_provider = True, ds_installed = Some True,
      ds_enabled = (\<lambda>_. Some True), ds_ready = (\<lambda>_ _. Some True), ds_credentials = None,
      ds_execute = (\<lambda>held i db inp w.
        case get_for_operation i (db_actions db) of
          None \<Rightarrow> (Exec_Crashes ''KeyError'', w)
        | Some r \<Rightarrow> (case x_provider_request_id r of
            None \<Rightarrow> (Exec_Crashes ''KeyError'', w)
          | Some rid \<Rightarrow> (Exec_Returns () (), rid # w))),
      ds_reconcile = Some (\<lambda>held db rid w. case rid of None \<Rightarrow> Rec_Absent
        | Some k \<Rightarrow> if k \<in> set w then Rec_Found () else Rec_Absent)\<rparr>"

definition sample_operation :: "(unit, unit, unit) registered" where
  "sample_operation =
     \<lparr>rg_name = ''m'', rg_module = ''core'', rg_safety = External,
      rg_roles = [Owner], rg_validate = (\<lambda>_. Some ()), rg_dump = (\<lambda>_. JObject []),
      rg_project = (\<lambda>_. Some (JObject [])),
      rg_keyed = Some \<lparr>ks_key_field = ''key'', ks_request_version = 1, ks_result_version = 1\<rparr>,
      rg_key = (\<lambda>_. Some [107]), rg_external = Some ''d'', rg_destination = (\<lambda>_. Some ''d''),
      rg_subject = None, rg_delete_ref = (\<lambda>_. None), rg_guards = [],
      rg_is_output = (\<lambda>_. True), rg_dump_output = (\<lambda>_. JObject []), rg_validate_output = (\<lambda>_. Some ()),
      rg_result_ref = (\<lambda>_. ''r''), rg_handler = (\<lambda>_ _ _ _. Raises_Other)\<rparr>"

definition sample_env :: "(unit, unit, unit, string list) env" where
  "sample_env =
     \<lparr>e_registry = (\<lambda>n. if n = ''m'' then Some sample_operation else None),
      e_resolvers = (\<lambda>_ _. None), e_guards = (\<lambda>_. None),
      e_destinations = (\<lambda>r. if r = ''d'' then Some sample_destination else None),
      e_delete_owner = (\<lambda>_. None), e_ready = (\<lambda>_ _. True), e_sinks = (\<lambda>_. True),
      e_control = \<lparr>cp_memberships = [\<lparr>mb_account = 1, mb_workspace = 9, mb_role = Owner\<rparr>],
        cp_tokens = [], cp_workspaces = [(9, ''active'')]\<rparr>,
      e_job_action = (\<lambda>p. if p = external_job_input 4 then Some 4 else None),
      e_sha256 = (\<lambda>b. [length b mod 256]), e_jsonb = (\<lambda>d. d), e_adapters = \<lparr>kc_request = [], kc_result = []\<rparr>,
      e_wording = (\<lambda>_. ''''), e_refusal_text = (\<lambda>_. ''''), e_bind_text = (\<lambda>_. ''''),
      e_max_payload_bytes = 100, e_deployment_payload_bytes = 100, e_default_window_seconds = 3600,
      e_max_window_seconds = 3600, e_max_attempts = 5, e_retention_days = 30\<rparr>"

definition sample_person :: caller where
  "sample_person =
     \<lparr>cx_workspace = 9, cx_actor_kind = Account_Actor, cx_actor_id = Some 1, cx_role = Owner,
      cx_entry = ''web'', cx_audience = Some (''session'', None), cx_operation_set = None,
      cx_enabled = [], cx_account = Some 1, cx_purpose = None\<rparr>"

definition sample_kinds :: "json kind_registry" where
  "sample_kinds = \<lparr>kr_kinds = [], kr_continuations = [external_action_execute]\<rparr>"

text \<open>Staged, approved, leased and run: the rows after each step.\<close>

definition sample_record :: operation where
  "sample_record =
     \<lparr>o_id = 2, o_name = ''m'', o_safety_class = ''external'',
      o_actor_kind = ''account'', o_actor_id = Some 1, o_entry = ''web'',
      o_audience_kind = ''session'', o_audience_id = None, o_state = OpApprovalRequired,
      o_approval_id = Some 3, o_progress_text = None, o_progress_fraction = None,
      o_result_ref = None, o_error_code = None, o_error_text = None, o_terminal_check_kind = None,
      o_terminal_check_at = None, o_provider_request_id = None, o_created_at = 0,
      o_started_at = None, o_terminal_at = None\<rparr>"

definition sample_approval :: approval where
  "sample_approval =
     \<lparr>ap_id = 3, ap_actor_kind = ''account'', ap_actor_id = Some 1,
      ap_operation_name = ''m'', ap_operation_id = 2, ap_destination_ref = Some ''d'',
      ap_subject_ref = None, ap_subject_revision = None, ap_payload_digest = [2],
      ap_payload_ref = Some 3, ap_purpose = None, ap_window_start = 0, ap_window_end = 3600000000,
      ap_state = ApPending, ap_approved_by_kind = None, ap_approved_by_id = None,
      ap_approved_at = None, ap_approved_entry = None, ap_executed_at = None,
      ap_invalidated_reason = None\<rparr>"

definition sample_action :: external_action where
  "sample_action =
     \<lparr>x_id = 4, x_operation_id = 2, x_approval_id = 3, x_operation_name = ''m'',
      x_subject_ref = None, x_source_ref = None, x_destination_ref = ''d'', x_payload_ref = 3,
      x_payload_digest = [2], x_key = [107], x_request_version = 1, x_result_version = 1,
      x_job_id = None, x_state = XPending, x_created_at = 0, x_updated_at = 0,
      x_provider_request_id = None, x_failure_class = None, x_attempts = 0, x_result_ref = None,
      x_result_detail = None, x_error_code = None, x_error_detail = None,
      x_terminal_at = None\<rparr>"

definition sample_reservation :: envelope where
  "sample_reservation =
     \<lparr>en_operation = ''m'', en_key = [107],
      en_identity = JObject [(utext_of ''operation_name'', JString (utext_of ''m'')),
        (utext_of ''input'', JObject [])],
      en_digest = [33],
      en_request_version = 1, en_state = EnPending, en_operation_id = Some 2, en_result = None,
      en_result_version = None, en_error_code = None, en_error_detail = None, en_created_at = 0,
      en_updated_at = 0, en_retained_until = 2592000000000\<rparr>"

definition sample_staged :: "unit ws_db" where
  "sample_staged =
     \<lparr>db_operations = [sample_record], db_approvals = [sample_approval],
      db_payloads = [\<lparr>py_approval_id = 3, py_body = JObject [], py_byte_length = 2\<rparr>],
      db_actions = [sample_action], db_envelopes = [sample_reservation], db_jobs = [], db_modules = [],
      db_audits = [\<lparr>au_operation = ''m'', au_safety_class = External, au_subject = None,
        au_digest = [2], au_outcome = ''refused'', au_operation_id = Some 2,
        au_actor_kind = Account_Actor, au_actor_id = Some 1\<rparr>],
      db_data = ()\<rparr>"

definition sample_approved :: "unit ws_db" where
  "sample_approved = sample_staged
     \<lparr>db_operations := [sample_record\<lparr>o_state := OpRunning, o_started_at := Some 1\<rparr>],
      db_approvals := [sample_approval\<lparr>ap_state := ApApproved, ap_approved_by_kind := Some ''account'',
        ap_approved_by_id := Some 1, ap_approved_at := Some 1, ap_approved_entry := Some ''web''\<rparr>],
      db_actions := [sample_action\<lparr>x_job_id := Some 5, x_updated_at := 1\<rparr>],
      db_jobs := [new_job 5 external_action_execute (external_job_input 4) 1 5 1 None]\<rparr>"

definition sample_lease :: "json leased_job" where
  "sample_lease =
     \<lparr>l_id = 5, l_kind = external_action_execute, l_payload = external_job_input 4, l_attempts = 1,
      l_max_attempts = 5, l_cancel_requested = False, l_operation_id = None\<rparr>"

definition sample_leased :: "unit ws_db" where
  "sample_leased = sample_approved\<lparr>db_jobs := map (take_job ''w'' 2 lease_seconds) (db_jobs sample_approved)\<rparr>"

definition sample_settled :: "unit ws_db" where
  "sample_settled = fst (snd (continue_in sample_env 9 3 3 None ''X'' sample_lease Mode_Run 2 ''w''
     sample_leased []))"

definition sample_end :: "(unit, string list) xs" where
  "sample_end =
     \<lparr>xs_db = sample_settled, xs_world = [provider_request_id 4], xs_pc = (\<lambda>_. P_Idle)\<rparr>"

abbreviation performed :: "string list \<Rightarrow> string \<Rightarrow> nat" where
  "performed w i \<equiv> count_list w i"

lemma performed_pos: "0 < performed w i \<longleftrightarrow> i \<in> set w"
  by (induction w) auto

lemma sample_honest: "honest performed sample_env"
  unfolding honest_def
  by (auto simp: sample_env_def sample_destination_def sample_operation_def honest_execute_def
      honest_reconcile_def count_list_0_iff Suc_le_eq performed_pos
      split: option.splits if_splits)

lemma sample_stages:
  "stage_external_in_transaction sample_env sample_person ''m'' (JObject []) None 2 3 4 0
     (empty_ws ()) =
   Inr (\<lparr>sg_action = 4, sg_approval = 3, sg_operation = 2, sg_state = XPending, sg_created = True,
         sg_retained = None\<rparr>, sample_staged)"
  by code_simp

lemma sample_approves:
  "approve_handler sample_env sample_person 3 None 5 1 sample_staged =
   Inr (hd (db_approvals sample_approved), sample_approved)"
  by code_simp

lemma sample_acquires:
  "acquire_lease (\<lambda>_. False) ''w'' 2 lease_seconds (db_jobs sample_approved) =
   (Some sample_lease, db_jobs sample_leased)"
  by code_simp

lemma sample_continues:
  "case continue_in sample_env 9 3 3 None ''X'' sample_lease Mode_Run 2 ''w'' sample_leased [] of
     (pc, db, w) \<Rightarrow> pc = P_Idle \<and> w = [provider_request_id 4] \<and>
       list_ex (claims_effect sample_env) (db_actions db)"
  by code_simp

section \<open>A complete run\<close>

lemma sample_settles:
  "continue_in sample_env 9 3 3 None ''X'' sample_lease Mode_Run 2 ''w'' sample_leased [] =
   (P_Idle, sample_settled, [provider_request_id 4])"
  "\<exists>r \<in> set (db_actions sample_settled). claims_effect sample_env r"
  using sample_continues by (auto simp: sample_settled_def list_ex_iff split: prod.splits)

lemma sample_registered: "continuation_for external_action_execute sample_kinds"
  by (simp add: continuation_for_def sample_kinds_def)

lemma sample_decisions:
  "xs_step sample_env 9 sample_kinds (xs_start () []) ((xs_start () [])\<lparr>xs_db := sample_staged\<rparr>)"
  "xs_step sample_env 9 sample_kinds ((xs_start () [])\<lparr>xs_db := sample_staged\<rparr>)
     ((xs_start () [] :: (unit, string list) xs)\<lparr>xs_db := sample_approved\<rparr>)"
proof -
  let ?step = "xs_step sample_env 9 sample_kinds" and ?s = "xs_start () [] :: (unit, string list) xs"
  have start: "xs_db ?s = empty_ws ()" by (simp add: xs_start_def)
  show "?step ?s (?s\<lparr>xs_db := sample_staged\<rparr>)"
    by (rule x_decision) (simp add: start, rule d_stage [OF sample_stages])
  show "?step (?s\<lparr>xs_db := sample_staged\<rparr>) (?s\<lparr>xs_db := sample_approved\<rparr>)"
    using x_decision [of sample_env "?s\<lparr>xs_db := sample_staged\<rparr>" sample_approved] d_approve [OF sample_approves]
    by simp
qed

lemma sample_steps: "(xs_step sample_env 9 sample_kinds)\<^sup>*\<^sup>* (xs_start () []) sample_end"
proof -
  let ?step = "xs_step sample_env 9 sample_kinds" and ?s = "xs_start () [] :: (unit, string list) xs"
  let ?leased = "?s\<lparr>xs_db := sample_leased, xs_pc := (\<lambda>_. P_Idle)(''w'' := P_Leased sample_lease 2)\<rparr>"
  let ?running = "?leased\<lparr>xs_pc := (xs_pc ?leased)(''w'' := P_Cont sample_lease Mode_Run 2)\<rparr>"
  have lease: "l_kind sample_lease = external_action_execute" "continuation_mode_of sample_lease = Mode_Run"
    by (simp_all add: sample_lease_def continuation_mode_of_def)
  have start: "xs_db ?s = empty_ws ()" "xs_world ?s = []" "xs_pc ?s = (\<lambda>_. P_Idle)"
    by (simp_all add: xs_start_def)
  note sample_decisions
  moreover have "?step (?s\<lparr>xs_db := sample_approved\<rparr>) ?leased"
    using x_acquire [of "?s\<lparr>xs_db := sample_approved\<rparr>" "''w''" "\<lambda>_. False" 2 sample_lease
        "db_jobs sample_leased" sample_env 9 sample_kinds] sample_acquires
    by (simp add: start sample_lease_def sample_leased_def)
  moreover have "?step ?leased ?running"
    using x_gates [of ?leased "''w''" sample_lease 2 sample_kinds True 2 "P_Cont sample_lease Mode_Run 2"
        "view sample_leased" sample_env 9]
    by (simp add: gates_open [OF sample_registered lease(1)] lease(2)) (simp add: view_def)
  moreover have "?step ?running sample_end"
    using x_continue [of ?running "''w''" sample_lease Mode_Run 2 sample_env 9 3 3 None "''X''" P_Idle
        sample_settled "[provider_request_id 4]" sample_kinds]
    by (simp add: start sample_settles(1)) (simp add: sample_end_def xs_start_def fun_upd_idem)
  ultimately show ?thesis by (meson rtranclp.rtrancl_into_rtrancl rtranclp.rtrancl_refl)
qed

lemma sample_reach: "xs_reach performed sample_env 9 sample_kinds sample_end"
  unfolding xs_reach_def by (rule exI [of _ "()"], rule exI [of _ "[]"]) (simp add: sample_steps)

lemma sample_reach_approved: "xs_reach performed sample_env 9 sample_kinds ((xs_start () [])\<lparr>xs_db := sample_approved\<rparr>)"
proof -
  let ?s = "xs_start () [] :: (unit, string list) xs"
  have "(xs_step sample_env 9 sample_kinds)\<^sup>*\<^sup>* ?s (?s\<lparr>xs_db := sample_approved\<rparr>)"
    using sample_decisions by (meson rtranclp.rtrancl_into_rtrancl rtranclp.rtrancl_refl)
  then show ?thesis unfolding xs_reach_def by (intro exI [of _ "()"] exI [of _ "[]"]) simp
qed

section \<open>The guarantees\<close>

text \<open>C2. Whatever the workers, crashes, retries, cancellations, decisions and resolutions do, and in
  whatever order, the provider acts at most once on the request of an action, as long as each provider
  keeps a request id unique.\<close>

theorem external_effect_at_most_once:
  assumes "xs_reach eff env ws kinds s" "honest eff env"
    and "continuation_for external_action_execute kinds"
  shows "eff (xs_world s) (provider_request_id i) \<le> 1"
  using xs_invD(2) [OF xs_reach_inv [OF assms]] by (simp add: effects_inv_def)

theorem external_effect_at_most_once_witness:
  "performed (xs_world sample_end) (provider_request_id 4) = 1 \<and>
   performed (xs_world sample_end) (provider_request_id 4) \<le> 1"
  using external_effect_at_most_once [OF sample_reach sample_honest sample_registered, of 4]
  by (simp add: sample_end_def)

text \<open>C6. An effect is that of a staged action whose bound approval was approved: the same record, the
  same destination and the same payload digest; its destination is a provider and it has its job.\<close>

theorem effect_only_when_approved:
  assumes "xs_reach eff env ws kinds s" "honest eff env"
    and "continuation_for external_action_execute kinds"
    and "eff (xs_world s) (provider_request_id i) \<noteq> 0"
  shows "\<exists>r \<in> set (db_actions (xs_db s)). x_id r = i \<and> x_job_id r \<noteq> None \<and> to_provider env r \<and>
    (\<exists>p. lookup_by ap_id (x_approval_id r) (db_approvals (xs_db s)) = Some p \<and>
      ap_approved_at p \<noteq> None \<and> ap_operation_id p = x_operation_id r \<and>
      ap_destination_ref p = Some (x_destination_ref r) \<and> ap_payload_digest p = x_payload_digest r)"
proof -
  note I = xs_invD(1,2) [OF xs_reach_inv [OF assms(1-3)]]
  have "\<forall>i. i \<notin> x_id ` set (db_actions (xs_db s)) \<longrightarrow> eff (xs_world s) (provider_request_id i) = 0"
    using I(2) unfolding effects_inv_def by simp
  then have "i \<in> x_id ` set (db_actions (xs_db s))"
    using assms(4) by metis
  then obtain r where r: "r \<in> set (db_actions (xs_db s))" "x_id r = i" by auto
  with I(2) assms(4) have R: "row_inv eff env (xs_db s) (xs_world s) r" "effects_at eff (xs_world s) r \<noteq> 0"
    by (simp_all add: effects_inv_def effects_at_def)
  from db_invD(10) [OF I(1) r(1)] obtain p :: approval where
    p: "lookup_by ap_id (x_approval_id r) (db_approvals (xs_db s)) = Some p" "approval_of_action r p"
    unfolding rows_ok_def by (elim exE conjE) simp
  from R p have "x_job_id r \<noteq> None" "to_provider env r" "ap_approved_at p \<noteq> None"
    unfolding row_inv_def by simp_all
  with p r show ?thesis unfolding approval_of_action_def by blast
qed


theorem effect_only_when_approved_witness:
  "\<exists>r \<in> set (db_actions (xs_db sample_end)). x_id r = 4 \<and>
    (\<exists>p. lookup_by ap_id (x_approval_id r) (db_approvals (xs_db sample_end)) = Some p \<and>
      ap_approved_at p \<noteq> None)"
  using effect_only_when_approved [OF sample_reach sample_honest sample_registered, of 4]
  by (auto simp: sample_end_def)

text \<open>C5. A settlement says what happened: an action refused, failed or cancelled without effect had
  none at its provider, a succeeded one had exactly one, and an unresolved one says that its outcome is
  unknown.\<close>

theorem settlement_truthful:
  assumes "xs_reach eff env ws kinds s" "honest eff env"
    and "continuation_for external_action_execute kinds" and "r \<in> set (db_actions (xs_db s))"
  shows "(claims_no_effect r \<longrightarrow> effects_at eff (xs_world s) r = 0) \<and>
    (claims_effect env r \<longrightarrow> effects_at eff (xs_world s) r = 1) \<and>
    (x_state r = XUnresolved \<longrightarrow> x_failure_class r = Some Outcome_Unknown)"
proof -
  note I = xs_invD(2) [OF xs_reach_inv [OF assms(1-3)]]
  then have "truthful eff env (xs_world s) r" "effects_at eff (xs_world s) r \<le> 1"
    using assms(4) by (simp_all add: effects_inv_def row_inv_def effects_at_def)
  then show ?thesis by (auto simp: truthful_def)
qed

theorem settlement_truthful_witness:
  "\<exists>r \<in> set (db_actions (xs_db sample_end)). x_state r = XSucceeded \<and>
    effects_at performed (xs_world sample_end) r = 1"
proof -
  obtain r where r: "r \<in> set (db_actions (xs_db sample_end))" "claims_effect sample_env r"
    using sample_settles(2) by (auto simp: sample_end_def)
  from settlement_truthful [OF sample_reach sample_honest sample_registered r(1)] r
  show ?thesis by (auto simp: claims_effect_def)
qed

text \<open>C7. In every reachable state the rows of an action agree: its approval and its operation record
  exist and are bound to it, its reservation (if retained) is its own, and the states of the four are
  one of the combinations of \<open>phase_ok\<close>; no two actions share an approval, a record or a key.\<close>

theorem external_rows_agree:
  assumes "xs_reach eff env ws kinds s" "honest eff env"
    and "continuation_for external_action_execute kinds"
  shows "rows_agree (xs_db s)"
  using xs_invD(1) [OF xs_reach_inv [OF assms]] by (simp add: db_inv_def)

theorem external_rows_agree_witness:
  "rows_agree (xs_db sample_end) \<and> db_actions (xs_db sample_end) \<noteq> []"
  using external_rows_agree [OF sample_reach sample_honest sample_registered] sample_settles(2)
  by (auto simp: sample_end_def)

section \<open>What runs is what was approved\<close>

lemma effect_refusalD:
  assumes "effect_refusal env s held g approval destination db = Inr (oper, inp, h, d)"
  shows "st_operation s = Some oper" "payload_digest env (rg_dump oper inp) = gr_digest g"
    "held = Inr h" "authorize env h (gr_name g) = Inr oper \<or> \<not> isl (authorize env h (gr_name g))"
    "run_guards env oper h db approval inp (st_now s) (effective_guards_for env oper) = None"
    "destination = Some d"
  using assms by (auto simp: effect_refusal_def simp del: run_guards_None split: option.splits sum.splits if_splits)

lemma invoke_world: "snd (invoke env s g (oper, inp, h, d) db w) = snd (ds_execute d h (gr_operation_id g) db inp w)"
  by (simp add: invoke_def split: prod.splits)

lemma effect_world:
  "snd (effect env s g n prior (oper, inp, h, d) db w) = w \<or>
   (\<exists>db'. snd (effect env s g n prior (oper, inp, h, d) db w) = snd (ds_execute d h (gr_operation_id g) db' inp w))"
  unfolding effect_def
  by (auto simp: Let_def invoke_world split: sum.splits option.splits prod.splits answer.splits)

lemma run_mode_world:
  assumes "snd (run_mode env s held g action approval destination db w) \<noteq> w"
  shows "\<exists>db1 oper inp h d db'. effect_refusal env s held g approval destination db1 = Inr (oper, inp, h, d) \<and>
    snd (run_mode env s held g action approval destination db w) =
      snd (ds_execute d h (gr_operation_id g) db' inp w)"
proof -
  define go where "go = (\<lambda>prior db1. case effect_refusal env s held g approval destination db1 of
         Inl (fclass, code, detail) \<Rightarrow> (settle_refused env s fclass code detail db1, w)
       | Inr target \<Rightarrow> effect env s g (x_attempts action) prior target db1 w)"
  have "run_mode env s held g action approval destination db w =
      (if gr_attempts g > 1
       then (case prior_effect env s destination (x_provider_request_id action) db w of
               Inl e \<Rightarrow> (Inl e, w)
             | Inr (Inl r) \<Rightarrow> (Inr r, w)
             | Inr (Inr (p, db1)) \<Rightarrow> go (Some p) db1)
       else go None db)"
    by (simp only: run_mode_def Let_def go_def)
  then have "snd (run_mode env s held g action approval destination db w) = w \<or>
    (\<exists>prior db1. snd (run_mode env s held g action approval destination db w) = snd (go prior db1))"
    by (auto simp del: split_paired_Ex split: sum.splits if_splits)
  with assms obtain prior db1 where
    "snd (run_mode env s held g action approval destination db w) = snd (go prior db1)" by blast
  note go = this [unfolded go_def]
  show ?thesis
  proof (cases "effect_refusal env s held g approval destination db1")
    case (Inl e)
    with go assms show ?thesis by (cases e) simp
  next
    case (Inr t)
    then obtain oper inp h d where t: "effect_refusal env s held g approval destination db1 = Inr (oper, inp, h, d)"
      by (metis prod.collapse)
    with go assms effect_world [of env s g "x_attempts action" prior oper inp h d db1 w]
    obtain db' where "snd (run_mode env s held g action approval destination db w) =
        snd (ds_execute d h (gr_operation_id g) db' inp w)"
      by auto
    with t show ?thesis by blast
  qed
qed

text \<open>C4. The world changes in a continuation only by the provider's or handler's run on the call that
  was approved: bound to an approved approval, on the input whose digest was approved, for the rebuilt
  caller that is still authorized, with every effective guard passing again.\<close>

theorem effect_runs_approved_call:
  assumes "run_external_continuation env ws l owner mode now db w = (res, w')" and "w' \<noteq> w"
  shows "\<exists>i r p oper inp h d db1 db2.
    e_job_action env (l_payload l) = Some i \<and> mode = Mode_Run \<and>
    lock_and_bind i (l_id l) owner db = Inr (r, p) \<and> ap_state p = ApApproved \<and>
    e_registry env (x_operation_name r) = Some oper \<and>
    payload_digest env (rg_dump oper inp) = ap_payload_digest p \<and>
    context_for_approved_execution (e_control env) db ws p = Inr h \<and>
    authorize env h (x_operation_name r) = Inr oper \<and>
    run_guards env oper h db1 p inp now (effective_guards_for env oper) = None \<and>
    e_destinations env (x_destination_ref r) = Some d \<and>
    w' = snd (ds_execute d h (x_operation_id r) db2 inp w)"
proof -
  from assms obtain i g where i: "e_job_action env (l_payload l) = Some i"
    and g: "mint_continuation_grant ws l owner mode i db = Inr g"
    and c: "continue_approved_external_in_transaction env g now db w = (res, w')"
    by (auto simp: run_external_continuation_def split: option.splits sum.splits)
  from g obtain r p where b: "lock_and_bind i (l_id l) owner db = Inr (r, p)"
    and g': "g = \<lparr>gr_workspace = ws, gr_job = l_id l, gr_owner = owner, gr_action = x_id r,
               gr_approval = x_approval_id r, gr_operation_id = x_operation_id r,
               gr_name = x_operation_name r, gr_key = x_key r,
               gr_destination = x_destination_ref r, gr_digest = x_payload_digest r,
               gr_request_version = x_request_version r, gr_result_version = x_result_version r,
               gr_attempts = l_attempts l, gr_max_attempts = l_max_attempts l, gr_mode = mode\<rparr>"
    by (auto simp: mint_continuation_grant_def split: sum.splits)
  note B = lock_and_bindD [OF b]
  let ?held = "context_for_approved_execution (e_control env) db ws p"
  let ?s = "settle_for env g ?held now db"
  have again: "lock_and_bind (gr_action g) (gr_job g) (gr_owner g) db = Inr (r, p)"
    using b B(2) by (simp add: g')
  have run: "mode = Mode_Run" "snd (run_mode env ?s ?held g r p (e_destinations env (x_destination_ref r)) db w) = w'"
    using c assms(2) again
    by (auto simp: continue_approved_external_in_transaction_def Let_def g' split: if_splits)
  with assms(2) run_mode_world [of env ?s ?held g r p "e_destinations env (x_destination_ref r)" db w]
  obtain db1 oper inp h d db2 where
    e: "effect_refusal env ?s ?held g p (e_destinations env (x_destination_ref r)) db1 = Inr (oper, inp, h, d)"
    and w': "w' = snd (ds_execute d h (gr_operation_id g) db2 inp w)"
    by metis
  note E = effect_refusalD [OF e]
  have reg: "e_registry env (x_operation_name r) = Some oper" using E(1) by (simp add: settle_for_def g')
  then have auth: "authorize env h (x_operation_name r) = Inr oper"
    using E(4) by (auto simp: authorize_def g' split: if_splits)
  show ?thesis
    using i run(1) b B(6) reg E auth w' B(7)
    by (intro exI [of _ i] exI [of _ r] exI [of _ p] exI [of _ oper] exI [of _ inp] exI [of _ h] exI [of _ d]
        exI [of _ db1] exI [of _ db2]) (simp add: g' settle_for_def approval_of_action_def del: run_guards_None)
qed


theorem effect_runs_approved_call_witness:
  "\<exists>r p h (d :: (unit, unit, unit, string list) destination) db2.
   lock_and_bind 4 5 ''w'' sample_leased = Inr (r, p) \<and> ap_state p = ApApproved \<and>
    [2] = ap_payload_digest p \<and> [provider_request_id 4] = snd (ds_execute d h (x_operation_id r) db2 () [])"
proof -
  from sample_settles(1) obtain res where
    "run_external_continuation sample_env 9 sample_lease ''w'' Mode_Run 3 sample_leased [] =
     (res, [provider_request_id 4])"
    by (auto simp: continue_in_def Let_def split: prod.splits sum.splits)
  from effect_runs_approved_call [OF this list.distinct(2)] obtain i r p oper inp h and d :: "(unit, unit, unit, string list) destination" and db2 where
    i: "e_job_action sample_env (l_payload sample_lease) = Some i"
    and b: "lock_and_bind i (l_id sample_lease) ''w'' sample_leased = Inr (r, p)" "ap_state p = ApApproved"
    and o: "e_registry sample_env (x_operation_name r) = Some oper"
    and d: "payload_digest sample_env (rg_dump oper inp) = ap_payload_digest p"
    and w: "[provider_request_id 4] = snd (ds_execute d h (x_operation_id r) db2 inp [])"
    by (elim exE conjE) (rule that)
  have "i = 4" using i by (simp add: sample_env_def sample_lease_def)
  moreover have "oper = sample_operation" using o by (simp add: sample_env_def split: if_splits)
  moreover have "payload_digest sample_env (rg_dump sample_operation ()) = [2]" by code_simp
  ultimately show ?thesis using b d w by (auto simp: sample_lease_def)
qed

section \<open>An erased source\<close>

lemma invalidated_not_bound:
  assumes "lookup_by ap_id (x_approval_id r) (db_approvals db) = Some p" "ap_state p = ApInvalidated"
    and "lookup_by x_id (x_id r) (db_actions db) = Some r"
  shows "\<exists>ps. lock_and_bind (x_id r) j owner db = Inl ps"
proof (cases "lock_and_bind (x_id r) j owner db")
  case (Inr t)
  then obtain r' q where b: "lock_and_bind (x_id r) j owner db = Inr (r', q)" by (cases t) blast
  with lock_and_bindD(1,5,6) [OF b] assms show ?thesis by simp
qed blast

lemma erased_approval_invalidated:
  assumes inv: "db_inv db" and r: "r \<in> set (db_actions db)" "x_open_state (x_state r)"
    and p: "lookup_by ap_id (x_approval_id r) (db_approvals db) = Some p"
    and src: "ap_subject_ref p = Some ref \<or> ap_destination_ref p = Some ref" "ap_id p \<noteq> own"
    and er: "erase_dependents ref own now db = (a, b, db')"
  obtains p' where "lookup_by ap_id (x_approval_id r) (db_approvals db') = Some p'" "ap_state p' = ApInvalidated"
proof -
  have ap: "lookup_by ap_id (x_approval_id r) (db_approvals db') = map_option (\<lambda>p. if erased_approval ref own p
      then erased_approval_values p else p) (lookup_by ap_id (x_approval_id r) (db_approvals db))"
    unfolding erased_tables [OF er] by (rule lookup_by_update_where) simp
  from db_invD(10) [OF inv r(1)] p r(2) have
    "ap_state p = ApInvalidated \<or> ap_state p = ApPending \<or> ap_state p = ApApproved \<or> ap_state p = ApRequires_Reapproval"
    unfolding rows_ok_def by (cases "x_state r") (auto simp: stranded_def x_open_state_def split: if_splits)
  with that ap p src show thesis by (auto simp: erased_approval_def erased_approval_values_def)
qed

lemma erased_source_blocked:
  assumes inv: "db_inv db" and r: "r \<in> set (db_actions db)" "x_open_state (x_state r)"
    and p: "lookup_by ap_id (x_approval_id r) (db_approvals db) = Some p"
    and src: "ap_subject_ref p = Some ref \<or> ap_destination_ref p = Some ref" "ap_id p \<noteq> own"
    and er: "erase_dependents ref own now db = (a, b, db')"
  shows "r \<in> set (db_actions db')"
    and "\<exists>e. approve_handler env ctx (x_approval_id r) displayed fresh now' db' = Inl e"
    and "\<exists>e. refuse_handler env ctx (x_approval_id r) displayed now' db' = Inl e"
    and "\<exists>e. resolve_external env ctx (x_id r) oc nt result ck now' db' w = Inl e"
    and "e_job_action env (l_payload l) = Some (x_id r) \<Longrightarrow>
      \<exists>detail. run_external_continuation env ws l owner mode now' db' w = (Inr ((Disp_Failed, detail), db'), w)"
proof -
  from erased_approval_invalidated [OF inv r p src er] obtain q where
    q: "lookup_by ap_id (x_approval_id r) (db_approvals db') = Some q" "ap_state q = ApInvalidated" .
  have acts: "db_actions db' = db_actions db" using erased_tables [OF er] by simp
  have look: "lookup_by x_id (x_id r) (db_actions db') = Some r"
    unfolding acts using r(1) db_invD(5) [OF inv] by (simp add: lookup_by_unique)
  show "r \<in> set (db_actions db')" using r(1) by (simp add: acts)
  have lock: "lock_for_decision env ctx (x_approval_id r) db' = Inr (row, v) \<Longrightarrow> row = q" for row v
    using q(1) by (auto simp: lock_for_decision_def get_approval_def split: if_splits)
  show "\<exists>e. approve_handler env ctx (x_approval_id r) displayed fresh now' db' = Inl e"
    using q(2) lock by (cases "lock_for_decision env ctx (x_approval_id r) db'")
      (auto simp: approve_handler_def decidable_def attempt_def)
  show "\<exists>e. refuse_handler env ctx (x_approval_id r) displayed now' db' = Inl e"
    using q(2) lock by (cases "lock_for_decision env ctx (x_approval_id r) db'")
      (auto simp: refuse_handler_def decidable_def attempt_def)
  show "\<exists>e. resolve_external env ctx (x_id r) oc nt result ck now' db' w = Inl e"
    using look r(2) by (auto simp: resolve_external_def get_action_def x_open_state_def)
  show "\<exists>detail. run_external_continuation env ws l owner mode now' db' w = (Inr ((Disp_Failed, detail), db'), w)"
    if "e_job_action env (l_payload l) = Some (x_id r)"
    using invalidated_not_bound [OF q look, of "l_id l" owner] that
    by (auto simp: run_external_continuation_def mint_continuation_grant_def grant_refused_def)
qed

text \<open>C8. Erasing the source of an open external action leaves it with no way out: its approval is
  invalidated, the action stays open, and from there neither an approval nor a refusal, a resolution or a
  leased continuation settles it.\<close>

theorem erased_source_strands_action:
  assumes "db_inv db" "r \<in> set (db_actions db)" "x_open_state (x_state r)"
    and "lookup_by ap_id (x_approval_id r) (db_approvals db) = Some p"
    and "ap_subject_ref p = Some ref \<or> ap_destination_ref p = Some ref" "ap_id p \<noteq> own"
    and "erase_dependents ref own now db = (a, b, db')"
  shows "r \<in> set (db_actions db') \<and>
    (\<exists>e. approve_handler env ctx (x_approval_id r) displayed fresh now' db' = Inl e) \<and>
    (\<exists>e. refuse_handler env ctx (x_approval_id r) displayed now' db' = Inl e) \<and>
    (\<exists>e. resolve_external env ctx (x_id r) oc nt result ck now' db' w = Inl e) \<and>
    (e_job_action env (l_payload l) = Some (x_id r) \<longrightarrow>
      (\<exists>detail. run_external_continuation env ws l owner mode now' db' w =
         (Inr ((Disp_Failed, detail), db'), w)))"
  by (intro conjI impI erased_source_blocked [OF assms]) assumption

theorem erased_source_strands_action_witness:
  "\<exists>r \<in> set (db_actions (snd (snd (erase_dependents ''d'' 0 4 sample_approved)))).
    x_open_state (x_state r) \<and>
    (\<exists>e. refuse_handler sample_env sample_person (x_approval_id r) None 5
       (snd (snd (erase_dependents ''d'' 0 4 sample_approved))) = Inl e)"
proof -
  obtain a b db' where er: "erase_dependents ''d'' 0 4 sample_approved = (a, b, db')" by (metis prod.collapse)
  let ?r = "sample_action\<lparr>x_job_id := Some 5, x_updated_at := 1\<rparr>"
  let ?p = "sample_approval\<lparr>ap_state := ApApproved, ap_approved_by_kind := Some ''account'',
        ap_approved_by_id := Some 1, ap_approved_at := Some 1, ap_approved_entry := Some ''web''\<rparr>"
  have inv: "db_inv sample_approved" using xs_invD(1) [OF xs_reach_inv [OF sample_reach_approved sample_honest sample_registered]]
    by simp
  have "?r \<in> set (db_actions sample_approved)" "x_open_state (x_state ?r)"
    "lookup_by ap_id (x_approval_id ?r) (db_approvals sample_approved) = Some ?p"
    "ap_subject_ref ?p = Some ''d'' \<or> ap_destination_ref ?p = Some ''d''" "ap_id ?p \<noteq> 0"
    by (simp_all add: sample_approved_def sample_action_def sample_approval_def x_open_state_def lookup_by_def)
  from erased_source_strands_action [OF inv this er, of sample_env sample_person None 0 5] this(2) er
  show ?thesis by (metis snd_conv)
qed

section \<open>The purge of the reservations\<close>

lemma reserve_absent:
  assumes "lookup_by en_ref (name, cr_key request) t = None"
  shows "isl (reserve jsonb sp name request oid now until t) \<or>
    (\<exists>row t'. reserve jsonb sp name request oid now until t = Inr (True, row, t'))"
  using assms by (auto simp: reserve_def Let_def split: option.split sum.split)

text \<open>Staging under the key of an earlier action whose reservation is gone is refused.\<close>

lemma stage_after_purge:
  assumes "stage_request env ctx name payload = Inr (oper, inp, spec, ref, request)"
    and "lookup_by en_ref (rg_name oper, cr_key request) (db_envelopes db) = None"
    and "r \<in> set (db_actions db)" "x_ref r = (rg_name oper, cr_key request)"
  shows "stage_external_in_transaction env ctx name payload source i a x now db
    \<in> {Inl (Raise_Refused key_reused), Inl Raise_Error}"
  using reserve_absent [OF assms(2), of "e_jsonb env" "rg_keyed oper" "Some i" now
      "now + seconds (e_retention_days env * seconds_per_day)"] assms(1,3,4)
  by (auto simp: stage_external_in_transaction_def has_action_for_key_def split: sum.split)

text \<open>
  C38. The retention purge deletes exactly the reservations whose retention has run out, whatever
  their own state, under whose key no pending, executing or unresolved external action was staged,
  and writes nothing else. So in every reachable state each action that can still settle or be
  resolved finds its own reservation unchanged afterwards, pending or unresolved as the action is,
  and a purged key is not free for another effect: staging under the key of a settled action is
  refused.
\<close>

theorem purge_keeps_needed_envelopes:
  assumes "xs_reach eff env ws kinds s" "honest eff env"
    and "continuation_for external_action_execute kinds"
    and "purge_envelopes now (xs_db s) = db'"
  shows "db' = (xs_db s)\<lparr>db_envelopes := db_envelopes db'\<rparr> \<and>
    set (db_envelopes db') = {e \<in> set (db_envelopes (xs_db s)). now \<le> en_retained_until e \<or>
       (\<exists>r \<in> set (db_actions (xs_db s)). x_ref r = en_ref e \<and>
          x_state r \<in> {XPending, XExecuting, XUnresolved})} \<and>
    (\<forall>r \<in> set (db_actions (xs_db s)). x_state r \<in> {XPending, XExecuting, XUnresolved} \<longrightarrow>
       (\<exists>e. lookup_by en_ref (x_ref r) (db_envelopes db') = Some e \<and>
          lookup_by en_ref (x_ref r) (db_envelopes (xs_db s)) = Some e \<and>
          en_operation_id e = Some (x_operation_id r) \<and>
          en_state e = (if x_state r = XUnresolved then EnUnresolved else EnPending))) \<and>
    (\<forall>ctx name payload oper inp spec ref request source i a x now'.
       stage_request env ctx name payload = Inr (oper, inp, spec, ref, request) \<and>
       lookup_by en_ref (rg_name oper, cr_key request) (db_envelopes db') = None \<and>
       (rg_name oper, cr_key request) \<in> x_ref ` set (db_actions (xs_db s)) \<longrightarrow>
       stage_external_in_transaction env ctx name payload source i a x now' db'
         \<in> {Inl (Raise_Refused key_reused), Inl Raise_Error})"
proof -
  have inv: "db_inv (xs_db s)" using xs_invD(1) [OF xs_reach_inv [OF assms(1-3)]] .
  let ?db = "xs_db s"
  have frame: "db' = ?db\<lparr>db_envelopes := db_envelopes db'\<rparr>" "db_actions db' = db_actions ?db"
    by (simp_all add: assms(4) [symmetric] purge_envelopes_def)
  have env: "db_envelopes db' = filter (\<lambda>e. now \<le> en_retained_until e \<or>
      protected_key (db_actions ?db) (en_ref e)) (db_envelopes ?db)"
    by (auto simp: assms(4) [symmetric] purge_envelopes_def purge_expired_def Let_def intro!: filter_cong)
  have protected: "protected_key (db_actions ?db) k \<longleftrightarrow> (\<exists>r \<in> set (db_actions ?db). x_ref r = k \<and>
      x_state r \<in> {XPending, XExecuting, XUnresolved})" for k
    by (auto simp: protected_key_def x_open_state_def)
  have kept: "\<exists>e. lookup_by en_ref (x_ref r) (db_envelopes db') = Some e \<and>
      lookup_by en_ref (x_ref r) (db_envelopes ?db) = Some e \<and>
      en_operation_id e = Some (x_operation_id r) \<and>
      en_state e = (if x_state r = XUnresolved then EnUnresolved else EnPending)"
    if r: "r \<in> set (db_actions ?db)" "x_state r \<in> {XPending, XExecuting, XUnresolved}" for r
  proof -
    have "rows_ok ?db r" by (rule db_invD(10) [OF inv r(1)])
    then obtain p :: approval and q :: operation where
      own: "\<forall>e. lookup_by en_ref (x_ref r) (db_envelopes ?db) = Some e \<longrightarrow> reservation_of_action r e"
      and phase: "phase_ok (x_state r) (x_job_id r \<noteq> None) (ap_state p) (o_state q)
        (map_option en_state (lookup_by en_ref (x_ref r) (db_envelopes ?db)))"
      unfolding rows_ok_def by blast
    from phase r(2) obtain e where e: "lookup_by en_ref (x_ref r) (db_envelopes ?db) = Some e"
      "en_state e = (if x_state r = XUnresolved then EnUnresolved else EnPending)"
      by (auto simp: stranded_def split: if_splits)
    have "protected_key (db_actions ?db) (en_ref e)"
      using r lookup_by_key [OF e(1)] by (auto simp: protected)
    with e own show ?thesis
      by (auto simp: env lookup_by_filter [OF db_invD(8) [OF inv]] reservation_of_action_def)
  qed
  have restage: "stage_external_in_transaction env ctx name payload source i a x now' db'
      \<in> {Inl (Raise_Refused key_reused), Inl Raise_Error}"
    if "stage_request env ctx name payload = Inr (oper, inp, spec, ref, request)"
      "lookup_by en_ref (rg_name oper, cr_key request) (db_envelopes db') = None"
      "(rg_name oper, cr_key request) \<in> x_ref ` set (db_actions ?db)"
    for ctx name payload oper inp spec ref request source i a x now'
  proof -
    from that(3) obtain r where "r \<in> set (db_actions db')" "x_ref r = (rg_name oper, cr_key request)"
      unfolding frame(2) by (metis imageE)
    with that(1,2) show ?thesis by (rule stage_after_purge)
  qed
  show ?thesis
    using frame(1) kept restage by (intro conjI) (auto simp: env protected)
qed

theorem purge_keeps_needed_envelopes_witness:
  "\<exists>e. lookup_by en_ref (x_ref sample_action) (db_envelopes (purge_envelopes 3000000000000 sample_approved)) = Some e \<and>
     lookup_by en_ref (x_ref sample_action) (db_envelopes sample_approved) = Some e"
proof -
  let ?r = "sample_action\<lparr>x_job_id := Some 5, x_updated_at := 1\<rparr>"
  note purged = purge_keeps_needed_envelopes [OF sample_reach_approved sample_honest sample_registered refl,
      THEN conjunct2, THEN conjunct2, THEN conjunct1, of 3000000000000]
  have r: "?r \<in> set (db_actions sample_approved)" "x_state ?r = XPending" "x_ref ?r = x_ref sample_action"
    by (simp_all add: sample_approved_def sample_action_def x_ref_def)
  have db: "xs_db ((xs_start () [] :: (unit, string list) xs)\<lparr>xs_db := sample_approved\<rparr>) = sample_approved"
    by simp
  show ?thesis using bspec [OF purged [unfolded db] r(1)] unfolding r(2,3) by blast
qed

end
