(* ===== verification/Settings.thy ===== *)
theory Settings
  imports Py_Text "HOL-Library.AList"
begin

text \<open>
  \<^verbatim>\<open>settings/schema.py\<close>, \<^verbatim>\<open>deployment.py\<close>, \<^verbatim>\<open>resolver.py\<close>, \<^verbatim>\<open>write_path.py\<close>: the
  declared keys, the layers a value comes from, and the floor a workspace or a member cannot relax.

  A \<^verbatim>\<open>dict\<close> that is iterated is an association list in its order. Reading files and the process
  environment is left out; the parsed table and the environment are arguments. \<open>uni\<close> is the Unicode
  database of decimal digits.
\<close>

section \<open>Values\<close>

datatype setting_scope = Deployment_Scope | Workspace_Scope | Member_Scope

datatype floor = Floor_Min | Floor_Union | Floor_Subset | Floor_And

datatype value_type = Str_Type | Int_Type | Bool_Type | List_Type

text \<open>A stored value, and a natively typed one as a TOML file or a caller may give it.\<close>

datatype setting_value = FStr utext | FInt int | FBool bool | FList "utext list"

datatype native = NStr utext | NInt int | NBool bool | NList "native list" | NOther

fun floor_type :: "floor \<Rightarrow> value_type" where
  "floor_type Floor_Min = Int_Type"
| "floor_type Floor_Union = List_Type"
| "floor_type Floor_Subset = List_Type"
| "floor_type Floor_And = Bool_Type"

fun is_native_str :: "native \<Rightarrow> bool" where
  "is_native_str (NStr _) = True"
| "is_native_str _ = False"

fun native_text :: "native \<Rightarrow> utext" where
  "native_text (NStr s) = s"
| "native_text _ = []"

fun matches_type :: "value_type \<Rightarrow> native \<Rightarrow> bool" where
  "matches_type Str_Type (NStr _) = True"
| "matches_type Int_Type (NInt _) = True"
| "matches_type Bool_Type (NBool _) = True"
| "matches_type List_Type (NList xs) = list_all is_native_str xs"
| "matches_type _ _ = False"

text \<open>For the values that match some type.\<close>

fun freeze_value :: "native \<Rightarrow> setting_value option" where
  "freeze_value (NStr s) = Some (FStr s)"
| "freeze_value (NInt n) = Some (FInt n)"
| "freeze_value (NBool b) = Some (FBool b)"
| "freeze_value (NList xs) =
     (if list_all is_native_str xs then Some (FList (map native_text xs)) else None)"
| "freeze_value NOther = None"

fun thaw_value :: "setting_value \<Rightarrow> native" where
  "thaw_value (FStr s) = NStr s"
| "thaw_value (FInt n) = NInt n"
| "thaw_value (FBool b) = NBool b"
| "thaw_value (FList xs) = NList (map NStr xs)"

fun type_of :: "setting_value \<Rightarrow> value_type" where
  "type_of (FStr _) = Str_Type"
| "type_of (FInt _) = Int_Type"
| "type_of (FBool _) = Bool_Type"
| "type_of (FList _) = List_Type"

section \<open>Declarations\<close>

record key_spec =
  sp_key :: string
  sp_type :: value_type
  sp_scope :: setting_scope
  sp_floor :: "floor option"
  sp_explicit :: bool
  sp_default :: setting_value
  sp_choices :: "utext list option"
  sp_minimum :: "int option"
  sp_maximum :: "int option"

datatype spec_problem =
  Key_Shape | Default_Type | Floor_Type | Choices_Type | Default_Choice | Bounds_Type
  | Bounds_Crossed | Default_Bounds

datatype setting_error =
  Setting_Undeclared string | Setting_Type string | Setting_Redeclared string
  | Setting_Origin_Refused string | Declaration_Mismatch | Settings_Type_Error | Settings_Value_Error

definition segment_ok :: "string \<Rightarrow> bool" where
  "segment_ok s \<longleftrightarrow>
     (case s of [] \<Rightarrow> False
      | c # cs \<Rightarrow> CHR ''a'' \<le> c \<and> c \<le> CHR ''z'' \<and>
          list_all (\<lambda>d. CHR ''a'' \<le> d \<and> d \<le> CHR ''z'' \<or> CHR ''0'' \<le> d \<and> d \<le> CHR ''9'' \<or>
            d = CHR ''_'') cs)"

definition key_shape :: "string \<Rightarrow> bool" where
  "key_shape key \<longleftrightarrow> list_all segment_ok (split_on CHR ''.'' key)"

definition out_of_bounds :: "key_spec \<Rightarrow> setting_value \<Rightarrow> bool" where
  "out_of_bounds sp v =
     (case v of
        FInt n \<Rightarrow>
          (case sp_minimum sp of Some m \<Rightarrow> n < m | None \<Rightarrow> False) \<or>
          (case sp_maximum sp of Some m \<Rightarrow> n > m | None \<Rightarrow> False)
      | _ \<Rightarrow> False)"

definition choice_ok :: "key_spec \<Rightarrow> setting_value \<Rightarrow> bool" where
  "choice_ok sp v = (case sp_choices sp of None \<Rightarrow> True | Some cs \<Rightarrow> v \<in> FStr ` set cs)"

text \<open>\<^verbatim>\<open>KeySpec.__post_init__\<close>: the first thing wrong with a declaration.\<close>

definition spec_problem_of :: "key_spec \<Rightarrow> spec_problem option" where
  "spec_problem_of sp =
     (if \<not> key_shape (sp_key sp) then Some Key_Shape
      else if type_of (sp_default sp) \<noteq> sp_type sp then Some Default_Type
      else if (case sp_floor sp of None \<Rightarrow> False | Some f \<Rightarrow> floor_type f \<noteq> sp_type sp)
      then Some Floor_Type
      else if sp_choices sp \<noteq> None \<and> sp_type sp \<noteq> Str_Type then Some Choices_Type
      else if \<not> choice_ok sp (sp_default sp) then Some Default_Choice
      else if sp_minimum sp = None \<and> sp_maximum sp = None then None
      else if sp_type sp \<noteq> Int_Type then Some Bounds_Type
      else if (case (sp_minimum sp, sp_maximum sp) of (Some a, Some b) \<Rightarrow> a > b | _ \<Rightarrow> False)
      then Some Bounds_Crossed
      else if out_of_bounds sp (sp_default sp) then Some Default_Bounds
      else None)"

section \<open>Checking and coding a value\<close>

definition check_value :: "key_spec \<Rightarrow> native \<Rightarrow> setting_error + setting_value" where
  "check_value sp v =
     (if \<not> matches_type (sp_type sp) v then Inl (Setting_Type (sp_key sp))
      else case freeze_value v of
        None \<Rightarrow> Inl Settings_Type_Error
      | Some w \<Rightarrow>
          if \<not> choice_ok sp w then Inl (Setting_Type (sp_key sp))
          else if out_of_bounds sp w then Inl (Setting_Type (sp_key sp))
          else Inr w)"

text \<open>\<^verbatim>\<open>lower()\<close> of ASCII: the only other characters that lower into ASCII lower into \<open>k\<close> and
  \<open>i\<close>, which no word has.\<close>

definition lower_code :: "nat \<Rightarrow> nat" where
  "lower_code c = (if 65 \<le> c \<and> c \<le> 90 then c + 32 else c)"

definition true_words :: "utext list" where
  "true_words = map utext_of [''1'', ''true'', ''yes'', ''on'']"

definition false_words :: "utext list" where
  "false_words = map utext_of [''0'', ''false'', ''no'', ''off'']"

fun decode_by :: "(nat \<Rightarrow> nat option) \<Rightarrow> value_type \<Rightarrow> utext \<Rightarrow> setting_value option" where
  "decode_by uni Str_Type text = Some (FStr text)"
| "decode_by uni Int_Type text = map_option FInt (py_int uni text)"
| "decode_by uni Bool_Type text =
     (let word = map lower_code (strip_chars unicode_space text)
      in if word \<in> set true_words then Some (FBool True)
         else if word \<in> set false_words then Some (FBool False) else None)"
| "decode_by uni List_Type text = Some (FList (comma_items text))"

definition decode_text ::
  "(nat \<Rightarrow> nat option) \<Rightarrow> key_spec \<Rightarrow> utext \<Rightarrow> setting_error + setting_value" where
  "decode_text uni sp text =
     (case decode_by uni (sp_type sp) text of
        None \<Rightarrow> Inl (Setting_Type (sp_key sp))
      | Some v \<Rightarrow>
          if choice_ok sp v \<and> \<not> out_of_bounds sp v then Inr v else Inl (Setting_Type (sp_key sp)))"

text \<open>Of a value of the declared type; \<open>None\<close> when Python will not print the integer.\<close>

fun encode_text :: "setting_value \<Rightarrow> utext option" where
  "encode_text (FStr s) = Some s"
| "encode_text (FInt n) = py_str_int n"
| "encode_text (FBool b) = Some (utext_of (if b then ''true'' else ''false''))"
| "encode_text (FList xs) = Some (join_commas xs)"

section \<open>The registry\<close>

type_synonym settings_registry = "(key_spec \<times> string) list"

definition core_origin :: string where "core_origin = ''core''"
definition harness_origin :: string where "harness_origin = ''test_harness''"

definition key_entry :: "string \<Rightarrow> settings_registry \<Rightarrow> (key_spec \<times> string) option" where
  "key_entry key reg = lookup_by (\<lambda>e. sp_key (fst e)) key reg"

definition lookup_spec :: "string \<Rightarrow> settings_registry \<Rightarrow> key_spec option" where
  "lookup_spec key reg = map_option fst (key_entry key reg)"

definition registered_specs :: "settings_registry \<Rightarrow> key_spec list" where
  "registered_specs reg = sort_key sp_key (map fst reg)"

definition keys_of_origin :: "string \<Rightarrow> settings_registry \<Rightarrow> string list" where
  "keys_of_origin origin reg = map (\<lambda>e. sp_key (fst e)) (filter (\<lambda>e. snd e = origin) reg)"

definition explicit_per_workspace :: "settings_registry \<Rightarrow> key_spec list" where
  "explicit_per_workspace reg = filter sp_explicit (registered_specs reg)"

text \<open>\<open>profile\<close> is what \<^verbatim>\<open>current_profile()\<close> gives or raises, asked for a harness key only.\<close>

definition register_spec ::
  "setting_error + utext \<Rightarrow> key_spec \<Rightarrow> string \<Rightarrow> settings_registry \<Rightarrow>
   setting_error + settings_registry" where
  "register_spec profile sp origin reg =
     (if origin = [] then Inl Settings_Value_Error
      else case (if origin = harness_origin then profile else Inr (utext_of ''test'')) of
        Inl e \<Rightarrow> Inl e
      | Inr p \<Rightarrow>
          if p \<noteq> utext_of ''test'' then Inl (Setting_Origin_Refused (sp_key sp))
          else (case key_entry (sp_key sp) reg of
                  Some e \<Rightarrow> if e = (sp, origin) then Inr reg else Inl (Setting_Redeclared (sp_key sp))
                | None \<Rightarrow> Inr (reg @ [(sp, origin)])))"

section \<open>The deployment layer\<close>

datatype toml = Toml_Table "(string \<times> toml) list" | Toml_Value native

text \<open>\<^verbatim>\<open>flatten_table\<close>; a later entry of the same dotted key replaces an earlier one in its place.\<close>

fun flatten_table :: "string \<Rightarrow> (string \<times> toml) list \<Rightarrow> (string \<times> native) list \<Rightarrow>
    (string \<times> native) list"
  and flatten_entry :: "string \<Rightarrow> toml \<Rightarrow> (string \<times> native) list \<Rightarrow> (string \<times> native) list" where
  "flatten_table prefix [] flat = flat"
| "flatten_table prefix ((name, v) # rest) flat =
     flatten_table prefix rest (flatten_entry (prefix @ name) v flat)"
| "flatten_entry key (Toml_Table t) flat = flatten_table (key @ ''.'') t flat"
| "flatten_entry key (Toml_Value v) flat = AList.update key v flat"

type_synonym layer = "(string \<times> setting_value) list"

fun load_toml :: "settings_registry \<Rightarrow> (string \<times> native) list \<Rightarrow> layer \<Rightarrow> setting_error + layer" where
  "load_toml reg [] acc = Inr acc"
| "load_toml reg ((key, v) # rest) acc =
     (case lookup_spec key reg of
        None \<Rightarrow> Inl (Setting_Undeclared key)
      | Some sp \<Rightarrow>
          (case check_value sp v of
             Inl e \<Rightarrow> Inl e
           | Inr w \<Rightarrow> load_toml reg rest (AList.update key w acc)))"

definition env_prefix :: string where "env_prefix = ''RHEO__''"
definition profile_variable :: string where "profile_variable = ''RHEO_PROFILE''"
definition profile_key :: string where "profile_key = ''profile''"

definition upper_char :: "char \<Rightarrow> char" where
  "upper_char c = (if CHR ''a'' \<le> c \<and> c \<le> CHR ''z'' then char_of (of_char c - 32 :: nat) else c)"

definition env_name :: "string \<Rightarrow> string" where
  "env_name key =
     env_prefix @ concat (map (\<lambda>c. if c = CHR ''.'' then ''__'' else [c]) key)"

definition env_variable_names :: "string \<Rightarrow> string list" where
  "env_variable_names key = [env_name key, map upper_char (env_name key)]"

type_synonym environment = "(string \<times> utext) list"

definition env_value :: "string \<Rightarrow> environment \<Rightarrow> utext option" where
  "env_value key environ =
     (case filter (\<lambda>n. map_of environ n \<noteq> None) (env_variable_names key) of
        [] \<Rightarrow> None | n # _ \<Rightarrow> map_of environ n)"

fun load_variables ::
  "(nat \<Rightarrow> nat option) \<Rightarrow> environment \<Rightarrow> key_spec list \<Rightarrow> layer \<Rightarrow> setting_error + layer" where
  "load_variables uni environ [] acc = Inr acc"
| "load_variables uni environ (sp # sps) acc =
     (case env_value (sp_key sp) environ of
        None \<Rightarrow> load_variables uni environ sps acc
      | Some text \<Rightarrow>
          (case decode_text uni sp text of
             Inl e \<Rightarrow> Inl e
           | Inr v \<Rightarrow> load_variables uni environ sps (AList.update (sp_key sp) v acc)))"

definition stray_variables :: "settings_registry \<Rightarrow> environment \<Rightarrow> string list" where
  "stray_variables reg environ =
     sort (filter (\<lambda>n. take (length env_prefix) n = env_prefix \<and>
         n \<notin> set (concat (map (\<lambda>e. env_variable_names (sp_key (fst e))) reg)))
       (map fst environ))"

fun undouble :: "string \<Rightarrow> string" where
  "undouble (c # d # s) =
     (if c = CHR ''_'' \<and> d = CHR ''_'' then CHR ''.'' # undouble s else c # undouble (d # s))"
| "undouble s = s"

definition lower_char :: "char \<Rightarrow> char" where
  "lower_char c = (if CHR ''A'' \<le> c \<and> c \<le> CHR ''Z'' then char_of (of_char c + 32 :: nat) else c)"

definition stray_key :: "string \<Rightarrow> string" where
  "stray_key n = map lower_char (undouble (drop (length env_prefix) n))"

definition load_environment ::
  "(nat \<Rightarrow> nat option) \<Rightarrow> settings_registry \<Rightarrow> environment \<Rightarrow> setting_error + layer" where
  "load_environment uni reg environ =
     (case load_variables uni environ (registered_specs reg) [] of
        Inl e \<Rightarrow> Inl e
      | Inr acc \<Rightarrow>
          (case (case map_of environ profile_variable of
                   None \<Rightarrow> Inr acc
                 | Some text \<Rightarrow>
                     (case lookup_spec profile_key reg of
                        None \<Rightarrow> Inl (Setting_Undeclared profile_key)
                      | Some sp \<Rightarrow>
                          (case decode_text uni sp text of
                             Inl e \<Rightarrow> Inl e
                           | Inr v \<Rightarrow> Inr (AList.update profile_key v acc)))) of
             Inl e \<Rightarrow> Inl e
           | Inr acc' \<Rightarrow>
               (case stray_variables reg environ of
                  [] \<Rightarrow> Inr acc'
                | n # _ \<Rightarrow> Inl (Setting_Undeclared (stray_key n)))))"

text \<open>\<open>table\<close>: the parsed \<^verbatim>\<open>deployment.toml\<close>, empty when there is none.\<close>

definition deployment_layer ::
  "(nat \<Rightarrow> nat option) \<Rightarrow> settings_registry \<Rightarrow> (string \<times> toml) list \<Rightarrow> environment \<Rightarrow>
   setting_error + layer" where
  "deployment_layer uni reg table environ =
     (case load_toml reg (flatten_table [] table []) [] of
        Inl e \<Rightarrow> Inl e
      | Inr file \<Rightarrow>
          (case load_environment uni reg environ of
             Inl e \<Rightarrow> Inl e
           | Inr env \<Rightarrow> Inr (foldl (\<lambda>l (k, v). AList.update k v l) file env)))"

section \<open>Floors\<close>

text \<open>\<open>None\<close> is the \<^verbatim>\<open>TypeError\<close> of a value the floor has no comparison for.\<close>

fun apply_floor :: "floor \<Rightarrow> setting_value \<Rightarrow> setting_value \<Rightarrow> setting_value option" where
  "apply_floor Floor_Min (FInt d) (FInt v) = Some (FInt (min d v))"
| "apply_floor Floor_Union (FList d) (FList v) = Some (FList (d @ filter (\<lambda>x. x \<notin> set d) v))"
| "apply_floor Floor_Subset (FList d) (FList v) = Some (FList (filter (\<lambda>x. x \<in> set v) d))"
| "apply_floor Floor_And (FBool d) (FBool v) = Some (FBool (d \<and> v))"
| "apply_floor _ _ _ = None"

fun is_looser :: "floor \<Rightarrow> setting_value \<Rightarrow> setting_value \<Rightarrow> bool option" where
  "is_looser Floor_Min (FInt d) (FInt v) = Some (v > d)"
| "is_looser Floor_Union (FList d) (FList v) = Some (\<not> set d \<subseteq> set v)"
| "is_looser Floor_Subset (FList d) (FList v) = Some (\<not> set v \<subseteq> set d)"
| "is_looser Floor_And (FBool d) (FBool v) = Some (v \<and> \<not> d)"
| "is_looser _ _ _ = None"

section \<open>Resolution\<close>

type_synonym setting_map = "string \<rightharpoonup> setting_value"

text \<open>One row over the values so far; a row that does not apply is ignored.\<close>

definition apply_row ::
  "(nat \<Rightarrow> nat option) \<Rightarrow> settings_registry \<Rightarrow> setting_scope \<Rightarrow> string \<times> utext \<Rightarrow>
   setting_map \<times> string set \<Rightarrow> setting_error + setting_map \<times> string set" where
  "apply_row uni reg scope = (\<lambda>(key, text) (values, applied).
     (case lookup_spec key reg of
        None \<Rightarrow> Inr (values, applied)
      | Some sp \<Rightarrow>
          if sp_scope sp \<noteq> scope then Inr (values, applied)
          else (case decode_text uni sp text of
                  Inl _ \<Rightarrow> Inr (values, applied)
                | Inr v \<Rightarrow>
                    (case (case sp_floor sp of None \<Rightarrow> Some v
                           | Some f \<Rightarrow> (case values key of None \<Rightarrow> None | Some d \<Rightarrow> apply_floor f d v)) of
                       None \<Rightarrow> Inl Settings_Type_Error
                     | Some w \<Rightarrow> Inr (values(key \<mapsto> w), insert key applied)))))"

fun apply_rows ::
  "(nat \<Rightarrow> nat option) \<Rightarrow> settings_registry \<Rightarrow> setting_scope \<Rightarrow> (string \<times> utext) list \<Rightarrow>
   setting_map \<times> string set \<Rightarrow> setting_error + setting_map \<times> string set" where
  "apply_rows uni reg scope [] s = Inr s"
| "apply_rows uni reg scope (r # rs) s =
     (case apply_row uni reg scope r s of Inl e \<Rightarrow> Inl e | Inr s' \<Rightarrow> apply_rows uni reg scope rs s')"

definition base_values :: "settings_registry \<Rightarrow> layer \<Rightarrow> setting_map" where
  "base_values reg deployment =
     map_of (map (\<lambda>sp. (sp_key sp, sp_default sp)) (registered_specs reg)) ++ map_of deployment"

text \<open>\<open>workspace\<close> and \<open>member\<close>: the override rows, \<open>None\<close> when not asked for.\<close>

definition resolve_settings ::
  "(nat \<Rightarrow> nat option) \<Rightarrow> settings_registry \<Rightarrow> layer \<Rightarrow> (string \<times> utext) list option \<Rightarrow>
   (string \<times> utext) list option \<Rightarrow> setting_error + setting_map \<times> string set" where
  "resolve_settings uni reg deployment workspace member =
     (case workspace of
        None \<Rightarrow> Inr (base_values reg deployment, {})
      | Some rows \<Rightarrow>
          (case apply_rows uni reg Workspace_Scope rows (base_values reg deployment, {}) of
             Inl e \<Rightarrow> Inl e
           | Inr (values, keys) \<Rightarrow>
               (case member of
                  None \<Rightarrow> Inr (values, keys)
                | Some mrows \<Rightarrow>
                    (case apply_rows uni reg Member_Scope mrows (values, {}) of
                       Inl e \<Rightarrow> Inl e | Inr (values', _) \<Rightarrow> Inr (values', keys)))))"

text \<open>The resolved mapping's lookups.\<close>

definition setting_item :: "string \<Rightarrow> setting_map \<Rightarrow> setting_error + native" where
  "setting_item key values =
     (case values key of None \<Rightarrow> Inl (Setting_Undeclared key) | Some v \<Rightarrow> Inr (thaw_value v))"

definition set_by_workspace :: "string \<Rightarrow> setting_map \<times> string set \<Rightarrow> bool" where
  "set_by_workspace key s \<longleftrightarrow> key \<in> snd s"

definition typed_setting ::
  "settings_registry \<Rightarrow> string \<Rightarrow> value_type \<Rightarrow> setting_map \<Rightarrow> setting_error + setting_value" where
  "typed_setting reg key ty values =
     (case lookup_spec key reg of
        None \<Rightarrow> Inl (Setting_Undeclared key)
      | Some sp \<Rightarrow>
          if sp_type sp \<noteq> ty then Inl (Setting_Type key)
          else (case values key of None \<Rightarrow> Inl (Setting_Undeclared key) | Some v \<Rightarrow> Inr v))"

section \<open>Writing\<close>

datatype setting_refusal = Refuse_Undeclared | Refuse_Scope | Refuse_Type | Refuse_Floor

record accepted_setting =
  sa_key :: string
  sa_value :: setting_value
  sa_encoded :: utext
  sa_type :: value_type

text \<open>\<open>Inl\<close> is an exception, \<open>Inr (Inl _)\<close> a refusal that is answered.\<close>

definition validate_override ::
  "settings_registry \<Rightarrow> string \<Rightarrow> native \<Rightarrow> native \<Rightarrow> setting_scope \<Rightarrow>
   setting_error + setting_refusal + accepted_setting" where
  "validate_override reg key v deployment_value scope =
     (case lookup_spec key reg of
        None \<Rightarrow> Inr (Inl Refuse_Undeclared)
      | Some sp \<Rightarrow>
          if scope = Deployment_Scope \<or> sp_scope sp \<noteq> scope then Inr (Inl Refuse_Scope)
          else if \<not> matches_type (sp_type sp) v then Inr (Inl Refuse_Type)
          else (case freeze_value v of None \<Rightarrow> Inl Settings_Type_Error
          | Some w \<Rightarrow>
            if \<not> choice_ok sp w \<or> out_of_bounds sp w then Inr (Inl Refuse_Type)
            else (let accept = (case encode_text w of
                    None \<Rightarrow> Inl Settings_Value_Error
                  | Some t \<Rightarrow> Inr (Inr \<lparr>sa_key = key, sa_value = w, sa_encoded = t, sa_type = sp_type sp\<rparr>))
                  in case sp_floor sp of None \<Rightarrow> accept
                     | Some f \<Rightarrow>
                         (case check_value sp deployment_value of Inl e \<Rightarrow> Inl e
                          | Inr base \<Rightarrow>
                              (case is_looser f base w of
                                 None \<Rightarrow> Inl Settings_Type_Error
                               | Some True \<Rightarrow> Inr (Inl Refuse_Floor)
                               | Some False \<Rightarrow> accept)))))"

text \<open>\<^verbatim>\<open>core.settings.set\<close>, and \<^verbatim>\<open>set_member\<close> once it has found an account: the row replaces
  the one of its key.\<close>

definition write_setting ::
  "settings_registry \<Rightarrow> layer \<Rightarrow> setting_scope \<Rightarrow> string \<Rightarrow> native \<Rightarrow> (string \<times> utext) list \<Rightarrow>
   setting_error + setting_refusal + (string \<times> utext) list" where
  "write_setting reg deployment scope key v rows =
     (let deployment_value =
        (if lookup_spec key reg = None then NOther
         else case base_values reg deployment key of None \<Rightarrow> NOther | Some d \<Rightarrow> thaw_value d)
      in case validate_override reg key v deployment_value scope of
           Inl e \<Rightarrow> Inl e
         | Inr (Inl r) \<Rightarrow> Inr (Inl r)
         | Inr (Inr a) \<Rightarrow> Inr (Inr (AList.update key (sa_encoded a) rows)))"

section \<open>Well-formed registries and values\<close>

definition value_ok :: "key_spec \<Rightarrow> setting_value \<Rightarrow> bool" where
  "value_ok sp v \<longleftrightarrow> type_of v = sp_type sp \<and> choice_ok sp v \<and> \<not> out_of_bounds sp v"

definition settings_ok :: "settings_registry \<Rightarrow> bool" where
  "settings_ok reg \<longleftrightarrow>
     unique_by (\<lambda>e. sp_key (fst e)) reg \<and> (\<forall>e \<in> set reg. spec_problem_of (fst e) = None)"

lemma spec_ok_default: "spec_problem_of sp = None \<Longrightarrow> value_ok sp (sp_default sp)"
  by (auto simp: spec_problem_of_def value_ok_def out_of_bounds_def split: if_splits option.splits setting_value.splits)

lemma spec_ok_floor: "spec_problem_of sp = None \<Longrightarrow> sp_floor sp = Some f \<Longrightarrow> floor_type f = sp_type sp"
  by (auto simp: spec_problem_of_def split: if_splits)

lemma spec_ok_choices: "spec_problem_of sp = None \<Longrightarrow> sp_type sp \<noteq> Str_Type \<Longrightarrow> choice_ok sp v"
  by (auto simp: spec_problem_of_def choice_ok_def split: if_splits)

lemma declared_ok:
  assumes "settings_ok reg" "lookup_spec key reg = Some sp"
  shows "spec_problem_of sp = None" "sp_key sp = key"
proof -
  from assms(2) obtain o' where "key_entry key reg = Some (sp, o')" by (auto simp: lookup_spec_def)
  then have "(sp, o') \<in> set reg" "sp_key sp = key"
    unfolding key_entry_def using lookup_by_in lookup_by_key by fastforce+
  with assms(1) show "spec_problem_of sp = None" "sp_key sp = key" by (auto simp: settings_ok_def)
qed

text \<open>Registration keeps it.\<close>

lemma register_spec_ok:
  assumes "register_spec profile sp origin reg = Inr reg'" "settings_ok reg" "spec_problem_of sp = None"
  shows "settings_ok reg'"
  using assms
  by (auto simp: register_spec_def settings_ok_def key_entry_def unique_by_def split: if_splits sum.splits option.splits
      dest: lookup_by_None [THEN iffD1])

lemma checked_value_ok: "check_value sp v = Inr w \<Longrightarrow> value_ok sp w"
  by (cases "sp_type sp"; cases v) (auto simp: check_value_def value_ok_def split: if_splits option.splits)

lemma decode_by_type: "decode_by uni ty text = Some v \<Longrightarrow> type_of v = ty"
  by (cases ty) (auto simp: Let_def split: if_splits)

lemma decoded_value_ok: "decode_text uni sp text = Inr v \<Longrightarrow> value_ok sp v"
  by (auto simp: decode_text_def value_ok_def decode_by_type split: option.splits if_splits)

lemma thawed_freezes [simp]: "freeze_value (thaw_value v) = Some v"
  by (cases v) (auto simp: list_all_iff o_def)

lemma thawed_matches [simp]: "matches_type ty (thaw_value v) \<longleftrightarrow> type_of v = ty"
  by (cases v; cases ty) (auto simp: list_all_iff)

lemma check_thawed: "value_ok sp v \<Longrightarrow> check_value sp (thaw_value v) = Inr v"
  by (simp add: check_value_def value_ok_def)

lemma frozen_type: "matches_type ty v \<Longrightarrow> freeze_value v = Some w \<Longrightarrow> type_of w = ty"
  by (cases ty; cases v) (auto split: if_splits)

section \<open>Floors do not loosen\<close>

lemma floor_applies:
  assumes "floor_type f = type_of d" "type_of v = type_of d"
  obtains w where "apply_floor f d v = Some w" "type_of w = type_of d"
  using that assms by (cases f; cases d; cases v) auto

lemma floor_not_looser:
  assumes "is_looser f base d = Some False" "apply_floor f d v = Some w"
  shows "is_looser f base w = Some False"
  using assms by (cases f; cases base; cases d; cases v) auto

lemma floor_reflexive: "floor_type f = type_of d \<Longrightarrow> is_looser f d d = Some False"
  by (cases f; cases d) auto

lemma floor_in_bounds:
  assumes "apply_floor f d v = Some w" "\<not> out_of_bounds sp d" "\<not> out_of_bounds sp v"
  shows "\<not> out_of_bounds sp w"
  using assms by (cases f; cases d; cases v) (auto simp: out_of_bounds_def min_def split: option.splits if_splits)

lemma floor_value_ok:
  assumes sp: "spec_problem_of sp = None" "sp_floor sp = Some f" and d: "value_ok sp d" and v: "value_ok sp v"
  obtains w where "apply_floor f d v = Some w" "value_ok sp w"
proof -
  from spec_ok_floor [OF sp] d v have t: "floor_type f = type_of d" "type_of v = type_of d"
    by (simp_all add: value_ok_def)
  from t obtain w where w: "apply_floor f d v = Some w" "type_of w = type_of d" by (rule floor_applies)
  have "sp_type sp \<noteq> Str_Type" using spec_ok_floor [OF sp] by (cases f) auto
  with w d v floor_in_bounds [OF w(1), of sp] spec_ok_choices [OF sp(1)] show thesis
    by (intro that [of w]) (auto simp: value_ok_def)
qed

text \<open>A value that was accepted under its floor is what the floor then gives, lists up to order.\<close>

fun same_setting :: "setting_value \<Rightarrow> setting_value \<Rightarrow> bool" where
  "same_setting (FList xs) (FList ys) \<longleftrightarrow> set xs = set ys"
| "same_setting v w \<longleftrightarrow> v = w"

lemma same_setting_refl [simp]: "same_setting v v"
  by (cases v) auto

lemma floor_of_accepted:
  "is_looser f d v = Some False \<Longrightarrow> apply_floor f d v = Some w \<Longrightarrow> same_setting v w"
  by (cases f; cases d; cases v) auto

section \<open>The layers\<close>

definition layer_ok :: "settings_registry \<Rightarrow> layer \<Rightarrow> bool" where
  "layer_ok reg l \<longleftrightarrow>
     (\<forall>(key, v) \<in> set l. \<exists>sp. lookup_spec key reg = Some sp \<and> value_ok sp v)"

lemma layer_ok_update:
  "layer_ok reg l \<Longrightarrow> lookup_spec key reg = Some sp \<Longrightarrow> value_ok sp v \<Longrightarrow> layer_ok reg (AList.update key v l)"
  by (induction l) (auto simp: layer_ok_def)

lemma layer_okD:
  "layer_ok reg l \<Longrightarrow> map_of l key = Some v \<Longrightarrow> \<exists>sp. lookup_spec key reg = Some sp \<and> value_ok sp v"
  by (auto simp: layer_ok_def dest!: map_of_SomeD)

lemma load_toml_ok: "load_toml reg flat acc = Inr l \<Longrightarrow> layer_ok reg acc \<Longrightarrow> layer_ok reg l"
proof (induction reg flat acc rule: load_toml.induct)
  case (2 reg key v rest acc)
  from 2(2) obtain sp w where sp: "lookup_spec key reg = Some sp" "check_value sp v = Inr w"
    "load_toml reg rest (AList.update key w acc) = Inr l"
    by (auto split: option.splits sum.splits)
  show ?case
    by (rule 2(1) [OF sp(1) sp(2) sp(3)]) (rule layer_ok_update [OF 2(3) sp(1) checked_value_ok [OF sp(2)]])
qed simp

lemma registered_specs_lookup:
  assumes "settings_ok reg" "sp \<in> set (registered_specs reg)"
  shows "lookup_spec (sp_key sp) reg = Some sp"
proof -
  from assms(2) obtain o' where "(sp, o') \<in> set reg" by (auto simp: registered_specs_def)
  with assms(1) have "key_entry (sp_key sp) reg = Some (sp, o')"
    by (simp add: key_entry_def settings_ok_def lookup_by_unique)
  then show ?thesis by (simp add: lookup_spec_def)
qed

lemma load_variables_ok:
  "load_variables uni environ sps acc = Inr l \<Longrightarrow> layer_ok reg acc \<Longrightarrow> settings_ok reg \<Longrightarrow>
   set sps \<subseteq> set (registered_specs reg) \<Longrightarrow> layer_ok reg l"
proof (induction uni environ sps acc rule: load_variables.induct)
  case (2 uni environ sp sps acc)
  have look: "lookup_spec (sp_key sp) reg = Some sp" using 2 by (intro registered_specs_lookup) auto
  show ?case
  proof (cases "env_value (sp_key sp) environ")
    case None
    with 2 show ?thesis by simp
  next
    case (Some tx)
    with 2 obtain v where v: "decode_text uni sp tx = Inr v"
      "load_variables uni environ sps (AList.update (sp_key sp) v acc) = Inr l"
      by (auto split: sum.splits)
    with 2 look decoded_value_ok [OF v(1)] Some show ?thesis by (simp add: layer_ok_update)
  qed
qed simp

lemma load_environment_ok:
  assumes "load_environment uni reg environ = Inr l" "settings_ok reg"
  shows "layer_ok reg l" "stray_variables reg environ = []"
proof -
  from assms(1) obtain acc where acc: "load_variables uni environ (registered_specs reg) [] = Inr acc"
    and "stray_variables reg environ = []"
    by (auto simp: load_environment_def split: sum.splits option.splits list.splits)
  then show "stray_variables reg environ = []" by simp
  have "layer_ok reg acc" using load_variables_ok [OF acc _ assms(2)] by (simp add: layer_ok_def)
  with assms acc show "layer_ok reg l"
    by (auto simp: load_environment_def split: sum.splits option.splits list.splits
        dest!: decoded_value_ok dest: layer_ok_update)
qed

lemma update_layer_ok:
  "layer_ok reg l \<Longrightarrow> layer_ok reg l' \<Longrightarrow> layer_ok reg (foldl (\<lambda>l (k, v). AList.update k v l) l l')"
proof (induction l' arbitrary: l)
  case (Cons e l')
  obtain key v where e: "e = (key, v)" by (cases e)
  with Cons.prems obtain sp where "lookup_spec key reg = Some sp" "value_ok sp v" "layer_ok reg l'"
    by (auto simp: layer_ok_def)
  with Cons e show ?case by (simp add: layer_ok_update)
qed simp

lemma deployment_layer_ok:
  assumes "deployment_layer uni reg table environ = Inr l" "settings_ok reg"
  shows "layer_ok reg l" "stray_variables reg environ = []"
proof -
  from assms(1) obtain fl env where f: "load_toml reg (flatten_table [] table []) [] = Inr fl"
    and e: "load_environment uni reg environ = Inr env"
    and l: "l = foldl (\<lambda>l (k, v). AList.update k v l) fl env"
    by (auto simp: deployment_layer_def split: sum.splits)
  show "stray_variables reg environ = []" by (rule load_environment_ok [OF e assms(2)])
  have "layer_ok reg fl" using load_toml_ok [OF f] by (simp add: layer_ok_def)
  then show "layer_ok reg l" unfolding l by (rule update_layer_ok) (rule load_environment_ok [OF e assms(2)])
qed

section \<open>Resolved values\<close>

text \<open>Every declared key has a value of its declaration, no looser than the deployment's.\<close>

definition resolved_ok :: "settings_registry \<Rightarrow> setting_map \<Rightarrow> setting_map \<Rightarrow> bool" where
  "resolved_ok reg base values \<longleftrightarrow>
     (\<forall>key sp. lookup_spec key reg = Some sp \<longrightarrow>
        (\<exists>d v. base key = Some d \<and> values key = Some v \<and> value_ok sp v \<and>
           (\<forall>f. sp_floor sp = Some f \<longrightarrow> is_looser f d v = Some False)))"

lemma base_values_ok:
  assumes "settings_ok reg" "layer_ok reg dep"
  shows "resolved_ok reg (base_values reg dep) (base_values reg dep)"
  unfolding resolved_ok_def
proof (intro allI impI)
  fix key sp assume look: "lookup_spec key reg = Some sp"
  note sp = declared_ok [OF assms(1) look]
  have "\<exists>v. base_values reg dep key = Some v \<and> value_ok sp v"
  proof (cases "map_of dep key")
    case (Some v)
    with layer_okD [OF assms(2) Some] look show ?thesis by (auto simp: base_values_def)
  next
    case None
    let ?ds = "map (\<lambda>sp. (sp_key sp, sp_default sp)) (registered_specs reg)"
    have mem: "sp \<in> set (registered_specs reg)"
      using look unfolding lookup_spec_def key_entry_def registered_specs_def
      by (auto dest!: lookup_by_in intro: rev_image_eqI)
    have one: "x = sp" if "x \<in> set (registered_specs reg)" "sp_key x = key" for x
      using registered_specs_lookup [OF assms(1) that(1)] that(2) look by simp
    from mem sp(2) obtain d where d: "map_of ?ds key = Some d"
      by (metis (mono_tags, lifting) image_eqI image_set map_of_eq_None_iff not_None_eq fst_conv list.map_comp o_def)
    then obtain x where "x \<in> set (registered_specs reg)" "sp_key x = key" "d = sp_default x"
      by (auto dest!: map_of_SomeD)
    with one have "d = sp_default sp" by simp
    with d None spec_ok_default [OF sp(1)] show ?thesis by (simp add: base_values_def map_add_def)
  qed
  then obtain v where v: "base_values reg dep key = Some v" "value_ok sp v" by blast
  then show "\<exists>d v. base_values reg dep key = Some d \<and> base_values reg dep key = Some v \<and> value_ok sp v \<and>
      (\<forall>f. sp_floor sp = Some f \<longrightarrow> is_looser f d v = Some False)"
    using spec_ok_floor [OF sp(1)] by (auto simp: value_ok_def intro: floor_reflexive)
qed

lemma apply_row_ok:
  assumes reg: "settings_ok reg" and ok: "resolved_ok reg base (fst s)"
  shows "\<exists>s'. apply_row uni reg scope r s = Inr s' \<and> resolved_ok reg base (fst s') \<and>
    (\<forall>k. k \<noteq> fst r \<longrightarrow> fst s' k = fst s k) \<and> snd s \<subseteq> snd s'"
proof -
  obtain key tx vals applied where r: "r = (key, tx)" and s: "s = (vals, applied)" by fastforce
  show ?thesis
  proof (cases "\<exists>sp v. lookup_spec key reg = Some sp \<and> sp_scope sp = scope \<and> decode_text uni sp tx = Inr v")
    case False
    then have "apply_row uni reg scope r s = Inr s"
      by (auto simp: apply_row_def r s split: option.splits sum.splits)
    with ok show ?thesis by simp
  next
    case True
    then obtain sp v where look: "lookup_spec key reg = Some sp" "sp_scope sp = scope"
      and v: "decode_text uni sp tx = Inr v" by blast
    note sp = declared_ok [OF reg look(1)]
    from ok look(1) obtain d c where c: "base key = Some d" "vals key = Some c" "value_ok sp c"
      "\<forall>f. sp_floor sp = Some f \<longrightarrow> is_looser f d c = Some False"
      unfolding resolved_ok_def s fst_conv by blast
    have "\<exists>w. (case sp_floor sp of None \<Rightarrow> Some v | Some f \<Rightarrow> apply_floor f c v) = Some w \<and> value_ok sp w \<and>
      (\<forall>f. sp_floor sp = Some f \<longrightarrow> is_looser f d w = Some False)"
    proof (cases "sp_floor sp")
      case None
      with decoded_value_ok [OF v] show ?thesis by simp
    next
      case (Some f)
      from floor_value_ok [OF sp(1) Some c(3) decoded_value_ok [OF v]] obtain w where
        "apply_floor f c v = Some w" "value_ok sp w" .
      with c(4) Some floor_not_looser show ?thesis by auto
    qed
    then obtain w where w: "(case sp_floor sp of None \<Rightarrow> Some v | Some f \<Rightarrow> apply_floor f c v) = Some w"
      "value_ok sp w" "\<forall>f. sp_floor sp = Some f \<longrightarrow> is_looser f d w = Some False" by blast
    have "apply_row uni reg scope r s = Inr (vals(key \<mapsto> w), insert key applied)"
      using look v c(2) w(1) by (cases "sp_floor sp") (simp_all add: apply_row_def r s)
    moreover have "resolved_ok reg base (vals(key \<mapsto> w))"
      using ok look(1) w(2,3) c(1) by (simp add: resolved_ok_def s)
    ultimately show ?thesis by (simp add: r s subset_insertI)
  qed
qed

lemma apply_rows_ok:
  assumes reg: "settings_ok reg"
  shows "resolved_ok reg base (fst s) \<Longrightarrow> \<exists>s'. apply_rows uni reg scope rs s = Inr s' \<and>
    resolved_ok reg base (fst s') \<and> (\<forall>k. k \<notin> fst ` set rs \<longrightarrow> fst s' k = fst s k) \<and> snd s \<subseteq> snd s'"
proof (induction rs arbitrary: s)
  case (Cons r rs)
  from apply_row_ok [OF reg Cons.prems, of uni scope r] obtain s1 where
    s1: "apply_row uni reg scope r s = Inr s1" "resolved_ok reg base (fst s1)"
    "\<forall>k. k \<noteq> fst r \<longrightarrow> fst s1 k = fst s k" "snd s \<subseteq> snd s1" by blast
  from Cons.IH [OF s1(2)] s1 show ?case by fastforce
qed simp

section \<open>What settings guarantee\<close>

text \<open>Whatever override rows a workspace and its members have, written before or after the operator
  changed the deployment, resolution never raises, every declared key gets a value of its declared type,
  choices and range, and a floored key never a looser one than the deployment's.\<close>

theorem resolved_settings_hold_floor:
  assumes "settings_ok reg" "deployment_layer uni reg table environ = Inr dep"
  shows "\<exists>values keys. resolve_settings uni reg dep workspace member = Inr (values, keys) \<and>
    (\<forall>key sp. lookup_spec key reg = Some sp \<longrightarrow>
      (\<exists>d v. base_values reg dep key = Some d \<and> values key = Some v \<and> value_ok sp v \<and>
         (\<forall>f. sp_floor sp = Some f \<longrightarrow> is_looser f d v = Some False)))"
proof -
  let ?base = "base_values reg dep"
  have base: "resolved_ok reg ?base (fst (?base, {}))"
    using base_values_ok [OF assms(1) deployment_layer_ok(1) [OF assms(2,1)]] by simp
  have "\<exists>s. resolve_settings uni reg dep workspace member = Inr s \<and> resolved_ok reg ?base (fst s)"
  proof (cases workspace)
    case None
    with base show ?thesis by (simp add: resolve_settings_def)
  next
    case (Some rows)
    from apply_rows_ok [OF assms(1) base, of uni Workspace_Scope rows] obtain vs ks where
      w: "apply_rows uni reg Workspace_Scope rows (?base, {}) = Inr (vs, ks)" "resolved_ok reg ?base vs" by auto
    show ?thesis
    proof (cases member)
      case None
      with Some w show ?thesis by (simp add: resolve_settings_def)
    next
      case (Some mrows)
      have "resolved_ok reg ?base (fst (vs, {}))" using w(2) by simp
      from apply_rows_ok [OF assms(1) this, of uni Member_Scope mrows] obtain vs' ks' where
        "apply_rows uni reg Member_Scope mrows (vs, {}) = Inr (vs', ks')" "resolved_ok reg ?base vs'" by auto
      with Some w \<open>workspace = Some rows\<close> show ?thesis by (simp add: resolve_settings_def)
    qed
  qed
  then obtain vs ks where "resolve_settings uni reg dep workspace member = Inr (vs, ks)"
    "resolved_ok reg ?base vs" by auto
  then show ?thesis unfolding resolved_ok_def by blast
qed

section \<open>A written setting is read back\<close>

lemma decode_encode:
  assumes "value_ok sp v" "encode_text v = Some text" "\<And>xs. v = FList xs \<Longrightarrow> list_all plain_item xs"
  shows "decode_text uni sp text = Inr v"
proof -
  have "decode_by uni (type_of v) text = Some v"
  proof (cases v)
    case (FBool b)
    with assms(2) have "text = utext_of (if b then ''true'' else ''false'')" by simp
    moreover have "decode_by uni Bool_Type (utext_of ''true'') = Some (FBool True)"
      "decode_by uni Bool_Type (utext_of ''false'') = Some (FBool False)"
      by (simp_all add: utext_of_def strip_chars_def unicode_space_def lower_code_def true_words_def
          false_words_def)
    ultimately show ?thesis using FBool by (cases b) simp_all
  qed (use assms(2,3) in \<open>auto simp: py_int_str comma_items_join\<close>)
  with assms(1) show ?thesis by (simp add: decode_text_def value_ok_def)
qed

lemma validate_override_accepted:
  assumes "validate_override reg key v d scope = Inr (Inr a)" "lookup_spec key reg = Some sp"
  shows "value_ok sp (sa_value a)" "encode_text (sa_value a) = Some (sa_encoded a)" "sp_scope sp = scope"
    "freeze_value v = Some (sa_value a)"
  using assms frozen_type
  by (auto simp: validate_override_def Let_def value_ok_def split: if_splits option.splits sum.splits bool.splits)

text \<open>An accepted value comes back from its row as it was given, unless it is a list with an item that
  is empty, holds a comma, or begins or ends with a space.\<close>

theorem accepted_setting_read_back:
  assumes "validate_override reg key v d scope = Inr (Inr a)" "lookup_spec key reg = Some sp"
    and "\<And>xs. sa_value a = FList xs \<Longrightarrow> list_all plain_item xs"
  shows "decode_text uni sp (sa_encoded a) = Inr (sa_value a)"
  by (rule decode_encode) (use assms validate_override_accepted [OF assms(1,2)] in auto)

text \<open>Such a list is accepted all the same, and what is read back is another.\<close>

theorem comma_item_read_back_split:
  assumes "settings_ok reg" "lookup_spec key reg = Some sp" "sp_type sp = List_Type"
    and "sp_scope sp = scope" "scope \<noteq> Deployment_Scope" "sp_floor sp = None"
  shows "\<exists>a. validate_override reg key (NList [NStr (utext_of ''a,b'')]) d scope = Inr (Inr a) \<and>
    decode_text uni sp (sa_encoded a) = Inr (FList [utext_of ''a'', utext_of ''b''])"
proof -
  have choice: "choice_ok sp w" for w
    using declared_ok [OF assms(1,2)] assms(3) by (intro spec_ok_choices) auto
  have bounds: "\<not> out_of_bounds sp (FList xs)" for xs by (simp add: out_of_bounds_def)
  let ?a = "\<lparr>sa_key = key, sa_value = FList [utext_of ''a,b''], sa_encoded = utext_of ''a,b'', sa_type = List_Type\<rparr>"
  have "validate_override reg key (NList [NStr (utext_of ''a,b'')]) d scope = Inr (Inr ?a)"
    using assms(2-6) choice bounds by (auto simp: validate_override_def)
  moreover have "comma_items (utext_of ''a,b'') = [utext_of ''a'', utext_of ''b'']" by code_simp
  ultimately show ?thesis using assms(3) choice bounds by (intro exI [of _ ?a]) (simp add: decode_text_def)
qed

end
