(* ===== verification/Spec2Isabelle.thy ===== *)
theory Spec2Isabelle
  imports Delivery_Guarantees Job_Guarantees Repository_Guarantees Visits Keyed_Guarantees
    External_Guarantees Settings
begin

text \<open>
  A model of the core of Rheo: the work and event machinery of \<^verbatim>\<open>packages/core/src/rheo_core\<close>,
  its keyed requests, its approvals, and the external actions that run under them.

  Paths below are relative to that directory.

  \<^bold>\<open>The program.\<close> Every workspace has a database of its own. An operation that does not run inside
  its request becomes a row of \<^verbatim>\<open>operation\<close> and a row of \<^verbatim>\<open>job\<close>; a module that has something to
  tell the others publishes an event, which becomes a row of \<^verbatim>\<open>outbox\<close> and one row of
  \<^verbatim>\<open>event_delivery\<close> for each enabled subscription. Worker processes lease those rows, run the
  handlers, and end the attempts. A control database holds one \<^verbatim>\<open>work_index\<close> row for each active
  workspace, the mark that says when a worker should look at it again, and a worker reaches the
  workspace databases through a small cache of engines. Records of all modules are named by
  references, and are shown to people by a short tail of their identifier. A call with an
  idempotency key reserves an envelope for its answer. A call that needs a person's approval is held:
  an approval row with the digest of what was asked, a stored payload and an operation record. A call
  whose effect is outside the database is staged as an external action besides, and once approved it
  is carried out by a job: one transaction binds the action, asks the provider to act under a fixed
  request id or to reconcile an earlier attempt, and settles action, operation, approval and envelope.

  \<^bold>\<open>The theories.\<close>

  \<^item> \<^verbatim>\<open>Prelude\<close>: instants, identifiers, tables as association lists or maps, the relational
    primitives (select in an order, update where, delete where), and the contracts the components
    share: \<^verbatim>\<open>predicated_write\<close> (a write that applies only where its WHERE clause holds),
    \<^verbatim>\<open>lifecycle\<close> (states, final states and the edges every write follows) and \<^verbatim>\<open>lease_protocol\<close>
    (a lease taken, held by its owner, and ended once). Each is interpreted on the tables below.
  \<^item> \<^verbatim>\<open>Operation_Records\<close>: \<^verbatim>\<open>operations/records.py\<close>, every mint, mark, finish, hold and
    resolve as the predicated write it is.
  \<^item> \<^verbatim>\<open>Jobs\<close>: \<^verbatim>\<open>work/jobs.py\<close>, from enqueueing to leasing, extending, finishing, requeueing,
    deferring and cancelling. \<^verbatim>\<open>Backoff\<close>: \<^verbatim>\<open>work/backoff.py\<close>. \<^verbatim>\<open>Work_Operations\<close>:
    \<^verbatim>\<open>work/operations.py\<close>, what an operator sees and what an operator may do.
  \<^item> \<^verbatim>\<open>Deliveries\<close>: \<^verbatim>\<open>events/deliveries.py\<close>. \<^verbatim>\<open>Outbox\<close>: \<^verbatim>\<open>events/publish.py\<close>,
    \<^verbatim>\<open>consumers.py\<close> and \<^verbatim>\<open>retention.py\<close>.
  \<^item> \<^verbatim>\<open>Event_System\<close>: the event store as a transition system of publishers, workers, operators and
    the retention sweep. \<^verbatim>\<open>Event_Guarantees\<close>: order of delivery, parking, replay, purge.
  \<^item> \<^verbatim>\<open>Job_Worker\<close> and \<^verbatim>\<open>Job_System\<close>: the job half of \<^verbatim>\<open>work/loop.py\<close>, one transaction of the
    code at a time, and the system of any number of workers over one job table, with the effects
    the handlers committed. \<^verbatim>\<open>Job_Guarantees\<close>: its properties.
  \<^item> \<^verbatim>\<open>Delivery_Worker\<close> and \<^verbatim>\<open>Delivery_System\<close>: the delivery half of \<^verbatim>\<open>work/loop.py\<close> over the
    event store. \<^verbatim>\<open>Delivery_Guarantees\<close>: its properties, and that every step of it is a sequence
    of event store transitions, so that the invariants of \<^verbatim>\<open>Event_System\<close> hold of the workers too.
  \<^item> \<^verbatim>\<open>Repository_Guarantees\<close>: the properties of the repositories taken alone.
  \<^item> \<^verbatim>\<open>Due_Index\<close>: \<^verbatim>\<open>storage/work_index.py\<close>, the marks and the compare-and-set that ends a visit.
  \<^item> \<^verbatim>\<open>Engine_Pool\<close>: \<^verbatim>\<open>storage/pools.py\<close>, the bounded cache of engines with its leases.
  \<^item> \<^verbatim>\<open>Visits\<close>: the part of \<^verbatim>\<open>work/loop.py\<close> above both halves: one visit of a workspace, the order
    of a pass, the pass, and the loop with its waiting time.
  \<^item> \<^verbatim>\<open>Record_Refs\<close>: \<^verbatim>\<open>contracts/refs.py\<close> and \<^verbatim>\<open>refs/short.py\<close>.
  \<^item> \<^verbatim>\<open>Canonical_Json\<close>: the canonical JSON of \<^verbatim>\<open>approvals/binding.py\<close> and
    \<^verbatim>\<open>operations/idempotency.py\<close>, the bytes a digest is taken of.
  \<^item> \<^verbatim>\<open>Keyed_Requests\<close>: \<^verbatim>\<open>operations/idempotency.py\<close>, with its properties in
    \<^verbatim>\<open>Keyed_Guarantees\<close>. \<^verbatim>\<open>Py_Text\<close>: the Python string functions it uses.
  \<^item> \<^verbatim>\<open>Settings\<close>: \<^verbatim>\<open>settings/schema.py\<close>, \<^verbatim>\<open>deployment.py\<close>, \<^verbatim>\<open>resolver.py\<close> and
    \<^verbatim>\<open>write_path.py\<close>, the declared keys, the layers a value comes from, and the validated write.
  \<^item> \<^verbatim>\<open>Approval_Records\<close>: \<^verbatim>\<open>approvals/records.py\<close> and \<^verbatim>\<open>binding.py\<close>.
    \<^verbatim>\<open>External_Actions\<close>: \<^verbatim>\<open>operations/external_actions.py\<close>. \<^verbatim>\<open>Workspace\<close>: the database of one
    workspace with all of these tables, and the contexts rebuilt for stored callers.
  \<^item> \<^verbatim>\<open>Execution\<close>: what a call is checked against before its handler runs
    (\<^verbatim>\<open>approvals/guards.py\<close>, \<^verbatim>\<open>modules/execution.py\<close>, \<^verbatim>\<open>refs/resolver.py\<close>), and the
    parameters of the model that stand for modules and providers.
  \<^item> \<^verbatim>\<open>Settlement\<close>: how an external action ends (\<^verbatim>\<open>operations/continuation.py\<close>).
    \<^verbatim>\<open>Held_Calls\<close>: holding a call and running it once approved (\<^verbatim>\<open>operations/dispatch.py\<close>).
    \<^verbatim>\<open>Decisions\<close>: \<^verbatim>\<open>approvals/operations.py\<close>. \<^verbatim>\<open>Staging\<close>: staging an external action and
    calling an operation from inside a transaction (\<^verbatim>\<open>operations/transaction.py\<close>).
    \<^verbatim>\<open>Continuation\<close>: the transaction of the job, and the operator's resolution.
  \<^item> \<^verbatim>\<open>External_Rows\<close>: the four rows of an external action change phase together.
    \<^verbatim>\<open>External_Outcome\<close>: what one continuation does to them and to the outside.
    \<^verbatim>\<open>External_Transactions\<close>: the other transactions that touch them, the erasure cascade of
    \<^verbatim>\<open>deletion/dependents.py\<close> included. \<^verbatim>\<open>External_System\<close>: all of these, any number of workers
    on the jobs of external actions, crashes and the world outside as one step relation with one
    invariant. \<^verbatim>\<open>External_Guarantees\<close>: what follows from it, what the purge of the
    reservations spares, and a complete sample run.

  \<^bold>\<open>How state and operations correspond.\<close> A table is a list of rows in insertion order, a row a
  record with the column names of the schema, a nullable column an option. One function of a
  repository is one definition that takes the table (and the clock it reads from the database) and
  returns the new table with the value the Python function returns; an exception is a value of a sum
  type. The loops are written per transaction: what the code runs in one transaction is one
  function, and what lies between two transactions of a process is a constructor of its place
  (\<^verbatim>\<open>worker\<close> in \<^verbatim>\<open>Job_System\<close>, its counterpart in \<^verbatim>\<open>Delivery_System\<close>). A crash is a step that
  loses the place and keeps the database. The handlers are parameters: they may write any effect of
  their own and raise whatever the code distinguishes. A provider is a parameter too: a function of
  the state of the world it acts on.

  \<^bold>\<open>What the lemmas show.\<close> Of the repositories: each write applies only in the states its WHERE
  clause names, outcomes are final, rows are well formed, and a lease excludes everyone else. Of the
  transition systems: invariants by rule induction over reachable states (effects exactly once, order
  within a subject, the attempt budget, a cancelled job without effects, an operation record that
  ends with its job, a purge that loses nothing unsettled) and progress (from every place of a visit
  some transaction can run, and each brings the visit nearer its end). Of the index, the pool and the
  pass: no active workspace is forgotten longer than a reconcile interval, a busy engine is never
  disposed, every visit of a pass is recorded unless a mark overtook it, and a failed pass does not end
  the loop. Of the keyed requests: a key stands for one request, and the purge takes no reservation that
  is still needed. Of the
  external actions: at most one effect per request id, only of an approved call, and every settlement
  says what happened, although a crash may fall between the effect and the commit that records it. Of the
  references: what is printed or shown reads back to the same record and to no other. Of the settings:
  no override row makes a value looser than the deployment's floor, and an accepted write is read back.

  \<^bold>\<open>Bounds.\<close> Nothing runs on fuel. The loops of the code that end are structural recursion or
  recursive functions with a measure; the worker loop, which need not end, is modelled over any finite
  sequence of iterations, and the steps of concurrent processes as relations.

  \<^bold>\<open>What is relied on.\<close> A transaction takes effect at one instant, its commit, and two transactions
  that would touch one row are ordered (\<^verbatim>\<open>SELECT FOR UPDATE SKIP LOCKED\<close> and row locks of
  PostgreSQL). Two publishes about one subject commit in the order of their positions. Identifiers
  drawn with \<^verbatim>\<open>uuid7\<close> and the owner names of workers never repeat. A due mark names an instant not
  after the clock that read it. During a pass its pool has no other user.
  The tables are written by this code only: a row put in by hand (a ledger row beside a pending
  delivery, which a docstring of \<^verbatim>\<open>events/deliveries.py\<close> and the documentation reckon with) is outside the
  reachable states. The store that resolves
  short identifiers answers with every record of the type that has the tail. A provider acts at most
  once under one request id, and what it proves of a request id by reconciling is so. Each of these is a
  named hypothesis or a rule of the step relation where it is used.

  \<^bold>\<open>Not modelled.\<close> HTTP, the web client, the command line, rendering and migrations are input,
  output and glue around what is modelled. Encryption, archives and the connector protocols rest on
  third-party libraries. The outcome ladder of a dispatch that is not held, schedules, exports and
  the module packages are pure enough to model and are left for later.
  PostgreSQL refuses a text with a NUL character; that error of a keyed request is left out.
  Log lines and metrics are dropped everywhere.
\<close>

end
